(* ===== verification/Pocker_Prelude.thy ===== *)
theory Pocker_Prelude
  imports Main "HOL-Library.Word"
begin

text \<open>
  The shared vocabulary of the development: the machine integers of the x86_64 target the
  tracer is compiled for, the result type of fallible Rust code (\<open>Inl\<close> is \<open>Err\<close>, \<open>Inr\<close> is
  \<open>Ok\<close>), stateful fallible code (a function from a state to a result and the state reached,
  also when it fails), and the native-endian byte layout of a machine word.  The generic
  lemmas on words, lists and byte layouts that several components use are collected here.
\<close>

unbundle bit_operations_syntax

named_theorems res_simps \<open>unfolding of the result and state-passing combinators\<close>

type_synonym u8 = "8 word"
type_synonym u16 = "16 word"
type_synonym u32 = "32 word"
type_synonym usize = "64 word"

section \<open>Results and stateful results\<close>

definition res_bind :: "'e + 'a \<Rightarrow> ('a \<Rightarrow> 'e + 'b) \<Rightarrow> 'e + 'b" where
  "res_bind r f = (case r of Inl e \<Rightarrow> Inl e | Inr x \<Rightarrow> f x)"

definition map_err :: "('e \<Rightarrow> 'f) \<Rightarrow> 'e + 'a \<Rightarrow> 'f + 'a" where
  "map_err g r = (case r of Inl e \<Rightarrow> Inl (g e) | Inr x \<Rightarrow> Inr x)"

definition ok_or :: "'e \<Rightarrow> 'a option \<Rightarrow> 'e + 'a" where
  "ok_or e x = (case x of None \<Rightarrow> Inl e | Some y \<Rightarrow> Inr y)"

type_synonym ('s, 'e, 'a) act = "'s \<Rightarrow> ('e + 'a) \<times> 's"

definition act_ret :: "'a \<Rightarrow> ('s, 'e, 'a) act" where
  "act_ret x = (\<lambda>s. (Inr x, s))"

definition act_err :: "'e \<Rightarrow> ('s, 'e, 'a) act" where
  "act_err e = (\<lambda>s. (Inl e, s))"

definition act_bind :: "('s, 'e, 'a) act \<Rightarrow> ('a \<Rightarrow> ('s, 'e, 'b) act) \<Rightarrow> ('s, 'e, 'b) act" where
  "act_bind m f = (\<lambda>s. case m s of (Inl e, s') \<Rightarrow> (Inl e, s') | (Inr x, s') \<Rightarrow> f x s')"

definition act_lift :: "'e + 'a \<Rightarrow> ('s, 'e, 'a) act" where
  "act_lift r = (\<lambda>s. (r, s))"

definition act_get :: "('s \<Rightarrow> 'a) \<Rightarrow> ('s, 'e, 'a) act" where
  "act_get f = (\<lambda>s. (Inr (f s), s))"

definition act_upd :: "('s \<Rightarrow> 's) \<Rightarrow> ('s, 'e, unit) act" where
  "act_upd f = (\<lambda>s. (Inr (), f s))"

definition act_map_err :: "('e \<Rightarrow> 'f) \<Rightarrow> ('s, 'e, 'a) act \<Rightarrow> ('s, 'f, 'a) act" where
  "act_map_err g m = (\<lambda>s. case m s of (r, s') \<Rightarrow> (map_err g r, s'))"

lemma res_bind_simps [simp]:
  "res_bind (Inl e) f = Inl e"
  "res_bind (Inr x) f = f x"
  by (simp_all add: res_bind_def)

lemma res_bind_Inr_iff:
  "res_bind r f = Inr y \<longleftrightarrow> (\<exists>x. r = Inr x \<and> f x = Inr y)"
  by (cases r) auto

lemma res_bind_Inl_iff:
  "res_bind r f = Inl e \<longleftrightarrow> r = Inl e \<or> (\<exists>x. r = Inr x \<and> f x = Inl e)"
  by (cases r) auto

lemma map_err_simps [simp]:
  "map_err g (Inl e) = Inl (g e)"
  "map_err g (Inr x) = Inr x"
  by (simp_all add: map_err_def)

lemma map_err_Inr_iff [simp]: "map_err g r = Inr x \<longleftrightarrow> r = Inr x"
  by (cases r) auto

lemma map_err_Inl_iff: "map_err g r = Inl e \<longleftrightarrow> (\<exists>e'. r = Inl e' \<and> e = g e')"
  by (cases r) auto

lemma ok_or_simps [simp]:
  "ok_or e None = Inl e"
  "ok_or e (Some x) = Inr x"
  by (simp_all add: ok_or_def)

lemma ok_or_Inr_iff: "ok_or e x = Inr y \<longleftrightarrow> x = Some y"
  by (cases x) auto

lemma act_bind_Inr_iff:
  "act_bind m f s = (Inr y, s'') \<longleftrightarrow> (\<exists>x s'. m s = (Inr x, s') \<and> f x s' = (Inr y, s''))"
  by (auto simp: act_bind_def split: prod.splits sum.splits)

lemmas act_run [res_simps] =
  act_ret_def act_err_def act_lift_def act_get_def act_upd_def

lemma act_bind_run [res_simps]:
  "act_bind m f s = (case m s of (Inl e, s') \<Rightarrow> (Inl e, s') | (Inr x, s') \<Rightarrow> f x s')"
  by (simp add: act_bind_def)

lemma act_map_err_run [res_simps]:
  "act_map_err g m s = (case m s of (r, s') \<Rightarrow> (map_err g r, s'))"
  by (simp add: act_map_err_def)

section \<open>Byte layout of a machine word (\<open>to_ne_bytes\<close>, \<open>from_ne_bytes\<close>; little endian)\<close>

fun word_bytes :: "nat \<Rightarrow> usize \<Rightarrow> u8 list" where
  "word_bytes 0 w = []"
| "word_bytes (Suc n) w = ucast w # word_bytes n (drop_bit 8 w)"

fun bytes_word :: "u8 list \<Rightarrow> usize" where
  "bytes_word [] = 0"
| "bytes_word (b # bs) = ucast b OR push_bit 8 (bytes_word bs)"

definition to_ne_bytes :: "usize \<Rightarrow> u8 list" where
  "to_ne_bytes w = word_bytes 8 w"

definition from_ne_bytes :: "u8 list \<Rightarrow> usize" where
  "from_ne_bytes bs = bytes_word bs"

lemma length_word_bytes [simp]: "length (word_bytes n w) = n"
  by (induction n arbitrary: w) auto

lemma length_to_ne_bytes [simp]: "length (to_ne_bytes w) = 8"
  by (simp add: to_ne_bytes_def)

lemma bit_bytes_word:
  "bit (bytes_word bs) i \<longleftrightarrow> i < 64 \<and> i div 8 < length bs \<and> bit (bs ! (i div 8)) (i mod 8)"
proof (induction bs arbitrary: i)
  case Nil
  then show ?case by simp
next
  case (Cons b bs)
  show ?case
  proof (cases "i < 8")
    case True
    then show ?thesis by (auto simp: bit_simps bit_push_bit_iff)
  next
    case False
    then obtain j where j: "i = j + 8" by (metis add.commute le_Suc_ex not_less)
    have "(j + 8) mod 8 = j mod 8" by simp
    moreover have "(j + 8) div 8 = Suc (j div 8)" by simp
    ultimately show ?thesis
      using False Cons.IH [of j]
      by (auto simp: j bit_simps bit_push_bit_iff dest: bit_imp_le_length)
  qed
qed

lemma nth_word_bytes: "i < n \<Longrightarrow> word_bytes n w ! i = ucast (drop_bit (8 * i) w)"
proof (induction n arbitrary: w i)
  case 0
  then show ?case by simp
next
  case (Suc n)
  then show ?case by (cases i) (auto simp: drop_bit_drop_bit add.commute)
qed

lemma bit_nth_to_ne_bytes:
  "i < 8 \<Longrightarrow> bit (to_ne_bytes w ! i) j \<longleftrightarrow> j < 8 \<and> bit w (8 * i + j)"
  by (auto simp: to_ne_bytes_def nth_word_bytes bit_simps bit_drop_bit_eq add.commute
      dest: bit_imp_le_length)

lemma from_to_ne_bytes [simp]: "from_ne_bytes (to_ne_bytes w) = w"
proof (rule bit_word_eqI)
  fix i assume "i < LENGTH(64)"
  then have "i < 64" by simp
  then have "i div 8 < 8" by linarith
  with \<open>i < 64\<close> show "bit (from_ne_bytes (to_ne_bytes w)) i = bit w i"
    by (simp add: from_ne_bytes_def bit_bytes_word bit_nth_to_ne_bytes)
qed

lemma to_from_ne_bytes: "length bs = 8 \<Longrightarrow> to_ne_bytes (from_ne_bytes bs) = bs"
proof (rule nth_equalityI)
  assume l: "length bs = 8"
  then show "length (to_ne_bytes (from_ne_bytes bs)) = length bs" by simp
  fix i assume "i < length (to_ne_bytes (from_ne_bytes bs))"
  then have i: "i < 8" by simp
  show "to_ne_bytes (from_ne_bytes bs) ! i = bs ! i"
  proof (rule bit_word_eqI)
    fix j assume "j < LENGTH(8)"
    then have j: "j < 8" by simp
    with i l show "bit (to_ne_bytes (from_ne_bytes bs) ! i) j = bit (bs ! i) j"
      by (simp add: bit_nth_to_ne_bytes from_ne_bytes_def bit_bytes_word)
  qed
qed

lemma from_ne_bytes_inject:
  "length xs = 8 \<Longrightarrow> length ys = 8 \<Longrightarrow> from_ne_bytes xs = from_ne_bytes ys \<longleftrightarrow> xs = ys"
  by (metis to_from_ne_bytes)

lemma to_ne_bytes_zero [simp]: "to_ne_bytes 0 = replicate 8 0"
  by (simp add: to_ne_bytes_def numeral_eq_Suc)

lemma replicate_8: "replicate 8 x = [x, x, x, x, x, x, x, x]"
  by (simp add: numeral_eq_Suc)

section \<open>Word arithmetic shared by the components\<close>

lemma unat_add_no_overflow:
  "unat (a :: usize) + unat b < 2 ^ 64 \<Longrightarrow> unat (a + b) = unat a + unat b"
  by (simp add: unat_word_ariths)

lemma unat_mul_no_overflow:
  "unat (a :: usize) * unat b < 2 ^ 64 \<Longrightarrow> unat (a * b) = unat a * unat b"
  by (simp add: unat_word_ariths)

lemma unat_lt_usize [simp]: "unat (a :: usize) < 18446744073709551616"
  using unsigned_less [of a, where 'a = nat] by simp

lemma unat_lt_2p64: "unat (a :: usize) < 2 ^ 64"
  by simp

lemma unat_of_nat_usize: "n < 2 ^ 64 \<Longrightarrow> unat (of_nat n :: usize) = n"
  by (simp add: unat_of_nat)

end
