(* ===== verification/Ptrace_Base.thy ===== *)
theory Ptrace_Base
  imports Pocker_Prelude
begin

text \<open>
  The base of the \<open>ptrace\<close> crate (\<open>src/ptrace/src/common.rs\<close> and the status predicates of
  \<open>src/ptrace/src/lib.rs\<close>), compiled for x86_64: the error type, the register file, the four
  ptrace requests the crate issues, checked arithmetic, alignment, and the conversion of a
  byte string to machine words.  The kernel is not part of the repository: its requests are
  the fields of a record \<open>kernel\<close> over an arbitrary world type, an argument of every
  definition that issues one.  What ptrace(2) documents of \<open>PTRACE_PEEKDATA\<close> and
  \<open>PTRACE_POKEDATA\<close> is the predicate \<open>word_memory\<close>, and of the register requests the predicate
  \<open>regs_stored\<close>; both are hypotheses of the theorems that need them.
\<close>

section \<open>Constants and errors\<close>

type_synonym nix_error = int
type_synonym pid = int

definition STACK_SAFE_ZONE_SIZE :: usize where "STACK_SAFE_ZONE_SIZE = 16 * 1024"
definition MAX_NUM_TRACEES :: usize where "MAX_NUM_TRACEES = 8192"
definition MAX_STRUCT_SIZE :: usize where "MAX_STRUCT_SIZE = 2048"
definition SHARED_MMAP_SIZE :: usize where
  "SHARED_MMAP_SIZE = MAX_NUM_TRACEES * STACK_SAFE_ZONE_SIZE"
definition USIZE_SIZE :: usize where "USIZE_SIZE = 8"

lemmas ptrace_consts = STACK_SAFE_ZONE_SIZE_def MAX_NUM_TRACEES_def MAX_STRUCT_SIZE_def
  SHARED_MMAP_SIZE_def USIZE_SIZE_def

datatype ptrace_error =
    StartInitCmd nix_error
  | InitCmdFailed string
  | ParsePid usize
  | ParseUsize int
  | ParseUsizeFromString string
  | GetEventMsg nix_error
  | GetRegs nix_error
  | SetRegs nix_error
  | ReadErr nix_error
  | ReadStdIoError string
  | ReadMmapNotFound
  | ReadItemNotAligned usize
  | ReadItemTooBig usize usize
  | ReadInvalidItemSize1 usize usize
  | BufferOverflow usize usize usize
  | BufferUnderflow usize usize
  | HeaderTooBig usize usize
  | Pointer
  | WriteErr nix_error
  | WriteOffsetNotAligned usize
  | WaitpidErr nix_error
  | IntOverflow usize string usize
  | IntIsZero string
  | IntTooBigEqual usize usize
  | IntoInt string
  | CreateMemoryFile nix_error
  | LockGlobalMmap
  | MmapUninitialized
  | Unmap nix_error
  | MaxTracee
  | RustPanic string

text \<open>\<open>RustPanic\<close> is not a variant of the source: it stands for a panic (an index out of range)
  where the code would unwind instead of returning.\<close>

section \<open>The register file (x86_64)\<close>

record regs =
  unknown_x1 :: usize
  unknown_x2 :: usize
  unknown_x3 :: usize
  unknown_x4 :: usize
  unknown_x5 :: usize
  unknown_x6 :: usize
  unknown_x7 :: usize
  arg3 :: usize
  arg5 :: usize
  arg4 :: usize
  rax :: usize
  unknown_x12 :: usize
  arg2 :: usize
  arg1 :: usize
  arg0 :: usize
  orig_rax :: usize
  pc :: usize
  unknown_x18 :: usize
  unknown_x19 :: usize
  sp :: usize
  unknown_x21 :: usize
  unknown_x22 :: usize
  unknown_x23 :: usize
  unknown_x24 :: usize
  unknown_x25 :: usize
  unknown_x26 :: usize
  unknown_x27 :: usize

definition syscall_retval :: "regs \<Rightarrow> usize" where
  "syscall_retval r = rax r"

definition set_syscall_retval :: "regs \<Rightarrow> usize \<Rightarrow> regs" where
  "set_syscall_retval r val = r\<lparr>rax := val\<rparr>"

definition syscall_num :: "regs \<Rightarrow> usize" where
  "syscall_num r = orig_rax r"

definition next_syscall :: "regs \<Rightarrow> usize" where
  "next_syscall r = rax r"

definition set_next_syscall :: "regs \<Rightarrow> usize \<Rightarrow> regs" where
  "set_next_syscall r val = r\<lparr>orig_rax := val, rax := val\<rparr>"

lemmas regs_ops = syscall_retval_def set_syscall_retval_def syscall_num_def next_syscall_def
  set_next_syscall_def

section \<open>Ptrace requests\<close>

text \<open>\<open>k_peek\<close>, \<open>k_poke\<close>, \<open>k_getregs\<close> and \<open>k_setregs\<close> are the ptrace requests \<open>PEEKDATA\<close>,
  \<open>POKEDATA\<close>, \<open>GETREGSET\<close> and \<open>SETREGSET\<close>; \<open>k_open_mem\<close> opens
  \<open>/proc/<pid>/mem\<close> and \<open>k_pread\<close> is a seek and a read on it.\<close>

record 'w kernel =
  k_peek :: "'w \<Rightarrow> usize \<Rightarrow> nix_error + usize"
  k_poke :: "'w \<Rightarrow> usize \<Rightarrow> usize \<Rightarrow> nix_error + 'w"
  k_getregs :: "'w \<Rightarrow> nix_error + regs"
  k_setregs :: "'w \<Rightarrow> regs \<Rightarrow> nix_error + 'w"
  k_open_mem :: "'w \<Rightarrow> nix_error + unit"
  k_pread :: "'w \<Rightarrow> usize \<Rightarrow> nat \<Rightarrow> nix_error + u8 list"

definition getregs :: "'w kernel \<Rightarrow> ('w, ptrace_error, regs) act" where
  "getregs K = (\<lambda>w. (map_err GetRegs (k_getregs K w), w))"

definition setregs :: "'w kernel \<Rightarrow> regs \<Rightarrow> ('w, ptrace_error, unit) act" where
  "setregs K r = (\<lambda>w. case k_setregs K w r of
     Inl e \<Rightarrow> (Inl (SetRegs e), w) | Inr w' \<Rightarrow> (Inr (), w'))"

definition ptrace_read :: "'w kernel \<Rightarrow> usize \<Rightarrow> ('w, ptrace_error, usize) act" where
  "ptrace_read K addr = (\<lambda>w. (map_err ReadErr (k_peek K w addr), w))"

definition ptrace_write :: "'w kernel \<Rightarrow> usize \<Rightarrow> usize \<Rightarrow> ('w, ptrace_error, unit) act" where
  "ptrace_write K addr v = (\<lambda>w. case k_poke K w addr v of
     Inl e \<Rightarrow> (Inl (WriteErr e), w) | Inr w' \<Rightarrow> (Inr (), w'))"

definition checked_write ::
  "'w kernel \<Rightarrow> usize \<Rightarrow> usize \<Rightarrow> usize \<Rightarrow> ('w, ptrace_error, unit) act" where
  "checked_write K addr overflow_addr v =
     (if addr \<ge> overflow_addr then act_err (BufferOverflow 0 addr overflow_addr)
      else ptrace_write K addr v)"

definition set_syscall_num :: "'w kernel \<Rightarrow> usize \<Rightarrow> ('w, ptrace_error, unit) act" where
  "set_syscall_num K val =
     act_bind (getregs K) (\<lambda>r.
     act_bind (setregs K (set_next_syscall r val)) (\<lambda>_.
     act_bind (getregs K) (\<lambda>regs2. act_ret ())))"

text \<open>What ptrace(2) and proc(5) say of the memory requests: a peek returns the eight bytes at
  the address, a poke replaces exactly these bytes, and a read of \<open>/proc/<pid>/mem\<close> at an offset
  returns bytes of that address, at most as many as were asked for.  \<open>rd w a\<close> is the byte of
  the tracee at \<open>a\<close>.\<close>

definition word_memory :: "'w kernel \<Rightarrow> ('w \<Rightarrow> usize \<Rightarrow> u8) \<Rightarrow> bool" where
  "word_memory K rd \<longleftrightarrow>
     (\<forall>w a v. k_peek K w a = Inr v \<longrightarrow>
        (\<forall>i < 8. to_ne_bytes v ! i = rd w (a + of_nat i))) \<and>
     (\<forall>w a v w'. k_poke K w a v = Inr w' \<longrightarrow>
        (\<forall>b. rd w' b = (if unat (b - a) < 8 then to_ne_bytes v ! unat (b - a) else rd w b))) \<and>
     (\<forall>w a n bs. k_pread K w a n = Inr bs \<longrightarrow>
        length bs \<le> n \<and> (\<forall>i < length bs. bs ! i = rd w (a + of_nat i)))"

text \<open>Reads of \<open>/proc/<pid>/mem\<close> that do not cross into an unmapped page are complete.\<close>

definition full_reads :: "'w kernel \<Rightarrow> bool" where
  "full_reads K \<longleftrightarrow> (\<forall>w a n bs. k_pread K w a n = Inr bs \<longrightarrow> length bs = n)"

text \<open>What ptrace(2) says of the register requests: a successful write is read back.\<close>

definition regs_stored :: "'w kernel \<Rightarrow> bool" where
  "regs_stored K \<longleftrightarrow> (\<forall>w r w'. k_setregs K w r = Inr w' \<longrightarrow> k_getregs K w' = Inr r)"

lemma word_memory_peek:
  "word_memory K rd \<Longrightarrow> k_peek K w a = Inr v \<Longrightarrow> i < 8 \<Longrightarrow> to_ne_bytes v ! i = rd w (a + of_nat i)"
  by (auto simp: word_memory_def)

lemma word_memory_poke:
  "word_memory K rd \<Longrightarrow> k_poke K w a v = Inr w' \<Longrightarrow>
   rd w' b = (if unat (b - a) < 8 then to_ne_bytes v ! unat (b - a) else rd w b)"
  by (auto simp: word_memory_def)

lemma word_memory_pread:
  "word_memory K rd \<Longrightarrow> k_pread K w a n = Inr bs \<Longrightarrow>
   length bs \<le> n \<and> (\<forall>i < length bs. bs ! i = rd w (a + of_nat i))"
  by (auto simp: word_memory_def)

lemma ptrace_write_cases:
  assumes "ptrace_write K a v w = (r, w')"
  obtains e where "r = Inl e" "w' = w" | "r = Inr ()" "k_poke K w a v = Inr w'"
  using assms by (auto simp: ptrace_write_def split: sum.splits)

lemma ptrace_write_frame:
  assumes "word_memory K rd" "ptrace_write K a v w = (r, w')" "\<not> unat (b - a) < 8"
  shows "rd w' b = rd w b"
  using assms by (auto elim!: ptrace_write_cases simp: word_memory_poke)

lemma set_syscall_num_effect:
  assumes "regs_stored K" "set_syscall_num K val w = (Inr (), w')" "k_getregs K w = Inr r"
  shows "k_getregs K w' = Inr (set_next_syscall r val)"
  using assms
  by (auto simp: set_syscall_num_def res_simps getregs_def setregs_def regs_stored_def
      split: sum.splits)

text \<open>A tracee with flat memory, the concrete kernel the witnesses run on.\<close>

definition flat_kernel :: "(regs \<times> (usize \<Rightarrow> u8)) kernel" where
  "flat_kernel = \<lparr>
     k_peek = (\<lambda>w a. Inr (from_ne_bytes (map (\<lambda>i. snd w (a + of_nat i)) [0..<8]))),
     k_poke = (\<lambda>w a v. Inr (fst w, \<lambda>b.
       if unat (b - a) < 8 then to_ne_bytes v ! unat (b - a) else snd w b)),
     k_getregs = (\<lambda>w. Inr (fst w)),
     k_setregs = (\<lambda>w r. Inr (r, snd w)),
     k_open_mem = (\<lambda>w. Inr ()),
     k_pread = (\<lambda>w a n. Inr (map (\<lambda>i. snd w (a + of_nat i)) [0..<n])) \<rparr>"

lemma flat_word_memory: "word_memory flat_kernel snd"
proof -
  have "to_ne_bytes (from_ne_bytes (map (\<lambda>i. m (a + of_nat i)) [0..<8])) ! i = m (a + of_nat i)"
    if "i < 8" for m :: "usize \<Rightarrow> u8" and a i
    using that by (subst to_from_ne_bytes) simp_all
  then show ?thesis by (simp add: word_memory_def flat_kernel_def)
qed

lemma flat_full_reads: "full_reads flat_kernel"
  by (simp add: full_reads_def flat_kernel_def)

lemma flat_regs_stored: "regs_stored flat_kernel"
  by (auto simp: regs_stored_def flat_kernel_def)

section \<open>Checked arithmetic\<close>

definition checked_add :: "usize \<Rightarrow> usize \<Rightarrow> ptrace_error + usize" where
  "checked_add a b =
     ok_or (IntOverflow a ''+'' b) (if unat a + unat b < 2 ^ 64 then Some (a + b) else None)"

definition checked_sub :: "usize \<Rightarrow> usize \<Rightarrow> ptrace_error + usize" where
  "checked_sub a b = ok_or (IntOverflow a ''-'' b) (if b \<le> a then Some (a - b) else None)"

definition checked_mul :: "usize \<Rightarrow> usize \<Rightarrow> ptrace_error + usize" where
  "checked_mul a b =
     ok_or (IntOverflow a ''*'' b) (if unat a * unat b < 2 ^ 64 then Some (a * b) else None)"

definition checked_div :: "usize \<Rightarrow> usize \<Rightarrow> ptrace_error + usize" where
  "checked_div a b = ok_or (IntOverflow a ''*'' b) (if b \<noteq> 0 then Some (a div b) else None)"

definition aligned :: "usize \<Rightarrow> ptrace_error + usize" where
  "aligned val =
     res_bind (res_bind (checked_add val USIZE_SIZE) (\<lambda>x. checked_sub x 1)) (\<lambda>y.
     res_bind (checked_div y USIZE_SIZE) (\<lambda>num_usizes.
     checked_mul num_usizes USIZE_SIZE))"

lemma checked_add_Inr:
  "checked_add a b = Inr c \<longleftrightarrow> unat a + unat b < 2 ^ 64 \<and> c = a + b"
  by (auto simp: checked_add_def)

lemma checked_add_unat:
  "checked_add a b = Inr c \<Longrightarrow> unat c = unat a + unat b"
  by (auto simp: checked_add_Inr unat_add_no_overflow)

lemma checked_sub_Inr: "checked_sub a b = Inr c \<longleftrightarrow> b \<le> a \<and> c = a - b"
  by (auto simp: checked_sub_def)

lemma checked_sub_unat: "checked_sub a b = Inr c \<Longrightarrow> unat c = unat a - unat b"
  by (auto simp: checked_sub_Inr unat_sub)

lemma checked_mul_Inr:
  "checked_mul a b = Inr c \<longleftrightarrow> unat a * unat b < 2 ^ 64 \<and> c = a * b"
  by (auto simp: checked_mul_def)

lemma checked_mul_unat: "checked_mul a b = Inr c \<Longrightarrow> unat c = unat a * unat b"
  by (auto simp: checked_mul_Inr unat_mul_no_overflow)

lemma checked_div_Inr: "checked_div a b = Inr c \<longleftrightarrow> b \<noteq> 0 \<and> c = a div b"
  by (auto simp: checked_div_def)

lemmas checked_Inr = checked_add_Inr checked_sub_Inr checked_mul_Inr checked_div_Inr

lemma unat_USIZE_SIZE [simp]: "unat USIZE_SIZE = 8"
  by (simp add: USIZE_SIZE_def)

lemma aligned_Inr:
  "aligned v = Inr m \<longleftrightarrow> unat v + 8 < 2 ^ 64 \<and> m = of_nat ((unat v + 7) div 8 * 8)"
proof (cases "unat v + 8 < 2 ^ 64")
  case False
  then show ?thesis by (auto simp: aligned_def checked_add_def)
next
  case True
  let ?s = "v + USIZE_SIZE"
  have s: "unat ?s = unat v + 8"
    using True by (subst unat_add_no_overflow) simp_all
  have le: "1 \<le> ?s" using s by (simp add: word_le_nat_alt)
  have s1: "unat (?s - 1) = unat v + 7" using s le by (simp add: unat_sub)
  have d: "unat ((?s - 1) div USIZE_SIZE) = (unat v + 7) div 8"
    by (simp add: unat_div s1)
  have lt: "(unat v + 7) div 8 * 8 < 2 ^ 64" using True by linarith
  have "aligned v = Inr ((?s - 1) div USIZE_SIZE * USIZE_SIZE)"
    using True le lt d
    by (simp add: aligned_def checked_add_def checked_sub_def checked_div_def checked_mul_def
        USIZE_SIZE_def)
  moreover have "(?s - 1) div USIZE_SIZE * USIZE_SIZE = of_nat ((unat v + 7) div 8 * 8)"
    using lt d by (intro word_unat_eq_iff [THEN iffD2])
      (simp add: unat_mul_no_overflow unat_of_nat_usize)
  ultimately show ?thesis using True by auto
qed

text \<open>Rounding up to machine words.  Whenever \<open>aligned\<close> returns, its result is the
  least multiple of the word size that is not below the argument, and it fails only
  within eight bytes of the top of the address space.\<close>

theorem aligned_least_multiple:
  "(case aligned v of
      Inr m \<Rightarrow> 8 dvd unat m \<and> unat v \<le> unat m \<and> unat m < unat v + 8
    | Inl e \<Rightarrow> 2 ^ 64 - 8 \<le> unat v)"
proof (cases "aligned v")
  case (Inr m)
  then have m: "unat v + 8 < 2 ^ 64" "m = of_nat ((unat v + 7) div 8 * 8)"
    by (simp_all add: aligned_Inr)
  then have "unat m = (unat v + 7) div 8 * 8"
    by (subst m(2), subst unat_of_nat_usize) simp_all
  then have "8 dvd unat m" "unat v \<le> unat m" "unat m < unat v + 8" by (simp, linarith+)
  with Inr show ?thesis by simp
next
  case (Inl e)
  then have "\<not> unat v + 8 < 2 ^ 64" using aligned_Inr [of v] by auto
  then show ?thesis by (simp add: Inl)
qed

section \<open>From bytes to machine words\<close>

function chunks_exact :: "nat \<Rightarrow> 'a list \<Rightarrow> 'a list list" where
  "chunks_exact n xs =
     (if n = 0 \<or> length xs < n then [] else take n xs # chunks_exact n (drop n xs))"
  by pat_completeness auto
termination by (relation "measure (\<lambda>(n, xs). length xs)") auto

declare chunks_exact.simps [simp del]

lemma chunks_exact_short [simp]: "length xs < n \<Longrightarrow> chunks_exact n xs = []"
  by (subst chunks_exact.simps) simp

lemma chunks_exact_append [simp]:
  "0 < n \<Longrightarrow> length xs = n \<Longrightarrow> chunks_exact n (xs @ ys) = xs # chunks_exact n ys"
  by (subst chunks_exact.simps) simp

lemma chunks_exact_props:
  assumes "0 < n"
  shows "length (chunks_exact n xs) = length xs div n"
    and "concat (chunks_exact n xs) = take (length xs div n * n) xs"
    and "c \<in> set (chunks_exact n xs) \<Longrightarrow> length c = n"
proof -
  have "length (chunks_exact n xs) = length xs div n \<and>
        concat (chunks_exact n xs) = take (length xs div n * n) xs \<and>
        (c \<in> set (chunks_exact n xs) \<longrightarrow> length c = n)"
    using assms
  proof (induction n xs rule: chunks_exact.induct)
    case (1 n xs)
    show ?case
    proof (cases "length xs < n")
      case True
      then show ?thesis by simp
    next
      case False
      with \<open>0 < n\<close> have IH: "length (chunks_exact n (drop n xs)) = (length xs - n) div n"
        "concat (chunks_exact n (drop n xs)) = take ((length xs - n) div n * n) (drop n xs)"
        "c \<in> set (chunks_exact n (drop n xs)) \<longrightarrow> length c = n"
        using "1.IH" by auto
      have d: "length xs div n = Suc ((length xs - n) div n)"
        using False \<open>0 < n\<close> by (simp add: le_div_geq)
      show ?thesis
        using IH False \<open>0 < n\<close>
        by (auto simp: chunks_exact.simps [of n xs] d take_add)
    qed
  qed
  then show "length (chunks_exact n xs) = length xs div n"
    and "concat (chunks_exact n xs) = take (length xs div n * n) xs"
    and "c \<in> set (chunks_exact n xs) \<Longrightarrow> length c = n" by auto
qed

definition bytes_to_usizes :: "u8 list \<Rightarrow> ptrace_error + usize list" where
  "bytes_to_usizes bytes =
     (let result = map from_ne_bytes (chunks_exact 8 bytes)
      in res_bind (checked_mul (of_nat (length result)) USIZE_SIZE) (\<lambda>remainder_pos.
         let remainder_vec = foldl (\<lambda>v (i, byte). v[i := byte]) (replicate 8 0)
               (enumerate 0 (drop (unat remainder_pos) bytes))
         in Inr (result @ [from_ne_bytes remainder_vec])))"

lemma foldl_enumerate_update:
  "k + length ys \<le> length v \<Longrightarrow>
   foldl (\<lambda>v (i, byte). v[i := byte]) v (enumerate k ys) =
   take k v @ ys @ drop (k + length ys) v"
proof (induction ys arbitrary: k v)
  case Nil
  then show ?case by simp
next
  case (Cons y ys)
  then have "foldl (\<lambda>v (i, byte). v[i := byte]) (v[k := y]) (enumerate (Suc k) ys) =
      take (Suc k) (v[k := y]) @ ys @ drop (Suc k + length ys) (v[k := y])"
    by (intro Cons.IH) simp
  moreover have "take (Suc k) (v[k := y]) = take k v @ [y]"
    using Cons.prems by (simp add: take_Suc_conv_app_nth)
  ultimately show ?case by simp
qed

lemma concat_to_from_chunks:
  "concat (map (to_ne_bytes \<circ> from_ne_bytes) (chunks_exact 8 bs)) =
   take (length bs div 8 * 8) bs"
proof -
  have "map (to_ne_bytes \<circ> from_ne_bytes) (chunks_exact 8 bs) = chunks_exact 8 bs"
    by (rule map_idI) (simp add: to_from_ne_bytes chunks_exact_props(3))
  then show ?thesis by (simp add: chunks_exact_props(2))
qed

lemma bytes_to_usizes_image:
  assumes "length bytes < 2 ^ 64"
  shows "\<exists>ws. bytes_to_usizes bytes = Inr ws \<and>
           concat (map to_ne_bytes ws) = bytes @ replicate (8 - length bytes mod 8) 0 \<and>
           length ws = length bytes div 8 + 1"
proof -
  let ?q = "length bytes div 8"
  let ?rest = "drop (?q * 8) bytes"
  have q: "?q < 2 ^ 64" "?q * 8 < 2 ^ 64" using assms by linarith+
  have pos: "checked_mul (of_nat ?q) USIZE_SIZE = Inr (of_nat (?q * 8))"
    using q by (simp add: checked_mul_Inr unat_of_nat_usize USIZE_SIZE_def)
  have len: "length ?rest = length bytes mod 8" by (simp add: minus_div_mult_eq_mod)
  have "foldl (\<lambda>v (i, byte). v[i := byte]) (replicate 8 (0 :: u8)) (enumerate 0 ?rest)
      = ?rest @ replicate (8 - length bytes mod 8) 0"
    using len mod_less_divisor [of 8 "length bytes"] by (subst foldl_enumerate_update) auto
  then have "bytes_to_usizes bytes = Inr (map from_ne_bytes (chunks_exact 8 bytes) @
      [from_ne_bytes (?rest @ replicate (8 - length bytes mod 8) 0)])"
    unfolding bytes_to_usizes_def Let_def length_map chunks_exact_props(1) [OF zero_less_numeral]
      pos res_bind_simps unat_of_nat_usize [OF q(2)]
    by simp
  moreover have "to_ne_bytes (from_ne_bytes (?rest @ replicate (8 - length bytes mod 8) 0)) =
      ?rest @ replicate (8 - length bytes mod 8) 0"
    using len mod_less_divisor [of 8 "length bytes"] by (intro to_from_ne_bytes) simp
  moreover have "concat (map (\<lambda>x. to_ne_bytes (from_ne_bytes x)) (chunks_exact 8 bytes)) =
      take (?q * 8) bytes"
    using concat_to_from_chunks [of bytes] by (simp add: comp_def)
  ultimately show ?thesis
    by (auto simp: comp_def chunks_exact_props(1))
qed

text \<open>The words built from a byte string.  For every byte string that fits in memory
  the conversion succeeds, and the words, laid out in memory, are the bytes of the string
  followed by between one and eight zero bytes; a string whose length is already a multiple
  of the word size is followed by a whole zero word.\<close>

theorem bytes_to_usizes_layout:
  assumes "length bytes < 2 ^ 64"
  shows "\<exists>ws. bytes_to_usizes bytes = Inr ws \<and>
           concat (map to_ne_bytes ws) = bytes @ replicate (8 - length bytes mod 8) 0 \<and>
           length ws = length bytes div 8 + 1"
  using assms by (rule bytes_to_usizes_image)

theorem bytes_to_usizes_layout_witness:
  "\<exists>ws. bytes_to_usizes [97, 98, 99, 100, 101, 102, 103, 104] = Inr ws \<and>
     concat (map to_ne_bytes ws) =
       [97, 98, 99, 100, 101, 102, 103, 104, 0, 0, 0, 0, 0, 0, 0, 0] \<and> length ws = Suc 1"
  using bytes_to_usizes_layout [of "[97, 98, 99, 100, 101, 102, 103, 104]"]
  by (simp add: replicate_8)

section \<open>Wait statuses\<close>

datatype wait_status =
    Exited pid int
  | Signaled pid int bool
  | Stopped pid int
  | PtraceEvent pid int int
  | PtraceSyscall pid
  | Continued pid
  | StillAlive

definition SIGTRAP :: int where "SIGTRAP = 5"

fun is_trace_stop :: "wait_status \<Rightarrow> bool" where
  "is_trace_stop (PtraceEvent _ _ _) = True"
| "is_trace_stop (Stopped _ sig) = (sig = SIGTRAP)"
| "is_trace_stop _ = False"

fun is_syscall_stop :: "wait_status \<Rightarrow> bool" where
  "is_syscall_stop (PtraceSyscall _) = True"
| "is_syscall_stop _ = False"

fun is_still_alive :: "wait_status \<Rightarrow> bool" where
  "is_still_alive (Exited _ _) = False"
| "is_still_alive _ = True"

end
