(* ===== verification/Ptrace_Structs.thy ===== *)
theory Ptrace_Structs
  imports Ptrace_Base
begin

text \<open>
  Reading and writing \<open>repr(C)\<close> structures in tracee memory
  (\<open>read_bytes_to_structs\<close>, \<open>read_bytes_to_fixed_sized_objs\<close>, \<open>write_structs_to_tracee\<close>,
  \<open>write_fixed_sized_objs_to_tracee\<close> of \<open>src/ptrace/src/common.rs\<close>).  A Rust object is its
  memory image, a byte list of the size of its type.  The type's part in the generic code,
  the traits \<open>CStruct\<close> and \<open>CHeader\<close>, is the record \<open>cstruct\<close>, and the locale \<open>c_struct\<close> states
  what an implementation of the traits has to satisfy.  The reading loop takes fuel;
  \<open>read_structs_loop_enough\<close> shows that one unit per byte of the buffer suffices.
\<close>

section \<open>The helpers of a tracee's memory and the layout of a C structure\<close>

record 's mem_helpers =
  mh_close_tracee :: "pid \<Rightarrow> ('s, ptrace_error, unit) act"
  mh_read :: "usize \<Rightarrow> ('s, ptrace_error, usize) act"
  mh_read_bytes :: "usize \<Rightarrow> usize \<Rightarrow> u8 list \<Rightarrow> ('s, ptrace_error, u8 list) act"
  mh_read_bytes_until_num_zeroes :: "usize \<Rightarrow> usize \<Rightarrow> ('s, ptrace_error, u8 list) act"
  mh_read_bytes_until_zero :: "usize \<Rightarrow> ('s, ptrace_error, u8 list) act"
  mh_write_bytes_to_tracee :: "usize \<Rightarrow> u8 list \<Rightarrow> ('s, ptrace_error, usize \<times> usize) act"

record cstruct =
  cs_size :: usize
  cs_header_size :: usize
  cs_item_size_deducer :: "u8 list \<Rightarrow> usize"
  cs_item_size_updater :: "u8 list \<Rightarrow> usize \<Rightarrow> u8 list"

locale c_struct =
  fixes cs :: cstruct
  assumes header_nonempty: "0 < cs_header_size cs"
    and header_fits: "cs_header_size cs \<le> cs_size cs"
    and size_bounded: "cs_size cs \<le> MAX_STRUCT_SIZE"
    and size_words: "unat (cs_size cs) mod 8 = 0"
    and header_words: "unat (cs_header_size cs) mod 8 = 0"
    and deducer_prefix:
      "cs_item_size_deducer cs (take (unat (cs_header_size cs)) bs) = cs_item_size_deducer cs bs"
    and updater_length: "length (cs_item_size_updater cs bs n) = length bs"
    and updater_body:
      "drop (unat (cs_header_size cs)) (cs_item_size_updater cs bs n) =
       drop (unat (cs_header_size cs)) bs"
    and deducer_updater:
      "unat (cs_header_size cs) \<le> length bs \<Longrightarrow> n \<le> MAX_STRUCT_SIZE \<Longrightarrow>
       cs_item_size_deducer cs (cs_item_size_updater cs bs n) = n"

section \<open>Reading\<close>

definition read_struct ::
  "'s mem_helpers \<Rightarrow> cstruct \<Rightarrow> usize \<Rightarrow> usize \<Rightarrow> ('s, ptrace_error, u8 list \<times> usize) act" where
  "read_struct mh cs final_addr curr_addr =
     (let header_size = cs_header_size cs; t_size = cs_size cs;
          buffer = replicate (unat MAX_STRUCT_SIZE) 0
      in act_bind (act_lift (checked_add curr_addr header_size)) (\<lambda>header_end.
         if header_end > final_addr
         then act_err (BufferOverflow header_size curr_addr final_addr)
         else act_bind (mh_read_bytes mh curr_addr header_size buffer) (\<lambda>buffer.
         act_bind (act_lift (checked_add curr_addr header_size)) (\<lambda>curr_addr.
         let item_size = cs_item_size_deducer cs (take (unat header_size) buffer);
             remainder_size = item_size - header_size
         in if item_size < header_size
            then act_err (ReadInvalidItemSize1 item_size header_size)
            else if item_size > t_size then act_err (ReadItemTooBig item_size t_size)
            else act_bind (act_lift (checked_add curr_addr remainder_size)) (\<lambda>item_end.
            if item_end > final_addr
            then act_err (BufferOverflow remainder_size curr_addr final_addr)
            else act_bind (mh_read_bytes mh curr_addr remainder_size
                             (drop (unat header_size) buffer)) (\<lambda>rest.
            act_bind (act_lift (checked_add curr_addr remainder_size)) (\<lambda>curr_addr.
            act_ret (take (unat t_size) (take (unat header_size) buffer @ rest), curr_addr))))))))"

fun read_structs_loop ::
  "nat \<Rightarrow> 's mem_helpers \<Rightarrow> cstruct \<Rightarrow> usize \<Rightarrow> usize \<Rightarrow> u8 list list \<Rightarrow>
   's \<Rightarrow> ((ptrace_error + u8 list list) \<times> 's) option" where
  "read_structs_loop 0 mh cs final_addr curr_addr result s = None"
| "read_structs_loop (Suc fuel) mh cs final_addr curr_addr result s =
     (if curr_addr < final_addr then
        (case read_struct mh cs final_addr curr_addr s of
           (Inl e, s') \<Rightarrow> Some (Inl e, s')
         | (Inr (item, curr_addr'), s') \<Rightarrow>
             read_structs_loop fuel mh cs final_addr curr_addr' (result @ [item]) s')
      else Some (Inr result, s))"

definition read_bytes_to_structs ::
  "'s mem_helpers \<Rightarrow> cstruct \<Rightarrow> usize \<Rightarrow> usize \<Rightarrow>
   's \<Rightarrow> ((ptrace_error + u8 list list) \<times> 's) option" where
  "read_bytes_to_structs mh cs addr total_size s =
     (case checked_add addr total_size of
        Inl e \<Rightarrow> Some (Inl e, s)
      | Inr final_addr \<Rightarrow>
          (let t_size = cs_size cs; header_size = cs_header_size cs
           in if t_size mod USIZE_SIZE \<noteq> 0 then Some (Inl (ReadItemNotAligned t_size), s)
              else if t_size > MAX_STRUCT_SIZE
              then Some (Inl (ReadItemTooBig t_size MAX_STRUCT_SIZE), s)
              else if t_size < header_size
              then Some (Inl (HeaderTooBig header_size t_size), s)
              else read_structs_loop (Suc (unat total_size)) mh cs final_addr addr [] s))"

fun read_objs_loop ::
  "nat \<Rightarrow> 's mem_helpers \<Rightarrow> usize \<Rightarrow> usize \<Rightarrow> usize \<Rightarrow> u8 list list \<Rightarrow>
   's \<Rightarrow> ((ptrace_error + u8 list list) \<times> 's) option" where
  "read_objs_loop 0 mh t_size final_addr curr_addr result s = None"
| "read_objs_loop (Suc fuel) mh t_size final_addr curr_addr result s =
     (if curr_addr < final_addr then
        (case act_bind (mh_read_bytes mh curr_addr t_size (replicate (unat MAX_STRUCT_SIZE) 0))
                (\<lambda>buffer. act_bind (act_lift (checked_add curr_addr t_size))
                (\<lambda>next_addr. act_ret (take (unat t_size) buffer, next_addr))) s of
           (Inl e, s') \<Rightarrow> Some (Inl e, s')
         | (Inr (item, next_addr), s') \<Rightarrow>
             read_objs_loop fuel mh t_size final_addr next_addr (result @ [item]) s')
      else Some (Inr result, s))"

definition read_bytes_to_fixed_sized_objs ::
  "'s mem_helpers \<Rightarrow> usize \<Rightarrow> usize \<Rightarrow> usize \<Rightarrow>
   's \<Rightarrow> ((ptrace_error + u8 list list) \<times> 's) option" where
  "read_bytes_to_fixed_sized_objs mh t_size addr num_objs s =
     (case res_bind (checked_mul t_size num_objs) (\<lambda>total_size. checked_add addr total_size) of
        Inl e \<Rightarrow> Some (Inl e, s)
      | Inr final_addr \<Rightarrow>
          (if t_size mod USIZE_SIZE \<noteq> 0 then Some (Inl (ReadItemNotAligned t_size), s)
           else if t_size > MAX_STRUCT_SIZE
           then Some (Inl (ReadItemTooBig t_size MAX_STRUCT_SIZE), s)
           else read_objs_loop (Suc (unat num_objs)) mh t_size final_addr addr [] s))"

section \<open>Writing\<close>

definition struct_words :: "u8 list \<Rightarrow> usize list" where
  "struct_words item = map from_ne_bytes (chunks_exact 8 item)"

fun write_shrunk_words ::
  "'w kernel \<Rightarrow> usize \<Rightarrow> usize \<Rightarrow> usize list \<Rightarrow> usize \<Rightarrow> usize \<Rightarrow> usize \<Rightarrow>
   ('w, ptrace_error, usize \<times> usize) act" where
  "write_shrunk_words K shrink_criteria max_addr [] count_zeroes skipped_zeroes addr =
     act_ret (skipped_zeroes, addr)"
| "write_shrunk_words K shrink_criteria max_addr (m # ms) count_zeroes skipped_zeroes addr =
     (if m = 0 then
        act_bind (act_lift (checked_add count_zeroes 1)) (\<lambda>count_zeroes.
        if count_zeroes > shrink_criteria then
          act_bind (act_lift (checked_add skipped_zeroes 1)) (\<lambda>skipped_zeroes.
          write_shrunk_words K shrink_criteria max_addr ms count_zeroes skipped_zeroes addr)
        else
          act_bind (checked_write K addr max_addr m) (\<lambda>_.
          act_bind (act_lift (checked_add addr USIZE_SIZE)) (\<lambda>addr.
          write_shrunk_words K shrink_criteria max_addr ms count_zeroes skipped_zeroes addr)))
      else
        act_bind (checked_write K addr max_addr m) (\<lambda>_.
        act_bind (act_lift (checked_add addr USIZE_SIZE)) (\<lambda>addr.
        write_shrunk_words K shrink_criteria max_addr ms 0 skipped_zeroes addr)))"

fun write_words :: "'w kernel \<Rightarrow> usize list \<Rightarrow> usize \<Rightarrow> ('w, ptrace_error, usize) act" where
  "write_words K [] addr = act_ret addr"
| "write_words K (m # ms) addr =
     act_bind (ptrace_write K addr m) (\<lambda>_.
     act_bind (act_lift (checked_add addr USIZE_SIZE)) (\<lambda>addr. write_words K ms addr))"

definition write_struct ::
  "'w kernel \<Rightarrow> cstruct \<Rightarrow> usize \<Rightarrow> usize \<Rightarrow> usize \<Rightarrow> u8 list \<Rightarrow> usize \<Rightarrow>
   ('w, ptrace_error, usize) act" where
  "write_struct K cs shrink_criteria max_addr skip_header item curr_addr =
     (let skip_header_bytes = skip_header * USIZE_SIZE
      in act_bind (act_lift (checked_add curr_addr skip_header_bytes)) (\<lambda>curr_remainder_addr.
         if curr_remainder_addr > max_addr
         then act_err (BufferOverflow skip_header_bytes curr_addr max_addr)
         else act_bind (write_shrunk_words K shrink_criteria max_addr
                (drop (unat skip_header) (struct_words item)) 0 0 curr_remainder_addr)
              (\<lambda>(skipped_zeroes, curr_remainder_addr).
         act_bind
           (if skipped_zeroes > 0
            then act_bind (act_lift (checked_sub (cs_size cs) (skipped_zeroes * USIZE_SIZE)))
                   (\<lambda>size. act_ret (cs_item_size_updater cs item size))
            else act_ret item)
           (\<lambda>item. act_bind (write_words K (take (unat skip_header) (struct_words item)) curr_addr)
           (\<lambda>_. act_ret curr_remainder_addr)))))"

fun write_structs_loop ::
  "'w kernel \<Rightarrow> cstruct \<Rightarrow> usize \<Rightarrow> usize \<Rightarrow> usize \<Rightarrow> u8 list list \<Rightarrow> usize \<Rightarrow>
   ('w, ptrace_error, usize) act" where
  "write_structs_loop K cs shrink_criteria max_addr skip_header [] curr_addr = act_ret curr_addr"
| "write_structs_loop K cs shrink_criteria max_addr skip_header (item # items) curr_addr =
     act_bind (write_struct K cs shrink_criteria max_addr skip_header item curr_addr) (\<lambda>curr_addr.
     write_structs_loop K cs shrink_criteria max_addr skip_header items curr_addr)"

definition write_structs_to_tracee ::
  "'w kernel \<Rightarrow> cstruct \<Rightarrow> usize \<Rightarrow> usize \<Rightarrow> u8 list list \<Rightarrow> usize \<Rightarrow>
   ('w, ptrace_error, usize) act" where
  "write_structs_to_tracee K cs addr buffer_size items shrink_criteria =
     act_bind (act_lift (checked_add addr buffer_size)) (\<lambda>max_addr.
     let t_size = cs_size cs; header_size = cs_header_size cs
     in if t_size mod USIZE_SIZE \<noteq> 0 then act_err (ReadItemNotAligned t_size)
        else if t_size > MAX_STRUCT_SIZE then act_err (ReadItemTooBig t_size MAX_STRUCT_SIZE)
        else if t_size < header_size then act_err (HeaderTooBig header_size t_size)
        else act_bind (act_lift (res_bind (aligned header_size) (\<lambda>a. checked_div a USIZE_SIZE)))
               (\<lambda>skip_header.
             act_bind (act_lift (checked_mul skip_header USIZE_SIZE)) (\<lambda>skip_header_bytes.
             act_bind (write_structs_loop K cs shrink_criteria max_addr skip_header items addr)
               (\<lambda>curr_addr. act_ret (curr_addr - addr)))))"

fun write_objs_loop ::
  "'w kernel \<Rightarrow> usize \<Rightarrow> usize \<Rightarrow> u8 list list \<Rightarrow> usize \<Rightarrow> ('w, ptrace_error, usize) act" where
  "write_objs_loop K t_size max_addr [] curr_addr = act_ret curr_addr"
| "write_objs_loop K t_size max_addr (item # items) curr_addr =
     (if curr_addr + t_size > max_addr
      then act_err (BufferOverflow t_size curr_addr max_addr)
      else act_bind (write_words K (struct_words item) curr_addr) (\<lambda>curr_addr.
           write_objs_loop K t_size max_addr items curr_addr))"

definition write_fixed_sized_objs_to_tracee ::
  "'w kernel \<Rightarrow> usize \<Rightarrow> usize \<Rightarrow> usize \<Rightarrow> u8 list list \<Rightarrow> ('w, ptrace_error, usize) act" where
  "write_fixed_sized_objs_to_tracee K t_size addr buffer_size items =
     act_bind (act_lift (checked_add addr buffer_size)) (\<lambda>max_addr.
     if t_size mod USIZE_SIZE \<noteq> 0 then act_err (ReadItemNotAligned t_size)
     else if t_size > MAX_STRUCT_SIZE then act_err (ReadItemTooBig t_size MAX_STRUCT_SIZE)
     else act_bind (write_objs_loop K t_size max_addr items addr) (\<lambda>curr_addr.
          act_ret (curr_addr - addr)))"


section \<open>Memory after a sequence of writes\<close>

definition mem_put :: "(usize \<Rightarrow> u8) \<Rightarrow> usize \<Rightarrow> u8 list \<Rightarrow> usize \<Rightarrow> u8" where
  "mem_put f a bs b = (if unat (b - a) < length bs then bs ! unat (b - a) else f b)"

abbreviation words_image :: "usize list \<Rightarrow> u8 list" where
  "words_image ws \<equiv> concat (map to_ne_bytes ws)"

lemma length_words_image [simp]: "length (words_image ws) = 8 * length ws"
  by (induction ws) auto

lemma mem_put_Nil [simp]: "mem_put f a [] = f"
  by (rule ext) (simp add: mem_put_def)

lemma unat_diff_offset:
  fixes x :: usize
  assumes "n < 2 ^ 64"
  shows "unat (x - of_nat n) = (if n \<le> unat x then unat x - n else 2 ^ 64 + unat x - n)"
proof -
  have "unat (of_nat n :: usize) = n" using assms by (rule unat_of_nat_usize)
  then show ?thesis using unat_sub_if' [of x "of_nat n"] by auto
qed

lemma mem_put_append:
  assumes "length xs + length ys \<le> 2 ^ 64"
  shows "mem_put (mem_put f a xs) (a + of_nat (length xs)) ys = mem_put f a (xs @ ys)"
proof (cases "ys = []")
  case True
  then show ?thesis by simp
next
  case False
  with assms have n: "length xs < 2 ^ 64" by (cases ys) auto
  show ?thesis
  proof (rule ext)
    fix b
    have "b - (a + of_nat (length xs)) = (b - a) - of_nat (length xs)" by simp
    then have "unat (b - (a + of_nat (length xs))) =
        (if length xs \<le> unat (b - a) then unat (b - a) - length xs
         else 2 ^ 64 + unat (b - a) - length xs)"
      using unat_diff_offset [OF n] by metis
    then show "mem_put (mem_put f a xs) (a + of_nat (length xs)) ys b = mem_put f a (xs @ ys) b"
      using assms by (auto simp: mem_put_def nth_append)
  qed
qed

lemma mem_put_poke:
  "word_memory K rd \<Longrightarrow> k_poke K w a v = Inr w' \<Longrightarrow> rd w' = mem_put (rd w) a (to_ne_bytes v)"
  by (rule ext) (simp add: mem_put_def word_memory_poke)

lemma mem_put_word:
  assumes "unat a + 8 + 8 * n \<le> 2 ^ 64" "length bs = 8 * n"
  shows "mem_put (mem_put f a (to_ne_bytes v)) (a + USIZE_SIZE) bs = mem_put f a (to_ne_bytes v @ bs)"
  using mem_put_append [of "to_ne_bytes v" bs f a] assms by (simp add: USIZE_SIZE_def)

lemma unat_add_word:
  "unat a + 8 < 2 ^ 64 \<Longrightarrow> unat (a + USIZE_SIZE) = unat a + 8"
  by (subst unat_add_no_overflow) simp_all

lemma unat_beyond_word:
  "8 \<le> unat (b - a) \<Longrightarrow> unat (b - (a + USIZE_SIZE)) = unat (b - a) - 8"
  using unat_diff_offset [of 8 "b - a"] by (simp add: USIZE_SIZE_def diff_diff_eq)

lemma write_words_frame:
  assumes "word_memory K rd" "write_words K ws a w = (r, w')" "8 * length ws \<le> unat (b - a)"
  shows "rd w' b = rd w b"
  using assms(2,3)
proof (induction ws arbitrary: a w)
  case Nil
  then show ?case by (simp add: res_simps)
next
  case (Cons m ms)
  then have b: "\<not> unat (b - a) < 8" by simp
  obtain r1 w1 where w1: "ptrace_write K a m w = (r1, w1)" by fastforce
  have f1: "rd w1 b = rd w b" using assms(1) w1 b by (rule ptrace_write_frame)
  show ?case
  proof (cases "\<exists>x. r1 = Inr x \<and> unat a + 8 < 2 ^ 64")
    case True
    with Cons.prems w1 have "write_words K ms (a + USIZE_SIZE) w1 = (r, w')"
      by (auto simp: res_simps checked_add_def)
    moreover have "8 * length ms \<le> unat (b - (a + USIZE_SIZE))"
      using Cons.prems(2) b by (simp add: unat_beyond_word)
    ultimately have "rd w' b = rd w1 b" by (rule Cons.IH)
    with f1 show ?thesis by simp
  next
    case False
    with Cons.prems w1 have "w' = w1"
      by (auto simp: res_simps checked_add_def split: sum.splits)
    with f1 show ?thesis by simp
  qed
qed

lemma poke_then_put:
  fixes a' :: usize
  assumes "word_memory K rd" "k_poke K w a m = Inr w1" "unat a + 8 < 2 ^ 64"
    "unat a' = unat (a + USIZE_SIZE) + 8 * length out"
    "rd w' = mem_put (rd w1) (a + USIZE_SIZE) (words_image out)"
  shows "unat a' = unat a + 8 * length (m # out)"
    and "rd w' = mem_put (rd w) a (words_image (m # out))"
proof -
  have ua: "unat (a + USIZE_SIZE) = unat a + 8" using assms(3) by (rule unat_add_word)
  then show "unat a' = unat a + 8 * length (m # out)" using assms(4) by simp
  have "unat a + 8 + 8 * length out \<le> 2 ^ 64"
    using assms(4) ua unat_lt_2p64 [of a'] by linarith
  then show "rd w' = mem_put (rd w) a (words_image (m # out))"
    using assms(5) mem_put_poke [OF assms(1,2)] by (simp add: mem_put_word)
qed

lemma write_words_put:
  assumes "word_memory K rd" "write_words K ws a w = (Inr a', w')"
  shows "unat a' = unat a + 8 * length ws \<and> rd w' = mem_put (rd w) a (words_image ws)"
  using assms(2)
proof (induction ws arbitrary: a w)
  case Nil
  then show ?case by (simp add: res_simps)
next
  case (Cons m ms)
  then obtain w1 where w1: "k_poke K w a m = Inr w1" and lt: "unat a + 8 < 2 ^ 64"
    and rest: "write_words K ms (a + USIZE_SIZE) w1 = (Inr a', w')"
    by (auto simp: res_simps checked_add_def ptrace_write_def split: sum.splits if_splits)
  show ?case using poke_then_put [OF assms(1) w1 lt, of a' ms w'] Cons.IH [OF rest] by simp
qed

section \<open>The words that survive shrinking\<close>

fun shrink_words :: "nat \<Rightarrow> nat \<Rightarrow> usize list \<Rightarrow> usize list" where
  "shrink_words criteria count [] = []"
| "shrink_words criteria count (m # ms) =
     (if m = 0 then
        (if Suc count > criteria then shrink_words criteria (Suc count) ms
         else m # shrink_words criteria (Suc count) ms)
      else m # shrink_words criteria 0 ms)"

lemma length_shrink_words: "length (shrink_words c k ws) \<le> length ws"
proof (induction ws arbitrary: k)
  case Nil
  then show ?case by simp
next
  case (Cons m ms)
  show ?case using Cons.IH [of 0] Cons.IH [of "Suc k"] by auto
qed

text \<open>One checked write followed by the rest of a loop: a byte outside the words that remain
  of the buffer keeps its value if the rest of the loop keeps it.\<close>

lemma checked_write_step_frame:
  assumes "word_memory K rd" "8 dvd unat max_addr - unat a"
    and run: "act_bind (checked_write K a max_addr m) (\<lambda>_.
        act_bind (act_lift (checked_add a USIZE_SIZE)) f) w = (r, w')"
    and b: "unat max_addr - unat a \<le> unat (b - a)"
    and cont: "\<And>w1. f (a + USIZE_SIZE) w1 = (r, w') \<Longrightarrow>
        8 dvd unat max_addr - unat (a + USIZE_SIZE) \<Longrightarrow>
        unat max_addr - unat (a + USIZE_SIZE) \<le> unat (b - (a + USIZE_SIZE)) \<Longrightarrow> rd w' b = rd w1 b"
  shows "rd w' b = rd w b"
proof (cases "a < max_addr")
  case False
  with run show ?thesis by (simp add: res_simps checked_write_def linorder_not_less)
next
  case True
  then have na: "\<not> max_addr \<le> a" by simp
  from True have "unat a < unat max_addr" by (simp add: word_less_nat_alt)
  with assms(2) have "8 \<le> unat max_addr - unat a" by (intro dvd_imp_le) auto
  then have ge: "unat a + 8 \<le> unat max_addr" by linarith
  then have nov: "unat a + 8 < 2 ^ 64" using unat_lt_2p64 [of max_addr] by linarith
  then have ua: "unat (a + USIZE_SIZE) = unat a + 8" by (rule unat_add_word)
  have b8: "\<not> unat (b - a) < 8" using b ge by simp
  obtain r1 w1 where w1: "ptrace_write K a m w = (r1, w1)" by fastforce
  have f1: "rd w1 b = rd w b" using assms(1) w1 b8 by (rule ptrace_write_frame)
  show ?thesis
  proof (cases r1)
    case (Inl e)
    with run w1 na f1 show ?thesis by (simp add: res_simps checked_write_def)
  next
    case (Inr u)
    have "f (a + USIZE_SIZE) w1 = (r, w')"
      using run w1 na Inr nov by (simp add: res_simps checked_write_def checked_add_def)
    moreover have "8 dvd unat max_addr - unat (a + USIZE_SIZE)"
      using assms(2) ge ua by (metis diff_diff_left dvd_diff_nat dvd_refl)
    moreover have "unat max_addr - unat (a + USIZE_SIZE) \<le> unat (b - (a + USIZE_SIZE))"
      using b b8 ua by (simp add: unat_beyond_word)
    ultimately show ?thesis using cont f1 by simp
  qed
qed

lemma write_shrunk_words_frame:
  assumes "word_memory K rd" "8 dvd unat max_addr - unat a"
    "write_shrunk_words K c max_addr ws n sk a w = (r, w')"
    "unat max_addr - unat a \<le> unat (b - a)"
  shows "rd w' b = rd w b"
  using assms(2-4)
proof (induction ws arbitrary: a n sk w)
  case Nil
  then show ?case by (simp add: res_simps)
next
  case (Cons m ms)
  note step = checked_write_step_frame [OF assms(1) Cons.prems(1) _ Cons.prems(3)]
  consider (nz) "m \<noteq> 0" | (ovf) e where "m = 0" "checked_add n 1 = Inl e"
    | (keep) n1 where "m = 0" "checked_add n 1 = Inr n1" "\<not> n1 > c"
    | (skip) n1 where "m = 0" "checked_add n 1 = Inr n1" "n1 > c"
    by (cases "checked_add n 1") auto
  then show ?case
  proof cases
    case nz
    with Cons.prems(2) have "act_bind (checked_write K a max_addr m) (\<lambda>_.
        act_bind (act_lift (checked_add a USIZE_SIZE))
          (write_shrunk_words K c max_addr ms 0 sk)) w = (r, w')" by simp
    then show ?thesis by (rule step) (rule Cons.IH)
  next
    case ovf
    with Cons.prems(2) show ?thesis by (simp add: res_simps)
  next
    case keep
    with Cons.prems(2) have "act_bind (checked_write K a max_addr m) (\<lambda>_.
        act_bind (act_lift (checked_add a USIZE_SIZE))
          (write_shrunk_words K c max_addr ms n1 sk)) w = (r, w')"
      by (auto simp: act_bind_def act_lift_def)
    then show ?thesis by (rule step) (rule Cons.IH)
  next
    case skip
    with Cons show ?thesis
      by (cases "checked_add sk 1") (auto simp: res_simps)
  qed
qed


lemma checked_write_step_ok:
  "act_bind (checked_write K a max_addr m) (\<lambda>_.
     act_bind (act_lift (checked_add a USIZE_SIZE)) f) w = (Inr x, w') \<longleftrightarrow>
   (\<exists>w1. a < max_addr \<and> k_poke K w a m = Inr w1 \<and> unat a + 8 < 2 ^ 64 \<and>
      f (a + USIZE_SIZE) w1 = (Inr x, w'))"
  by (auto simp: res_simps checked_write_def ptrace_write_def checked_add_def
      split: sum.splits if_splits)

lemma write_shrunk_words_put:
  assumes "word_memory K rd" "write_shrunk_words K c max_addr ws n sk a w = (Inr (sk', a'), w')"
  shows "unat a' = unat a + 8 * length (shrink_words (unat c) (unat n) ws) \<and>
         unat sk' = unat sk + (length ws - length (shrink_words (unat c) (unat n) ws)) \<and>
         rd w' = mem_put (rd w) a (words_image (shrink_words (unat c) (unat n) ws))"
  using assms(2)
proof (induction ws arbitrary: a n sk w)
  case Nil
  then show ?case by (simp add: res_simps)
next
  case (Cons m ms)
  have le: "length (shrink_words (unat c) k ms) \<le> length ms" for k by (rule length_shrink_words)
  consider (nz) "m \<noteq> 0" | (keep) "m = 0" "unat n + 1 < 2 ^ 64" "\<not> n + 1 > c"
    | (skip) "m = 0" "unat n + 1 < 2 ^ 64" "n + 1 > c" "unat sk + 1 < 2 ^ 64"
    using Cons.prems
    by (cases "m = 0") (auto simp: res_simps checked_add_def split: if_splits)
  then show ?case
  proof cases
    case nz
    with Cons.prems obtain w1 where w1: "k_poke K w a m = Inr w1" and lt: "unat a + 8 < 2 ^ 64"
      and rest: "write_shrunk_words K c max_addr ms 0 sk (a + USIZE_SIZE) w1 = (Inr (sk', a'), w')"
      by (auto simp: checked_write_step_ok)
    show ?thesis
      using poke_then_put [OF assms(1) w1 lt, of a' "shrink_words (unat c) 0 ms" w']
        Cons.IH [OF rest] le [of 0] nz by simp
  next
    case keep
    have n1: "unat (n + 1) = Suc (unat n)" using keep(2) by (simp add: unat_add_no_overflow)
    have "act_bind (checked_write K a max_addr 0) (\<lambda>_.
        act_bind (act_lift (checked_add a USIZE_SIZE))
          (write_shrunk_words K c max_addr ms (n + 1) sk)) w = (Inr (sk', a'), w')"
      using Cons.prems keep by (simp add: act_bind_def act_lift_def checked_add_def)
    then obtain w1 where w1: "k_poke K w a 0 = Inr w1" and lt: "unat a + 8 < 2 ^ 64"
      and rest: "write_shrunk_words K c max_addr ms (n + 1) sk (a + USIZE_SIZE) w1 =
        (Inr (sk', a'), w')" by (auto simp: checked_write_step_ok)
    show ?thesis
      using poke_then_put [OF assms(1) w1 lt, of a' "shrink_words (unat c) (Suc (unat n)) ms" w']
        Cons.IH [OF rest] le [of "Suc (unat n)"] keep n1 by (simp add: word_less_nat_alt)
  next
    case skip
    have n1: "unat (n + 1) = Suc (unat n)" using skip(2) by (simp add: unat_add_no_overflow)
    have s1: "unat (sk + 1) = Suc (unat sk)" using skip(4) by (simp add: unat_add_no_overflow)
    have "write_shrunk_words K c max_addr ms (n + 1) (sk + 1) a w = (Inr (sk', a'), w')"
      using Cons.prems skip by (simp add: res_simps checked_add_def)
    from Cons.IH [OF this] show ?thesis
      using le [of "Suc (unat n)"] skip n1 s1 by (simp add: word_less_nat_alt)
  qed
qed


lemma write_shrunk_words_addr:
  assumes "write_shrunk_words K c max_addr ws n sk a w = (Inr (sk', a'), w')"
    "8 dvd unat max_addr - unat a" "a \<le> max_addr"
  shows "a' \<le> max_addr"
  using assms
proof (induction ws arbitrary: a n sk w)
  case Nil
  then show ?case by (simp add: res_simps)
next
  case (Cons m ms)
  have step: "a' \<le> max_addr" if "a < max_addr" "unat a + 8 < 2 ^ 64"
    "write_shrunk_words K c max_addr ms n' sk (a + USIZE_SIZE) w1 = (Inr (sk', a'), w')" for n' w1
  proof -
    have "unat a < unat max_addr" using that(1) by (simp add: word_less_nat_alt)
    with Cons.prems(2) have "8 \<le> unat max_addr - unat a" by (intro dvd_imp_le) auto
    moreover have ua: "unat (a + USIZE_SIZE) = unat a + 8" using that(2) by (rule unat_add_word)
    ultimately have "a + USIZE_SIZE \<le> max_addr" "8 dvd unat max_addr - unat (a + USIZE_SIZE)"
      using Cons.prems(2)
      by (simp add: word_le_nat_alt, metis diff_diff_left dvd_diff_nat dvd_refl)
    then show ?thesis using that(3) by (intro Cons.IH)
  qed
  show ?case
  proof (cases "m = 0")
    case False
    with Cons.prems(1) show ?thesis by (auto simp: checked_write_step_ok intro: step)
  next
    case True
    with Cons.prems(1) obtain n1 where n1: "checked_add n 1 = Inr n1"
      by (auto simp: act_bind_def act_lift_def split: sum.splits)
    show ?thesis
    proof (cases "n1 > c")
      case False
      with True n1 Cons.prems(1)
      have "act_bind (checked_write K a max_addr 0) (\<lambda>_.
        act_bind (act_lift (checked_add a USIZE_SIZE))
          (write_shrunk_words K c max_addr ms n1 sk)) w = (Inr (sk', a'), w')"
        by (auto simp: act_bind_def act_lift_def)
      then show ?thesis by (auto simp: checked_write_step_ok intro: step)
    next
      case skip: True
      with True n1 Cons.prems(1) obtain sk1
        where "write_shrunk_words K c max_addr ms n1 sk1 a w = (Inr (sk', a'), w')"
        by (auto simp: act_bind_def act_lift_def split: sum.splits)
      then show ?thesis using Cons.prems(2,3) by (rule Cons.IH)
    qed
  qed
qed

lemma unat_beyond:
  fixes a a' b :: usize
  assumes "unat a' = unat a + n" "n \<le> unat (b - a)"
  shows "unat (b - a') = unat (b - a) - n"
proof -
  have n: "n < 2 ^ 64" using assms(1) unat_lt_2p64 [of a'] by linarith
  have "a' = a + of_nat n"
    using assms(1) n by (metis of_nat_add of_nat_unat ucast_id)
  then have eq: "b - a' = (b - a) - of_nat n" by simp
  show ?thesis unfolding eq using unat_diff_offset [OF n, of "b - a"] assms(2) by simp
qed

lemma mem_put_prepend:
  assumes "length xs + length ys \<le> 2 ^ 64"
  shows "mem_put (mem_put f (a + of_nat (length xs)) ys) a xs = mem_put f a (xs @ ys)"
proof (cases "ys = []")
  case True
  then show ?thesis by simp
next
  case False
  with assms have n: "length xs < 2 ^ 64" by (cases ys) auto
  show ?thesis
  proof (rule ext)
    fix b
    have "b - (a + of_nat (length xs)) = (b - a) - of_nat (length xs)" by simp
    then have "unat (b - (a + of_nat (length xs))) =
        (if length xs \<le> unat (b - a) then unat (b - a) - length xs
         else 2 ^ 64 + unat (b - a) - length xs)"
      using unat_diff_offset [OF n] by metis
    then show "mem_put (mem_put f (a + of_nat (length xs)) ys) a xs b = mem_put f a (xs @ ys) b"
      by (auto simp: mem_put_def nth_append)
  qed
qed

section \<open>One structure, and all of them\<close>

lemma length_struct_words [simp]: "length (struct_words item) = length item div 8"
  by (simp add: struct_words_def chunks_exact_props(1))

lemma words_image_struct_words:
  "8 dvd length item \<Longrightarrow> words_image (struct_words item) = item"
  using concat_to_from_chunks [of item] by (simp add: struct_words_def comp_def)

text \<open>The words \<open>write_struct\<close> leaves in memory for one object.\<close>

definition struct_image :: "cstruct \<Rightarrow> nat \<Rightarrow> nat \<Rightarrow> u8 list \<Rightarrow> usize list" where
  "struct_image cs criteria skip item =
     (let body = drop skip (struct_words item);
          out = shrink_words criteria 0 body;
          skipped = length body - length out;
          item' = (if 0 < skipped then cs_item_size_updater cs item (cs_size cs - of_nat (skipped * 8))
                   else item)
      in take skip (struct_words item') @ out)"

lemma write_struct_frame:
  assumes wm: "word_memory K rd" and dv: "8 dvd unat max_addr - unat a"
    and sk: "unat skip * 8 < 2 ^ 64"
    and run: "write_struct K cs c max_addr skip item a w = (r, w')"
    and b: "unat max_addr - unat a \<le> unat (b - a)"
  shows "rd w' b = rd w b"
proof (cases "\<exists>rem. checked_add a (skip * USIZE_SIZE) = Inr rem \<and> rem \<le> max_addr")
  case False
  with run show ?thesis
    by (cases "checked_add a (skip * USIZE_SIZE)")
      (auto simp: write_struct_def Let_def act_bind_def act_lift_def act_err_def not_le)
next
  case True
  then obtain rem where rem: "checked_add a (skip * USIZE_SIZE) = Inr rem" "rem \<le> max_addr"
    by blast
  have ur: "unat rem = unat a + 8 * unat skip"
    using checked_add_unat [OF rem(1)] sk by (simp add: unat_mul_no_overflow)
  have le: "8 * unat skip \<le> unat max_addr - unat a"
    using rem(2) ur by (simp add: word_le_nat_alt)
  obtain r1 w1 where w1: "write_shrunk_words K c max_addr
      (drop (unat skip) (struct_words item)) 0 0 rem w = (r1, w1)" by fastforce
  have f1: "rd w1 b = rd w b"
  proof (rule write_shrunk_words_frame [OF wm _ w1])
    show "8 dvd unat max_addr - unat rem" using dv ur le
      by (metis diff_diff_left dvd_diff_nat dvd_triv_left)
    show "unat max_addr - unat rem \<le> unat (b - rem)"
      using unat_beyond [OF ur, of b] b le ur by simp
  qed
  show ?thesis
  proof (cases "w' = w1")
    case False
    have "\<exists>item'. \<exists>r2. write_words K (take (unat skip) (struct_words item')) a w1 = (r2, w')"
      using run rem w1 False
      by (auto simp: write_struct_def Let_def act_bind_def act_lift_def act_err_def act_ret_def
          not_le [symmetric] split: sum.splits prod.splits if_splits)
    then obtain item' r2 where "write_words K (take (unat skip) (struct_words item')) a w1 = (r2, w')"
      by blast
    from write_words_frame [OF wm this, of b] have "rd w' b = rd w1 b" using b le by simp
    with f1 show ?thesis by simp
  qed (simp add: f1)
qed

lemma write_struct_put:
  assumes wm: "word_memory K rd" and sk: "unat skip * 8 \<le> length item" "unat skip * 8 < 2 ^ 64"
    and upd: "\<And>n. length (cs_item_size_updater cs item n) = length item"
    and run: "write_struct K cs c max_addr skip item a w = (Inr a', w')"
  defines "img \<equiv> struct_image cs (unat c) (unat skip) item"
  shows "unat a' = unat a + 8 * length img \<and> rd w' = mem_put (rd w) a (words_image img)"
proof -
  let ?body = "drop (unat skip) (struct_words item)"
  let ?out = "shrink_words (unat c) 0 ?body"
  obtain rem sz w1 item' a2 where rem: "checked_add a (skip * USIZE_SIZE) = Inr rem"
    and w1: "write_shrunk_words K c max_addr ?body 0 0 rem w = (Inr (sz, a'), w1)"
    and item': "item' = (if sz > 0 then cs_item_size_updater cs item (cs_size cs - sz * USIZE_SIZE)
                  else item)"
    and w2: "write_words K (take (unat skip) (struct_words item')) a w1 = (Inr a2, w')"
    using run
    by (auto simp: write_struct_def Let_def act_bind_def act_lift_def act_err_def act_ret_def
        checked_sub_def split: sum.splits prod.splits if_splits)
  have ur: "unat rem = unat a + 8 * unat skip"
    using checked_add_unat [OF rem] sk(2) by (simp add: unat_mul_no_overflow)
  have rem_eq: "rem = a + of_nat (8 * unat skip)"
    using rem sk(2) by (simp add: checked_add_Inr USIZE_SIZE_def)
  have p1: "unat a' = unat rem + 8 * length ?out"
    "unat sz = length ?body - length ?out"
    "rd w1 = mem_put (rd w) rem (words_image ?out)"
    using write_shrunk_words_put [OF wm w1] by auto
  have sz: "sz * USIZE_SIZE = of_nat ((length ?body - length ?out) * 8)"
    using p1(2) by (metis USIZE_SIZE_def of_nat_mult of_nat_numeral of_nat_unat ucast_id)
  have img: "img = take (unat skip) (struct_words item') @ ?out"
    using item' sz p1(2)
    by (auto simp: img_def struct_image_def Let_def word_less_nat_alt USIZE_SIZE_def)
  have hl: "length (take (unat skip) (struct_words item')) = unat skip"
    using sk(1) item' upd by auto
  have "rd w' = mem_put (rd w1) a (words_image (take (unat skip) (struct_words item')))"
    using write_words_put [OF wm w2] by simp
  also have "\<dots> = mem_put (rd w) a (words_image img)"
    using mem_put_prepend [of "words_image (take (unat skip) (struct_words item'))"
        "words_image ?out" "rd w" a] p1 ur rem_eq hl img unat_lt_2p64 [of a']
    by simp
  finally show ?thesis using p1(1) ur img hl by simp
qed


lemma write_struct_addr:
  assumes wm: "word_memory K rd" and dv: "8 dvd unat max_addr - unat a"
    and sk: "unat skip * 8 < 2 ^ 64"
    and run: "write_struct K cs c max_addr skip item a w = (Inr a', w')"
  shows "a' \<le> max_addr \<and> 8 dvd unat max_addr - unat a' \<and> unat a \<le> unat a'"
proof -
  obtain rem sz w1 where rem: "checked_add a (skip * USIZE_SIZE) = Inr rem" "rem \<le> max_addr"
    and w1: "write_shrunk_words K c max_addr (drop (unat skip) (struct_words item)) 0 0 rem w
      = (Inr (sz, a'), w1)"
    using run
    by (auto simp: write_struct_def Let_def act_bind_def act_lift_def act_err_def act_ret_def
        split: sum.splits prod.splits if_splits)
  have ur: "unat rem = unat a + 8 * unat skip"
    using checked_add_unat [OF rem(1)] sk by (simp add: unat_mul_no_overflow)
  obtain k where k: "unat a' = unat rem + 8 * k"
    using write_shrunk_words_put [OF wm w1] by blast
  have le: "unat rem \<le> unat max_addr" using rem(2) by (simp add: word_le_nat_alt)
  have dr: "8 dvd unat max_addr - unat rem"
    using dv ur by (metis diff_diff_left dvd_diff_nat dvd_triv_left)
  have "a' \<le> max_addr" by (rule write_shrunk_words_addr [OF w1 dr rem(2)])
  moreover have "8 dvd unat max_addr - unat a'"
    using dr k by (metis diff_diff_left dvd_diff_nat dvd_triv_left)
  ultimately show ?thesis using ur k by simp
qed

lemma write_structs_loop_frame:
  assumes wm: "word_memory K rd" and sk: "unat skip * 8 < 2 ^ 64"
  shows "8 dvd unat max_addr - unat a \<Longrightarrow> a \<le> max_addr \<Longrightarrow>
    write_structs_loop K cs c max_addr skip items a w = (r, w') \<Longrightarrow>
    unat max_addr - unat a \<le> unat (b - a) \<Longrightarrow> rd w' b = rd w b"
proof (induction items arbitrary: a w)
  case Nil
  then show ?case by (simp add: res_simps)
next
  case (Cons item items)
  obtain r1 w1 where w1: "write_struct K cs c max_addr skip item a w = (r1, w1)" by fastforce
  have f1: "rd w1 b = rd w b"
    by (rule write_struct_frame [OF wm Cons.prems(1) sk w1 Cons.prems(4)])
  show ?case
  proof (cases r1)
    case (Inl e)
    with w1 Cons.prems(3) f1 show ?thesis by (simp add: res_simps)
  next
    case (Inr a1)
    have a1: "a1 \<le> max_addr" "8 dvd unat max_addr - unat a1" "unat a \<le> unat a1"
      using write_struct_addr [OF wm Cons.prems(1) sk, of cs c item w a1 w1] w1 Inr by auto
    have "unat (b - a1) = unat (b - a) - (unat a1 - unat a)"
      using a1 Cons.prems(4) by (intro unat_beyond) (auto simp: word_le_nat_alt)
    then have "unat max_addr - unat a1 \<le> unat (b - a1)" using Cons.prems(4) a1(3) by simp
    moreover have "write_structs_loop K cs c max_addr skip items a1 w1 = (r, w')"
      using Cons.prems(3) w1 Inr by (simp add: res_simps)
    ultimately show ?thesis using Cons.IH [OF a1(2,1)] f1 by simp
  qed
qed

lemma skip_header_words:
  assumes "res_bind (aligned h) (\<lambda>a. checked_div a USIZE_SIZE) = Inr skip"
  shows "unat skip = (unat h + 7) div 8 \<and> unat skip * 8 < 2 ^ 64"
proof -
  from assms obtain m where m: "aligned h = Inr m" "skip = m div USIZE_SIZE"
    by (auto simp: res_bind_Inr_iff checked_div_Inr)
  then have lt: "(unat h + 7) div 8 * 8 < 2 ^ 64" and "m = of_nat ((unat h + 7) div 8 * 8)"
    by (auto simp: aligned_Inr)
  then have "unat m = (unat h + 7) div 8 * 8" by (simp only: unat_of_nat_usize)
  then have "unat skip = (unat h + 7) div 8" by (simp add: m(2) unat_div)
  with lt show ?thesis by simp
qed

text \<open>C26: no write outside the caller's buffer.  Whatever \<open>write_structs_to_tracee\<close> is given,
  and whether it succeeds or fails half-way, every byte of the tracee outside the
  \<open>buffer_size\<close> bytes at \<open>addr\<close> keeps its value, provided the buffer is a whole number of
  machine words.\<close>

theorem write_structs_in_bounds:
  assumes "word_memory K rd" "unat buffer_size mod 8 = 0"
    "write_structs_to_tracee K cs addr buffer_size items shrink_criteria w = (r, w')"
    "unat buffer_size \<le> unat (b - addr)"
  shows "rd w' b = rd w b"
proof (cases "w' = w")
  case False
  with assms(3) obtain max_addr skip r2 where m: "checked_add addr buffer_size = Inr max_addr"
    and skip: "res_bind (aligned (cs_header_size cs)) (\<lambda>a. checked_div a USIZE_SIZE) = Inr skip"
    and run: "write_structs_loop K cs shrink_criteria max_addr skip items addr w = (r2, w')"
    by (auto simp: write_structs_to_tracee_def Let_def act_bind_def act_lift_def act_err_def
        act_ret_def split: sum.splits prod.splits if_splits)
  have um: "unat max_addr = unat addr + unat buffer_size" by (rule checked_add_unat [OF m])
  have "8 dvd unat max_addr - unat addr" "addr \<le> max_addr"
    "unat max_addr - unat addr \<le> unat (b - addr)"
    using assms(2,4) um by (auto simp: word_le_nat_alt)
  then show ?thesis
    using write_structs_loop_frame [OF assms(1) _ _ _ run] skip_header_words [OF skip] by blast
qed simp


lemma write_structs_loop_put:
  assumes wm: "word_memory K rd" and sk: "unat skip * 8 < 2 ^ 64"
  shows "(\<And>item. item \<in> set items \<Longrightarrow> unat skip * 8 \<le> length item \<and>
            (\<forall>n. length (cs_item_size_updater cs item n) = length item)) \<Longrightarrow>
    write_structs_loop K cs c max_addr skip items a w = (Inr a', w') \<Longrightarrow>
    unat a' = unat a + 8 * length (concat (map (struct_image cs (unat c) (unat skip)) items)) \<and>
    rd w' = mem_put (rd w) a (words_image (concat (map (struct_image cs (unat c) (unat skip)) items)))"
proof (induction items arbitrary: a w)
  case Nil
  then show ?case by (simp add: res_simps)
next
  case (Cons item items)
  let ?img = "struct_image cs (unat c) (unat skip) item"
  let ?imgs = "concat (map (struct_image cs (unat c) (unat skip)) items)"
  obtain a1 w1 where w1: "write_struct K cs c max_addr skip item a w = (Inr a1, w1)"
    and rest: "write_structs_loop K cs c max_addr skip items a1 w1 = (Inr a', w')"
    using Cons.prems(2) by (auto simp: act_bind_Inr_iff)
  have "unat skip * 8 \<le> length item" "\<And>n. length (cs_item_size_updater cs item n) = length item"
    using Cons.prems(1) by auto
  then have p1: "unat a1 = unat a + 8 * length ?img" "rd w1 = mem_put (rd w) a (words_image ?img)"
    using write_struct_put [OF wm _ sk _ w1] by auto
  have p2: "unat a' = unat a1 + 8 * length ?imgs" "rd w' = mem_put (rd w1) a1 (words_image ?imgs)"
    using Cons.IH [OF Cons.prems(1) rest] by auto
  have "a1 = a + of_nat (length (words_image ?img))"
    using p1(1) by (metis length_words_image of_nat_add of_nat_unat ucast_id)
  moreover have "length (words_image ?img) + length (words_image ?imgs) \<le> 2 ^ 64"
    using p1(1) p2(1) unat_lt_2p64 [of a'] unfolding length_words_image by linarith
  ultimately have "rd w' = mem_put (rd w) a (words_image ?img @ words_image ?imgs)"
    using p1(2) p2(2) mem_put_append by metis
  then show ?case using p1(1) p2(1) by simp
qed

text \<open>What a successful call leaves in memory, and what it returns.\<close>

lemma write_structs_put:
  assumes wm: "word_memory K rd"
    and items: "\<And>item. item \<in> set items \<Longrightarrow> (unat (cs_header_size cs) + 7) div 8 * 8 \<le> length item \<and>
            (\<forall>n. length (cs_item_size_updater cs item n) = length item)"
    and run: "write_structs_to_tracee K cs addr buffer_size items c w = (Inr n, w')"
  defines "ws \<equiv> concat (map (struct_image cs (unat c) ((unat (cs_header_size cs) + 7) div 8)) items)"
  shows "unat n = 8 * length ws" "rd w' = mem_put (rd w) addr (words_image ws)"
    "unat addr + 8 * length ws < 2 ^ 64"
proof -
  obtain max_addr skip a' where skip:
      "res_bind (aligned (cs_header_size cs)) (\<lambda>a. checked_div a USIZE_SIZE) = Inr skip"
    and loop: "write_structs_loop K cs c max_addr skip items addr w = (Inr a', w')"
    and n: "n = a' - addr"
    using run
    by (auto simp: write_structs_to_tracee_def Let_def act_bind_def act_lift_def act_err_def
        act_ret_def split: sum.splits prod.splits if_splits)
  have sk: "unat skip = (unat (cs_header_size cs) + 7) div 8" "unat skip * 8 < 2 ^ 64"
    using skip_header_words [OF skip] by auto
  have p: "unat a' = unat addr + 8 * length ws" "rd w' = mem_put (rd w) addr (words_image ws)"
    using write_structs_loop_put [OF wm sk(2) _ loop] items sk(1) by (auto simp: ws_def)
  then show "rd w' = mem_put (rd w) addr (words_image ws)" by simp
  have "addr \<le> a'" using p(1) by (simp add: word_le_nat_alt)
  then show "unat n = 8 * length ws" using p(1) n by (simp add: unat_sub)
  show "unat addr + 8 * length ws < 2 ^ 64" using p(1) unat_lt_2p64 [of a'] by linarith
qed

end
