(* ===== verification/Ptrace_Mem.thy ===== *)
theory Ptrace_Mem
  imports Ptrace_Structs
begin

text \<open>
  The two implementations of \<open>MemHelpers\<close>: \<open>src/ptrace/src/mem_slow.rs\<close> goes through ptrace
  requests word by word, \<open>src/ptrace/src/mem_direct.rs\<close> reads \<open>/proc/<pid>/mem\<close> and writes to a
  region of memory shared with the tracee.  The state of a tracer thread is the record
  \<open>tracer\<close>: the world, the process-wide tables of shared regions, and the thread's own
  variables.  The locale \<open>byte_reader\<close> is the contract of \<open>read_bytes\<close>; \<open>stack_writer\<close> the
  contract of \<open>write_bytes_to_tracee\<close>.  Both are interpreted on the two implementations, and
  what the callers rely on (C strings are read completely, structures are read back as they
  were written, appended buffers never overlap) is proved once, from the contracts.
\<close>

section \<open>State of a tracer thread\<close>

record 'w tracer =
  tr_world :: 'w
  SHARED_REGIONS :: "u8 list option list"
  AVAILABLE_REGION_IDS :: "nat list"
  REGION_IDS_BY_PID :: "pid \<rightharpoonup> nat"
  TRACEE_READ_FD :: "unit option"
  TRACEE_WRITE_REGION_ADDR :: "usize option"
  TRACEE_WRITE_REGION_ID :: "nat option"

definition on_world :: "('w, 'e, 'a) act \<Rightarrow> ('w tracer, 'e, 'a) act" where
  "on_world m = (\<lambda>s. case m (tr_world s) of (r, w') \<Rightarrow> (r, s\<lparr>tr_world := w'\<rparr>))"

definition splice :: "'a list \<Rightarrow> nat \<Rightarrow> 'a list \<Rightarrow> 'a list" where
  "splice xs k ys = take k xs @ ys @ drop (k + length ys) xs"

lemma length_splice [simp]: "k + length ys \<le> length xs \<Longrightarrow> length (splice xs k ys) = length xs"
  by (simp add: splice_def)

section \<open>Zero-terminated reads\<close>

text \<open>One pass over a block of bytes: \<open>Inl\<close> when the required run of zero bytes is complete,
  \<open>Inr\<close> with the run so far and the bytes collected otherwise.\<close>

fun scan_zeroes :: "usize \<Rightarrow> u8 list \<Rightarrow> usize \<Rightarrow> u8 list \<Rightarrow> u8 list + (usize \<times> u8 list)" where
  "scan_zeroes n0 [] total_zeroes result = Inr (total_zeroes, result)"
| "scan_zeroes n0 (byte # bytes) total_zeroes result =
     (if byte = 0 then
        (if total_zeroes + 1 \<ge> n0 then Inl result
         else scan_zeroes n0 bytes (total_zeroes + 1) (result @ [byte]))
      else scan_zeroes n0 bytes 0 (result @ [byte]))"

section \<open>The slow helpers\<close>

definition slow_write_words ::
  "'w kernel \<Rightarrow> usize list \<Rightarrow> usize \<Rightarrow> ('w, ptrace_error, usize) act" where
  "slow_write_words K usizes addr = write_words K usizes addr"

definition slow_write_bytes_to_tracee ::
  "'w kernel \<Rightarrow> usize \<Rightarrow> u8 list \<Rightarrow> ('w, ptrace_error, usize \<times> usize) act" where
  "slow_write_bytes_to_tracee K offset bytes =
     (if offset mod USIZE_SIZE \<noteq> 0 then act_err (WriteOffsetNotAligned offset)
      else act_bind (act_lift (bytes_to_usizes bytes)) (\<lambda>usizes.
           act_bind (act_lift (checked_mul (of_nat (length usizes)) USIZE_SIZE)) (\<lambda>size.
           act_bind (getregs K) (\<lambda>r.
           act_bind (act_lift (res_bind (checked_add STACK_SAFE_ZONE_SIZE size) (checked_add offset)))
             (\<lambda>total_offset.
           act_bind (act_lift (checked_sub (sp r) total_offset)) (\<lambda>start.
           act_bind (slow_write_words K usizes start) (\<lambda>_.
           act_bind (act_lift (checked_add offset size)) (\<lambda>new_offset.
           act_ret (start, new_offset)))))))))"

function slow_read_loop ::
  "'w kernel \<Rightarrow> usize \<Rightarrow> usize \<Rightarrow> usize \<Rightarrow> u8 list \<Rightarrow> ('w, ptrace_error, u8 list) act" where
  "slow_read_loop K sz curr_addr n_bytes_read result w =
     (if n_bytes_read < sz then
        (case checked_add n_bytes_read USIZE_SIZE of
           Inl e \<Rightarrow> (Inl e, w)
         | Inr new_n_bytes_read \<Rightarrow>
             (case ptrace_read K curr_addr w of
                (Inl e, w') \<Rightarrow> (Inl e, w')
              | (Inr machine_word, w') \<Rightarrow>
                  (let result' =
                     (if new_n_bytes_read > sz
                      then splice result (unat n_bytes_read)
                             (take (unat (sz - n_bytes_read)) (to_ne_bytes machine_word))
                      else splice result (unat n_bytes_read) (to_ne_bytes machine_word))
                   in case checked_add curr_addr USIZE_SIZE of
                        Inl e \<Rightarrow> (Inl e, w')
                      | Inr curr_addr' \<Rightarrow>
                          slow_read_loop K sz curr_addr' new_n_bytes_read result' w')))
      else (Inr result, w))"
  by pat_completeness auto
termination
proof (relation "measure (\<lambda>(K, sz, curr_addr, n, result, w). unat sz - unat n)",
    goal_cases)
  case 1
  then show ?case by simp
next
  case (2 K sz curr_addr n result w x2)
  then have "unat x2 = unat n + 8" by (simp add: checked_add_unat)
  with 2(1) show ?case by (simp add: word_less_nat_alt)
qed

declare slow_read_loop.simps [simp del]

definition slow_read_bytes ::
  "'w kernel \<Rightarrow> usize \<Rightarrow> usize \<Rightarrow> u8 list \<Rightarrow> ('w, ptrace_error, u8 list) act" where
  "slow_read_bytes K addr sz result = slow_read_loop K sz addr 0 result"

function slow_until_loop ::
  "'w kernel \<Rightarrow> usize \<Rightarrow> usize \<Rightarrow> usize \<Rightarrow> u8 list \<Rightarrow> ('w, ptrace_error, u8 list) act" where
  "slow_until_loop K n0 curr_addr total_zeroes result w =
     (case ptrace_read K curr_addr w of
        (Inl e, w') \<Rightarrow> (Inl e, w')
      | (Inr machine_word, w') \<Rightarrow>
          (case scan_zeroes n0 (to_ne_bytes machine_word) total_zeroes result of
             Inl done_bytes \<Rightarrow> (Inr done_bytes, w')
           | Inr (total_zeroes', result') \<Rightarrow>
               (case checked_add curr_addr USIZE_SIZE of
                  Inl e \<Rightarrow> (Inl e, w')
                | Inr curr_addr' \<Rightarrow> slow_until_loop K n0 curr_addr' total_zeroes' result' w')))"
  by pat_completeness auto
termination
proof (relation "measure (\<lambda>(K, n0, curr_addr, z, result, w). 2 ^ 64 - unat curr_addr)", goal_cases)
  case 1
  then show ?case by simp
next
  case (2 K n0 curr_addr z result w x y z' p r1 r2 x2)
  then have "unat x2 = unat curr_addr + 8" by (simp add: checked_add_unat)
  then show ?case using unat_lt_2p64 [of x2] by simp
qed

declare slow_until_loop.simps [simp del]

definition slow_read_bytes_until_num_zeroes ::
  "'w kernel \<Rightarrow> usize \<Rightarrow> usize \<Rightarrow> ('w, ptrace_error, u8 list) act" where
  "slow_read_bytes_until_num_zeroes K addr n0 = slow_until_loop K n0 addr 0 []"

definition slow_read_bytes_until_zero :: "'w kernel \<Rightarrow> usize \<Rightarrow> ('w, ptrace_error, u8 list) act" where
  "slow_read_bytes_until_zero K addr = slow_read_bytes_until_num_zeroes K addr 1"

definition slow_close_tracee :: "pid \<Rightarrow> ('w tracer, ptrace_error, unit) act" where
  "slow_close_tracee pid = act_ret ()"

definition SLOW_MEM_HELPERS :: "'w kernel \<Rightarrow> 'w tracer mem_helpers" where
  "SLOW_MEM_HELPERS K = \<lparr>
     mh_close_tracee = slow_close_tracee,
     mh_read = (\<lambda>a. on_world (ptrace_read K a)),
     mh_read_bytes = (\<lambda>a n buf. on_world (slow_read_bytes K a n buf)),
     mh_read_bytes_until_num_zeroes = (\<lambda>a n0. on_world (slow_read_bytes_until_num_zeroes K a n0)),
     mh_read_bytes_until_zero = (\<lambda>a. on_world (slow_read_bytes_until_zero K a)),
     mh_write_bytes_to_tracee = (\<lambda>off bs. on_world (slow_write_bytes_to_tracee K off bs)) \<rparr>"


section \<open>The direct helpers\<close>

definition READ_BUFFER_SIZE :: usize where "READ_BUFFER_SIZE = 1024"

definition set_tracee_write_region_addr :: "usize \<Rightarrow> ('w tracer, ptrace_error, unit) act" where
  "set_tracee_write_region_addr addr =
     (if addr = 0 then act_err (IntIsZero ''set_tracee_write_region_addr/addr'')
      else act_upd (\<lambda>s. s\<lparr>TRACEE_WRITE_REGION_ADDR := Some addr\<rparr>))"

definition get_own_region_id :: "pid \<Rightarrow> ('w tracer, ptrace_error, nat) act" where
  "get_own_region_id pid = (\<lambda>s.
     case TRACEE_WRITE_REGION_ID s of
       Some v \<Rightarrow> (Inr v, s)
     | None \<Rightarrow>
         (if AVAILABLE_REGION_IDS s = [] then (Inl MaxTracee, s)
          else let result = last (AVAILABLE_REGION_IDS s)
               in (Inr result,
                   s\<lparr>AVAILABLE_REGION_IDS := butlast (AVAILABLE_REGION_IDS s),
                     TRACEE_WRITE_REGION_ID := Some result,
                     REGION_IDS_BY_PID := (REGION_IDS_BY_PID s)(pid \<mapsto> result)\<rparr>)))"

definition get_region_id :: "pid \<Rightarrow> ('w tracer, ptrace_error, nat option) act" where
  "get_region_id pid = act_get (\<lambda>s. REGION_IDS_BY_PID s pid)"

definition get_region_box :: "nat \<Rightarrow> ('w tracer, ptrace_error, u8 list) act" where
  "get_region_box region_id = (\<lambda>s.
     if region_id < length (SHARED_REGIONS s)
     then (ok_or LockGlobalMmap (SHARED_REGIONS s ! region_id), s)
     else (Inl (RustPanic ''index out of bounds''), s))"

definition put_region_box :: "nat \<Rightarrow> u8 list \<Rightarrow> 'w tracer \<Rightarrow> 'w tracer" where
  "put_region_box region_id bs s = s\<lparr>SHARED_REGIONS := (SHARED_REGIONS s)[region_id := Some bs]\<rparr>"

definition direct_close_tracee :: "pid \<Rightarrow> ('w tracer, ptrace_error, unit) act" where
  "direct_close_tracee pid =
     act_bind (act_get (\<lambda>s. REGION_IDS_BY_PID s pid)) (\<lambda>removed.
     act_bind (act_upd (\<lambda>s. s\<lparr>REGION_IDS_BY_PID := (REGION_IDS_BY_PID s)(pid := None)\<rparr>)) (\<lambda>_.
     act_bind (act_lift (ok_or LockGlobalMmap removed)) (\<lambda>region_id.
     act_bind (get_region_box region_id) (\<lambda>region_box.
     act_upd (\<lambda>s. (put_region_box region_id (replicate (length region_box) 0) s)
       \<lparr>AVAILABLE_REGION_IDS := AVAILABLE_REGION_IDS s @ [region_id]\<rparr>)))))"

definition direct_write_bytes_to_tracee ::
  "pid \<Rightarrow> usize \<Rightarrow> u8 list \<Rightarrow> ('w tracer, ptrace_error, usize \<times> usize) act" where
  "direct_write_bytes_to_tracee pid offset bytes =
     act_bind (act_get TRACEE_WRITE_REGION_ADDR) (\<lambda>val.
     act_bind (act_lift (ok_or MmapUninitialized val)) (\<lambda>tracee_base.
     act_bind (act_lift (checked_add tracee_base offset)) (\<lambda>tracee_start.
     act_bind (act_lift (checked_add offset (of_nat (length bytes)))) (\<lambda>new_offset.
     if offset \<ge> STACK_SAFE_ZONE_SIZE
     then act_err (IntTooBigEqual offset STACK_SAFE_ZONE_SIZE)
     else if new_offset > STACK_SAFE_ZONE_SIZE
     then act_err (BufferOverflow offset (of_nat (length bytes)) STACK_SAFE_ZONE_SIZE)
     else act_bind (get_own_region_id pid) (\<lambda>region_id.
          if region_id > unat MAX_NUM_TRACEES
          then act_err (BufferOverflow 0 (of_nat region_id) MAX_NUM_TRACEES)
          else act_bind (get_region_box region_id) (\<lambda>region_box.
               act_bind (act_upd (put_region_box region_id
                          (splice region_box (unat offset) bytes))) (\<lambda>_.
               act_ret (tracee_start, new_offset))))))))"

definition direct_pread ::
  "'w kernel \<Rightarrow> usize \<Rightarrow> usize \<Rightarrow> u8 list \<Rightarrow> ('w tracer, ptrace_error, u8 list) act" where
  "direct_pread K addr sz result = (\<lambda>s.
     if unat sz > length result then (Inl (RustPanic ''range end out of bounds''), s)
     else (map_err ReadErr (map_sum id (\<lambda>bs. splice result 0 bs) (k_pread K (tr_world s) addr (unat sz))), s))"

definition direct_read_bytes ::
  "'w kernel \<Rightarrow> usize \<Rightarrow> usize \<Rightarrow> u8 list \<Rightarrow> ('w tracer, ptrace_error, u8 list) act" where
  "direct_read_bytes K addr sz result =
     act_bind (act_get TRACEE_READ_FD) (\<lambda>maybe_fd.
     case maybe_fd of
       Some orig_fd \<Rightarrow> direct_pread K addr sz result
     | None \<Rightarrow>
         act_bind (\<lambda>s. (map_err ReadErr (k_open_mem K (tr_world s)), s)) (\<lambda>mmap_fd.
         act_bind (direct_pread K addr sz result) (\<lambda>result'.
         act_bind (act_upd (\<lambda>s. s\<lparr>TRACEE_READ_FD := Some mmap_fd\<rparr>)) (\<lambda>_.
         act_ret result'))))"

function direct_until_loop ::
  "'w kernel \<Rightarrow> usize \<Rightarrow> usize \<Rightarrow> usize \<Rightarrow> u8 list \<Rightarrow> u8 list \<Rightarrow>
   ('w tracer, ptrace_error, u8 list) act" where
  "direct_until_loop K n0 curr_addr total_zeroes buffer result s =
     (case direct_read_bytes K curr_addr READ_BUFFER_SIZE buffer s of
        (Inl e, s') \<Rightarrow> (Inl e, s')
      | (Inr buffer', s') \<Rightarrow>
          (case scan_zeroes n0 buffer' total_zeroes result of
             Inl done_bytes \<Rightarrow> (Inr done_bytes, s')
           | Inr (total_zeroes', result') \<Rightarrow>
               (case checked_add curr_addr READ_BUFFER_SIZE of
                  Inl e \<Rightarrow> (Inl e, s')
                | Inr curr_addr' \<Rightarrow>
                    direct_until_loop K n0 curr_addr' total_zeroes' buffer' result' s')))"
  by pat_completeness auto
termination
proof (relation "measure (\<lambda>(K, n0, curr_addr, z, buffer, result, w). 2 ^ 64 - unat curr_addr)",
    goal_cases)
  case 1
  then show ?case by simp
next
  case (2 K n0 curr_addr z buffer result w x y z' p r1 r2 x2)
  then have "unat x2 = unat curr_addr + 1024" by (simp add: checked_add_unat READ_BUFFER_SIZE_def)
  then show ?case using unat_lt_2p64 [of x2] by simp
qed

declare direct_until_loop.simps [simp del]

definition direct_read_bytes_until_num_zeroes ::
  "'w kernel \<Rightarrow> usize \<Rightarrow> usize \<Rightarrow> ('w tracer, ptrace_error, u8 list) act" where
  "direct_read_bytes_until_num_zeroes K addr n0 =
     direct_until_loop K n0 addr 0 (replicate (unat READ_BUFFER_SIZE) 0) []"

definition direct_read_bytes_until_zero ::
  "'w kernel \<Rightarrow> usize \<Rightarrow> ('w tracer, ptrace_error, u8 list) act" where
  "direct_read_bytes_until_zero K addr = direct_read_bytes_until_num_zeroes K addr 1"

definition DIRECT_MEM_HELPERS :: "'w kernel \<Rightarrow> pid \<Rightarrow> 'w tracer mem_helpers" where
  "DIRECT_MEM_HELPERS K pid = \<lparr>
     mh_close_tracee = direct_close_tracee,
     mh_read = (\<lambda>a. on_world (ptrace_read K a)),
     mh_read_bytes = direct_read_bytes K,
     mh_read_bytes_until_num_zeroes = direct_read_bytes_until_num_zeroes K,
     mh_read_bytes_until_zero = direct_read_bytes_until_zero K,
     mh_write_bytes_to_tracee = direct_write_bytes_to_tracee pid \<rparr>"

section \<open>Contract of the byte readers\<close>

definition mem_slice :: "(usize \<Rightarrow> u8) \<Rightarrow> usize \<Rightarrow> nat \<Rightarrow> u8 list" where
  "mem_slice f a n = map (\<lambda>i. f (a + of_nat i)) [0..<n]"

lemma length_mem_slice [simp]: "length (mem_slice f a n) = n"
  by (simp add: mem_slice_def)

lemma nth_mem_slice [simp]: "i < n \<Longrightarrow> mem_slice f a n ! i = f (a + of_nat i)"
  by (simp add: mem_slice_def)

lemma mem_slice_add: "mem_slice f a (m + n) = mem_slice f a m @ mem_slice f (a + of_nat m) n"
  by (rule nth_equalityI) (auto simp: nth_append of_nat_diff)

lemma take_mem_slice: "m \<le> n \<Longrightarrow> take m (mem_slice f a n) = mem_slice f a m"
  by (rule nth_equalityI) auto

locale byte_reader =
  fixes read_bytes :: "'w kernel \<Rightarrow> usize \<Rightarrow> usize \<Rightarrow> u8 list \<Rightarrow> ('s, ptrace_error, u8 list) act"
    and world :: "'s \<Rightarrow> 'w"
  assumes read_world: "read_bytes K a n buf s = (r, s') \<Longrightarrow> world s' = world s"
    and read_content:
      "word_memory K rd \<Longrightarrow> full_reads K \<Longrightarrow> unat n \<le> length buf \<Longrightarrow>
       read_bytes K a n buf s = (Inr buf', s') \<Longrightarrow>
       buf' = mem_slice (rd (world s)) a (unat n) @ drop (unat n) buf"

lemma peek_slice:
  assumes "word_memory K rd" "k_peek K w a = Inr v"
  shows "to_ne_bytes v = mem_slice (rd w) a 8"
  by (rule nth_equalityI) (simp_all add: word_memory_peek [OF assms])

lemma slow_read_loop_step:
  assumes "k < n" "checked_add k USIZE_SIZE = Inr k'" "k_peek K w a = Inr v"
    "checked_add a USIZE_SIZE = Inr a'"
  shows "slow_read_loop K n a k buf w =
    slow_read_loop K n a' k' (splice buf (unat k) (take (unat n - unat k) (to_ne_bytes v))) w"
proof -
  have "unat (n - k) = unat n - unat k" using assms(1) by (simp add: unat_sub)
  moreover have "take (unat n - unat k) (to_ne_bytes v) = to_ne_bytes v" if "\<not> n < k'"
    using that checked_add_unat [OF assms(2)] by (simp add: not_less word_le_nat_alt)
  ultimately show ?thesis
    using assms by (subst slow_read_loop.simps) (auto simp: ptrace_read_def Let_def)
qed

lemma slow_read_loop_cases:
  assumes "slow_read_loop K n a k buf w = (r, w')"
  obtains (stop) "w' = w" "\<forall>buf'. r = Inr buf' \<longrightarrow> \<not> k < n \<and> buf' = buf"
  | (step) v k' a' where "k < n" "checked_add k USIZE_SIZE = Inr k'" "k_peek K w a = Inr v"
      "checked_add a USIZE_SIZE = Inr a'"
  using assms
  by (subst (asm) slow_read_loop.simps)
    (auto simp: ptrace_read_def split: if_splits sum.splits)

lemma slow_read_loop_world: "slow_read_loop K n a k buf w = (r, w') \<Longrightarrow> w' = w"
proof (induction "unat n - unat k" arbitrary: a k buf rule: less_induct)
  case less
  from less.prems show ?case
  proof (cases rule: slow_read_loop_cases)
    case (step v k' a')
    have "unat n - unat k' < unat n - unat k"
      using checked_add_unat [OF step(2)] step(1) by (simp add: word_less_nat_alt)
    moreover have "slow_read_loop K n a' k'
        (splice buf (unat k) (take (unat n - unat k) (to_ne_bytes v))) w = (r, w')"
      using less.prems slow_read_loop_step [OF step] by simp
    ultimately show ?thesis by (rule less.hyps)
  qed
qed

lemma slow_read_loop_spec:
  assumes wm: "word_memory K rd"
  shows "slow_read_loop K n a k buf w = (r, w') \<Longrightarrow> w' = w \<and>
    (\<forall>buf'. r = Inr buf' \<longrightarrow> unat n \<le> length buf \<longrightarrow> unat k \<le> unat n \<longrightarrow>
       buf' = take (unat k) buf @ mem_slice (rd w) a (unat n - unat k) @ drop (unat n) buf)"
proof (induction "unat n - unat k" arbitrary: a k buf rule: less_induct)
  case less
  from less.prems show ?case
  proof (cases rule: slow_read_loop_cases)
    case stop
    then show ?thesis by (auto simp: not_less word_le_nat_alt mem_slice_def)
  next
    case (step v k' a')
    let ?buf = "splice buf (unat k) (take (unat n - unat k) (to_ne_bytes v))"
    have kn: "unat k < unat n" using step(1) by (simp add: word_less_nat_alt)
    have uk: "unat k' = unat k + 8" using checked_add_unat [OF step(2)] by simp
    have a': "a' = a + of_nat 8" using step(4) by (simp add: checked_add_Inr USIZE_SIZE_def)
    have bs: "to_ne_bytes v = mem_slice (rd w) a 8" by (rule peek_slice [OF wm step(3)])
    have run: "slow_read_loop K n a' k' ?buf w = (r, w')"
      using less.prems slow_read_loop_step [OF step(1-4)] by simp
    show ?thesis
    proof (cases "unat k' \<le> unat n")
      case True
      have IH: "w' = w \<and> (\<forall>buf'. r = Inr buf' \<longrightarrow> unat n \<le> length ?buf \<longrightarrow> unat k' \<le> unat n \<longrightarrow>
         buf' = take (unat k') ?buf @ mem_slice (rd w) a' (unat n - unat k') @ drop (unat n) ?buf)"
        by (rule less.hyps [OF _ run]) (use kn uk in simp)
      have "mem_slice (rd w) a (unat n - unat k) =
          mem_slice (rd w) a 8 @ mem_slice (rd w) a' (unat n - unat k')"
        using mem_slice_add [of "rd w" a 8 "unat n - unat k'"] True uk a' by simp
      then show ?thesis using IH True uk bs by (auto simp: splice_def)
    next
      case False
      then have "slow_read_loop K n a' k' ?buf w = (Inr ?buf, w)"
        by (subst slow_read_loop.simps) (simp add: word_less_nat_alt)
      with run False uk kn show ?thesis by (auto simp: splice_def bs take_mem_slice)
    qed
  qed
qed

interpretation slow_reader: byte_reader "\<lambda>K a n buf. on_world (slow_read_bytes K a n buf)" tr_world
proof unfold_locales
  fix K :: "'a kernel" and a n buf r and s s' :: "'a tracer"
  assume "on_world (slow_read_bytes K a n buf) s = (r, s')"
  then show "tr_world s' = tr_world s" 
    by (auto simp: on_world_def slow_read_bytes_def split: prod.splits dest: slow_read_loop_world)
next
  fix K :: "'a kernel" and rd a n buf buf' and s s' :: "'a tracer"
  assume wm: "word_memory K rd" and l: "unat n \<le> length buf"
    and "on_world (slow_read_bytes K a n buf) s = (Inr buf', s')"
  then obtain w' where "slow_read_loop K n a 0 buf (tr_world s) = (Inr buf', w')"
    by (auto simp: on_world_def slow_read_bytes_def split: prod.splits)
  from slow_read_loop_spec [OF wm this] l
  show "buf' = mem_slice (rd (tr_world s)) a (unat n) @ drop (unat n) buf" by simp
qed


lemma direct_pread_spec:
  assumes "direct_pread K a n buf s = (r, s')"
  shows "s' = s"
    and "word_memory K rd \<Longrightarrow> full_reads K \<Longrightarrow> r = Inr buf' \<Longrightarrow>
      buf' = mem_slice (rd (tr_world s)) a (unat n) @ drop (unat n) buf"
proof -
  show "s' = s" using assms by (auto simp: direct_pread_def split: if_splits)
  assume wm: "word_memory K rd" and "full_reads K" and r: "r = Inr buf'"
  then obtain bs where bs: "k_pread K (tr_world s) a (unat n) = Inr bs" "buf' = splice buf 0 bs"
    using assms
    by (auto simp: direct_pread_def split: if_splits)
      (cases "k_pread K (tr_world s) a (unat n)"; simp)
  have "length bs = unat n" using \<open>full_reads K\<close> bs(1) by (auto simp: full_reads_def)
  moreover have "bs = mem_slice (rd (tr_world s)) a (length bs)"
    using word_memory_pread [OF wm bs(1)] by (intro nth_equalityI) auto
  ultimately show "buf' = mem_slice (rd (tr_world s)) a (unat n) @ drop (unat n) buf"
    using bs(2) by (simp add: splice_def)
qed

lemma direct_read_bytes_cases:
  assumes "direct_read_bytes K a n buf s = (r, s')"
  obtains (fail) e where "r = Inl e" "s' = s"
  | (read) r1 where "direct_pread K a n buf s = (r1, s)" "r = r1" "tr_world s' = tr_world s"
  using assms direct_pread_spec(1) [of K a n buf s]
  by (auto simp: direct_read_bytes_def res_simps split: option.splits sum.splits prod.splits)

interpretation direct_reader: byte_reader direct_read_bytes tr_world
proof unfold_locales
  fix K :: "'a kernel" and a n buf r and s s' :: "'a tracer"
  assume "direct_read_bytes K a n buf s = (r, s')"
  then show "tr_world s' = tr_world s" by (cases rule: direct_read_bytes_cases) auto
next
  fix K :: "'a kernel" and rd a n buf buf' and s s' :: "'a tracer"
  assume wm: "word_memory K rd" "full_reads K" and "direct_read_bytes K a n buf s = (Inr buf', s')"
  then have "direct_pread K a n buf s = (Inr buf', s)" by (auto elim!: direct_read_bytes_cases)
  from direct_pread_spec(2) [OF this wm refl]
  show "buf' = mem_slice (rd (tr_world s)) a (unat n) @ drop (unat n) buf" .
qed

section \<open>Contract of the zero-terminated readers\<close>

text \<open>\<open>stops_at n bs\<close>: \<open>bs\<close> followed by a zero byte ends in the first run of \<open>n\<close> zero bytes.\<close>

definition has_run :: "nat \<Rightarrow> u8 list \<Rightarrow> bool" where
  "has_run n bs \<longleftrightarrow> (\<exists>p q. bs = p @ replicate n 0 @ q)"

definition stops_at :: "nat \<Rightarrow> u8 list \<Rightarrow> bool" where
  "stops_at n bs \<longleftrightarrow> \<not> has_run n bs \<and> (\<exists>p. bs @ [0] = p @ replicate n 0)"

definition zero_tail :: "u8 list \<Rightarrow> nat" where
  "zero_tail bs = length (takeWhile (\<lambda>b. b = 0) (rev bs))"

lemma zero_tail_Nil [simp]: "zero_tail [] = 0"
  by (simp add: zero_tail_def)

lemma zero_tail_snoc [simp]: "zero_tail (bs @ [b]) = (if b = 0 then Suc (zero_tail bs) else 0)"
  by (simp add: zero_tail_def)

lemma zero_tail_split: "\<exists>p. bs = p @ replicate (zero_tail bs) 0"
proof (induction bs rule: rev_induct)
  case Nil
  then show ?case by simp
next
  case (snoc b bs)
  then obtain p where p: "bs = p @ replicate (zero_tail bs) 0" by blast
  show ?case
  proof (cases "b = 0")
    case True
    have "replicate (Suc (zero_tail bs)) (0 :: u8) = replicate (zero_tail bs) 0 @ [0]"
      by (simp add: replicate_append_same)
    with p True have "bs @ [b] = p @ replicate (Suc (zero_tail bs)) 0" by (metis append_assoc)
    with True show ?thesis by (metis zero_tail_snoc)
  qed simp
qed

lemma zero_tail_append_zeroes: "zero_tail (p @ replicate n 0) = n + zero_tail p"
proof (induction n)
  case (Suc n)
  have "zero_tail ((p @ replicate n 0) @ [0]) = Suc (n + zero_tail p)"
    using Suc by (simp only: zero_tail_snoc) simp
  then show ?case by (simp add: replicate_append_same)
qed simp

lemma zero_tail_suffix: "bs = p @ replicate n 0 \<Longrightarrow> n \<le> zero_tail bs"
  by (simp add: zero_tail_append_zeroes)

lemma has_run_snoc: "has_run n (bs @ [b]) \<longleftrightarrow> has_run n bs \<or> n \<le> zero_tail (bs @ [b])"
proof
  assume "has_run n (bs @ [b])"
  then obtain p q where pq: "bs @ [b] = p @ replicate n 0 @ q" by (auto simp: has_run_def)
  show "has_run n bs \<or> n \<le> zero_tail (bs @ [b])"
  proof (cases q rule: rev_cases)
    case Nil
    with pq show ?thesis using zero_tail_suffix [of "bs @ [b]" p n] by simp
  next
    case (snoc q' x)
    with pq have "bs = p @ replicate n 0 @ q'" by simp
    then show ?thesis by (auto simp: has_run_def)
  qed
next
  assume "has_run n bs \<or> n \<le> zero_tail (bs @ [b])"
  then show "has_run n (bs @ [b])"
  proof
    assume "has_run n bs"
    then show ?thesis by (force simp: has_run_def)
  next
    assume n: "n \<le> zero_tail (bs @ [b])"
    obtain p where "bs @ [b] = p @ replicate (zero_tail (bs @ [b])) 0"
      using zero_tail_split by blast
    also have "\<dots> = (p @ replicate (zero_tail (bs @ [b]) - n) 0) @ replicate n 0 @ []"
      using n by (simp flip: replicate_add)
    finally show ?thesis unfolding has_run_def by metis
  qed
qed


lemma no_run_tail: "\<not> has_run n bs \<Longrightarrow> zero_tail bs < n"
proof (rule ccontr)
  assume "\<not> has_run n bs" "\<not> zero_tail bs < n"
  obtain p where "bs = p @ replicate (zero_tail bs) 0" using zero_tail_split by blast
  also have "\<dots> = (p @ replicate (zero_tail bs - n) 0) @ replicate n 0 @ []"
    using \<open>\<not> zero_tail bs < n\<close> by (simp flip: replicate_add)
  finally have "has_run n bs" unfolding has_run_def by metis
  with \<open>\<not> has_run n bs\<close> show False by simp
qed

lemma scan_zeroes_spec:
  assumes "unat tz = zero_tail acc" "\<not> has_run (unat n0) acc"
  shows "case scan_zeroes n0 bytes tz acc of
      Inl r \<Rightarrow> stops_at (unat n0) r \<and> (\<exists>q. acc @ bytes = r @ 0 # q)
    | Inr (tz', acc') \<Rightarrow> acc' = acc @ bytes \<and> unat tz' = zero_tail acc' \<and> \<not> has_run (unat n0) acc'"
  using assms
proof (induction bytes arbitrary: tz acc)
  case Nil
  then show ?case by simp
next
  case (Cons byte bytes)
  have lt: "zero_tail acc < unat n0" using Cons.prems(2) by (rule no_run_tail)
  then have "unat tz + 1 < 2 ^ 64" using Cons.prems(1) unat_lt_2p64 [of n0] by linarith
  then have t1: "unat (tz + 1) = Suc (zero_tail acc)"
    using Cons.prems(1) by (simp add: unat_add_no_overflow)
  consider (nz) "byte \<noteq> 0" | (stop) "byte = 0" "n0 \<le> tz + 1" | (more) "byte = 0" "\<not> n0 \<le> tz + 1"
    by blast
  then show ?case
  proof cases
    case nz
    have "unat 0 = zero_tail (acc @ [byte])" "\<not> has_run (unat n0) (acc @ [byte])"
      using nz Cons.prems lt by (simp_all add: has_run_snoc)
    from Cons.IH [OF this, unfolded append_assoc append.simps] nz show ?thesis by simp
  next
    case stop
    have eq: "unat n0 = Suc (zero_tail acc)" using stop(2) t1 lt by (simp add: word_le_nat_alt)
    obtain p where p: "acc = p @ replicate (zero_tail acc) 0" using zero_tail_split by blast
    have "acc @ [0] = p @ replicate (unat n0) 0"
      using p unfolding eq replicate_Suc replicate_append_same [symmetric]
      by (metis append_assoc)
    then have "stops_at (unat n0) acc" using Cons.prems(2) by (auto simp: stops_at_def)
    with stop show ?thesis by auto
  next
    case more
    have "Suc (zero_tail acc) < unat n0" using more(2) t1 by (simp add: word_le_nat_alt)
    then have "unat (tz + 1) = zero_tail (acc @ [byte])" "\<not> has_run (unat n0) (acc @ [byte])"
      using more t1 Cons.prems by (simp_all add: has_run_snoc)
    from Cons.IH [OF this, unfolded append_assoc append.simps] more show ?thesis by simp
  qed
qed

locale zero_reader =
  fixes until :: "'w kernel \<Rightarrow> usize \<Rightarrow> usize \<Rightarrow> ('s, ptrace_error, u8 list) act"
    and world :: "'s \<Rightarrow> 'w"
  assumes until_world: "until K a n0 s = (r, s') \<Longrightarrow> world s' = world s"
    and until_content:
      "word_memory K rd \<Longrightarrow> full_reads K \<Longrightarrow> n0 \<noteq> 0 \<Longrightarrow> until K a n0 s = (Inr bs, s') \<Longrightarrow>
       stops_at (unat n0) bs \<and> bs @ [0] = mem_slice (rd (world s)) a (Suc (length bs))"
begin

lemma c_string:
  assumes "word_memory K rd" "full_reads K" "until K a 1 s = (Inr bs, s')"
  shows "0 \<notin> set bs \<and> bs @ [0] = mem_slice (rd (world s)) a (Suc (length bs))"
proof -
  have st: "stops_at 1 bs" and eq: "bs @ [0] = mem_slice (rd (world s)) a (Suc (length bs))"
    using until_content [OF assms(1,2) _ assms(3)] by auto
  have "0 \<notin> set bs"
  proof
    assume "0 \<in> set bs"
    then obtain p q where "bs = p @ 0 # q" by (auto dest: split_list)
    then have "has_run 1 bs" by (auto simp: has_run_def)
    with st show False by (simp add: stops_at_def)
  qed
  with eq show ?thesis by simp
qed

end

text \<open>Progress of a block-wise scan: the bytes collected so far are the memory from the start.\<close>

definition scanned :: "(usize \<Rightarrow> u8) \<Rightarrow> usize \<Rightarrow> usize \<Rightarrow> usize \<Rightarrow> usize \<Rightarrow> u8 list \<Rightarrow> bool" where
  "scanned f a n0 cur tz acc \<longleftrightarrow> acc = mem_slice f a (length acc) \<and> cur = a + of_nat (length acc) \<and>
     unat tz = zero_tail acc \<and> \<not> has_run (unat n0) acc"

lemma scanned_start: "n0 \<noteq> 0 \<Longrightarrow> scanned f a n0 a 0 []"
  by (simp add: scanned_def mem_slice_def has_run_def unat_gt_0)

lemma scanned_block:
  assumes "scanned f a n0 cur tz acc" "block = mem_slice f cur (length block)"
  shows "case scan_zeroes n0 block tz acc of
      Inl r \<Rightarrow> stops_at (unat n0) r \<and> r @ [0] = mem_slice f a (Suc (length r))
    | Inr (tz', acc') \<Rightarrow> scanned f a n0 (cur + of_nat (length block)) tz' acc'"
proof -
  have acc: "acc = mem_slice f a (length acc)" and cur: "cur = a + of_nat (length acc)"
    and tz: "unat tz = zero_tail acc" and nr: "\<not> has_run (unat n0) acc"
    using assms(1) by (auto simp: scanned_def)
  have all: "acc @ block = mem_slice f a (length acc + length block)"
    using acc assms(2) cur by (metis mem_slice_add)
  note spec = scan_zeroes_spec [OF tz nr, of block]
  show ?thesis
  proof (cases "scan_zeroes n0 block tz acc")
    case (Inl r)
    with spec obtain q where q: "acc @ block = r @ 0 # q" and st: "stops_at (unat n0) r" by auto
    have len: "length acc + length block = Suc (length r) + length q"
      using arg_cong [OF q, of length] by simp
    have "take (Suc (length r)) (acc @ block) = r @ [0]" using q by simp
    then have "r @ [0] = mem_slice f a (Suc (length r))"
      using all len by (metis le_add1 take_mem_slice)
    with Inl st show ?thesis by simp
  next
    case (Inr x)
    then show ?thesis
      using spec all cur by (cases x) (auto simp: scanned_def)
  qed
qed


lemma slow_until_loop_spec:
  assumes wm: "word_memory K rd"
  shows "scanned (rd w) a n0 cur tz acc \<Longrightarrow> slow_until_loop K n0 cur tz acc w = (Inr bs, w') \<Longrightarrow>
    stops_at (unat n0) bs \<and> bs @ [0] = mem_slice (rd w) a (Suc (length bs))"
proof (induction "2 ^ 64 - unat cur" arbitrary: cur tz acc rule: less_induct)
  case less
  obtain v where v: "k_peek K w cur = Inr v"
    using less.prems(2) by (subst (asm) slow_until_loop.simps)
      (auto simp: ptrace_read_def split: sum.splits)
  have blk: "to_ne_bytes v = mem_slice (rd w) cur (length (to_ne_bytes v))"
    using peek_slice [OF wm v] by simp
  note spec = scanned_block [OF less.prems(1) blk]
  show ?case
  proof (cases "scan_zeroes n0 (to_ne_bytes v) tz acc")
    case (Inl r)
    with v less.prems(2) have "r = bs"
      by (subst (asm) slow_until_loop.simps) (simp add: ptrace_read_def)
    with Inl spec show ?thesis by simp
  next
    case (Inr x)
    then obtain tz' acc' where x: "x = (tz', acc')" by (cases x)
    with Inr v less.prems(2) obtain cur' where cur': "checked_add cur USIZE_SIZE = Inr cur'"
      and run: "slow_until_loop K n0 cur' tz' acc' w = (Inr bs, w')"
      by (subst (asm) slow_until_loop.simps) (auto simp: ptrace_read_def split: sum.splits)
    have "cur' = cur + of_nat 8" using cur' by (simp add: checked_add_Inr USIZE_SIZE_def)
    then have "scanned (rd w) a n0 cur' tz' acc'" using spec Inr x by simp
    moreover have "2 ^ 64 - unat cur' < 2 ^ 64 - unat cur"
      using checked_add_unat [OF cur'] unat_lt_2p64 [of cur'] unat_lt_2p64 [of cur] by simp
    ultimately show ?thesis using run by (intro less.hyps)
  qed
qed

lemma slow_until_loop_world: "slow_until_loop K n0 cur tz acc w = (r, w') \<Longrightarrow> w' = w"
proof (induction "2 ^ 64 - unat cur" arbitrary: cur tz acc rule: less_induct)
  case less
  show ?case
  proof (cases "w' = w")
    case False
    with less.prems obtain cur' tz' acc' where cur': "checked_add cur USIZE_SIZE = Inr cur'"
      and run: "slow_until_loop K n0 cur' tz' acc' w = (r, w')"
      by (subst (asm) slow_until_loop.simps)
        (auto simp: ptrace_read_def split: sum.splits prod.splits)
    have "2 ^ 64 - unat cur' < 2 ^ 64 - unat cur"
      using checked_add_unat [OF cur'] unat_lt_2p64 [of cur'] unat_lt_2p64 [of cur] by simp
    then show ?thesis using run by (rule less.hyps)
  qed
qed

interpretation slow_zero: zero_reader
  "\<lambda>K a n0. on_world (slow_read_bytes_until_num_zeroes K a n0)" tr_world
proof unfold_locales
  fix K :: "'a kernel" and a n0 r and s s' :: "'a tracer"
  assume "on_world (slow_read_bytes_until_num_zeroes K a n0) s = (r, s')"
  then show "tr_world s' = tr_world s"
    by (auto simp: on_world_def slow_read_bytes_until_num_zeroes_def split: prod.splits
        dest: slow_until_loop_world)
next
  fix K :: "'a kernel" and rd a n0 bs and s s' :: "'a tracer"
  assume wm: "word_memory K rd" and n0: "n0 \<noteq> 0"
    and "on_world (slow_read_bytes_until_num_zeroes K a n0) s = (Inr bs, s')"
  then obtain w' where "slow_until_loop K n0 a 0 [] (tr_world s) = (Inr bs, w')"
    by (auto simp: on_world_def slow_read_bytes_until_num_zeroes_def split: prod.splits)
  from slow_until_loop_spec [OF wm scanned_start [OF n0] this]
  show "stops_at (unat n0) bs \<and> bs @ [0] = mem_slice (rd (tr_world s)) a (Suc (length bs))" .
qed

lemma direct_until_loop_world:
  "direct_until_loop K n0 cur tz buf acc s = (r, s') \<Longrightarrow> tr_world s' = tr_world s"
proof (induction "2 ^ 64 - unat cur" arbitrary: cur tz buf acc s rule: less_induct)
  case less
  obtain r1 s1 where r1: "direct_read_bytes K cur READ_BUFFER_SIZE buf s = (r1, s1)" by fastforce
  have w1: "tr_world s1 = tr_world s" by (rule direct_reader.read_world [OF r1])
  show ?case
  proof (cases "s' = s1")
    case False
    with less.prems r1 obtain cur' tz' buf' acc'
      where cur': "checked_add cur READ_BUFFER_SIZE = Inr cur'"
      and run: "direct_until_loop K n0 cur' tz' buf' acc' s1 = (r, s')"
      by (subst (asm) direct_until_loop.simps) (auto split: sum.splits prod.splits)
    have "2 ^ 64 - unat cur' < 2 ^ 64 - unat cur"
      using checked_add_unat [OF cur'] unat_lt_2p64 [of cur'] unat_lt_2p64 [of cur]
      by (simp add: READ_BUFFER_SIZE_def)
    then show ?thesis using less.hyps [OF _ run] w1 by simp
  qed (simp add: w1)
qed

lemma direct_until_loop_spec:
  assumes wm: "word_memory K rd" "full_reads K"
  shows "scanned (rd (tr_world s)) a n0 cur tz acc \<Longrightarrow> length buf = 1024 \<Longrightarrow>
    direct_until_loop K n0 cur tz buf acc s = (Inr bs, s') \<Longrightarrow>
    stops_at (unat n0) bs \<and> bs @ [0] = mem_slice (rd (tr_world s)) a (Suc (length bs))"
proof (induction "2 ^ 64 - unat cur" arbitrary: cur tz buf acc s rule: less_induct)
  case less
  obtain buf1 s1 where b1: "direct_read_bytes K cur READ_BUFFER_SIZE buf s = (Inr buf1, s1)"
    using less.prems(3) by (subst (asm) direct_until_loop.simps) (auto split: sum.splits prod.splits)
  have w1: "tr_world s1 = tr_world s" by (rule direct_reader.read_world [OF b1])
  have "buf1 = mem_slice (rd (tr_world s)) cur (unat READ_BUFFER_SIZE) @ drop (unat READ_BUFFER_SIZE) buf"
    by (rule direct_reader.read_content [OF wm _ b1]) (simp add: READ_BUFFER_SIZE_def less.prems(2))
  then have buf1: "buf1 = mem_slice (rd (tr_world s)) cur 1024"
    using less.prems(2) by (simp add: READ_BUFFER_SIZE_def)
  then have len: "length buf1 = 1024" by simp
  have blk: "buf1 = mem_slice (rd (tr_world s)) cur (length buf1)" using buf1 len by simp
  note spec = scanned_block [OF less.prems(1) blk]
  show ?case
  proof (cases "scan_zeroes n0 buf1 tz acc")
    case (Inl r)
    with b1 less.prems(3) have "r = bs"
      by (subst (asm) direct_until_loop.simps) simp
    with Inl spec show ?thesis by simp
  next
    case (Inr x)
    then obtain tz' acc' where x: "x = (tz', acc')" by (cases x)
    with Inr b1 less.prems(3) obtain cur' where cur': "checked_add cur READ_BUFFER_SIZE = Inr cur'"
      and run: "direct_until_loop K n0 cur' tz' buf1 acc' s1 = (Inr bs, s')"
      by (subst (asm) direct_until_loop.simps) (auto split: sum.splits)
    have "cur' = cur + of_nat 1024" using cur' by (simp add: checked_add_Inr READ_BUFFER_SIZE_def)
    then have "scanned (rd (tr_world s1)) a n0 cur' tz' acc'" using spec Inr x w1 len by simp
    moreover have "2 ^ 64 - unat cur' < 2 ^ 64 - unat cur"
      using checked_add_unat [OF cur'] unat_lt_2p64 [of cur'] unat_lt_2p64 [of cur]
      by (simp add: READ_BUFFER_SIZE_def)
    ultimately show ?thesis using less.hyps [OF _ _ len run] w1 by simp
  qed
qed

interpretation direct_zero: zero_reader direct_read_bytes_until_num_zeroes tr_world
proof unfold_locales
  fix K :: "'a kernel" and a n0 r and s s' :: "'a tracer"
  assume "direct_read_bytes_until_num_zeroes K a n0 s = (r, s')"
  then show "tr_world s' = tr_world s"
    by (simp add: direct_read_bytes_until_num_zeroes_def direct_until_loop_world)
next
  fix K :: "'a kernel" and rd a n0 bs and s s' :: "'a tracer"
  assume wm: "word_memory K rd" "full_reads K" and n0: "n0 \<noteq> 0"
    and "direct_read_bytes_until_num_zeroes K a n0 s = (Inr bs, s')"
  then have "direct_until_loop K n0 a 0 (replicate (unat READ_BUFFER_SIZE) 0) [] s = (Inr bs, s')"
    by (simp add: direct_read_bytes_until_num_zeroes_def)
  from direct_until_loop_spec [OF wm scanned_start [OF n0] _ this]
  show "stops_at (unat n0) bs \<and> bs @ [0] = mem_slice (rd (tr_world s)) a (Suc (length bs))"
    by (simp add: READ_BUFFER_SIZE_def)
qed

end
