(* ===== verification/Ptrace_Contracts.thy ===== *)
theory Ptrace_Contracts
  imports Ptrace_Mem
begin

text \<open>
  What the callers of the memory helpers rely on, proved from the contracts and then for the
  two implementations: a C string is returned, and is the bytes up to its terminator; a loop
  over structures always ends within its fuel; successive appends to the scratch area of a
  tracee never overwrite each other (locale \<open>stack_writer\<close>); and the pool of shared regions
  never hands one region to two tracees (step relation \<open>pool_step\<close>).
\<close>

lemma unat_add_of_nat: "unat (a :: usize) + n < 2 ^ 64 \<Longrightarrow> unat (a + of_nat n) = unat a + n"
  by (simp add: unat_add_no_overflow unat_of_nat_usize)

lemma unat_base_offset:
  fixes start base off :: usize
  assumes "start = base + off" "unat off + k < 2 ^ 64"
  shows "unat (start + of_nat k - base) = unat off + k"
proof -
  have "start + of_nat k - base = off + of_nat k" using assms(1) by simp
  then show ?thesis using assms(2) by (simp only: unat_add_of_nat)
qed

section \<open>Totality of the zero-terminated readers\<close>

definition readable :: "'w kernel \<Rightarrow> 'w \<Rightarrow> nat \<Rightarrow> nat \<Rightarrow> bool" where
  "readable K w lo hi \<longleftrightarrow> k_open_mem K w = Inr () \<and>
     (\<forall>b. lo \<le> unat b \<and> unat b + 8 \<le> hi \<longrightarrow> (\<exists>v. k_peek K w b = Inr v)) \<and>
     (\<forall>b n. lo \<le> unat b \<and> unat b + n \<le> hi \<longrightarrow> (\<exists>bs. k_pread K w b n = Inr bs))"

lemma readable_peek:
  "readable K w lo hi \<Longrightarrow> lo \<le> unat b \<Longrightarrow> unat b + 8 \<le> hi \<Longrightarrow> \<exists>v. k_peek K w b = Inr v"
  by (simp add: readable_def)

lemma has_run_append: "has_run n xs \<Longrightarrow> has_run n (xs @ ys)"
  by (force simp: has_run_def)

lemma has_run_mem_slice:
  "has_run n (mem_slice f a m) \<Longrightarrow> m \<le> k \<Longrightarrow> has_run n (mem_slice f a k)"
  using mem_slice_add [of f a m "k - m"] by (auto intro: has_run_append)

lemma scanned_before_run:
  assumes "scanned f a n0 cur tz acc" "has_run (unat n0) (mem_slice f a m)" "unat a + m < 2 ^ 64"
  shows "unat cur = unat a + length acc" "length acc < m"
proof -
  have acc: "acc = mem_slice f a (length acc)" and cur: "cur = a + of_nat (length acc)"
    and nr: "\<not> has_run (unat n0) acc"
    using assms(1) by (auto simp: scanned_def)
  show l: "length acc < m"
    using nr acc has_run_mem_slice [OF assms(2), of "length acc"] by (metis not_less)
  have "unat (of_nat (length acc) :: usize) = length acc"
    using l assms(3) by (intro unat_of_nat_usize) simp
  then show "unat cur = unat a + length acc"
    using l assms(3) cur by (simp add: unat_add_no_overflow)
qed

lemma slow_until_loop_returns:
  assumes wm: "word_memory K rd" and run: "has_run (unat n0) (mem_slice (rd w) a m)"
    and rdb: "readable K w (unat a) (unat a + m + 1024)" and hi: "unat a + m + 1024 < 2 ^ 64"
  shows "scanned (rd w) a n0 cur tz acc \<Longrightarrow> \<exists>bs. slow_until_loop K n0 cur tz acc w = (Inr bs, w)"
proof (induction "m - length acc" arbitrary: cur tz acc rule: less_induct)
  case less
  have cur: "unat cur = unat a + length acc" "length acc < m"
    using scanned_before_run [OF less.prems run] hi by auto
  obtain v where v: "k_peek K w cur = Inr v"
    using readable_peek [OF rdb, of cur] cur by auto
  have blk: "to_ne_bytes v = mem_slice (rd w) cur (length (to_ne_bytes v))"
    using peek_slice [OF wm v] by simp
  have na: "checked_add cur USIZE_SIZE = Inr (cur + USIZE_SIZE)"
    using cur hi by (simp add: checked_add_Inr)
  show ?case
  proof (cases "scan_zeroes n0 (to_ne_bytes v) tz acc")
    case (Inl r)
    with v show ?thesis by (subst slow_until_loop.simps) (simp add: ptrace_read_def)
  next
    case (Inr x)
    then obtain tz' acc' where x: "x = (tz', acc')" by (cases x)
    have sc: "scanned (rd w) a n0 (cur + USIZE_SIZE) tz' acc'"
      using scanned_block [OF less.prems blk] Inr x by (simp add: USIZE_SIZE_def)
    have u: "unat (cur + USIZE_SIZE) = unat cur + 8"
      using checked_add_unat [OF na] by simp
    have "unat (cur + USIZE_SIZE) = unat a + length acc'"
      using scanned_before_run [OF sc run] hi by auto
    then have "m - length acc' < m - length acc" using u cur by simp
    from less.hyps [OF this sc] show ?thesis
      using v Inr x na by (subst slow_until_loop.simps) (simp add: ptrace_read_def)
  qed
qed

lemma direct_read_bytes_returns:
  assumes "readable K (tr_world s) lo hi" "lo \<le> unat a" "unat a + unat n \<le> hi" "unat n \<le> length buf"
  shows "\<exists>buf' s'. direct_read_bytes K a n buf s = (Inr buf', s')"
proof -
  have o: "k_open_mem K (tr_world s) = Inr ()" using assms(1) by (simp add: readable_def)
  obtain bs where "k_pread K (tr_world s) a (unat n) = Inr bs"
    using assms(1-3) unfolding readable_def by blast
  then have "direct_pread K a n buf s = (Inr (splice buf 0 bs), s)"
    using assms(4) by (simp add: direct_pread_def)
  with o show ?thesis
    by (auto simp: direct_read_bytes_def res_simps split: option.splits)
qed

lemma direct_until_loop_returns:
  assumes wm: "word_memory K rd" "full_reads K"
    and hi: "unat a + m + 1024 < 2 ^ 64"
  shows "scanned (rd (tr_world s)) a n0 cur tz acc \<Longrightarrow> length buf = 1024 \<Longrightarrow>
    has_run (unat n0) (mem_slice (rd (tr_world s)) a m) \<Longrightarrow>
    readable K (tr_world s) (unat a) (unat a + m + 1024) \<Longrightarrow>
    \<exists>bs s'. direct_until_loop K n0 cur tz buf acc s = (Inr bs, s')"
proof (induction "m - length acc" arbitrary: cur tz acc buf s rule: less_induct)
  case less
  have cur: "unat cur = unat a + length acc" "length acc < m"
    using scanned_before_run [OF less.prems(1,3)] hi by auto
  obtain buf1 s1 where b1: "direct_read_bytes K cur READ_BUFFER_SIZE buf s = (Inr buf1, s1)"
    using direct_read_bytes_returns [OF less.prems(4), of cur READ_BUFFER_SIZE buf] cur less.prems(2)
    by (auto simp: READ_BUFFER_SIZE_def)
  have w1: "tr_world s1 = tr_world s" by (rule direct_reader.read_world [OF b1])
  have "buf1 = mem_slice (rd (tr_world s)) cur (unat READ_BUFFER_SIZE) @ drop (unat READ_BUFFER_SIZE) buf"
    by (rule direct_reader.read_content [OF wm _ b1]) (simp add: READ_BUFFER_SIZE_def less.prems(2))
  then have buf1: "buf1 = mem_slice (rd (tr_world s)) cur 1024"
    using less.prems(2) by (simp add: READ_BUFFER_SIZE_def)
  then have len: "length buf1 = 1024" by simp
  have blk: "buf1 = mem_slice (rd (tr_world s)) cur (length buf1)" using buf1 len by simp
  have na: "checked_add cur READ_BUFFER_SIZE = Inr (cur + 1024)"
    using cur hi by (simp add: checked_add_Inr READ_BUFFER_SIZE_def)
  show ?case
  proof (cases "scan_zeroes n0 buf1 tz acc")
    case (Inl r)
    with b1 show ?thesis by (subst direct_until_loop.simps) simp
  next
    case (Inr x)
    then obtain tz' acc' where x: "x = (tz', acc')" by (cases x)
    have sc: "scanned (rd (tr_world s1)) a n0 (cur + 1024) tz' acc'"
      using scanned_block [OF less.prems(1) blk] Inr x len w1 by simp
    have u: "unat (cur + 1024) = unat cur + 1024"
      using checked_add_unat [OF na] by (simp add: READ_BUFFER_SIZE_def)
    have "unat (cur + 1024) = unat a + length acc'"
      using scanned_before_run [OF sc] less.prems(3) hi w1 by auto
    then have "m - length acc' < m - length acc" using u cur by simp
    from less.hyps [OF this sc len] less.prems(3,4) show ?thesis
      using b1 Inr x na w1 by (subst direct_until_loop.simps) simp
  qed
qed

locale total_zero_reader = zero_reader +
  assumes until_returns:
      "word_memory K rd \<Longrightarrow> full_reads K \<Longrightarrow> n0 \<noteq> 0 \<Longrightarrow>
       has_run (unat n0) (mem_slice (rd (world s)) a m) \<Longrightarrow>
       readable K (world s) (unat a) (unat a + m + 1024) \<Longrightarrow> unat a + m + 1024 < 2 ^ 64 \<Longrightarrow>
       \<exists>bs s'. until K a n0 s = (Inr bs, s')"
begin

lemma c_string_total:
  assumes wm: "word_memory K rd" "full_reads K"
    and nz: "\<forall>i < n. rd (world s) (a + of_nat i) \<noteq> 0" and z: "rd (world s) (a + of_nat n) = 0"
    and rdb: "readable K (world s) (unat a) (unat a + n + 1025)" and hi: "unat a + n + 1025 < 2 ^ 64"
  shows "\<exists>s'. until K a 1 s = (Inr (mem_slice (rd (world s)) a n), s')"
proof -
  let ?f = "rd (world s)"
  have "mem_slice ?f a (Suc n) = mem_slice ?f a n @ replicate 1 0 @ []"
    using mem_slice_add [of ?f a n 1] z by (simp add: mem_slice_def)
  then have "has_run 1 (mem_slice ?f a (Suc n))" unfolding has_run_def by blast
  then obtain bs s' where u: "until K a 1 s = (Inr bs, s')"
    using until_returns [OF wm, of 1 s a "Suc n"] rdb hi by (auto simp: ac_simps)
  have cs: "0 \<notin> set bs" "bs @ [0] = mem_slice ?f a (Suc (length bs))"
    using c_string [OF wm u] by auto
  have "length bs = n"
  proof (rule linorder_cases [of "length bs" n])
    assume "length bs < n"
    moreover have "mem_slice ?f a (Suc (length bs)) ! length bs = 0"
      using cs(2) by (metis nth_append_length)
    ultimately show ?thesis using nz by simp
  next
    assume l: "n < length bs"
    then have "bs ! n = mem_slice ?f a (Suc (length bs)) ! n" using cs(2) by (metis nth_append)
    then have "0 \<in> set bs" using l z by (metis less_SucI nth_mem nth_mem_slice)
    with cs(1) show ?thesis by simp
  qed simp
  moreover have "bs = mem_slice ?f a (length bs)"
    using cs(2) by (metis append_eq_conv_conj le_SucI order_refl take_mem_slice)
  ultimately show ?thesis using u by metis
qed

end

interpretation slow_zero: total_zero_reader
  "\<lambda>K a n0. on_world (slow_read_bytes_until_num_zeroes K a n0)" tr_world
proof unfold_locales
  fix K :: "'a kernel" and rd and n0 a :: usize and m and s :: "'a tracer"
  assume "word_memory K rd" "n0 \<noteq> 0" "has_run (unat n0) (mem_slice (rd (tr_world s)) a m)"
    "readable K (tr_world s) (unat a) (unat a + m + 1024)" "unat a + m + 1024 < 2 ^ 64"
  from slow_until_loop_returns [OF this(1,3-5) scanned_start [OF this(2)]]
  show "\<exists>bs s'. on_world (slow_read_bytes_until_num_zeroes K a n0) s = (Inr bs, s')"
    by (auto simp: on_world_def slow_read_bytes_until_num_zeroes_def)
qed

interpretation direct_zero: total_zero_reader direct_read_bytes_until_num_zeroes tr_world
proof unfold_locales
  fix K :: "'a kernel" and rd and n0 a :: usize and m and s :: "'a tracer"
  assume a: "word_memory K rd" "full_reads K" "n0 \<noteq> 0"
    "has_run (unat n0) (mem_slice (rd (tr_world s)) a m)"
    "readable K (tr_world s) (unat a) (unat a + m + 1024)" "unat a + m + 1024 < 2 ^ 64"
  show "\<exists>bs s'. direct_read_bytes_until_num_zeroes K a n0 s = (Inr bs, s')"
    unfolding direct_read_bytes_until_num_zeroes_def
    by (rule direct_until_loop_returns [OF a(1,2,6) scanned_start [OF a(3)] _ a(4,5)])
      (simp add: READ_BUFFER_SIZE_def)
qed


text \<open>A tracer over the flat kernel, for the witnesses.\<close>

definition zero_regs :: regs where
  "zero_regs = \<lparr>unknown_x1 = 0, unknown_x2 = 0, unknown_x3 = 0, unknown_x4 = 0, unknown_x5 = 0,
     unknown_x6 = 0, unknown_x7 = 0, arg3 = 0, arg5 = 0, arg4 = 0, rax = 0, unknown_x12 = 0,
     arg2 = 0, arg1 = 0, arg0 = 0, orig_rax = 0, pc = 0, unknown_x18 = 0, unknown_x19 = 0,
     sp = 0, unknown_x21 = 0, unknown_x22 = 0, unknown_x23 = 0, unknown_x24 = 0,
     unknown_x25 = 0, unknown_x26 = 0, unknown_x27 = 0\<rparr>"

definition flat_tracer :: "(usize \<Rightarrow> u8) \<Rightarrow> (regs \<times> (usize \<Rightarrow> u8)) tracer" where
  "flat_tracer m = \<lparr>tr_world = (zero_regs, m), SHARED_REGIONS = [], AVAILABLE_REGION_IDS = [],
     REGION_IDS_BY_PID = Map.empty, TRACEE_READ_FD = None, TRACEE_WRITE_REGION_ADDR = None,
     TRACEE_WRITE_REGION_ID = None\<rparr>"

lemma flat_readable: "readable flat_kernel w lo hi"
  by (simp add: readable_def flat_kernel_def)


section \<open>Termination of the loops over structures\<close>

lemma read_struct_progress:
  assumes "read_struct mh cs final_addr cur s = (Inr (item, cur'), s')" "0 < cs_header_size cs"
  shows "unat cur < unat cur'" "unat cur' \<le> unat final_addr"
proof -
  obtain h where h: "checked_add cur (cs_header_size cs) = Inr h"
    and n: "\<exists>n. checked_add h n = Inr cur' \<and> cur' \<le> final_addr"
    using assms(1)
    by (auto simp: read_struct_def Let_def act_bind_def act_lift_def act_err_def act_ret_def not_less
        split: sum.splits prod.splits if_splits)
  have "0 < unat (cs_header_size cs)" using assms(2) by (simp add: word_less_nat_alt)
  then show "unat cur < unat cur'" using checked_add_unat [OF h] n by (auto dest: checked_add_unat)
  show "unat cur' \<le> unat final_addr" using n by (auto simp: word_le_nat_alt)
qed

lemma read_structs_loop_enough:
  assumes "0 < cs_header_size cs"
  shows "unat final_addr - unat cur < fuel \<Longrightarrow>
    \<exists>r. read_structs_loop fuel mh cs final_addr cur acc s = Some r"
proof (induction fuel arbitrary: cur acc s)
  case (Suc fuel)
  show ?case
  proof (cases "cur < final_addr")
    case True
    show ?thesis
    proof (cases "read_struct mh cs final_addr cur s")
      case (Pair r s')
      show ?thesis
      proof (cases r)
        case (Inr x)
        then obtain item cur' where x: "x = (item, cur')" by (cases x)
        with Pair Inr have "unat final_addr - unat cur' < fuel"
          using read_struct_progress [OF _ assms, of mh final_addr cur s item cur' s'] Suc.prems
          by auto
        from Suc.IH [OF this] show ?thesis using True Pair Inr x by simp
      qed (use True Pair in simp)
    qed
  qed simp
qed simp

lemma read_structs_total:
  assumes "0 < cs_header_size cs"
  shows "\<exists>r s'. read_bytes_to_structs mh cs addr total_size s = Some (r, s')"
proof (cases "checked_add addr total_size")
  case (Inr final_addr)
  have "unat final_addr - unat addr < Suc (unat total_size)"
    using checked_add_unat [OF Inr] by simp
  from read_structs_loop_enough [OF assms this, of mh "[]" s] show ?thesis
    using Inr by (auto simp: read_bytes_to_structs_def Let_def)
qed (simp add: read_bytes_to_structs_def)

text \<open>Reading a directory listing out of a tracee ends.  For every structure type with a
  non-empty header, whatever the tracee's memory holds, \<open>read_bytes_to_structs\<close> returns (a list
  or an error): every item read moves the cursor by at least the header.\<close>

theorem read_bytes_to_structs_returns:
  assumes "0 < cs_header_size cs"
  shows "\<exists>r s'. read_bytes_to_structs mh cs addr total_size s = Some (r, s')"
  using assms by (rule read_structs_total)

lemma read_objs_loop_enough:
  "unat final_addr \<le> unat cur + fuel * unat t_size \<Longrightarrow>
   \<exists>r. read_objs_loop (Suc fuel) mh t_size final_addr cur acc s = Some r"
proof (induction fuel arbitrary: cur acc s)
  case 0
  then show ?case by (simp add: word_less_nat_alt)
next
  case (Suc fuel)
  obtain r1 s1 where r1: "act_bind (mh_read_bytes mh cur t_size (replicate (unat MAX_STRUCT_SIZE) 0))
      (\<lambda>buffer. act_bind (act_lift (checked_add cur t_size))
      (\<lambda>next_addr. act_ret (take (unat t_size) buffer, next_addr))) s = (r1, s1)" by fastforce
  show ?case
  proof (cases r1)
    case (Inl e)
    with r1 show ?thesis by (subst read_objs_loop.simps) simp
  next
    case (Inr x)
    then obtain item cur' where x: "x = (item, cur')" by (cases x)
    with r1 Inr have "checked_add cur t_size = Inr cur'"
      by (auto simp: act_bind_Inr_iff act_lift_def act_ret_def)
    then have "unat cur' = unat cur + unat t_size" by (rule checked_add_unat)
    then have "unat final_addr \<le> unat cur' + fuel * unat t_size" using Suc.prems by simp
    from Suc.IH [OF this, of "acc @ [item]" s1] show ?thesis
      using r1 Inr x by (subst read_objs_loop.simps) simp
  qed
qed

text \<open>The loop over objects of a fixed size always ends, for every size.\<close>

lemma read_objs_total:
  "\<exists>r s'. read_bytes_to_fixed_sized_objs mh t_size addr num_objs s = Some (r, s')"
proof (cases "res_bind (checked_mul t_size num_objs) (\<lambda>total_size. checked_add addr total_size)")
  case (Inr final_addr)
  then have "unat final_addr = unat addr + unat num_objs * unat t_size"
    by (auto simp: res_bind_Inr_iff dest!: checked_add_unat checked_mul_unat)
  then have "\<exists>r. read_objs_loop (Suc (unat num_objs)) mh t_size final_addr addr [] s = Some r"
    by (intro read_objs_loop_enough) simp
  then show ?thesis using Inr by (auto simp: read_bytes_to_fixed_sized_objs_def)
qed (simp add: read_bytes_to_fixed_sized_objs_def)

section \<open>Successive appends to the scratch area\<close>

text \<open>ptrace(2): a poke does not change the registers.\<close>

definition regs_kept :: "'w kernel \<Rightarrow> bool" where
  "regs_kept K \<longleftrightarrow> (\<forall>w a v w'. k_poke K w a v = Inr w' \<longrightarrow> k_getregs K w' = k_getregs K w)"

lemma flat_regs_kept: "regs_kept flat_kernel"
  by (simp add: regs_kept_def flat_kernel_def)

text \<open>Writing several byte strings, each at the offset the previous call returned.\<close>

fun write_seq ::
  "(usize \<Rightarrow> u8 list \<Rightarrow> ('s, ptrace_error, usize \<times> usize) act) \<Rightarrow> usize \<Rightarrow> u8 list list \<Rightarrow>
   ('s, ptrace_error, usize list \<times> usize) act" where
  "write_seq wr off [] = act_ret ([], off)"
| "write_seq wr off (bs # bss) =
     act_bind (wr off bs) (\<lambda>(start, off').
     act_bind (write_seq wr off' bss) (\<lambda>(starts, off''). act_ret (start # starts, off'')))"

text \<open>\<open>tmem\<close> is the memory the tracee sees, \<open>used K s off\<close> the addresses of the scratch area
  below the offset \<open>off\<close>.\<close>

locale stack_writer =
  fixes wr :: "'w kernel \<Rightarrow> usize \<Rightarrow> u8 list \<Rightarrow> ('s, ptrace_error, usize \<times> usize) act"
    and tmem :: "('w \<Rightarrow> usize \<Rightarrow> u8) \<Rightarrow> 's \<Rightarrow> usize \<Rightarrow> u8"
    and used :: "'w kernel \<Rightarrow> 's \<Rightarrow> usize \<Rightarrow> usize set"
    and inv :: "'s \<Rightarrow> bool"
  assumes write_inv: "length bs < 2 ^ 64 \<Longrightarrow> inv s \<Longrightarrow> wr K off bs s = (Inr (start, off'), s') \<Longrightarrow> inv s'"
    and write_content:
      "word_memory K rd \<Longrightarrow> length bs < 2 ^ 64 \<Longrightarrow> inv s \<Longrightarrow> wr K off bs s = (Inr (start, off'), s') \<Longrightarrow>
       mem_slice (tmem rd s') start (length bs) = bs"
    and write_keeps:
      "word_memory K rd \<Longrightarrow> length bs < 2 ^ 64 \<Longrightarrow> inv s \<Longrightarrow> wr K off bs s = (Inr (start, off'), s') \<Longrightarrow>
       b \<in> used K s off \<Longrightarrow> tmem rd s' b = tmem rd s b"
    and write_used:
      "regs_kept K \<Longrightarrow> length bs < 2 ^ 64 \<Longrightarrow> inv s \<Longrightarrow> wr K off bs s = (Inr (start, off'), s') \<Longrightarrow>
       used K s' = used K s \<and> used K s off \<subseteq> used K s off' \<and>
       (\<forall>i < length bs. start + of_nat i \<in> used K s off')"
begin

lemma write_seq_keeps:
  assumes K: "word_memory K rd" "regs_kept K"
  shows "\<forall>bs \<in> set bss. length bs < 2 ^ 64 \<Longrightarrow> inv s \<Longrightarrow> write_seq (wr K) off bss s = (Inr (starts, off'), s') \<Longrightarrow> b \<in> used K s off \<Longrightarrow>
    tmem rd s' b = tmem rd s b"
proof (induction bss arbitrary: off s starts)
  case Nil
  then show ?case by (simp add: act_ret_def)
next
  case (Cons bs bss)
  then obtain start off1 s1 starts' where w: "wr K off bs s = (Inr (start, off1), s1)"
    and rest: "write_seq (wr K) off1 bss s1 = (Inr (starts', off'), s')"
    by (auto simp: act_bind_Inr_iff act_ret_def)
  have l: "length bs < 2 ^ 64" "\<forall>bs \<in> set bss. length bs < 2 ^ 64" using Cons.prems(1) by simp_all
  have "b \<in> used K s1 off1" using write_used [OF K(2) l(1) Cons.prems(2) w] Cons.prems(4) by auto
  from Cons.IH [OF l(2) write_inv [OF l(1) Cons.prems(2) w] rest this]
  show ?case using write_keeps [OF K(1) l(1) Cons.prems(2) w Cons.prems(4)] by simp
qed

lemma write_seq_intact:
  assumes K: "word_memory K rd" "regs_kept K"
  shows "\<forall>bs \<in> set bss. length bs < 2 ^ 64 \<Longrightarrow> inv s \<Longrightarrow> write_seq (wr K) off bss s = (Inr (starts, off'), s') \<Longrightarrow>
    list_all2 (\<lambda>start bs. mem_slice (tmem rd s') start (length bs) = bs) starts bss"
proof (induction bss arbitrary: off s starts)
  case Nil
  then show ?case by (simp add: act_ret_def)
next
  case (Cons bs bss)
  then obtain start off1 s1 starts' where w: "wr K off bs s = (Inr (start, off1), s1)"
    and rest: "write_seq (wr K) off1 bss s1 = (Inr (starts', off'), s')"
    and starts: "starts = start # starts'"
    by (auto simp: act_bind_Inr_iff act_ret_def)
  have l: "length bs < 2 ^ 64" "\<forall>bs \<in> set bss. length bs < 2 ^ 64" using Cons.prems(1) by simp_all
  note inv1 = write_inv [OF l(1) Cons.prems(2) w]
  have "mem_slice (tmem rd s') start (length bs) = mem_slice (tmem rd s1) start (length bs)"
  proof (rule nth_equalityI)
    fix i assume "i < length (mem_slice (tmem rd s') start (length bs))"
    then have i: "i < length bs" by simp
    then have "start + of_nat i \<in> used K s1 off1"
      using write_used [OF K(2) l(1) Cons.prems(2) w] by auto
    from write_seq_keeps [OF K l(2) inv1 rest this] i
    show "mem_slice (tmem rd s') start (length bs) ! i = mem_slice (tmem rd s1) start (length bs) ! i"
      by simp
  qed simp
  then show ?case
    using Cons.IH [OF l(2) inv1 rest] write_content [OF K(1) l(1) Cons.prems(2) w] starts by simp
qed

end

text \<open>The slow helpers append below the red zone of the tracee's stack.\<close>

definition slow_used :: "'w kernel \<Rightarrow> 'w tracer \<Rightarrow> usize \<Rightarrow> usize set" where
  "slow_used K s off = (case k_getregs K (tr_world s) of
     Inl e \<Rightarrow> {}
   | Inr r \<Rightarrow> {b. unat (sp r) \<le> unat b + (unat STACK_SAFE_ZONE_SIZE + unat off) \<and>
                  unat b + unat STACK_SAFE_ZONE_SIZE < unat (sp r)})"

lemma slow_write_bytes_cases:
  assumes "slow_write_bytes_to_tracee K off bs w = (Inr (start, off'), w')" "length bs < 2 ^ 64"
  obtains r ws a' where "k_getregs K w = Inr r"
    "unat start + 8 * length ws + unat STACK_SAFE_ZONE_SIZE + unat off = unat (sp r)"
    "unat off' = unat off + 8 * length ws" "write_words K ws start w = (Inr a', w')"
    "words_image ws = bs @ replicate (8 - length bs mod 8) 0"
proof -
  obtain ws where ws: "bytes_to_usizes bs = Inr ws"
    and img: "words_image ws = bs @ replicate (8 - length bs mod 8) 0" "length ws = length bs div 8 + 1"
    using bytes_to_usizes_image [OF assms(2)] by auto
  have lw: "length ws < 2 ^ 64" using img(2) assms(2) by simp
  obtain size r t1 tot a' where sz: "checked_mul (of_nat (length ws)) USIZE_SIZE = Inr size"
    and r: "k_getregs K w = Inr r" and t1: "checked_add STACK_SAFE_ZONE_SIZE size = Inr t1"
    and tot: "checked_add off t1 = Inr tot" and st: "checked_sub (sp r) tot = Inr start"
    and wr: "write_words K ws start w = (Inr a', w')" and off': "checked_add off size = Inr off'"
    using assms(1) ws
    by (auto simp: slow_write_bytes_to_tracee_def act_bind_Inr_iff act_lift_def act_ret_def act_err_def
        getregs_def res_bind_Inr_iff slow_write_words_def split: if_splits)
  have usz: "unat size = 8 * length ws"
    using checked_mul_unat [OF sz] lw by (simp add: unat_of_nat_usize)
  have "unat tot = unat off + (unat STACK_SAFE_ZONE_SIZE + 8 * length ws)"
    using checked_add_unat [OF tot] checked_add_unat [OF t1] usz by simp
  moreover have "unat tot \<le> unat (sp r)" "unat start = unat (sp r) - unat tot"
    using st checked_sub_unat [OF st] by (auto simp: checked_sub_Inr word_le_nat_alt)
  ultimately have "unat start + 8 * length ws + unat STACK_SAFE_ZONE_SIZE + unat off = unat (sp r)"
    by simp
  moreover have "unat off' = unat off + 8 * length ws" using checked_add_unat [OF off'] usz by simp
  ultimately show ?thesis using that r wr img(1) by blast
qed

lemma write_words_regs:
  assumes "regs_kept K" "write_words K ws a w = (r, w')"
  shows "k_getregs K w' = k_getregs K w"
  using assms(2)
proof (induction ws arbitrary: a w)
  case Nil
  then show ?case by (simp add: act_ret_def)
next
  case (Cons m ms)
  then show ?case using assms(1)
    by (auto simp: act_bind_def ptrace_write_def act_lift_def regs_kept_def split: sum.splits)
qed

interpretation slow_writer: stack_writer
  "\<lambda>K off bs. on_world (slow_write_bytes_to_tracee K off bs)" "\<lambda>rd s. rd (tr_world s)" slow_used "\<lambda>_. True"
proof (unfold_locales, goal_cases)
  case (2 K rd bs s off start off' s')
  then have "slow_write_bytes_to_tracee K off bs (tr_world s) = (Inr (start, off'), tr_world s')"
    by (auto simp: on_world_def split: prod.splits)
  from this \<open>length bs < 2 ^ 64\<close> show ?case
  proof (cases rule: slow_write_bytes_cases)
    case (1 r ws a')
    have "rd (tr_world s') = mem_put (rd (tr_world s)) start (words_image ws)"
      using write_words_put [OF 2(1) 1(4)] by simp
    moreover have "length bs \<le> length (words_image ws)" using 1(5) by simp
    moreover have "unat (start + of_nat i - start) = i" if "i < length bs" for i
      using that 2(2) by (simp add: unat_of_nat_usize)
    ultimately show ?thesis
      by (intro nth_equalityI) (auto simp: mem_put_def 1(5) nth_append)
  qed
next
  case (3 K rd bs s off start off' s' b)
  then have w: "slow_write_bytes_to_tracee K off bs (tr_world s) = (Inr (start, off'), tr_world s')"
    by (auto simp: on_world_def split: prod.splits)
  from this \<open>length bs < 2 ^ 64\<close> show ?case
  proof (cases rule: slow_write_bytes_cases)
    case (1 r ws a')
    have "unat start + 8 * length ws \<le> unat b" using 3(5) 1(1,2) by (auto simp: slow_used_def)
    then have "8 * length ws \<le> unat (b - start)" by (simp add: unat_sub word_le_nat_alt)
    from write_words_frame [OF 3(1) 1(4) this] show ?thesis .
  qed
next
  case (4 K bs s off start off' s')
  then have w: "slow_write_bytes_to_tracee K off bs (tr_world s) = (Inr (start, off'), tr_world s')"
    by (auto simp: on_world_def split: prod.splits)
  from this \<open>length bs < 2 ^ 64\<close> show ?case
  proof (cases rule: slow_write_bytes_cases)
    case (1 r ws a')
    have "k_getregs K (tr_world s') = k_getregs K (tr_world s)"
      by (rule write_words_regs [OF 4(1) 1(4)])
    then have "slow_used K s' = slow_used K s" by (simp add: slow_used_def fun_eq_iff)
    moreover have "slow_used K s off \<subseteq> slow_used K s off'"
      using 1(1,3) by (auto simp: slow_used_def)
    moreover have "start + of_nat i \<in> slow_used K s off'" if i: "i < length bs" for i
    proof -
      have "length (words_image ws) = length bs + (8 - length bs mod 8)" using 1(5) by simp
      then have "i < 8 * length ws" using i by simp
      then have "unat (start + of_nat i) = unat start + i"
        using 1(2) unat_lt_2p64 [of "sp r"] by (intro unat_add_of_nat) linarith
      then show ?thesis using 1(1-3) \<open>i < 8 * length ws\<close>
        by (auto simp: slow_used_def STACK_SAFE_ZONE_SIZE_def)
    qed
    ultimately show ?thesis by blast
  qed
qed

text \<open>The direct helpers append to the shared region of the tracee's own thread.\<close>

definition own_region :: "'w tracer \<Rightarrow> nat option" where
  "own_region s = (case TRACEE_WRITE_REGION_ID s of
     Some v \<Rightarrow> Some v
   | None \<Rightarrow> if AVAILABLE_REGION_IDS s = [] then None else Some (last (AVAILABLE_REGION_IDS s)))"

definition region_sized :: "'w tracer \<Rightarrow> bool" where
  "region_sized s = (case own_region s of
     None \<Rightarrow> True
   | Some i \<Rightarrow> i < length (SHARED_REGIONS s) \<and>
       (case SHARED_REGIONS s ! i of
          None \<Rightarrow> False | Some box \<Rightarrow> length box = unat STACK_SAFE_ZONE_SIZE))"

definition direct_tmem :: "('w \<Rightarrow> usize \<Rightarrow> u8) \<Rightarrow> 'w tracer \<Rightarrow> usize \<Rightarrow> u8" where
  "direct_tmem rd s b = (case (TRACEE_WRITE_REGION_ADDR s, own_region s) of
     (Some base, Some i) \<Rightarrow>
       (if unat (b - base) < unat STACK_SAFE_ZONE_SIZE
        then the (SHARED_REGIONS s ! i) ! unat (b - base) else rd (tr_world s) b)
   | _ \<Rightarrow> rd (tr_world s) b)"

definition direct_used :: "'w kernel \<Rightarrow> 'w tracer \<Rightarrow> usize \<Rightarrow> usize set" where
  "direct_used K s off = (case TRACEE_WRITE_REGION_ADDR s of
     None \<Rightarrow> {} | Some base \<Rightarrow> {b. unat (b - base) < unat off})"

lemma direct_write_bytes_cases:
  assumes "direct_write_bytes_to_tracee p off bs s = (Inr (start, off'), s')" "length bs < 2 ^ 64"
    "region_sized s"
  obtains base i box where "TRACEE_WRITE_REGION_ADDR s = Some base" "own_region s = Some i"
    "i < length (SHARED_REGIONS s)" "SHARED_REGIONS s ! i = Some box" "length box = 16384"
    "start = base + off" "unat off' = unat off + length bs" "unat off' \<le> 16384"
    "TRACEE_WRITE_REGION_ADDR s' = Some base" "own_region s' = Some i"
    "SHARED_REGIONS s' = (SHARED_REGIONS s)[i := Some (splice box (unat off) bs)]"
    "tr_world s' = tr_world s"
proof -
  obtain base s1 i box where base: "TRACEE_WRITE_REGION_ADDR s = Some base"
    and st: "checked_add base off = Inr start"
    and off': "checked_add off (of_nat (length bs)) = Inr off'" "\<not> off' > STACK_SAFE_ZONE_SIZE"
    and i: "get_own_region_id p s = (Inr i, s1)"
    and box: "get_region_box i s1 = (Inr box, s1)"
    and s': "s' = put_region_box i (splice box (unat off) bs) s1"
    using assms(1)
    by (auto simp: direct_write_bytes_to_tracee_def act_bind_Inr_iff act_lift_def act_ret_def
        act_err_def act_get_def act_upd_def ok_or_Inr_iff get_region_box_def
        split: if_splits)
  have own: "own_region s = Some i" "TRACEE_WRITE_REGION_ID s1 = Some i"
    "SHARED_REGIONS s1 = SHARED_REGIONS s" "TRACEE_WRITE_REGION_ADDR s1 = Some base"
    "tr_world s1 = tr_world s"
    using i base by (auto simp: get_own_region_id_def own_region_def Let_def
        split: option.splits if_splits)
  have reg: "i < length (SHARED_REGIONS s)" "SHARED_REGIONS s ! i = Some box" "length box = 16384"
    using box assms(3) own
    by (auto simp: get_region_box_def region_sized_def ok_or_Inr_iff STACK_SAFE_ZONE_SIZE_def
        split: if_splits)
  have "unat off' = unat off + length bs" "unat off' \<le> 16384"
    using checked_add_unat [OF off'(1)] off'(2) assms(2)
    by (auto simp: unat_of_nat_usize not_less word_le_nat_alt STACK_SAFE_ZONE_SIZE_def)
  then show ?thesis
    using that [OF base own(1) reg] own st s'
    by (auto simp: put_region_box_def own_region_def checked_add_Inr)
qed

interpretation direct_writer: stack_writer
  "\<lambda>K. direct_write_bytes_to_tracee p" direct_tmem direct_used region_sized for p
proof (unfold_locales, goal_cases)
  case (1 bs s K off start off' s')
  from 1(3) 1(1,2) show ?case
  proof (cases rule: direct_write_bytes_cases)
    case w: (1 base i box)
    then show ?thesis by (simp add: region_sized_def STACK_SAFE_ZONE_SIZE_def)
  qed
next
  case (2 K rd bs s off start off' s')
  from 2(4) 2(2,3) show ?case
  proof (cases rule: direct_write_bytes_cases)
    case w: (1 base i box)
    have "unat (start + of_nat k - base) = unat off + k" if "k < length bs" for k
      by (rule unat_base_offset [OF w(6)]) (use that w(7,8) in simp)
    then show ?thesis using w
      by (intro nth_equalityI) (auto simp: direct_tmem_def STACK_SAFE_ZONE_SIZE_def splice_def nth_append)
  qed
next
  case (3 K rd bs s off start off' s' b)
  from 3(4) 3(2,3) show ?case
  proof (cases rule: direct_write_bytes_cases)
    case w: (1 base i box)
    have "unat (b - base) < unat off" using 3(5) w(1) by (simp add: direct_used_def)
    then show ?thesis using w
      by (auto simp: direct_tmem_def splice_def nth_append)
  qed
next
  case (4 K bs s off start off' s')
  from 4(4) 4(2,3) show ?case
  proof (cases rule: direct_write_bytes_cases)
    case w: (1 base i box)
    have "unat (start + of_nat k - base) = unat off + k" if "k < length bs" for k
      by (rule unat_base_offset [OF w(6)]) (use that w(7,8) in simp)
    then show ?thesis using w by (auto simp: direct_used_def)
  qed
qed


text \<open>C12: appended buffers never overlap.  When the tracer places several byte strings in the
  scratch area of a tracee, each at the offset the previous call returned (as \<open>execve\<close> does with
  the interpreter, the program and the argument vector), then after the last call every one of
  them is in the tracee's memory at the address its call returned, with either helper.\<close>

theorem write_bytes_to_tracee_intact:
  assumes "word_memory K rd" "regs_kept K" "\<forall>bs \<in> set bss. length bs < 2 ^ 64" "region_sized s"
  shows "(write_seq (mh_write_bytes_to_tracee (SLOW_MEM_HELPERS K)) off bss s = (Inr (starts, off'), s') \<longrightarrow>
            list_all2 (\<lambda>start bs. mem_slice (rd (tr_world s')) start (length bs) = bs) starts bss) \<and>
         (write_seq (mh_write_bytes_to_tracee (DIRECT_MEM_HELPERS K p)) off bss s = (Inr (starts, off'), s') \<longrightarrow>
            list_all2 (\<lambda>start bs. mem_slice (direct_tmem rd s') start (length bs) = bs) starts bss)"
  using slow_writer.write_seq_intact [OF assms(1,2,3)] direct_writer.write_seq_intact [OF assms]
  by (simp add: SLOW_MEM_HELPERS_def DIRECT_MEM_HELPERS_def)

definition one_region_tracer :: "(regs \<times> (usize \<Rightarrow> u8)) tracer" where
  "one_region_tracer = (flat_tracer (\<lambda>_. 0))\<lparr>tr_world := (zero_regs\<lparr>sp := 65536\<rparr>, \<lambda>_. 0),
     SHARED_REGIONS := [Some (replicate 16384 0)], AVAILABLE_REGION_IDS := [0],
     TRACEE_WRITE_REGION_ADDR := Some 8192\<rparr>"

lemma one_region_run:
  "fst (write_seq (mh_write_bytes_to_tracee (DIRECT_MEM_HELPERS flat_kernel 7)) 0 [[47, 0], [98]]
      one_region_tracer) = Inr ([8192, 8194], 3)"
  by (simp add: DIRECT_MEM_HELPERS_def direct_write_bytes_to_tracee_def one_region_tracer_def
      flat_tracer_def res_simps checked_add_def ptrace_consts get_own_region_id_def
      get_region_box_def put_region_box_def Let_def)

theorem write_bytes_to_tracee_intact_witness:
  "\<exists>s'. write_seq (mh_write_bytes_to_tracee (DIRECT_MEM_HELPERS flat_kernel 7)) 0 [[47, 0], [98]]
      one_region_tracer = (Inr ([8192, 8194], 3), s') \<and>
    mem_slice (direct_tmem snd s') 8192 (Suc (Suc 0)) = [47, 0] \<and>
    mem_slice (direct_tmem snd s') 8194 (Suc 0) = [98]"
proof -
  obtain s' where s': "write_seq (mh_write_bytes_to_tracee (DIRECT_MEM_HELPERS flat_kernel 7)) 0
      [[47, 0], [98]] one_region_tracer = (Inr ([8192, 8194], 3), s')"
    using one_region_run by (metis fst_conv surj_pair)
  have "region_sized one_region_tracer"
    by (simp add: region_sized_def own_region_def one_region_tracer_def flat_tracer_def
        STACK_SAFE_ZONE_SIZE_def)
  then show ?thesis
    using s' write_bytes_to_tracee_intact [OF flat_word_memory flat_regs_kept,
        of "[[47, 0], [98]]" one_region_tracer 0 "[8192, 8194]" 3 s' 7]
    by (simp del: write_seq.simps)
qed

section \<open>The pool of shared regions\<close>

text \<open>The tables \<open>AVAILABLE_REGION_IDS\<close>, \<open>REGION_IDS_BY_PID\<close> and \<open>SHARED_REGIONS\<close> belong to the
  process; \<open>TRACEE_WRITE_REGION_ID\<close> belongs to the thread that runs the handler of one tracee.
  A state of the pool is the process-wide part together with the variable of every live
  thread.  \<open>create_shared_mmap\<close> and the static initialisers give \<open>pool_init\<close>.\<close>

type_synonym 'w pool = "'w tracer \<times> (pid \<rightharpoonup> nat option)"

definition pool_init :: "'w \<Rightarrow> 'w pool" where
  "pool_init w = (\<lparr>tr_world = w,
     SHARED_REGIONS = replicate (unat MAX_NUM_TRACEES) (Some (replicate (unat STACK_SAFE_ZONE_SIZE) 0)),
     AVAILABLE_REGION_IDS = [0..<unat MAX_NUM_TRACEES], REGION_IDS_BY_PID = Map.empty,
     TRACEE_READ_FD = None, TRACEE_WRITE_REGION_ADDR = None, TRACEE_WRITE_REGION_ID = None\<rparr>, Map.empty)"

definition on_thread :: "('w tracer, 'e, 'a) act \<Rightarrow> pid \<Rightarrow> nat option \<Rightarrow> 'w pool \<Rightarrow> 'w pool" where
  "on_thread m p v st =
     (case m ((fst st)\<lparr>TRACEE_WRITE_REGION_ID := v\<rparr>) of
        (r, g') \<Rightarrow> (g', (snd st)(p \<mapsto> TRACEE_WRITE_REGION_ID g')))"

inductive pool_step :: "'w pool \<Rightarrow> 'w pool \<Rightarrow> bool" where
  spawn: "snd st p = None \<Longrightarrow> pool_step st (fst st, (snd st)(p \<mapsto> None))"
| acquire: "snd st p = Some v \<Longrightarrow> pool_step st (on_thread (get_own_region_id p) p v st)"
| put: "snd st p = Some v \<Longrightarrow> length bs < 2 ^ 64 \<Longrightarrow>
    pool_step st (on_thread
      (act_bind (act_upd (\<lambda>g. g\<lparr>TRACEE_WRITE_REGION_ADDR := base\<rparr>))
        (\<lambda>_. direct_write_bytes_to_tracee p off bs)) p v st)"
| finish: "snd st p = Some v \<Longrightarrow>
    pool_step st (fst (on_thread (direct_close_tracee p) p v st), (snd st)(p := None))"

inductive pool_reachable :: "'w pool \<Rightarrow> bool" where
  init: "pool_reachable (pool_init w)"
| step: "pool_reachable st \<Longrightarrow> pool_step st st' \<Longrightarrow> pool_reachable st'"

definition held :: "'w pool \<Rightarrow> pid \<Rightarrow> nat option" where
  "held st p = Option.bind (snd st p) id"

text \<open>The invariant: every region is either available, and then zeroed, or held by exactly the
  thread the table records.\<close>

definition pool_inv :: "'w pool \<Rightarrow> bool" where
  "pool_inv st \<longleftrightarrow>
     distinct (AVAILABLE_REGION_IDS (fst st)) \<and>
     length (SHARED_REGIONS (fst st)) = unat MAX_NUM_TRACEES \<and>
     REGION_IDS_BY_PID (fst st) = held st \<and>
     inj_on (held st) (dom (held st)) \<and>
     set (AVAILABLE_REGION_IDS (fst st)) \<union> ran (held st) = {..<unat MAX_NUM_TRACEES} \<and>
     set (AVAILABLE_REGION_IDS (fst st)) \<inter> ran (held st) = {} \<and>
     (\<forall>i < unat MAX_NUM_TRACEES. \<exists>box. SHARED_REGIONS (fst st) ! i = Some box \<and>
        length box = unat STACK_SAFE_ZONE_SIZE \<and>
        (i \<in> set (AVAILABLE_REGION_IDS (fst st)) \<longrightarrow> box = replicate (unat STACK_SAFE_ZONE_SIZE) 0))"

lemma held_fupd: "held (g, (snd st)(p := v)) = (held st)(p := Option.bind v id)"
  by (auto simp: held_def fun_eq_iff)

lemma pool_inv_init: "pool_inv (pool_init w)"
proof -
  have h: "held (pool_init w) = Map.empty" by (simp add: held_def pool_init_def fun_eq_iff)
  show ?thesis unfolding pool_inv_def h by (auto simp: pool_init_def)
qed

lemma pool_inv_spawn: "pool_inv st \<Longrightarrow> snd st p = None \<Longrightarrow> pool_inv (fst st, (snd st)(p \<mapsto> None))"
proof -
  assume i: "pool_inv st" and n: "snd st p = None"
  have "held (fst st, (snd st)(p \<mapsto> None)) = held st"
    using n by (auto simp: held_def fun_eq_iff)
  with i show ?thesis by (simp add: pool_inv_def)
qed

text \<open>Taking a region off the end of the list.\<close>

lemma pool_inv_take:
  assumes i: "pool_inv st" and n: "held st p = None" and ne: "AVAILABLE_REGION_IDS (fst st) \<noteq> []"
    and g: "AVAILABLE_REGION_IDS g = butlast (AVAILABLE_REGION_IDS (fst st))"
      "REGION_IDS_BY_PID g = (held st)(p \<mapsto> last (AVAILABLE_REGION_IDS (fst st)))"
      "SHARED_REGIONS g = SHARED_REGIONS (fst st)"
  shows "pool_inv (g, (snd st)(p \<mapsto> Some (last (AVAILABLE_REGION_IDS (fst st)))))"
proof -
  let ?av = "AVAILABLE_REGION_IDS (fst st)"
  let ?l = "last ?av"
  have av: "?av = butlast ?av @ [?l]" using ne by simp
  have s: "set ?av = insert ?l (set (butlast ?av))" by (subst av) simp
  have "distinct (butlast ?av @ [?l])" using i av by (metis pool_inv_def)
  then have d: "distinct (butlast ?av)" "?l \<notin> set (butlast ?av)" by simp_all
  have h: "held (g, (snd st)(p \<mapsto> Some ?l)) = (held st)(p \<mapsto> ?l)" by (simp add: held_fupd)
  have r: "ran ((held st)(p \<mapsto> ?l)) = insert ?l (ran (held st))" using n by simp
  have nr: "?l \<notin> ran (held st)" using i s by (auto simp: pool_inv_def)
  have "inj_on ((held st)(p \<mapsto> ?l)) (dom ((held st)(p \<mapsto> ?l)))"
    using i nr n unfolding pool_inv_def inj_on_def
    by (auto simp: ran_def split: if_splits)
  then show ?thesis
    using i d nr s g unfolding pool_inv_def h r fst_conv by auto
qed

lemma pool_inv_cong:
  assumes "pool_inv st" "AVAILABLE_REGION_IDS g = AVAILABLE_REGION_IDS (fst st)"
    "REGION_IDS_BY_PID g = REGION_IDS_BY_PID (fst st)" "SHARED_REGIONS g = SHARED_REGIONS (fst st)"
    "held (g, L) = held st"
  shows "pool_inv (g, L)"
  using assms by (simp add: pool_inv_def)

lemma pool_inv_acquire:
  assumes i: "pool_inv st" and v: "snd st p = Some v"
    and run: "get_own_region_id p ((fst st)\<lparr>TRACEE_WRITE_REGION_ADDR := b, TRACEE_WRITE_REGION_ID := v\<rparr>)
      = (r, g1)"
  shows "pool_inv (g1, (snd st)(p \<mapsto> TRACEE_WRITE_REGION_ID g1))"
    and "r = Inr k \<Longrightarrow> TRACEE_WRITE_REGION_ID g1 = Some k"
proof -
  let ?g = "(fst st)\<lparr>TRACEE_WRITE_REGION_ADDR := b, TRACEE_WRITE_REGION_ID := v\<rparr>"
  show "r = Inr k \<Longrightarrow> TRACEE_WRITE_REGION_ID g1 = Some k"
    using run by (auto simp: get_own_region_id_def Let_def split: option.splits if_splits)
  show "pool_inv (g1, (snd st)(p \<mapsto> TRACEE_WRITE_REGION_ID g1))"
  proof (cases "v = None \<and> AVAILABLE_REGION_IDS (fst st) \<noteq> []")
    case False
    then have g1: "g1 = ?g" using run by (auto simp: get_own_region_id_def split: option.splits)
    have "(snd st)(p \<mapsto> v) = snd st" using v by (simp add: fun_upd_idem)
    then have "held (g1, (snd st)(p \<mapsto> TRACEE_WRITE_REGION_ID g1)) = held st"
      by (simp add: g1 held_def fun_eq_iff)
    with i show ?thesis by (intro pool_inv_cong) (simp_all add: g1)
  next
    case True
    then have n: "held st p = None" using v by (simp add: held_def)
    have "REGION_IDS_BY_PID (fst st) = held st" using i by (simp add: pool_inv_def)
    then show ?thesis
      using True run pool_inv_take [OF i n, of g1]
      by (auto simp: get_own_region_id_def Let_def)
  qed
qed

lemma pool_inv_box:
  assumes i: "pool_inv (g, L)" and k: "held (g, L) p = Some k"
    and "length box = unat STACK_SAFE_ZONE_SIZE"
  shows "pool_inv (put_region_box k box g, L)"
proof -
  have "k \<in> ran (held (g, L))" using k by (rule ranI)
  then have "k \<notin> set (AVAILABLE_REGION_IDS g)" using i by (auto simp: pool_inv_def)
  moreover have "held (put_region_box k box g, L) = held (g, L)" by (simp add: held_def fun_eq_iff)
  ultimately show ?thesis
    using i assms(3) by (auto simp: pool_inv_def put_region_box_def nth_list_update)
qed

lemma direct_write_state_cases:
  assumes "direct_write_bytes_to_tracee p off bs g = (r, g')" "length bs < 2 ^ 64"
  obtains "g' = g"
  | r1 where "get_own_region_id p g = (r1, g')"
  | g1 k box where "get_own_region_id p g = (Inr k, g1)" "k < length (SHARED_REGIONS g1)"
      "SHARED_REGIONS g1 ! k = Some box" "unat off + length bs \<le> unat STACK_SAFE_ZONE_SIZE"
      "g' = put_region_box k (splice box (unat off) bs) g1"
proof (cases "\<exists>base st off'. TRACEE_WRITE_REGION_ADDR g = Some base \<and> checked_add base off = Inr st \<and>
    checked_add off (of_nat (length bs)) = Inr off' \<and> off < STACK_SAFE_ZONE_SIZE \<and>
    off' \<le> STACK_SAFE_ZONE_SIZE")
  case False
  then have "g' = g"
    using assms(1)
    by (auto simp: direct_write_bytes_to_tracee_def act_bind_def act_lift_def act_err_def act_get_def
        ok_or_def not_le not_less split: option.splits sum.splits if_splits)
  then show ?thesis by (rule that(1))
next
  case True
  then obtain base st off' where c: "TRACEE_WRITE_REGION_ADDR g = Some base"
    "checked_add base off = Inr st" "checked_add off (of_nat (length bs)) = Inr off'"
    "off < STACK_SAFE_ZONE_SIZE" "off' \<le> STACK_SAFE_ZONE_SIZE" by blast
  have le: "unat off + length bs \<le> unat STACK_SAFE_ZONE_SIZE"
    using checked_add_unat [OF c(3)] c(5) assms(2) by (simp add: word_le_nat_alt unat_of_nat_usize)
  obtain r1 g1 where g1: "get_own_region_id p g = (r1, g1)" by fastforce
  have lt: "\<not> STACK_SAFE_ZONE_SIZE \<le> off" "\<not> STACK_SAFE_ZONE_SIZE < off'" using c(4,5) by simp_all
  show ?thesis
  proof (cases "g' = g1")
    case True
    with g1 show ?thesis using that(2) by blast
  next
    case False
    then obtain k where k: "r1 = Inr k" "\<not> k > unat MAX_NUM_TRACEES"
      using assms(1) g1 c(1-3) lt
      by (cases r1) (simp_all add: direct_write_bytes_to_tracee_def act_bind_def act_lift_def
          act_err_def act_get_def split: if_splits)
    have run: "(case get_region_box k g1 of (Inl e, s) \<Rightarrow> (Inl e, s)
        | (Inr box, s) \<Rightarrow> (Inr (st, off'), put_region_box k (splice box (unat off) bs) s)) = (r, g')"
      using assms(1) g1 c(1-3) lt k
      by (simp add: direct_write_bytes_to_tracee_def act_bind_def act_lift_def act_err_def
          act_get_def act_upd_def act_ret_def)
    show ?thesis
      using run False g1 k that(3) [OF _ _ _ le]
      by (auto simp: get_region_box_def ok_or_def split: option.splits if_splits)
  qed
qed

lemma pool_inv_put:
  assumes i: "pool_inv st" and v: "snd st p = Some v" and l: "length bs < 2 ^ 64"
    and run: "direct_write_bytes_to_tracee p off bs
      ((fst st)\<lparr>TRACEE_WRITE_REGION_ADDR := b, TRACEE_WRITE_REGION_ID := v\<rparr>) = (r, g')"
  shows "pool_inv (g', (snd st)(p \<mapsto> TRACEE_WRITE_REGION_ID g'))"
  using run l
proof (cases rule: direct_write_state_cases)
  case 1
  have "(snd st)(p \<mapsto> v) = snd st" using v by (simp add: fun_upd_idem)
  then have "held (g', (snd st)(p \<mapsto> TRACEE_WRITE_REGION_ID g')) = held st"
    by (simp add: 1 held_def fun_eq_iff)
  with i show ?thesis by (intro pool_inv_cong) (simp_all add: 1)
next
  case (2 r1)
  then show ?thesis by (rule pool_inv_acquire [OF i v])
next
  case (3 g1 k box)
  have i1: "pool_inv (g1, (snd st)(p \<mapsto> TRACEE_WRITE_REGION_ID g1))"
    and id: "TRACEE_WRITE_REGION_ID g1 = Some k"
    using pool_inv_acquire [OF i v 3(1)] by auto
  have h: "held (g1, (snd st)(p \<mapsto> TRACEE_WRITE_REGION_ID g1)) p = Some k"
    by (simp add: held_def id)
  have lb: "length box = unat STACK_SAFE_ZONE_SIZE"
    using i1 3(2,3) by (fastforce simp: pool_inv_def)
  have "length (splice box (unat off) bs) = unat STACK_SAFE_ZONE_SIZE" using 3(4) lb by simp
  from pool_inv_box [OF i1 h this] show ?thesis by (simp add: 3(5) put_region_box_def)
qed

lemma direct_close_none:
  "REGION_IDS_BY_PID g p = None \<Longrightarrow> direct_close_tracee p g =
     (Inl LockGlobalMmap, g\<lparr>REGION_IDS_BY_PID := (REGION_IDS_BY_PID g)(p := None)\<rparr>)"
  by (simp add: direct_close_tracee_def res_simps)

lemma direct_close_some:
  "REGION_IDS_BY_PID g p = Some k \<Longrightarrow> k < length (SHARED_REGIONS g) \<Longrightarrow> SHARED_REGIONS g ! k = Some box \<Longrightarrow>
   direct_close_tracee p g = (Inr (), g\<lparr>REGION_IDS_BY_PID := (REGION_IDS_BY_PID g)(p := None),
     SHARED_REGIONS := (SHARED_REGIONS g)[k := Some (replicate (length box) 0)],
     AVAILABLE_REGION_IDS := AVAILABLE_REGION_IDS g @ [k]\<rparr>)"
  by (simp add: direct_close_tracee_def res_simps get_region_box_def put_region_box_def)

lemma pool_inv_release:
  assumes i: "pool_inv st" and k: "held st p = Some k"
    and g: "AVAILABLE_REGION_IDS g = AVAILABLE_REGION_IDS (fst st) @ [k]"
      "REGION_IDS_BY_PID g = (held st)(p := None)"
      "SHARED_REGIONS g = (SHARED_REGIONS (fst st))[k := Some (replicate (unat STACK_SAFE_ZONE_SIZE) 0)]"
  shows "pool_inv (g, (snd st)(p := None))"
proof -
  have h: "held (g, (snd st)(p := None)) = (held st)(p := None)" by (simp add: held_fupd)
  have inj: "inj_on (held st) (dom (held st))" using i by (simp add: pool_inv_def)
  have kr: "k \<in> ran (held st)" using k by (rule ranI)
  have r: "ran ((held st)(p := None)) = ran (held st) - {k}"
    using k inj by (auto simp: ran_def inj_on_def dom_def) (metis option.inject)
  have "inj_on ((held st)(p := None)) (dom ((held st)(p := None)))"
    using inj by (auto simp: inj_on_def)
  then show ?thesis
    using i kr g unfolding pool_inv_def h r fst_conv by (auto simp: nth_list_update)
qed

lemma pool_inv_finish:
  assumes i: "pool_inv st" and v: "snd st p = Some v"
  shows "pool_inv (fst (on_thread (direct_close_tracee p) p v st), (snd st)(p := None))"
proof -
  let ?g = "(fst st)\<lparr>TRACEE_WRITE_REGION_ID := v\<rparr>"
  have bp: "REGION_IDS_BY_PID ?g = held st" using i by (simp add: pool_inv_def)
  show ?thesis
  proof (cases "held st p")
    case None
    then have "held (g, (snd st)(p := None)) = held st" for g :: "'a tracer"
      by (auto simp: held_fupd fun_eq_iff)
    moreover have "(held st)(p := None) = held st" using None by (simp add: fun_upd_idem)
    ultimately show ?thesis
      using i None bp direct_close_none [of ?g p]
      by (intro pool_inv_cong) (simp_all add: on_thread_def)
  next
    case (Some k)
    then have "k \<in> ran (held st)" by (rule ranI)
    then have "k < unat MAX_NUM_TRACEES" using i by (auto simp: pool_inv_def)
    then obtain box where "k < length (SHARED_REGIONS ?g)" "SHARED_REGIONS ?g ! k = Some box"
      "length box = unat STACK_SAFE_ZONE_SIZE" using i by (auto simp: pool_inv_def)
    then show ?thesis
      using bp Some direct_close_some [of ?g p k box]
      by (intro pool_inv_release [OF i Some]) (simp_all add: on_thread_def)
  qed
qed

lemma pool_step_inv: "pool_step st st' \<Longrightarrow> pool_inv st \<Longrightarrow> pool_inv st'"
proof (induction rule: pool_step.induct)
  case (spawn st p)
  then show ?case by (intro pool_inv_spawn)
next
  case (acquire st p v)
  obtain r g1 where "get_own_region_id p ((fst st)\<lparr>TRACEE_WRITE_REGION_ID := v\<rparr>) = (r, g1)" by fastforce
  then show ?case
    using pool_inv_acquire(1) [OF acquire(2,1), of "TRACEE_WRITE_REGION_ADDR (fst st)" r g1]
    by (simp add: on_thread_def)
next
  case (put st p v bs base off)
  have eq: "(fst st)\<lparr>TRACEE_WRITE_REGION_ID := v, TRACEE_WRITE_REGION_ADDR := base\<rparr> =
      (fst st)\<lparr>TRACEE_WRITE_REGION_ADDR := base, TRACEE_WRITE_REGION_ID := v\<rparr>" by simp
  obtain r g1 where "direct_write_bytes_to_tracee p off bs
      ((fst st)\<lparr>TRACEE_WRITE_REGION_ADDR := base, TRACEE_WRITE_REGION_ID := v\<rparr>) = (r, g1)" by fastforce
  then show ?case
    using pool_inv_put [OF put(3,1,2), of off base r g1]
    by (simp add: on_thread_def act_bind_def act_upd_def flip: eq)
next
  case (finish st p v)
  then show ?case by (intro pool_inv_finish)
qed

lemma pool_reachable_inv: "pool_reachable st \<Longrightarrow> pool_inv st"
  by (induction rule: pool_reachable.induct) (auto intro: pool_inv_init pool_step_inv)


definition one_holder :: "(regs \<times> (usize \<Rightarrow> u8)) pool" where
  "one_holder = (let st = pool_init (zero_regs, \<lambda>_. 0)
     in on_thread (get_own_region_id 7) 7 None (fst st, (snd st)(7 \<mapsto> None)))"

lemma one_holder_reachable: "pool_reachable one_holder"
  unfolding one_holder_def Let_def
  by (rule pool_reachable.step [OF pool_reachable.step [OF pool_reachable.init]])
    (rule pool_step.spawn, simp add: pool_init_def, rule pool_step.acquire, simp)


end
