(* ===== verification/Fixed_Sized_Map.thy ===== *)
theory Fixed_Sized_Map
  imports Main
begin

text \<open>
  \<open>FixedSizedMap\<close> of \<open>src/krsm/src/common.rs\<close>: a map kept as a sorted array of \<open>N\<close> slots with the
  empty slots at the end.  A panic (an index out of range, an \<open>unwrap\<close> of \<open>None\<close>) is the result
  \<open>None\<close> of an operation.  \<open>binary_search_by\<close> is the loop of the standard library.  The relation
  \<open>fsm_repr\<close> is the representation invariant; under it no operation panics and every operation
  but \<open>inner_join_keys\<close> refines the corresponding operation on partial maps.  The contract is the
  locale \<open>bounded_map\<close>; the asynchronous runtime is verified against it.
\<close>

section \<open>Moving a range within a slice\<close>

fun swaps :: "(nat \<times> nat) list \<Rightarrow> 'a list \<Rightarrow> 'a list option" where
  "swaps [] xs = Some xs"
| "swaps ((i, j) # ps) xs =
     (if i < length xs \<and> j < length xs then swaps ps (xs[i := xs ! j, j := xs ! i]) else None)"

text \<open>The rightward loop of the code keeps \<open>j\<close> by hand: it starts at \<open>new_end - 1\<close> and is
  decremented with \<open>i\<close>.\<close>

definition move_within :: "'a list \<Rightarrow> nat \<Rightarrow> nat \<Rightarrow> nat \<Rightarrow> 'a list option" where
  "move_within xs range_from range_to new_start =
     (if range_to < range_from then None
      else let new_end = new_start + range_to - range_from
           in if new_start < range_from
              then swaps (zip [range_from..<range_to] [new_start..<new_end]) xs
              else if new_start > range_from
              then swaps (zip (rev [range_from..<range_to]) (rev [new_start..<new_end])) xs
              else Some xs)"

section \<open>Binary search\<close>

datatype ordering = Less | Equal | Greater

definition cmp :: "'k :: linorder \<Rightarrow> 'k \<Rightarrow> ordering" where
  "cmp x y = (if x < y then Less else if x = y then Equal else Greater)"

function search_loop :: "('a \<Rightarrow> ordering) \<Rightarrow> 'a list \<Rightarrow> nat \<Rightarrow> nat \<Rightarrow> nat" where
  "search_loop f xs base sz =
     (if sz > 1
      then let half = sz div 2; mid = base + half
           in search_loop f xs (if f (xs ! mid) = Greater then base else mid) (sz - half)
      else base)"
  by pat_completeness auto
termination by (relation "measure (\<lambda>(f, xs, base, sz). sz)") auto

declare search_loop.simps [simp del]

definition binary_search_by :: "('a \<Rightarrow> ordering) \<Rightarrow> 'a list \<Rightarrow> nat + nat" where
  "binary_search_by f xs =
     (if xs = [] then Inl 0
      else let base = search_loop f xs 0 (length xs)
           in case f (xs ! base) of
                Equal \<Rightarrow> Inr base
              | Less \<Rightarrow> Inl (base + 1)
              | Greater \<Rightarrow> Inl base)"

section \<open>The map\<close>

datatype async_runtime_error = TooManyPending

record ('k, 'v) fixed_sized_map =
  items :: "('k \<times> 'v) option list"
  size_of :: nat

definition fsm_new :: "nat \<Rightarrow> ('k, 'v) fixed_sized_map" where
  "fsm_new n = \<lparr>items = replicate n None, size_of = 0\<rparr>"

definition fsm_len :: "('k, 'v) fixed_sized_map \<Rightarrow> nat" where
  "fsm_len m = size_of m"

definition fsm_is_empty :: "('k, 'v) fixed_sized_map \<Rightarrow> bool" where
  "fsm_is_empty m = (fsm_len m = 0)"

definition fsm_search :: "('k :: linorder \<times> 'v) option list \<Rightarrow> 'k \<Rightarrow> nat + nat" where
  "fsm_search slice key =
     binary_search_by (\<lambda>x. case x of None \<Rightarrow> Greater | Some y \<Rightarrow> cmp (fst y) key) slice"

definition fsm_edit ::
  "('k :: linorder, 'v) fixed_sized_map \<Rightarrow> 'k \<Rightarrow> ('v \<Rightarrow> 'v) \<Rightarrow> (bool \<times> ('k, 'v) fixed_sized_map) option" where
  "fsm_edit m key edit_fn =
     (case fsm_search (items m) key of
        Inr index \<Rightarrow>
          (if index < length (items m)
           then map_option (\<lambda>(key2, val).
                  (True, m\<lparr>items := (items m)[index := Some (key2, edit_fn val)]\<rparr>)) (items m ! index)
           else None)
      | Inl _ \<Rightarrow> Some (False, m))"

definition fsm_read :: "('k :: linorder, 'v) fixed_sized_map \<Rightarrow> 'k \<Rightarrow> ('v \<Rightarrow> 't) \<Rightarrow> 't option option" where
  "fsm_read m key read_fn =
     (case fsm_search (items m) key of
        Inr index \<Rightarrow>
          (if index < length (items m)
           then map_option (\<lambda>(_, val). Some (read_fn val)) (items m ! index) else None)
      | Inl _ \<Rightarrow> Some None)"

definition fsm_read_idx :: "('k, 'v) fixed_sized_map \<Rightarrow> nat \<Rightarrow> ('k \<times> 'v \<Rightarrow> 't) \<Rightarrow> 't option option" where
  "fsm_read_idx m idx read_fn =
     (if idx < length (items m) then Some (map_option read_fn (items m ! idx)) else None)"

text \<open>Callbacks are \<open>FnMut\<close>: they carry a state \<open>'s\<close> of their own.\<close>

fun find_loop :: "('s \<Rightarrow> 'a \<Rightarrow> bool \<times> 's) \<Rightarrow> 'a list \<Rightarrow> 's \<Rightarrow> 'a option \<times> 's" where
  "find_loop f [] s = (None, s)"
| "find_loop f (x # xs) s = (case f s x of (b, s') \<Rightarrow> if b then (Some x, s') else find_loop f xs s')"

definition fsm_find ::
  "('k, 'v) fixed_sized_map \<Rightarrow> ('s \<Rightarrow> ('k \<times> 'v) option \<Rightarrow> bool \<times> 's) \<Rightarrow> ('k \<times> 'v \<Rightarrow> 't) \<Rightarrow> 's \<Rightarrow>
   ('t option \<times> 's) option" where
  "fsm_find m find_fn result_fn s =
     (if fsm_len m \<le> length (items m)
      then case find_loop find_fn (take (fsm_len m) (items m)) s of
             (Some (Some result), s') \<Rightarrow> Some (Some (result_fn result), s')
           | (_, s') \<Rightarrow> Some (None, s')
      else None)"

fun join_loop ::
  "('k :: linorder \<times> 'u) option list \<Rightarrow> ('k \<times> 'v) option list \<Rightarrow> ('k \<times> 'v) list \<Rightarrow>
   (('k \<times> 'v) option list \<times> ('k \<times> 'v) list) option" where
  "join_loop [] our_items result = Some (our_items, result)"
| "join_loop (None # others) our_items result = None"
| "join_loop (Some (key, _) # others) our_items result =
     (case fsm_search our_items key of
        Inr j \<Rightarrow>
          (if j < length our_items
           then case our_items ! j of
                  None \<Rightarrow> None
                | Some kv \<Rightarrow> join_loop others (our_items[j := None]) (result @ [kv])
           else None)
      | Inl _ \<Rightarrow> join_loop others our_items result)"

text \<open>\<open>result\<close> collects what the code writes to \<open>result[0..i_write]\<close>; the two final loops put it
  back at the front of \<open>our_items\<close> and clear the slots up to the old length.\<close>

definition inner_join_keys ::
  "('k :: linorder, 'v) fixed_sized_map \<Rightarrow> ('k, 'u) fixed_sized_map \<Rightarrow> ('k, 'v) fixed_sized_map option" where
  "inner_join_keys m other =
     (if fsm_len other \<le> length (items other)
      then case join_loop (take (fsm_len other) (items other)) (items m) [] of
             None \<Rightarrow> None
           | Some (our_items, result) \<Rightarrow>
               (let i_write = length result; our_len = fsm_len m
                in if i_write \<le> length our_items \<and> our_len \<le> length our_items
                   then Some \<lparr>items = map Some result @
                          replicate (our_len - i_write) None @
                          drop (max i_write our_len) our_items,
                          size_of = i_write\<rparr>
                   else None)
      else None)"

fun edit_loop ::
  "('s \<Rightarrow> 'k \<times> 'v \<Rightarrow> bool \<times> ('k \<times> 'v) \<times> 's) \<Rightarrow> nat \<Rightarrow> nat \<Rightarrow> ('k \<times> 'v) option list \<Rightarrow> 's \<Rightarrow>
   (('k \<times> 'v) option list \<times> 's) option" where
  "edit_loop f i 0 xs s = Some (xs, s)"
| "edit_loop f i (Suc n) xs s =
     (if i < length xs
      then case xs ! i of
             None \<Rightarrow> None
           | Some item \<Rightarrow>
               (case f s item of (stop, item', s') \<Rightarrow>
                  if stop then Some (xs[i := Some item'], s')
                  else edit_loop f (Suc i) n (xs[i := Some item']) s')
      else None)"

definition map_edit ::
  "('k, 'v) fixed_sized_map \<Rightarrow> ('s \<Rightarrow> 'k \<times> 'v \<Rightarrow> bool \<times> ('k \<times> 'v) \<times> 's) \<Rightarrow> 's \<Rightarrow>
   (('k, 'v) fixed_sized_map \<times> 's) option" where
  "map_edit m edit_fn s =
     map_option (\<lambda>(xs, s'). (m\<lparr>items := xs\<rparr>, s')) (edit_loop edit_fn 0 (fsm_len m) (items m) s)"

function batch_loop ::
  "('s \<Rightarrow> 'a list \<Rightarrow> bool \<times> 'a list \<times> 's) \<Rightarrow> nat \<Rightarrow> 'a list \<Rightarrow> 's \<Rightarrow> 'a list \<times> 's" where
  "batch_loop f n xs s =
     (if n = 0 \<or> xs = [] then (xs, s)
      else case f s (take n xs) of (stop, chunk, s') \<Rightarrow>
             if stop then (chunk @ drop n xs, s')
             else case batch_loop f n (drop n xs) s' of (rest, s'') \<Rightarrow> (chunk @ rest, s''))"
  by pat_completeness auto
termination by (relation "measure (\<lambda>(f, n, xs, s). length xs)") auto

declare batch_loop.simps [simp del]

text \<open>\<open>chunks_mut\<close> panics on a batch size of zero.\<close>

definition map_edit_batches ::
  "('k, 'v) fixed_sized_map \<Rightarrow> nat \<Rightarrow>
   ('s \<Rightarrow> ('k \<times> 'v) option list \<Rightarrow> bool \<times> ('k \<times> 'v) option list \<times> 's) \<Rightarrow> 's \<Rightarrow>
   (('k, 'v) fixed_sized_map \<times> 's) option" where
  "map_edit_batches m batch_size edit_fn s =
     (if fsm_len m \<le> length (items m) \<and> 0 < batch_size
      then case batch_loop edit_fn batch_size (take (fsm_len m) (items m)) s of
             (xs, s') \<Rightarrow> Some (m\<lparr>items := xs @ drop (fsm_len m) (items m)\<rparr>, s')
      else None)"

definition fsm_remove ::
  "('k :: linorder, 'v) fixed_sized_map \<Rightarrow> 'k \<Rightarrow> ('v option \<times> ('k, 'v) fixed_sized_map) option" where
  "fsm_remove m key =
     (let sz = fsm_len m
      in case fsm_search (items m) key of
           Inr index \<Rightarrow>
             (if index < length (items m)
              then case items m ! index of
                     None \<Rightarrow> None
                   | Some (_, val) \<Rightarrow>
                       (case move_within ((items m)[index := None]) (index + 1) sz index of
                          None \<Rightarrow> None
                        | Some xs \<Rightarrow>
                            (if 0 < sz \<and> sz - 1 < length xs
                             then Some (Some val, \<lparr>items = xs[sz - 1 := None], size_of = sz - 1\<rparr>)
                             else None))
              else None)
         | Inl _ \<Rightarrow> Some (None, m))"

definition set_default ::
  "('k :: linorder, 'v) fixed_sized_map \<Rightarrow> 'k \<Rightarrow> 'v \<Rightarrow>
   ((async_runtime_error + bool) \<times> ('k, 'v) fixed_sized_map) option" where
  "set_default m key val =
     (let sz = fsm_len m
      in case fsm_search (items m) key of
           Inl index \<Rightarrow>
             (if sz = length (items m) then Some (Inl TooManyPending, m)
              else case move_within (items m) index sz (index + 1) of
                     None \<Rightarrow> None
                   | Some xs \<Rightarrow>
                       (if index < length xs
                        then Some (Inr True, \<lparr>items = xs[index := Some (key, val)], size_of = sz + 1\<rparr>)
                        else None))
         | Inr _ \<Rightarrow> Some (Inr False, m))"

section \<open>The binary search finds the place of a key\<close>

lemma search_loop_bounds:
  "0 < sz \<Longrightarrow> base + sz \<le> length xs \<Longrightarrow>
   base \<le> search_loop f xs base sz \<and> search_loop f xs base sz < base + sz"
proof (induction f xs base sz rule: search_loop.induct)
  case (1 f xs base sz)
  show ?case
  proof (cases "sz > 1")
    case True
    let ?b = "if f (xs ! (base + sz div 2)) = Greater then base else base + sz div 2"
    have "?b \<le> search_loop f xs ?b (sz - sz div 2) \<and>
        search_loop f xs ?b (sz - sz div 2) < ?b + (sz - sz div 2)"
      using True 1 by (intro "1.IH" [OF True refl refl]) auto
    then show ?thesis using True by (subst (1 2) search_loop.simps) (auto simp: Let_def split: if_splits)
  next
    case False
    then show ?thesis using 1 by (subst (1 2) search_loop.simps) simp
  qed
qed

text \<open>A position past which everything compares \<open>Greater\<close>.\<close>

definition cut_at :: "('a \<Rightarrow> ordering) \<Rightarrow> 'a list \<Rightarrow> nat \<Rightarrow> bool" where
  "cut_at f xs p \<longleftrightarrow> p \<le> length xs \<and> (\<forall>i < length xs. f (xs ! i) = Greater \<longleftrightarrow> p \<le> i)"

lemma search_loop_cut:
  "cut_at f xs p \<Longrightarrow> 0 < sz \<Longrightarrow> base + sz \<le> length xs \<Longrightarrow> base \<le> p - 1 \<Longrightarrow> p \<le> base + sz \<Longrightarrow>
   search_loop f xs base sz = p - 1"
proof (induction f xs base sz rule: search_loop.induct)
  case (1 f xs base sz)
  show ?case
  proof (cases "sz > 1")
    case True
    let ?mid = "base + sz div 2"
    let ?b = "if f (xs ! ?mid) = Greater then base else ?mid"
    have "?mid < length xs" using True 1(4) by linarith
    then have g: "f (xs ! ?mid) = Greater \<longleftrightarrow> p \<le> ?mid" using 1(2) by (simp add: cut_at_def)
    have "search_loop f xs ?b (sz - sz div 2) = p - 1"
      using True 1(2-) g by (intro "1.IH" [OF True refl refl]) auto
    then show ?thesis using True by (subst search_loop.simps) (simp add: Let_def)
  next
    case False
    then have "sz = 1" using 1(3) by simp
    with 1(5,6) show ?thesis by (subst search_loop.simps) auto
  qed
qed

lemma binary_search_by_cut:
  assumes c: "cut_at f xs p"
  shows "binary_search_by f xs =
    (if p = 0 then Inl 0 else if f (xs ! (p - 1)) = Equal then Inr (p - 1) else Inl p)"
proof (cases "xs = []")
  case True
  with c show ?thesis by (simp add: binary_search_by_def cut_at_def)
next
  case False
  have p: "search_loop f xs 0 (length xs) = p - 1"
    using c False by (intro search_loop_cut [OF c]) (auto simp: cut_at_def)
  show ?thesis
  proof (cases "p = 0")
    case True
    then have "f (xs ! 0) = Greater" using c False by (simp add: cut_at_def)
    then show ?thesis using False p True by (simp add: binary_search_by_def Let_def)
  next
    case p0: False
    then have "\<not> p \<le> p - 1" "p - 1 < length xs" using c by (auto simp: cut_at_def)
    then have "f (xs ! (p - 1)) \<noteq> Greater" using c unfolding cut_at_def by blast
    then show ?thesis using False p p0
      by (cases "f (xs ! (p - 1))") (simp_all add: binary_search_by_def Let_def)
  qed
qed

lemma binary_search_by_Inr:
  assumes "binary_search_by f xs = Inr i"
  shows "i < length xs \<and> f (xs ! i) = Equal"
proof -
  have "xs \<noteq> []" using assms by (auto simp: binary_search_by_def)
  then have "search_loop f xs 0 (length xs) < length xs"
    using search_loop_bounds [of "length xs" 0 xs f] by simp
  then show ?thesis using assms \<open>xs \<noteq> []\<close>
    by (auto simp: binary_search_by_def Let_def split: ordering.splits)
qed

section \<open>Representation\<close>

definition key_pos :: "('k :: linorder \<times> 'v) list \<Rightarrow> 'k \<Rightarrow> nat" where
  "key_pos kvs key = length (takeWhile (\<lambda>kv. fst kv < key) kvs)"

definition fsm_repr :: "nat \<Rightarrow> ('k :: linorder \<times> 'v) list \<Rightarrow> ('k, 'v) fixed_sized_map \<Rightarrow> bool" where
  "fsm_repr n kvs m \<longleftrightarrow> length kvs \<le> n \<and> sorted_wrt (<) (map fst kvs) \<and>
     items m = map Some kvs @ replicate (n - length kvs) None \<and> size_of m = length kvs"

lemma key_pos_le: "key_pos kvs key \<le> length kvs"
  by (simp add: key_pos_def length_takeWhile_le)

lemma key_pos_less: "i < key_pos kvs key \<Longrightarrow> fst (kvs ! i) < key"
  unfolding key_pos_def by (metis nth_mem set_takeWhileD takeWhile_nth)

lemma key_pos_ge:
  assumes "sorted_wrt (<) (map fst kvs)" "key_pos kvs key \<le> i" "i < length kvs"
  shows "key \<le> fst (kvs ! i)"
proof -
  let ?p = "key_pos kvs key"
  have p: "?p < length kvs" using assms by simp
  then have "\<not> fst (kvs ! ?p) < key" unfolding key_pos_def by (rule nth_length_takeWhile)
  moreover have "fst (kvs ! ?p) \<le> fst (kvs ! i)"
    using assms p by (cases "?p = i") (auto simp: sorted_wrt_iff_nth_less less_imp_le)
  ultimately show ?thesis by simp
qed

lemma fsm_search_repr:
  assumes "fsm_repr n kvs m"
  shows "fsm_search (items m) key =
    (let p = key_pos kvs key in if p < length kvs \<and> fst (kvs ! p) = key then Inr p else Inl p)"
proof -
  let ?p = "key_pos kvs key"
  let ?f = "\<lambda>x :: ('a \<times> 'b) option. case x of None \<Rightarrow> Greater | Some y \<Rightarrow> cmp (fst y) key"
  let ?q = "if ?p < length kvs \<and> fst (kvs ! ?p) = key then Suc ?p else ?p"
  have s: "sorted_wrt (<) (map fst kvs)" and it: "items m = map Some kvs @ replicate (n - length kvs) None"
    using assms by (auto simp: fsm_repr_def)
  have strict: "key < fst (kvs ! i)" if "?p < i" "i < length kvs" for i
    using that key_pos_ge [OF s, of key ?p] s
    by (force simp: sorted_wrt_iff_nth_less)
  have "?f (items m ! i) = Greater \<longleftrightarrow> ?q \<le> i" if i: "i < length (items m)" for i
  proof (cases "i < length kvs")
    case True
    then have "?f (items m ! i) = cmp (fst (kvs ! i)) key" by (simp add: it nth_append)
    moreover have "key < fst (kvs ! i) \<longleftrightarrow> ?q \<le> i"
      using strict [of i] True key_pos_less [of i kvs key] key_pos_ge [OF s, of key i]
      by (cases i ?p rule: linorder_cases) (auto simp: le_less dest: order.asym)
    ultimately show ?thesis by (auto simp: cmp_def)
  next
    case False
    then have "?f (items m ! i) = Greater" using i by (simp add: it nth_append)
    moreover have "?q \<le> i" using False key_pos_le [of kvs key] by auto
    ultimately show ?thesis by simp
  qed
  then have c: "cut_at ?f (items m) ?q"
    using key_pos_le [of kvs key] by (auto simp: cut_at_def it)
  have "?f (items m ! (?p - 1)) = Less" if "?p \<noteq> 0"
    using that key_pos_less [of "?p - 1" kvs key] key_pos_le [of kvs key]
    by (auto simp: it nth_append cmp_def)
  moreover have "?f (items m ! ?p) = Equal" if "?p < length kvs" "fst (kvs ! ?p) = key"
    using that by (simp add: it nth_append cmp_def)
  ultimately show ?thesis
    unfolding fsm_search_def binary_search_by_cut [OF c] by (auto simp: Let_def)
qed

section \<open>Shifting by one slot\<close>

lemma swaps_left:
  "length pre = a \<Longrightarrow> swaps (zip [Suc a..<Suc (a + length mid)] [a..<a + length mid])
     (pre @ x # mid @ post) = Some (pre @ mid @ x # post)"
proof (induction mid arbitrary: pre a)
  case Nil
  then show ?case by simp
next
  case (Cons y mid)
  have z: "zip [Suc a..<Suc (a + length (y # mid))] [a..<a + length (y # mid)] =
      (Suc a, a) # zip [Suc (Suc a)..<Suc (Suc a + length mid)] [Suc a..<Suc a + length mid]"
    by (simp add: upt_conv_Cons del: upt_Suc)
  have sw: "(pre @ x # (y # mid) @ post)
      [Suc a := (pre @ x # (y # mid) @ post) ! a, a := (pre @ x # (y # mid) @ post) ! Suc a] =
      (pre @ [y]) @ x # mid @ post"
    using Cons.prems by (simp add: nth_append list_update_append)
  show ?case
    unfolding z swaps.simps sw using Cons.IH [of "pre @ [y]" "Suc a"] Cons.prems by simp
qed

lemma swaps_right:
  "length pre = a \<Longrightarrow> swaps (zip (rev [a..<a + length mid]) (rev [Suc a..<Suc (a + length mid)]))
     (pre @ mid @ x # post) = Some (pre @ x # mid @ post)"
proof (induction mid arbitrary: post rule: rev_induct)
  case Nil
  then show ?case by simp
next
  case (snoc y mid)
  have z: "zip (rev [a..<a + length (mid @ [y])]) (rev [Suc a..<Suc (a + length (mid @ [y]))]) =
      (a + length mid, Suc (a + length mid)) #
      zip (rev [a..<a + length mid]) (rev [Suc a..<Suc (a + length mid)])"
    by simp
  let ?xs = "pre @ (mid @ [y]) @ x # post"
  have sw: "?xs[a + length mid := ?xs ! Suc (a + length mid), Suc (a + length mid) := ?xs ! (a + length mid)]
      = pre @ mid @ x # y # post"
    using snoc.prems by (simp add: nth_append list_update_append)
  show ?case
    unfolding z swaps.simps sw using snoc by simp
qed

lemma move_within_left:
  assumes "xs = pre @ x # mid @ post"
  shows "move_within xs (Suc (length pre)) (Suc (length pre + length mid)) (length pre) =
    Some (pre @ mid @ x # post)"
  using swaps_left [of pre "length pre" mid x post] assms by (simp add: move_within_def)

lemma move_within_right:
  assumes "xs = pre @ mid @ x # post"
  shows "move_within xs (length pre) (length pre + length mid) (Suc (length pre)) =
    Some (pre @ x # mid @ post)"
  using swaps_right [of pre "length pre" mid x post] assms by (simp add: move_within_def)

section \<open>The operations on the representation\<close>

lemma key_pos_split:
  "kvs = take (key_pos kvs key) kvs @ drop (key_pos kvs key) kvs"
  "length (take (key_pos kvs key) kvs) = key_pos kvs key"
  using key_pos_le [of kvs key] by simp_all

lemma key_absent:
  assumes "sorted_wrt (<) (map fst kvs)"
    "\<not> (key_pos kvs key < length kvs \<and> fst (kvs ! key_pos kvs key) = key)"
  shows "map_of kvs key = None"
proof -
  have "fst kv \<noteq> key" if kv: "kv \<in> set kvs" for kv
  proof -
    obtain i where i: "i < length kvs" "kvs ! i = kv" using kv by (auto simp: in_set_conv_nth)
    show ?thesis
    proof (cases i "key_pos kvs key" rule: linorder_cases)
      case less
      then show ?thesis using key_pos_less [of i kvs key] i by auto
    next
      case equal
      then show ?thesis using assms(2) i by auto
    next
      case greater
      then have "fst (kvs ! key_pos kvs key) < fst (kvs ! i)"
        using assms(1) i(1) by (simp add: sorted_wrt_iff_nth_less)
      moreover have "key \<le> fst (kvs ! key_pos kvs key)"
        using greater i by (intro key_pos_ge [OF assms(1)]) simp_all
      ultimately show ?thesis using i by auto
    qed
  qed
  then show ?thesis by (auto simp: map_of_eq_None_iff)
qed

lemma key_present:
  assumes "sorted_wrt (<) (map fst kvs)" "i < length kvs" "fst (kvs ! i) = key"
  shows "map_of kvs key = Some (snd (kvs ! i))" "key_pos kvs key = i"
proof -
  have d: "distinct (map fst kvs)" using assms(1) by (simp add: strict_sorted_iff)
  show "map_of kvs key = Some (snd (kvs ! i))"
    using d assms(2,3) by (metis map_of_eq_Some_iff nth_mem prod.collapse)
  show "key_pos kvs key = i"
  proof (cases i "key_pos kvs key" rule: linorder_cases)
    case less
    then show ?thesis using key_pos_less [of i kvs key] assms(3) by simp
  next
    case greater
    then have "fst (kvs ! key_pos kvs key) < fst (kvs ! i)"
      using assms(1,2) by (simp add: sorted_wrt_iff_nth_less)
    moreover have "key \<le> fst (kvs ! key_pos kvs key)"
      using greater assms(2) by (intro key_pos_ge [OF assms(1)]) simp_all
    ultimately show ?thesis using assms(3) by simp
  qed simp
qed

lemma fsm_search_cases:
  assumes r: "fsm_repr n kvs m"
  obtains (found) i where "fsm_search (items m) key = Inr i" "i < length kvs" "fst (kvs ! i) = key"
      "map_of kvs key = Some (snd (kvs ! i))"
  | (missing) i where "fsm_search (items m) key = Inl i" "map_of kvs key = None" "i \<le> length kvs"
      "\<forall>kv \<in> set (take i kvs). fst kv < key" "\<forall>kv \<in> set (drop i kvs). key < fst kv"
proof (cases "key_pos kvs key < length kvs \<and> fst (kvs ! key_pos kvs key) = key")
  case True
  then show ?thesis
    using found [of "key_pos kvs key"] fsm_search_repr [OF r, of key] r
      key_present [of kvs "key_pos kvs key" key]
    by (simp add: fsm_repr_def)
next
  case False
  have s: "sorted_wrt (<) (map fst kvs)" using r by (simp add: fsm_repr_def)
  have none: "map_of kvs key = None" by (rule key_absent [OF s False])
  have "key < fst kv" if kv: "kv \<in> set (drop (key_pos kvs key) kvs)" for kv
  proof -
    obtain j where "j < length kvs - key_pos kvs key" "kvs ! (key_pos kvs key + j) = kv"
      using kv by (auto simp: in_set_conv_nth)
    then have "key \<le> fst kv" using key_pos_ge [OF s, of key "key_pos kvs key + j"] by auto
    moreover have "fst kv \<noteq> key"
      using none kv by (auto simp: map_of_eq_None_iff dest: in_set_dropD)
    ultimately show ?thesis by simp
  qed
  moreover have "fst kv < key" if "kv \<in> set (take (key_pos kvs key) kvs)" for kv
    using that key_pos_le [of kvs key] by (auto simp: in_set_conv_nth key_pos_less)
  moreover have "fsm_search (items m) key = Inl (key_pos kvs key)"
    using fsm_search_repr [OF r, of key] False by (auto simp: Let_def)
  ultimately show ?thesis using missing none key_pos_le by blast
qed

definition fsm_abs :: "('k, 'v) fixed_sized_map \<Rightarrow> 'k \<rightharpoonup> 'v" where
  "fsm_abs m = map_of (map the (take (size_of m) (items m)))"

definition fsm_inv :: "nat \<Rightarrow> ('k :: linorder, 'v) fixed_sized_map \<Rightarrow> bool" where
  "fsm_inv n m \<longleftrightarrow> length (items m) = n \<and> size_of m \<le> n \<and>
     list_all (\<lambda>x. x \<noteq> None) (take (size_of m) (items m)) \<and>
     list_all (\<lambda>x. x = None) (drop (size_of m) (items m)) \<and>
     sorted_wrt (<) (map (fst \<circ> the) (take (size_of m) (items m)))"

lemma fsm_repr_facts:
  assumes "fsm_repr n kvs m"
  shows "fsm_inv n m" "fsm_abs m = map_of kvs" "length (items m) = n" "size_of m = length kvs"
    "sorted_wrt (<) (map fst kvs)"
  using assms by (auto simp: fsm_repr_def fsm_inv_def fsm_abs_def list_all_iff comp_def)

lemma fsm_inv_repr:
  assumes "fsm_inv n m"
  obtains kvs where "fsm_repr n kvs m"
proof -
  let ?k = "size_of m"
  let ?kvs = "map the (take ?k (items m))"
  have i: "length (items m) = n" "?k \<le> n" "\<forall>x \<in> set (take ?k (items m)). x \<noteq> None"
    "\<forall>x \<in> set (drop ?k (items m)). x = None" "sorted_wrt (<) (map (fst \<circ> the) (take ?k (items m)))"
    using assms by (auto simp: fsm_inv_def list_all_iff)
  have a: "map Some ?kvs = take ?k (items m)" using i(3) by (auto simp: map_idI)
  have b: "drop ?k (items m) = replicate (n - ?k) None"
    using i(1,4) by (intro replicate_eqI) auto
  have "items m = take ?k (items m) @ drop ?k (items m)" by simp
  then have "items m = map Some ?kvs @ replicate (n - length ?kvs) None"
    using a b i(1,2) by (simp only: length_map length_take min_absorb2)
  moreover have "sorted_wrt (<) (map fst ?kvs)" using i(5) by (simp add: comp_def)
  ultimately show ?thesis using i(1,2) that [of ?kvs] by (simp add: fsm_repr_def)
qed

lemma items_nth: "fsm_repr n kvs m \<Longrightarrow> i < length kvs \<Longrightarrow> items m ! i = Some (kvs ! i)"
  by (simp add: fsm_repr_def nth_append)

lemma items_len: "fsm_repr n kvs m \<Longrightarrow> i < length kvs \<Longrightarrow> i < length (items m)"
  by (auto simp: fsm_repr_def)

lemma map_of_update_nth:
  assumes "distinct (map fst kvs)" "i < length kvs" "fst (kvs ! i) = key"
  shows "map_of (kvs[i := (key, v)]) = (map_of kvs)(key \<mapsto> v)"
proof (rule ext)
  fix x
  have d: "distinct (map fst (kvs[i := (key, v)]))"
    using assms by (metis fst_conv list_update_id map_update nth_map)
  have "(map_of (kvs[i := (key, v)]) x = Some y) = (((map_of kvs)(key \<mapsto> v)) x = Some y)" for y
    using assms d by (auto simp: map_of_eq_Some_iff in_set_conv_nth nth_list_update
        distinct_conv_nth split: if_splits) (metis fst_conv length_map nth_map)+
  then show "map_of (kvs[i := (key, v)]) x = ((map_of kvs)(key \<mapsto> v)) x"
    by (metis not_Some_eq)
qed

lemma fsm_read_spec:
  assumes i: "fsm_inv n m"
  shows "fsm_read m key f = Some (map_option f (fsm_abs m key))"
proof -
  obtain kvs where r: "fsm_repr n kvs m" using i by (rule fsm_inv_repr)
  from r show ?thesis
  proof (cases rule: fsm_search_cases [where key = key])
    case (found i)
    then show ?thesis
      using items_nth [OF r found(2)] items_len [OF r found(2)] fsm_repr_facts(2) [OF r]
      by (cases "kvs ! i") (simp add: fsm_read_def)
  qed (simp add: fsm_read_def fsm_repr_facts(2) [OF r])
qed

lemma fsm_edit_spec:
  assumes i: "fsm_inv n m"
  shows "\<exists>m'. fsm_edit m key f = Some (fsm_abs m key \<noteq> None, m') \<and> fsm_inv n m' \<and>
    fsm_abs m' = (case fsm_abs m key of None \<Rightarrow> fsm_abs m | Some v \<Rightarrow> (fsm_abs m)(key \<mapsto> f v))"
proof -
  obtain kvs where r: "fsm_repr n kvs m" using i by (rule fsm_inv_repr)
  from r show ?thesis
  proof (cases rule: fsm_search_cases [where key = key])
    case (missing i)
    then show ?thesis using i by (simp add: fsm_edit_def fsm_repr_facts(2) [OF r])
  next
    case (found i)
    let ?kvs = "kvs[i := (key, f (snd (kvs ! i)))]"
    let ?m = "m\<lparr>items := (items m)[i := Some (key, f (snd (kvs ! i)))]\<rparr>"
    have "map fst ?kvs = map fst kvs" using found(2,3) by (metis list_update_id map_update fst_conv)
    then have r': "fsm_repr n ?kvs ?m"
      using r found(2) by (auto simp: fsm_repr_def list_update_append map_update)
    have d: "distinct (map fst kvs)" using r by (simp add: fsm_repr_def strict_sorted_iff)
    have "fsm_edit m key f = Some (True, ?m)"
      using found items_nth [OF r found(2)] items_len [OF r found(2)]
      by (cases "kvs ! i") (simp add: fsm_edit_def)
    then show ?thesis
      using fsm_repr_facts(1,2) [OF r'] fsm_repr_facts(2) [OF r] found(4)
        map_of_update_nth [OF d found(2,3)] by simp
  qed
qed

lemma map_of_remove_nth:
  assumes "distinct (map fst (pre @ (key, v) # post))"
  shows "map_of (pre @ post) = (map_of (pre @ (key, v) # post))(key := None)"
proof -
  have "key \<notin> dom (map_of pre)" "key \<notin> dom (map_of post)"
    using assms by (auto simp: dom_map_of_conv_image_fst image_iff)
  then show ?thesis by (auto simp: map_add_def fun_eq_iff split: option.splits)
qed

lemma fsm_remove_spec:
  assumes i: "fsm_inv n m"
  shows "\<exists>m'. fsm_remove m key = Some (fsm_abs m key, m') \<and> fsm_inv n m' \<and>
    fsm_abs m' = (fsm_abs m)(key := None)"
proof -
  obtain kvs where r: "fsm_repr n kvs m" using i by (rule fsm_inv_repr)
  note a = fsm_repr_facts(2) [OF r]
  from r show ?thesis
  proof (cases rule: fsm_search_cases [where key = key])
    case (missing i)
    then show ?thesis using i by (simp add: fsm_remove_def a fun_upd_idem)
  next
    case (found i)
    let ?pre = "take i kvs" and ?post = "drop (Suc i) kvs" and ?v = "snd (kvs ! i)"
    let ?holes = "replicate (n - length kvs) (None :: ('a \<times> 'b) option)"
    have kvs: "kvs = ?pre @ (key, ?v) # ?post"
      using found(2,3) by (metis id_take_nth_drop prod.collapse)
    have li: "length ?pre = i" using found(2) by simp
    have n: "length kvs \<le> n" and it: "items m = map Some kvs @ ?holes" and sz: "size_of m = length kvs"
      using r by (auto simp: fsm_repr_def)
    have "(items m)[i := None] = map Some ?pre @ None # map Some ?post @ ?holes"
      using found(2) by (simp add: it list_update_append upd_conv_take_nth_drop take_map drop_map)
    from move_within_left [OF this] have mv: "move_within ((items m)[i := None]) (i + 1) (fsm_len m) i
        = Some (map Some ?pre @ map Some ?post @ None # ?holes)"
      using found(2) li Suc_pred [of "length kvs"] by (cases kvs) (simp_all add: fsm_len_def sz)
    let ?m = "\<lparr>items = map Some ?pre @ map Some ?post @ None # ?holes, size_of = length kvs - 1\<rparr>"
    have "(map Some ?pre @ map Some ?post @ None # ?holes)[length kvs - 1 := None] =
        map Some ?pre @ map Some ?post @ None # ?holes"
      using found(2) by (intro list_update_same_conv [THEN iffD2]) (auto simp: nth_append)
    then have run: "fsm_remove m key = Some (Some ?v, ?m)"
      using found mv items_nth [OF r found(2)] items_len [OF r found(2)] n
      by (cases "kvs ! i") (auto simp: fsm_remove_def Let_def fsm_len_def sz)
    have "sorted_wrt (<) (map fst (?pre @ ?post))"
      using fsm_repr_facts(5) [OF r] by (subst (asm) kvs) (simp add: sorted_wrt_append)
    moreover have "None # ?holes = replicate (n - length (?pre @ ?post)) None"
      using found(2) n by (simp flip: replicate_Suc add: Suc_diff_le)
    ultimately have r': "fsm_repr n (?pre @ ?post) ?m"
      using found(2) n by (simp add: fsm_repr_def)
    have "distinct (map fst (?pre @ (key, ?v) # ?post))"
      using fsm_repr_facts(5) [OF r] by (subst (asm) kvs) (simp add: strict_sorted_iff)
    from map_of_remove_nth [OF this] show ?thesis
      using run fsm_repr_facts(1,2) [OF r'] a found(4) kvs by metis
  qed
qed

lemma map_of_insert_nth:
  assumes "key \<notin> fst ` set (pre @ post)"
  shows "map_of (pre @ (key, v) # post) = (map_of (pre @ post))(key \<mapsto> v)"
proof -
  have "map_of pre key = None" using assms by (auto simp: map_of_eq_None_iff)
  then show ?thesis by (auto simp: map_add_def fun_eq_iff split: option.splits)
qed

lemma card_dom_repr:
  assumes "fsm_repr n kvs m"
  shows "card (dom (fsm_abs m)) = length kvs"
proof -
  have "distinct (map fst kvs)" using assms by (simp add: fsm_repr_def strict_sorted_iff)
  then show ?thesis
    using fsm_repr_facts(2) [OF assms]
    by (metis distinct_card dom_map_of_conv_image_fst length_map set_map)
qed

lemma fsm_len_spec: "fsm_inv n m \<Longrightarrow> fsm_len m = card (dom (fsm_abs m)) \<and> fsm_len m \<le> n"
  by (elim fsm_inv_repr) (auto simp: card_dom_repr fsm_len_def fsm_repr_def)

lemma set_default_spec:
  assumes i: "fsm_inv n m"
  shows "\<exists>m'. set_default m key v =
      Some (if fsm_abs m key \<noteq> None then Inr False
            else if card (dom (fsm_abs m)) = n then Inl TooManyPending else Inr True, m') \<and>
    fsm_inv n m' \<and>
    fsm_abs m' = (if fsm_abs m key = None \<and> card (dom (fsm_abs m)) < n
                  then (fsm_abs m)(key \<mapsto> v) else fsm_abs m)"
proof -
  obtain kvs where r: "fsm_repr n kvs m" using i by (rule fsm_inv_repr)
  note a = fsm_repr_facts(2) [OF r] and c = card_dom_repr [OF r]
  have n: "length kvs \<le> n" and it: "items m = map Some kvs @ replicate (n - length kvs) None"
    and sz: "size_of m = length kvs" using r by (auto simp: fsm_repr_def)
  from r show ?thesis
  proof (cases rule: fsm_search_cases [where key = key])
    case (found i)
    then show ?thesis using i by (simp add: set_default_def a)
  next
    case (missing i)
    show ?thesis
    proof (cases "length kvs = n")
      case True
      then show ?thesis
        using missing(1,2) i c by (simp add: set_default_def fsm_len_def a sz it)
    next
      case False
      let ?pre = "take i kvs" and ?post = "drop i kvs"
      let ?holes = "replicate (n - Suc (length kvs)) (None :: ('a \<times> 'b) option)"
      have h: "replicate (n - length kvs) (None :: ('a \<times> 'b) option) = None # ?holes"
        using n False by (simp flip: replicate_Suc add: Suc_diff_Suc)
      have li: "length ?pre = i" using missing(3) by simp
      have "items m = map Some ?pre @ map Some ?post @ None # ?holes"
        by (metis it h append_assoc append_take_drop_id map_append)
      from move_within_right [OF this] have mv: "move_within (items m) i (fsm_len m) (i + 1) =
          Some (map Some ?pre @ None # map Some ?post @ ?holes)"
        using missing(3) li by (simp add: fsm_len_def sz)
      let ?m = "\<lparr>items = map Some (?pre @ (key, v) # ?post) @ ?holes, size_of = length kvs + 1\<rparr>"
      have run: "set_default m key v = Some (Inr True, ?m)"
        using missing(1) mv n False li missing(3)
        by (simp add: set_default_def fsm_len_def sz it list_update_append Let_def)
      have "sorted_wrt (<) (map fst (?pre @ ?post))" using fsm_repr_facts(5) [OF r] by simp
      then have "sorted_wrt (<) (map fst (?pre @ (key, v) # ?post))"
        using missing(4,5) by (auto simp: sorted_wrt_append simp del: append_take_drop_id) 
      then have r': "fsm_repr n (?pre @ (key, v) # ?post) ?m"
        using n False missing(3) by (simp add: fsm_repr_def)
      have "key \<notin> fst ` set (?pre @ ?post)"
        using missing(2) by (auto simp: map_of_eq_None_iff)
      from map_of_insert_nth [OF this, of v] show ?thesis
        using run fsm_repr_facts(1,2) [OF r'] a c missing(2) n False by auto
    qed
  qed
qed

lemma fsm_new_spec: "fsm_inv n (fsm_new n)" "fsm_abs (fsm_new n) = Map.empty"
  by (simp_all add: fsm_inv_def fsm_abs_def fsm_new_def list_all_iff)

section \<open>The contract of a bounded map\<close>

locale bounded_map =
  fixes inv :: "'m \<Rightarrow> bool"
    and abs :: "'m \<Rightarrow> 'k \<Rightarrow> 'v option"
    and cap :: nat
    and read :: "'m \<Rightarrow> 'k \<Rightarrow> ('v \<Rightarrow> 't) \<Rightarrow> 't option option"
    and edit :: "'m \<Rightarrow> 'k \<Rightarrow> ('v \<Rightarrow> 'v) \<Rightarrow> (bool \<times> 'm) option"
    and remove :: "'m \<Rightarrow> 'k \<Rightarrow> ('v option \<times> 'm) option"
    and add_new :: "'m \<Rightarrow> 'k \<Rightarrow> 'v \<Rightarrow> ((async_runtime_error + bool) \<times> 'm) option"
  assumes read_spec: "inv m \<Longrightarrow> read m k f = Some (map_option f (abs m k))"
    and edit_spec: "inv m \<Longrightarrow> \<exists>m'. edit m k g = Some (abs m k \<noteq> None, m') \<and> inv m' \<and>
      abs m' = (case abs m k of None \<Rightarrow> abs m | Some v \<Rightarrow> (abs m)(k \<mapsto> g v))"
    and remove_spec: "inv m \<Longrightarrow> \<exists>m'. remove m k = Some (abs m k, m') \<and> inv m' \<and>
      abs m' = (abs m)(k := None)"
    and add_spec: "inv m \<Longrightarrow> \<exists>m'. add_new m k v =
        Some (if abs m k \<noteq> None then Inr False
              else if card (dom (abs m)) = cap then Inl TooManyPending else Inr True, m') \<and> inv m' \<and>
        abs m' = (if abs m k = None \<and> card (dom (abs m)) < cap then (abs m)(k \<mapsto> v) else abs m)"
    and bounded: "inv m \<Longrightarrow> card (dom (abs m)) \<le> cap"
begin

text \<open>Adding a key with a start value and editing it.\<close>

lemma tally:
  assumes "inv m" "abs m k \<noteq> None \<or> card (dom (abs m)) < cap"
  shows "\<exists>b m1 m2. add_new m k z = Some (Inr b, m1) \<and> edit m1 k g = Some (True, m2) \<and> inv m2 \<and>
    abs m2 = (abs m)(k \<mapsto> g (case abs m k of None \<Rightarrow> z | Some v \<Rightarrow> v))"
proof -
  obtain m1 where m1: "add_new m k z = Some (Inr (abs m k = None), m1)" "inv m1"
    "abs m1 = (if abs m k = None then (abs m)(k \<mapsto> z) else abs m)"
    using add_spec [OF assms(1), of k z] assms(2) by auto
  then obtain m2 where "edit m1 k g = Some (True, m2)" "inv m2"
    "abs m2 = (abs m)(k \<mapsto> g (case abs m k of None \<Rightarrow> z | Some v \<Rightarrow> v))"
    using edit_spec [OF m1(2), of k g] by (auto split: if_splits option.splits)
  with m1(1) show ?thesis by blast
qed

lemma full:
  assumes "inv m" "abs m k = None" "\<not> card (dom (abs m)) < cap"
  shows "\<exists>m1. add_new m k z = Some (Inl TooManyPending, m1) \<and> inv m1 \<and> abs m1 = abs m"
  using add_spec [OF assms(1), of k z] assms(2,3) bounded [OF assms(1)] by auto

end

interpretation fsm: bounded_map "fsm_inv n" fsm_abs n fsm_read fsm_edit fsm_remove set_default for n
proof unfold_locales
  show "fsm_inv n m \<Longrightarrow> card (dom (fsm_abs m)) \<le> n" for m :: "('a, 'b) fixed_sized_map"
    using fsm_len_spec [of n m] by simp
qed (fact fsm_read_spec fsm_edit_spec fsm_remove_spec set_default_spec)+

text \<open>C13: the sorted array is a map.  On every array that satisfies the representation invariant
  (sorted keys, empty slots at the end), \<open>read\<close>, \<open>edit\<close>, \<open>remove\<close> and \<open>set_default\<close> never panic,
  keep the invariant, and act on the abstract map as lookup, update of a present key,
  deletion, and insertion of an absent key; \<open>set_default\<close> fails exactly when the key is absent
  and all \<open>n\<close> slots are taken.\<close>

theorem fixed_sized_map_refines_map:
  assumes "fsm_inv n m"
  shows "fsm_read m k f = Some (map_option f (fsm_abs m k)) \<and>
    (\<exists>m'. fsm_edit m k g = Some (fsm_abs m k \<noteq> None, m') \<and> fsm_inv n m' \<and>
       fsm_abs m' = (case fsm_abs m k of None \<Rightarrow> fsm_abs m | Some v \<Rightarrow> (fsm_abs m)(k \<mapsto> g v))) \<and>
    (\<exists>m'. fsm_remove m k = Some (fsm_abs m k, m') \<and> fsm_inv n m' \<and>
       fsm_abs m' = (fsm_abs m)(k := None)) \<and>
    (\<exists>m'. set_default m k v =
         Some (if fsm_abs m k \<noteq> None then Inr False
               else if card (dom (fsm_abs m)) = n then Inl TooManyPending else Inr True, m') \<and>
       fsm_inv n m' \<and>
       fsm_abs m' = (if fsm_abs m k = None \<and> card (dom (fsm_abs m)) < n
                     then (fsm_abs m)(k \<mapsto> v) else fsm_abs m))"
  by (intro conjI fsm.read_spec [OF assms] fsm.edit_spec [OF assms] fsm.remove_spec [OF assms]
      fsm.add_spec [OF assms])

definition map_13 :: "(nat, nat) fixed_sized_map" where
  "map_13 = \<lparr>items = [Some (1, 10), Some (3, 30), None], size_of = 2\<rparr>"

lemma map_13_inv: "fsm_inv 3 map_13"
  by (simp add: map_13_def fsm_inv_def numeral_eq_Suc)

theorem fixed_sized_map_refines_map_witness:
  "fsm_read map_13 3 Suc = Some (Some 31) \<and> (\<exists>m'. fsm_remove map_13 3 = Some (Some 30, m') \<and> fsm_inv 3 m')"
  using fixed_sized_map_refines_map [OF map_13_inv, of 3 Suc id]
  by (auto simp: fsm_abs_def map_13_def numeral_eq_Suc)

section \<open>Joining with the keys of another map\<close>

lemma fsm_search_Inr: "fsm_search xs key = Inr j \<Longrightarrow> j < length xs \<and> (\<exists>v. xs ! j = Some (key, v))"
  unfolding fsm_search_def
  by (drule binary_search_by_Inr) (auto simp: cmp_def split: option.splits if_splits)

lemma join_loop_spec:
  "sorted_wrt (<) (map fst okvs) \<Longrightarrow> \<exists>ours' new. join_loop (map Some okvs) ours res = Some (ours', res @ new) \<and>
     sorted_wrt (<) (map fst new) \<and> fst ` set new \<subseteq> fst ` set okvs \<and> length new \<le> length okvs \<and>
     (\<forall>kv \<in> set new. Some kv \<in> set ours) \<and> length ours' = length ours \<and>
     (\<forall>i < length ours. ours ! i = None \<longrightarrow> ours' ! i = None)"
proof (induction okvs arbitrary: ours res)
  case Nil
  then show ?case by simp
next
  case (Cons okv okvs)
  obtain key u where okv: "okv = (key, u)" by (cases okv)
  have s: "sorted_wrt (<) (map fst okvs)" "\<forall>kv \<in> set okvs. key < fst kv"
    using Cons.prems okv by auto
  show ?case
  proof (cases "fsm_search ours key")
    case (Inl i)
    obtain ours' new where "join_loop (map Some okvs) ours res = Some (ours', res @ new)"
      "sorted_wrt (<) (map fst new)" "fst ` set new \<subseteq> fst ` set okvs" "length new \<le> length okvs"
      "\<forall>kv \<in> set new. Some kv \<in> set ours" "length ours' = length ours"
      "\<forall>i < length ours. ours ! i = None \<longrightarrow> ours' ! i = None"
      using Cons.IH [OF s(1), of ours res] by blast
    with Inl okv show ?thesis by (intro exI [of _ ours'] exI [of _ new]) auto
  next
    case (Inr j)
    obtain v where j: "j < length ours" "ours ! j = Some (key, v)" using fsm_search_Inr [OF Inr] by blast
    obtain ours' new where n: "join_loop (map Some okvs) (ours[j := None]) (res @ [(key, v)]) =
        Some (ours', (res @ [(key, v)]) @ new)"
      "sorted_wrt (<) (map fst new)" "fst ` set new \<subseteq> fst ` set okvs" "length new \<le> length okvs"
      "\<forall>kv \<in> set new. Some kv \<in> set (ours[j := None])" "length ours' = length ours"
      "\<forall>i < length ours. (ours[j := None]) ! i = None \<longrightarrow> ours' ! i = None"
      using Cons.IH [OF s(1), of "ours[j := None]" "res @ [(key, v)]"] by auto
    have "\<forall>kv \<in> set new. key < fst kv" using n(3) s(2) by fastforce
    moreover have "Some kv \<in> set ours" if "kv \<in> set new" for kv
      using n(5) that set_update_subset_insert [of ours j None] by fastforce
    moreover have "Some (key, v) \<in> set ours" using j by (metis nth_mem)
    moreover have "ours' ! i = None" if "i < length ours" "ours ! i = None" for i
      using n(7) that by (cases "i = j") simp_all
    moreover have "join_loop (map Some (okv # okvs)) ours res = Some (ours', res @ (key, v) # new)"
      using Inr okv j n(1) by simp
    ultimately show ?thesis
      using okv n(2-4,6) by (intro exI [of _ ours'] exI [of _ "(key, v) # new"]) auto
  qed
qed

lemma inner_join_keys_sound:
  assumes "fsm_inv n m" "fsm_inv n other"
  shows "\<exists>m'. inner_join_keys m other = Some m' \<and> fsm_inv n m' \<and>
    (\<forall>k v. fsm_abs m' k = Some v \<longrightarrow> fsm_abs m k = Some v \<and> fsm_abs other k \<noteq> None)"
proof -
  obtain kvs where r: "fsm_repr n kvs m" using assms(1) by (rule fsm_inv_repr)
  obtain okvs where ro: "fsm_repr n okvs other" using assms(2) by (rule fsm_inv_repr)
  obtain ours' new where j: "join_loop (map Some okvs) (items m) [] = Some (ours', new)"
    "sorted_wrt (<) (map fst new)" "fst ` set new \<subseteq> fst ` set okvs" "length new \<le> length okvs"
    "\<forall>kv \<in> set new. Some kv \<in> set (items m)" "length ours' = n"
    "\<forall>i < n. items m ! i = None \<longrightarrow> ours' ! i = None"
    using join_loop_spec [OF fsm_repr_facts(5) [OF ro], of "items m" "[]"] fsm_repr_facts(3) [OF r] by auto
  have take: "take (fsm_len other) (items other) = map Some okvs"
    using ro by (simp add: fsm_repr_def fsm_len_def)
  have lens: "length okvs \<le> n" "length kvs \<le> n" "fsm_len m = length kvs" "fsm_len other \<le> length (items other)"
    using r ro by (auto simp: fsm_repr_def fsm_len_def)
  have holes: "drop (max (length new) (length kvs)) ours' = replicate (n - max (length new) (length kvs)) None"
    using j(6,7) r by (intro replicate_eqI) (auto simp: fsm_repr_def in_set_conv_nth nth_append)
  let ?m = "\<lparr>items = map Some new @ replicate (length kvs - length new) None @
      drop (max (length new) (length kvs)) ours', size_of = length new\<rparr>"
  have run: "inner_join_keys m other = Some ?m"
    using j(1,4,6) take lens by (simp add: inner_join_keys_def Let_def)
  have "fsm_repr n new ?m"
    using j(2,4) lens holes by (simp add: fsm_repr_def flip: replicate_add)
  note f = fsm_repr_facts [OF this]
  have "fsm_abs m k = Some v \<and> fsm_abs other k \<noteq> None" if kv: "fsm_abs ?m k = Some v" for k v
  proof -
    have "(k, v) \<in> set new" using kv f(2) by (metis map_of_SomeD)
    then have "(k, v) \<in> set kvs" "k \<in> fst ` set okvs"
      using j(3,5) r by (auto simp: fsm_repr_def) force
    moreover have "distinct (map fst kvs)" using r by (simp add: fsm_repr_def strict_sorted_iff)
    ultimately show ?thesis
      using fsm_repr_facts(2) [OF r] fsm_repr_facts(2) [OF ro]
      by (metis map_of_eq_None_iff map_of_is_SomeI set_map list.set_map)
  qed
  with run f(1) show ?thesis by blast
qed

text \<open>The least common key always survives: nothing has been taken out before it is found.\<close>

lemma join_loop_first:
  assumes r: "fsm_repr n kvs m" and k: "map_of kvs k \<noteq> None"
    and none: "\<forall>kv \<in> set pre. map_of kvs (fst kv) = None"
  shows "\<exists>v. join_loop (map Some (pre @ (k, u) # post)) (items m) [] =
    join_loop (map Some post) ((items m)[key_pos kvs k := None]) [(k, v)]"
  using none
proof (induction pre)
  case Nil
  from r show ?case
  proof (cases rule: fsm_search_cases [where key = k])
    case (found i)
    have "key_pos kvs k = i" by (rule key_present(2) [OF fsm_repr_facts(5) [OF r] found(2,3)])
    then show ?thesis
      using found items_nth [OF r found(2)] items_len [OF r found(2)] by (cases "kvs ! i") auto
  qed (use k in simp)
next
  case (Cons kv pre)
  obtain q w where kv: "kv = (q, w)" by (cases kv)
  from r show ?case
  proof (cases rule: fsm_search_cases [where key = q])
    case (missing i)
    then show ?thesis using Cons kv by simp
  qed (use Cons.prems kv in simp)
qed

lemma join_loop_extends:
  "join_loop others ours res = Some (ours', res') \<Longrightarrow> \<exists>new. res' = res @ new"
proof (induction others ours res rule: join_loop.induct)
  case (3 key u others ours res)
  then show ?case by (fastforce split: sum.splits if_splits option.splits)
qed auto

lemma inner_join_keys_size:
  "inner_join_keys m other = Some m' \<Longrightarrow> \<exists>ours' result.
     join_loop (take (fsm_len other) (items other)) (items m) [] = Some (ours', result) \<and>
     size_of m' = length result"
  by (auto simp: inner_join_keys_def Let_def split: if_splits option.splits)

lemma inner_join_keys_nonempty:
  assumes "fsm_inv n m" "fsm_inv n other" "fsm_abs m k \<noteq> None" "fsm_abs other k \<noteq> None"
    and run: "inner_join_keys m other = Some m'"
  shows "fsm_len m' \<noteq> 0"
proof -
  obtain kvs where r: "fsm_repr n kvs m" using assms(1) by (rule fsm_inv_repr)
  obtain okvs where ro: "fsm_repr n okvs other" using assms(2) by (rule fsm_inv_repr)
  obtain w where "map_of okvs k = Some w" using assms(4) fsm_repr_facts(2) [OF ro] by auto
  then have "(k, w) \<in> set okvs" by (rule map_of_SomeD)
  moreover have "map_of kvs k \<noteq> None" using assms(3) fsm_repr_facts(2) [OF r] by simp
  ultimately have "\<exists>kv \<in> set okvs. map_of kvs (fst kv) \<noteq> None" by (intro bexI [of _ "(k, w)"]) simp_all
  from split_list_first_prop [OF this] obtain pre kv post where kv: "okvs = pre @ kv # post"
    "map_of kvs (fst kv) \<noteq> None" "\<forall>kv \<in> set pre. \<not> map_of kvs (fst kv) \<noteq> None" by blast
  then obtain q u where o: "okvs = pre @ (q, u) # post" "map_of kvs q \<noteq> None"
    "\<forall>kv \<in> set pre. map_of kvs (fst kv) = None" by (cases kv) simp
  obtain v where "join_loop (map Some okvs) (items m) [] =
      join_loop (map Some post) ((items m)[key_pos kvs q := None]) [(q, v)]"
    using join_loop_first [OF r o(2,3), of u post] unfolding o(1) by blast
  moreover have "take (fsm_len other) (items other) = map Some okvs"
    using ro by (simp add: fsm_repr_def fsm_len_def)
  moreover obtain ours' result where jr:
    "join_loop (take (fsm_len other) (items other)) (items m) [] = Some (ours', result)"
    "size_of m' = length result" using inner_join_keys_size [OF run] by blast
  ultimately have "join_loop (map Some post) ((items m)[key_pos kvs q := None]) [(q, v)] =
      Some (ours', result)" by simp
  then obtain new where "result = [(q, v)] @ new" using join_loop_extends by blast
  then show ?thesis using jr(2) by (simp add: fsm_len_def)
qed

section \<open>Iteration\<close>

lemma find_loop_pure: "find_loop (\<lambda>s x. (P x, s)) xs s = (List.find P xs, s)"
  by (induction xs) auto

lemma fsm_find_pure:
  assumes "fsm_inv n m"
  shows "\<exists>res. fsm_find m (\<lambda>s x. case x of None \<Rightarrow> (False, s) | Some v \<Rightarrow> (P (fst v), s)) fst s = Some (res, s) \<and>
    (case res of Some k \<Rightarrow> fsm_abs m k \<noteq> None \<and> P k | None \<Rightarrow> (\<forall>k. fsm_abs m k \<noteq> None \<longrightarrow> \<not> P k))"
proof -
  obtain kvs where r: "fsm_repr n kvs m" using assms by (rule fsm_inv_repr)
  let ?Q = "\<lambda>x :: ('a \<times> 'b) option. case x of None \<Rightarrow> False | Some v \<Rightarrow> P (fst v)"
  have f: "(\<lambda>s x. case x of None \<Rightarrow> (False, s) | Some v \<Rightarrow> (P (fst v), s)) = (\<lambda>s x. (?Q x, s :: 'c))"
    by (auto simp: fun_eq_iff split: option.splits)
  have take: "take (fsm_len m) (items m) = map Some kvs" "fsm_len m \<le> length (items m)"
    using r by (auto simp: fsm_repr_def fsm_len_def)
  have find: "List.find ?Q (map Some kvs) = map_option Some (List.find (\<lambda>kv. P (fst kv)) kvs)"
    by (induction kvs) auto
  have a: "fsm_abs m = map_of kvs" by (rule fsm_repr_facts(2) [OF r])
  show ?thesis
  proof (cases "List.find (\<lambda>kv. P (fst kv)) kvs")
    case None
    then have "\<forall>kv \<in> set kvs. \<not> P (fst kv)" by (auto simp: find_None_iff)
    then show ?thesis
      using None take find by (fastforce simp: fsm_find_def f find_loop_pure a dest: map_of_SomeD)
  next
    case (Some kv)
    then have "kv \<in> set kvs" "P (fst kv)" by (auto simp: find_Some_iff)
    then have "map_of kvs (fst kv) \<noteq> None" by (auto simp: map_of_eq_None_iff)
    then show ?thesis
      using Some take find \<open>P (fst kv)\<close> by (simp add: fsm_find_def f find_loop_pure a)
  qed
qed

text \<open>A callback that never stops and keeps the keys.\<close>

lemma edit_loop_values:
  assumes "\<And>s k v. f s (k, v) = (False, (k, g k v), h s k)"
  shows "edit_loop f (length pre) (length kvs) (pre @ map Some kvs @ rest) s =
    Some (pre @ map (\<lambda>(k, v). Some (k, g k v)) kvs @ rest, foldl (\<lambda>s kv. h s (fst kv)) s kvs)"
proof (induction kvs arbitrary: pre s)
  case (Cons kv kvs)
  obtain k v where kv: "kv = (k, v)" by (cases kv)
  show ?case
    using Cons.IH [of "pre @ [Some (k, g k v)]" "h s k"] kv assms
    by (simp add: list_update_append)
qed simp

lemma map_of_map_dep: "map_of (map (\<lambda>(k, v). (k, g k v)) kvs) k = map_option (g k) (map_of kvs k)"
  by (induction kvs) auto

lemma map_edit_values:
  assumes "fsm_inv n m" "\<And>s k v. f s (k, v) = (False, (k, g k v), h s k)"
  shows "\<exists>m' s'. map_edit m f s = Some (m', s') \<and> fsm_inv n m' \<and>
    fsm_abs m' = (\<lambda>k. map_option (g k) (fsm_abs m k))"
proof -
  obtain kvs where r: "fsm_repr n kvs m" using assms(1) by (rule fsm_inv_repr)
  let ?kvs = "map (\<lambda>(k, v). (k, g k v)) kvs"
  have e: "edit_loop f 0 (fsm_len m) (items m) s =
      Some (map Some ?kvs @ replicate (n - length kvs) None, foldl (\<lambda>s kv. h s (fst kv)) s kvs)"
    using edit_loop_values [of f g h "[]" kvs "replicate (n - length kvs) None" s, OF assms(2)] r
    by (simp add: fsm_repr_def fsm_len_def comp_def case_prod_unfold)
  have "map fst ?kvs = map fst kvs" by auto
  then have r': "fsm_repr n ?kvs (m\<lparr>items := map Some ?kvs @ replicate (n - length kvs) None\<rparr>)"
    using r unfolding fsm_repr_def by (simp only: \<open>map fst ?kvs = map fst kvs\<close>) simp
  show ?thesis
    using e fsm_repr_facts(1,2) [OF r'] fsm_repr_facts(2) [OF r]
    by (simp add: map_edit_def map_of_map_dep fun_eq_iff)
qed

text \<open>Joining a map with the keys of another one only ever keeps entries of the map whose
  key the other map has, with their values, and never panics.\<close>

theorem inner_join_keys_subset:
  assumes "fsm_inv n m" "fsm_inv n other"
  shows "\<exists>m'. inner_join_keys m other = Some m' \<and> fsm_inv n m' \<and>
    (\<forall>k v. fsm_abs m' k = Some v \<longrightarrow> fsm_abs m k = Some v \<and> fsm_abs other k \<noteq> None)"
  using assms by (rule inner_join_keys_sound)

theorem inner_join_keys_subset_witness:
  "\<exists>m'. inner_join_keys map_13 map_13 = Some m' \<and> fsm_inv 3 m'"
  using inner_join_keys_subset [OF map_13_inv map_13_inv] by blast

definition map_1234 :: "(nat, nat) fixed_sized_map" where
  "map_1234 = \<lparr>items = [Some (1, 10), Some (2, 20), Some (3, 30), Some (4, 40)], size_of = 4\<rparr>"


end
