(* ===== verification/Async_Runtime.thy ===== *)
theory Async_Runtime
  imports Pocker_Prelude Fixed_Sized_Map
begin

text \<open>
  The asynchronous runtime of \<open>src/krsm\<close> (\<open>runtime.rs\<close>, \<open>futures.rs\<close>, \<open>tasks.rs\<close>).  A future is a
  state and a poll function on it and on the state it borrows; a panic is the result \<open>None\<close>.
  The state machine the compiler makes of \<open>new_pending_future\<close> is \<open>npf\<close>: not started, waiting
  (the drop guard is live), finished.  The step relation \<open>rt_step\<close> lets any number of such
  futures be created, polled and dropped in any order, between unblocks and ends of steps.
\<close>

section \<open>Futures\<close>

datatype 'o poll = Ready 'o | Pending

type_synonym ('f, 's, 'o) poll_fn = "'f \<Rightarrow> 's \<Rightarrow> ('o poll \<times> 'f \<times> 's) option"

section \<open>The runtime (\<open>runtime.rs\<close>)\<close>

record ('r, 'p) runtime =
  has_unblock :: "('r \<times> 'p) option"
  has_new_future :: bool
  pending_futures :: "('r, nat) fixed_sized_map"

datatype 'r npf = NpfStart 'r | NpfWait 'r | NpfDone

definition runtime_new :: "nat \<Rightarrow> ('r, 'p) runtime" where
  "runtime_new n = \<lparr>has_unblock = None, has_new_future = False, pending_futures = fsm_new n\<rparr>"

definition guard_drop :: "'r :: linorder \<Rightarrow> ('r, 'p) runtime \<Rightarrow> ('r, 'p) runtime option" where
  "guard_drop key rt =
     (case fsm_edit (pending_futures rt) key (\<lambda>x. if x > 0 then x - 1 else 0) of
        None \<Rightarrow> None
      | Some (_, m) \<Rightarrow>
          (case fsm_read m key (\<lambda>x. x = 0) of
             None \<Rightarrow> None
           | Some is_empty \<Rightarrow>
               (if is_empty = Some True
                then map_option (\<lambda>(_, m'). rt\<lparr>pending_futures := m'\<rparr>) (fsm_remove m key)
                else Some (rt\<lparr>pending_futures := m\<rparr>))))"

definition basic_poll :: "'r \<Rightarrow> ('r, 'p) runtime \<Rightarrow> 'p poll \<times> ('r, 'p) runtime" where
  "basic_poll future_type rt =
     (case has_unblock rt of
        Some (curr_type, status) \<Rightarrow>
          (if curr_type = future_type then (Ready status, rt\<lparr>has_unblock := None\<rparr>) else (Pending, rt))
      | None \<Rightarrow> (Pending, rt))"

text \<open>One poll while the guard is live: the guard is dropped when the response arrives.\<close>

definition wait_poll ::
  "'r :: linorder \<Rightarrow> ('r, 'p) runtime \<Rightarrow>
   ((async_runtime_error + 'p) poll \<times> 'r npf \<times> ('r, 'p) runtime) option" where
  "wait_poll r rt =
     (case basic_poll r rt of
        (Ready status, rt') \<Rightarrow> map_option (\<lambda>rt''. (Ready (Inr status), NpfDone, rt'')) (guard_drop r rt')
      | (Pending, rt') \<Rightarrow> Some (Pending, NpfWait r, rt'))"

fun new_pending_future ::
  "('r :: linorder npf, ('r, 'p) runtime, async_runtime_error + 'p) poll_fn" where
  "new_pending_future (NpfStart r) rt =
     (let rt = rt\<lparr>has_new_future := True\<rparr>
      in case set_default (pending_futures rt) r 0 of
           None \<Rightarrow> None
         | Some (Inl e, m) \<Rightarrow>
             map_option (\<lambda>rt'. (Ready (Inl e), NpfDone, rt')) (guard_drop r (rt\<lparr>pending_futures := m\<rparr>))
         | Some (Inr _, m) \<Rightarrow>
             (case fsm_edit m r (\<lambda>v. v + 1) of
                None \<Rightarrow> None
              | Some (_, m') \<Rightarrow> wait_poll r (rt\<lparr>pending_futures := m'\<rparr>)))"
| "new_pending_future (NpfWait r) rt = wait_poll r rt"
| "new_pending_future NpfDone rt = None"

fun npf_drop :: "'r :: linorder npf \<Rightarrow> ('r, 'p) runtime \<Rightarrow> ('r, 'p) runtime option" where
  "npf_drop (NpfStart r) rt = Some rt"
| "npf_drop (NpfWait r) rt = guard_drop r rt"
| "npf_drop NpfDone rt = Some rt"

definition run_async_step ::
  "('f, ('r, 'p) runtime, 'o) poll_fn \<Rightarrow> 'f \<Rightarrow> ('r, 'p) runtime \<Rightarrow>
   ('o option \<times> 'f \<times> ('r, 'p) runtime) option" where
  "run_async_step future_poll future rt =
     (case future_poll future (rt\<lparr>has_new_future := False\<rparr>) of
        None \<Rightarrow> None
      | Some (res, future', rt') \<Rightarrow>
          Some (case res of Ready v \<Rightarrow> Some v | Pending \<Rightarrow> None, future', rt'\<lparr>has_unblock := None\<rparr>))"

definition unblock_futures :: "'r \<Rightarrow> 'p \<Rightarrow> ('r, 'p) runtime \<Rightarrow> ('r, 'p) runtime option" where
  "unblock_futures future_type status rt =
     (if has_unblock rt \<noteq> None then None else Some (rt\<lparr>has_unblock := Some (future_type, status)\<rparr>))"

definition has_new_blockage :: "('r, 'p) runtime \<Rightarrow> bool" where
  "has_new_blockage rt = has_new_future rt"

definition check_pending_reasons ::
  "('r, 'p) runtime \<Rightarrow> ('s \<Rightarrow> 'r \<Rightarrow> bool \<times> 's) \<Rightarrow> 's \<Rightarrow> ('r option \<times> 's) option" where
  "check_pending_reasons rt func s =
     fsm_find (pending_futures rt)
       (\<lambda>s x. case x of None \<Rightarrow> (False, s) | Some v \<Rightarrow> func s (fst v)) fst s"

definition pending_futures_size :: "('r, 'p) runtime \<Rightarrow> nat" where
  "pending_futures_size rt = fsm_len (pending_futures rt)"

section \<open>Yielding and the strong and weak futures (\<open>futures.rs\<close>)\<close>

text \<open>The counter of an \<open>AsyncYielder\<close> is a machine word that wraps; the future keeps the
  number it saw when it was created.\<close>

definition yield_now :: "usize \<Rightarrow> usize" where
  "yield_now num_polls = num_polls"

definition yielder_unblock :: "usize \<Rightarrow> usize" where
  "yielder_unblock num_polls = num_polls + 1"

definition yielder_poll :: "usize \<Rightarrow> usize \<Rightarrow> unit poll" where
  "yielder_poll orig_poll_number num_polls =
     (if num_polls = orig_poll_number then Pending else Ready ())"

record ('t, 'f, 'g) strong_future =
  sf_result :: "'t option"
  sf_timing :: 'f
  sf_weak_wrapper :: 'g

definition strong_upgrade :: "'f \<Rightarrow> 'g \<Rightarrow> ('t, 'f, 'g) strong_future" where
  "strong_upgrade future weak_wrapper =
     \<lparr>sf_result = None, sf_timing = future, sf_weak_wrapper = weak_wrapper\<rparr>"

definition weak_poll :: "'t option \<Rightarrow> 't poll" where
  "weak_poll result = (case result of Some v \<Rightarrow> Ready v | None \<Rightarrow> Pending)"

definition take_result :: "('t, 'f, 'g) strong_future \<Rightarrow> ('t \<times> ('t, 'f, 'g) strong_future) option" where
  "take_result st = map_option (\<lambda>v. (v, st\<lparr>sf_result := None\<rparr>)) (sf_result st)"

text \<open>The weak wrapper borrows the result cell, so its poll function takes the cell's content.\<close>

definition strong_poll ::
  "('f, 's, 't) poll_fn \<Rightarrow> ('t option \<Rightarrow> ('g, 's, 'o) poll_fn) \<Rightarrow>
   (('t, 'f, 'g) strong_future, 's, 'o) poll_fn" where
  "strong_poll timing_poll weak_wrapper_poll st s =
     (if sf_result st \<noteq> None then None
      else case weak_wrapper_poll None (sf_weak_wrapper st) s of
             None \<Rightarrow> None
           | Some (weak_result, g, s) \<Rightarrow>
               (case timing_poll (sf_timing st) s of
                  None \<Rightarrow> None
                | Some (Pending, f, s) \<Rightarrow>
                    Some (Pending, st\<lparr>sf_timing := f, sf_weak_wrapper := g\<rparr>, s)
                | Some (Ready v, f, s) \<Rightarrow>
                    (let st = st\<lparr>sf_timing := f, sf_weak_wrapper := g, sf_result := Some v\<rparr>
                     in case weak_result of
                          Ready result \<Rightarrow> Some (Ready result, st, s)
                        | Pending \<Rightarrow>
                            (case weak_wrapper_poll (Some v) g s of
                               None \<Rightarrow> None
                             | Some (res, g', s) \<Rightarrow> Some (res, st\<lparr>sf_weak_wrapper := g'\<rparr>, s)))))"

section \<open>Background tasks (\<open>tasks.rs\<close>)\<close>

type_synonym ('r, 'p) task_tracker = "('r, 'p option) fixed_sized_map"

definition is_task_complete :: "('r :: linorder, 'p) task_tracker \<Rightarrow> 'r \<Rightarrow> bool" where
  "is_task_complete tr reason = (fsm_read tr reason (\<lambda>x. x \<noteq> None) = Some (Some True))"

definition remove_completed ::
  "('r :: linorder, 'p) task_tracker \<Rightarrow> 'r \<Rightarrow> ('p option \<times> ('r, 'p) task_tracker) option" where
  "remove_completed tr reason = map_option (\<lambda>(v, tr'). (Option.bind v id, tr')) (fsm_remove tr reason)"

definition task_register ::
  "('r :: linorder, 'p) task_tracker \<Rightarrow> 'r \<Rightarrow>
   ((async_runtime_error + unit) \<times> ('r, 'p) task_tracker) option" where
  "task_register tr reason =
     map_option (\<lambda>(res, tr'). (case res of Inl e \<Rightarrow> Inl e | Inr _ \<Rightarrow> Inr (), tr')) (set_default tr reason None)"

definition task_sync ::
  "('r :: linorder, 'p) task_tracker \<Rightarrow> ('r, 'p) runtime \<Rightarrow>
   (bool \<times> ('r, 'p) task_tracker \<times> ('r, 'p) runtime) option" where
  "task_sync tr rt =
     (case inner_join_keys tr (pending_futures rt) of
        None \<Rightarrow> None
      | Some tr \<Rightarrow>
          (case check_pending_reasons rt (\<lambda>s x. (is_task_complete tr x, s)) () of
             None \<Rightarrow> None
           | Some (Some reason, _) \<Rightarrow>
               (case remove_completed tr reason of
                  Some (Some response, tr') \<Rightarrow>
                    map_option (\<lambda>rt'. (False, tr', rt')) (unblock_futures reason response rt)
                | _ \<Rightarrow> None)
           | Some (None, _) \<Rightarrow> Some (fsm_is_empty tr, tr, rt)))"

text \<open>The closure of \<open>register_if\<close> carries the tracker and the last error; a panic inside it is the
  state \<open>None\<close>.\<close>

definition task_register_if ::
  "('r :: linorder, 'p) task_tracker \<Rightarrow> ('r, 'p) runtime \<Rightarrow> ('r \<Rightarrow> bool) \<Rightarrow>
   ((async_runtime_error + unit) \<times> ('r, 'p) task_tracker) option" where
  "task_register_if tr rt match_fn =
     (case check_pending_reasons rt
         (\<lambda>s reason.
            (False, if match_fn reason
                    then Option.bind s (\<lambda>(tr, err). map_option
                           (\<lambda>(res, tr'). (tr', case res of Inl e \<Rightarrow> Some e | Inr _ \<Rightarrow> err))
                           (task_register tr reason))
                    else s))
         (Some (tr, None)) of
        Some (_, Some (tr', err)) \<Rightarrow> Some (case err of Some e \<Rightarrow> Inl e | None \<Rightarrow> Inr (), tr')
      | _ \<Rightarrow> None)"

definition task_work ::
  "('r, 'p) task_tracker \<Rightarrow> ('r \<Rightarrow> 'e + 'p) \<Rightarrow> (('e + unit) \<times> ('r, 'p) task_tracker) option" where
  "task_work tr worker_fn =
     map_option (\<lambda>(tr', err). (case err of Some e \<Rightarrow> Inl e | None \<Rightarrow> Inr (), tr'))
       (map_edit tr (\<lambda>err item.
          case worker_fn (fst item) of
            Inr response \<Rightarrow> (False, (fst item, Some response), err)
          | Inl e \<Rightarrow> (False, item, Some e)) None)"

definition task_work_in_batches ::
  "('r, 'p) task_tracker \<Rightarrow> nat \<Rightarrow>
   (('r \<times> 'p option) option list \<Rightarrow> ('e + unit) \<times> ('r \<times> 'p option) option list) \<Rightarrow>
   (('e + unit) \<times> ('r, 'p) task_tracker) option" where
  "task_work_in_batches tr batch_size worker_fn =
     map_option (\<lambda>(tr', err). (case err of Some e \<Rightarrow> Inl e | None \<Rightarrow> Inr (), tr'))
       (map_edit_batches tr batch_size (\<lambda>err batch.
          case worker_fn batch of
            (Inr _, batch') \<Rightarrow> (False, batch', err)
          | (Inl e, batch') \<Rightarrow> (False, batch', Some e)) None)"

section \<open>The table of pending reasons counts the live futures\<close>

definition waiting :: "'r \<Rightarrow> 'r npf list \<Rightarrow> nat" where
  "waiting r fs = length (filter (\<lambda>f. f = NpfWait r) fs)"

definition counts_ok :: "nat \<Rightarrow> ('r :: linorder, 'p) runtime \<Rightarrow> ('r \<Rightarrow> nat) \<Rightarrow> bool" where
  "counts_ok n rt c \<longleftrightarrow> fsm_inv n (pending_futures rt) \<and>
     fsm_abs (pending_futures rt) = (\<lambda>r. if c r = 0 then None else Some (c r))"

lemma guard_drop_counts:
  assumes "counts_ok n rt c"
  shows "\<exists>rt'. guard_drop r rt = Some rt' \<and> counts_ok n rt' (c(r := c r - 1)) \<and>
    has_unblock rt' = has_unblock rt"
proof -
  let ?m = "pending_futures rt"
  have i: "fsm_inv n ?m" and a: "fsm_abs ?m = (\<lambda>r. if c r = 0 then None else Some (c r))"
    using assms by (auto simp: counts_ok_def)
  obtain m1 where m1: "fsm_edit ?m r (\<lambda>x. if x > 0 then x - 1 else 0) = Some (fsm_abs ?m r \<noteq> None, m1)"
    "fsm_inv n m1" "fsm_abs m1 = (case fsm_abs ?m r of None \<Rightarrow> fsm_abs ?m
       | Some v \<Rightarrow> (fsm_abs ?m)(r \<mapsto> (if v > 0 then v - 1 else 0)))"
    using fsm.edit_spec [OF i] by blast
  have rd: "fsm_read m1 r (\<lambda>x. x = 0) = Some (map_option (\<lambda>x. x = 0) (fsm_abs m1 r))"
    by (rule fsm.read_spec [OF m1(2)])
  obtain m2 where m2: "fsm_remove m1 r = Some (fsm_abs m1 r, m2)" "fsm_inv n m2"
    "fsm_abs m2 = (fsm_abs m1)(r := None)"
    using fsm.remove_spec [OF m1(2)] by blast
  show ?thesis
  proof (cases "c r = 1")
    case True
    then have "fsm_abs m1 r = Some 0" using m1(3) a by simp
    then have "guard_drop r rt = Some (rt\<lparr>pending_futures := m2\<rparr>)"
      using m1(1) rd m2(1) by (simp add: guard_drop_def)
    moreover have "fsm_abs m2 = (\<lambda>q. if (c(r := c r - 1)) q = 0 then None else Some ((c(r := c r - 1)) q))"
      using True m1(3) m2(3) a by (auto simp: fun_eq_iff)
    ultimately show ?thesis using m2(2) by (simp add: counts_ok_def del: One_nat_def)
  next
    case False
    then have "fsm_abs m1 r = (if c r = 0 then None else Some (c r - 1))"
      using m1(3) a by simp
    then have "guard_drop r rt = Some (rt\<lparr>pending_futures := m1\<rparr>)"
      using m1(1) rd False by (auto simp: guard_drop_def)
    moreover have "fsm_abs m1 = (\<lambda>q. if (c(r := c r - 1)) q = 0 then None else Some ((c(r := c r - 1)) q))"
      using False m1(3) a by (auto simp: fun_eq_iff)
    ultimately show ?thesis using m1(2) by (simp add: counts_ok_def del: One_nat_def)
  qed
qed

lemma counts_ok_unblock [simp]:
  "counts_ok n (rt\<lparr>has_unblock := u\<rparr>) c = counts_ok n rt c"
  "counts_ok n (rt\<lparr>has_new_future := b\<rparr>) c = counts_ok n rt c"
  by (simp_all add: counts_ok_def)

lemma wait_poll_counts:
  assumes "counts_ok n rt c"
  shows "\<exists>res f rt'. wait_poll r rt = Some (res, f, rt') \<and>
    (f = NpfDone \<and> counts_ok n rt' (c(r := c r - 1)) \<or> f = NpfWait r \<and> counts_ok n rt' c)"
proof (cases "basic_poll r rt")
  case (Pair res rt1)
  have c1: "counts_ok n rt1 c"
    using Pair assms by (auto simp: basic_poll_def split: option.splits if_splits)
  show ?thesis
  proof (cases res)
    case (Ready v)
    obtain rt2 where "guard_drop r rt1 = Some rt2" "counts_ok n rt2 (c(r := c r - 1))"
      using guard_drop_counts [OF c1] by blast
    with Pair Ready show ?thesis by (simp add: wait_poll_def)
  next
    case Pending
    with Pair c1 show ?thesis by (simp add: wait_poll_def)
  qed
qed

lemma start_poll_counts:
  assumes "counts_ok n rt c"
  shows "\<exists>res f rt'. new_pending_future (NpfStart r) rt = Some (res, f, rt') \<and>
    (f = NpfDone \<and> counts_ok n rt' c \<or> f = NpfWait r \<and> counts_ok n rt' (c(r := c r + 1)))"
proof -
  let ?m = "pending_futures rt"
  have i: "fsm_inv n ?m" and a: "fsm_abs ?m = (\<lambda>r. if c r = 0 then None else Some (c r))"
    using assms by (auto simp: counts_ok_def)
  show ?thesis
  proof (cases "fsm_abs ?m r \<noteq> None \<or> card (dom (fsm_abs ?m)) < n")
    case True
    obtain b m1 m2 where t: "set_default ?m r 0 = Some (Inr b, m1)"
      "fsm_edit m1 r (\<lambda>v. v + 1) = Some (True, m2)" "fsm_inv n m2"
      "fsm_abs m2 = (fsm_abs ?m)(r \<mapsto> (case fsm_abs ?m r of None \<Rightarrow> 0 | Some v \<Rightarrow> v) + 1)"
      using fsm.tally [OF i True, of 0 "\<lambda>v. v + 1"] by blast
    let ?rt = "rt\<lparr>has_new_future := True, pending_futures := m2\<rparr>"
    have "counts_ok n ?rt (c(r := c r + 1))"
      using t(3,4) a by (auto simp: counts_ok_def fun_eq_iff)
    from wait_poll_counts [OF this, of r] show ?thesis
      using t(1,2) by (simp add: Let_def)
  next
    case False
    then obtain m1 where t: "set_default ?m r 0 = Some (Inl TooManyPending, m1)" "fsm_inv n m1"
      "fsm_abs m1 = fsm_abs ?m" using fsm.full [OF i] by blast
    have c0: "c r = 0" using False a by (auto split: if_splits)
    have "counts_ok n (rt\<lparr>has_new_future := True, pending_futures := m1\<rparr>) c"
      using t(2,3) a by (simp add: counts_ok_def)
    from guard_drop_counts [OF this, of r] show ?thesis
      using t(1) c0 by (auto simp: Let_def fun_upd_idem)
  qed
qed

text \<open>The futures of a runtime and what can happen to them.\<close>

inductive rt_step ::
  "('r :: linorder, 'p) runtime \<times> 'r npf list \<Rightarrow> ('r, 'p) runtime \<times> 'r npf list \<Rightarrow> bool" where
  create: "rt_step (rt, fs) (rt, fs @ [NpfStart r])"
| poll_future: "i < length fs \<Longrightarrow> new_pending_future (fs ! i) rt = Some (res, f, rt') \<Longrightarrow>
    rt_step (rt, fs) (rt', fs[i := f])"
| drop_future: "i < length fs \<Longrightarrow> npf_drop (fs ! i) rt = Some rt' \<Longrightarrow> rt_step (rt, fs) (rt', fs[i := NpfDone])"
| unblock: "unblock_futures r v rt = Some rt' \<Longrightarrow> rt_step (rt, fs) (rt', fs)"
| begin_step: "rt_step (rt, fs) (rt\<lparr>has_new_future := False\<rparr>, fs)"
| end_step: "rt_step (rt, fs) (rt\<lparr>has_unblock := None\<rparr>, fs)"

inductive rt_reachable :: "nat \<Rightarrow> ('r :: linorder, 'p) runtime \<times> 'r npf list \<Rightarrow> bool" for n where
  init: "rt_reachable n (runtime_new n, [])"
| step: "rt_reachable n st \<Longrightarrow> rt_step st st' \<Longrightarrow> rt_reachable n st'"

lemma waiting_update:
  assumes "i < length fs"
  shows "waiting q (fs[i := f]) =
    waiting q fs - (if fs ! i = NpfWait q then 1 else 0) + (if f = NpfWait q then 1 else 0)"
proof -
  have "fs = take i fs @ fs ! i # drop (Suc i) fs" using assms by (rule id_take_nth_drop)
  then have "waiting q fs = waiting q (take i fs @ fs ! i # drop (Suc i) fs)" by simp
  then have "waiting q fs = waiting q (take i fs) + (if fs ! i = NpfWait q then 1 else 0) +
      waiting q (drop (Suc i) fs)"
    by (simp add: waiting_def)
  moreover have "waiting q (fs[i := f]) = waiting q (take i fs) + (if f = NpfWait q then 1 else 0) +
      waiting q (drop (Suc i) fs)"
    using assms by (simp add: upd_conv_take_nth_drop waiting_def)
  ultimately show ?thesis by simp
qed

lemma rt_step_counts:
  assumes "rt_step (rt, fs) (rt', fs')" "counts_ok n rt (\<lambda>r. waiting r fs)"
  shows "counts_ok n rt' (\<lambda>r. waiting r fs')"
  using assms(1)
proof (cases rule: rt_step.cases)
  case (poll_future i res f)
  show ?thesis
  proof (cases "fs ! i")
    case (NpfStart r)
    with start_poll_counts [OF assms(2), of r] poll_future
    have "f = NpfDone \<and> counts_ok n rt' (\<lambda>r. waiting r fs) \<or>
      f = NpfWait r \<and> counts_ok n rt' ((\<lambda>r. waiting r fs)(r := waiting r fs + 1))" by auto
    moreover have "(\<lambda>q. waiting q fs') = (if f = NpfWait r
        then (\<lambda>r. waiting r fs)(r := waiting r fs + 1) else (\<lambda>r. waiting r fs))" if "f = NpfDone \<or> f = NpfWait r"
      using that NpfStart poll_future by (auto simp: fun_eq_iff waiting_update)
    ultimately show ?thesis by auto
  next
    case (NpfWait r)
    with wait_poll_counts [OF assms(2), of r] poll_future
    have "f = NpfDone \<and> counts_ok n rt' ((\<lambda>r. waiting r fs)(r := waiting r fs - 1)) \<or>
      f = NpfWait r \<and> counts_ok n rt' (\<lambda>r. waiting r fs)" by auto
    moreover have "(\<lambda>q. waiting q fs') = (if f = NpfDone
        then (\<lambda>r. waiting r fs)(r := waiting r fs - 1) else (\<lambda>r. waiting r fs))" if "f = NpfDone \<or> f = NpfWait r"
    proof -
      have "0 < waiting r fs"
        using NpfWait poll_future(2) unfolding waiting_def
        by (metis (mono_tags, lifting) filter_empty_conv length_greater_0_conv nth_mem)
      then show ?thesis using that NpfWait poll_future by (auto simp: fun_eq_iff waiting_update)
    qed
    ultimately show ?thesis by auto
  qed (use poll_future in simp)
next
  case (drop_future i)
  show ?thesis
  proof (cases "fs ! i")
    case (NpfWait r)
    then have "guard_drop r rt = Some rt'" using drop_future by simp
    with guard_drop_counts [OF assms(2), of r]
    have "counts_ok n rt' ((\<lambda>r. waiting r fs)(r := waiting r fs - 1))" by auto
    moreover have "(\<lambda>q. waiting q fs') = (\<lambda>r. waiting r fs)(r := waiting r fs - 1)"
      using NpfWait drop_future by (auto simp: fun_eq_iff waiting_update)
    ultimately show ?thesis by simp
  qed (use assms(2) drop_future in \<open>auto simp: waiting_update\<close>)
qed (use assms(2) in \<open>auto simp: waiting_def unblock_futures_def split: if_splits\<close>)

lemma rt_reachable_counts: "rt_reachable n st \<Longrightarrow> counts_ok n (fst st) (\<lambda>r. waiting r (snd st))"
proof (induction rule: rt_reachable.induct)
  case init
  then show ?case
    by (simp add: runtime_new_def counts_ok_def fsm_new_spec waiting_def)
next
  case (step st st')
  then show ?case using rt_step_counts [of "fst st" "snd st" "fst st'" "snd st'" n] by simp
qed

text \<open>C14: the runtime always knows what its futures wait for.  However futures are created,
  polled, completed, rejected for lack of slots, and dropped, the table of pending reasons
  holds a reason exactly when some live future waits for it, with the number of futures that
  do; and no poll or drop of a live future ever panics.\<close>

theorem pending_futures_exact:
  assumes "rt_reachable n (rt, fs)"
  shows "fsm_abs (pending_futures rt) r = (if waiting r fs = 0 then None else Some (waiting r fs)) \<and>
    (\<forall>f \<in> set fs. f \<noteq> NpfDone \<longrightarrow> new_pending_future f rt \<noteq> None \<and> npf_drop f rt \<noteq> None)"
proof -
  have c: "counts_ok n rt (\<lambda>r. waiting r fs)" using rt_reachable_counts [OF assms] by simp
  have "new_pending_future (NpfStart q) rt \<noteq> None" "wait_poll q rt \<noteq> None" "guard_drop q rt \<noteq> None" for q
    using start_poll_counts [OF c, of q] wait_poll_counts [OF c, of q] guard_drop_counts [OF c, of q]
    by blast+
  then have "new_pending_future f rt \<noteq> None \<and> npf_drop f rt \<noteq> None" if "f \<noteq> NpfDone" for f
    using that by (cases f) (simp_all del: new_pending_future.simps(1))
  then show ?thesis using c by (auto simp: counts_ok_def)
qed

theorem pending_futures_exact_witness:
  "\<exists>rt fs. rt_reachable 2 (rt :: (nat, nat) runtime, fs) \<and> fs = [NpfWait 5] \<and>
     fsm_abs (pending_futures rt) 5 = Some 1"
proof -
  obtain res f rt' where p: "new_pending_future (NpfStart 5) (runtime_new 2 :: (nat, nat) runtime) =
      Some (res, f, rt')" "f = NpfWait 5"
    by (simp add: runtime_new_def fsm_new_def set_default_def fsm_search_def binary_search_by_def
        search_loop.simps fsm_len_def move_within_def fsm_edit_def cmp_def wait_poll_def basic_poll_def
        numeral_2_eq_2)
  have "rt_reachable 2 (runtime_new 2 :: (nat, nat) runtime, [] @ [NpfStart 5])"
    by (rule rt_reachable.step [OF rt_reachable.init rt_step.create])
  then have r: "rt_reachable 2 (rt', [NpfWait 5])"
    by (rule rt_reachable.step) (use rt_step.poll_future [of 0 "[NpfStart 5]" "runtime_new 2" res f rt'] p in simp)
  from pending_futures_exact [OF r, of 5] r show ?thesis by (auto simp: waiting_def)
qed

section \<open>A response reaches exactly one future\<close>

text \<open>The branches of a \<open>zip\<close> or \<open>or\<close> are polled one after the other in one step.\<close>

fun poll_each ::
  "'r :: linorder npf list \<Rightarrow> ('r, 'p) runtime \<Rightarrow>
   ((async_runtime_error + 'p) poll list \<times> 'r npf list \<times> ('r, 'p) runtime) option" where
  "poll_each [] rt = Some ([], [], rt)"
| "poll_each (f # fs) rt =
     (case new_pending_future f rt of
        None \<Rightarrow> None
      | Some (res, f', rt') \<Rightarrow>
          map_option (\<lambda>(rs, fs', rt''). (res # rs, f' # fs', rt'')) (poll_each fs rt'))"

lemma poll_each_blocked:
  "(\<And>q v. has_unblock rt = Some (q, v) \<Longrightarrow> q \<notin> set rs) \<Longrightarrow>
   poll_each (map NpfWait rs) rt = Some (map (\<lambda>_. Pending) rs, map NpfWait rs, rt)"
proof (induction rs)
  case (Cons r rs)
  then have "basic_poll r rt = (Pending, rt)" by (auto simp: basic_poll_def split: option.splits)
  then show ?case using Cons by (simp add: wait_poll_def)
qed simp

lemma poll_each_delivers:
  assumes "counts_ok n rt c" "has_unblock rt = Some (r, v)"
  shows "r \<notin> set ps \<Longrightarrow> \<exists>rt'. poll_each (map NpfWait (ps @ r # qs)) rt =
     Some (map (\<lambda>_. Pending) ps @ Ready (Inr v) # map (\<lambda>_. Pending) qs,
           map NpfWait ps @ NpfDone # map NpfWait qs, rt') \<and> has_unblock rt' = None"
proof (induction ps)
  case Nil
  obtain rt1 where g: "guard_drop r (rt\<lparr>has_unblock := None\<rparr>) = Some rt1" "has_unblock rt1 = None"
    using guard_drop_counts [of n "rt\<lparr>has_unblock := None\<rparr>" c r] assms(1) by auto
  have "poll_each (map NpfWait qs) rt1 = Some (map (\<lambda>_. Pending) qs, map NpfWait qs, rt1)"
    by (rule poll_each_blocked) (simp add: g(2))
  then show ?case using g assms(2) by (simp add: wait_poll_def basic_poll_def)
next
  case (Cons p ps)
  then have "basic_poll p rt = (Pending, rt)" using assms(2) by (auto simp: basic_poll_def)
  then show ?case using Cons by (auto simp: wait_poll_def)
qed

text \<open>A response is delivered exactly once.  When the runtime unblocks a reason and several
  live futures are polled, the first of them that waits for this reason completes with the
  response, all others stay pending, and the response is gone.\<close>

theorem unblock_delivered_once:
  assumes "rt_reachable n (rt0, fs)" "unblock_futures r v rt0 = Some rt" "r \<notin> set ps"
  shows "\<exists>rt'. poll_each (map NpfWait (ps @ r # qs)) rt =
     Some (map (\<lambda>_. Pending) ps @ Ready (Inr v) # map (\<lambda>_. Pending) qs,
           map NpfWait ps @ NpfDone # map NpfWait qs, rt') \<and> has_unblock rt' = None"
proof -
  have "counts_ok n rt0 (\<lambda>r. waiting r fs)" using rt_reachable_counts [OF assms(1)] by simp
  then have "counts_ok n rt (\<lambda>r. waiting r fs)" "has_unblock rt = Some (r, v)"
    using assms(2) by (auto simp: unblock_futures_def split: if_splits)
  then show ?thesis using assms(3) by (rule poll_each_delivers)
qed

theorem unblock_delivered_once_witness:
  "\<exists>rt rt'. unblock_futures 5 True (runtime_new 2 :: (nat, bool) runtime) = Some rt \<and>
     poll_each (map NpfWait ([3] @ 5 # [5])) rt =
     Some ([Pending, Ready (Inr True), Pending], [NpfWait 3, NpfDone, NpfWait 5], rt')"
proof -
  obtain rt where rt: "unblock_futures 5 True (runtime_new 2 :: (nat, bool) runtime) = Some rt"
    by (simp add: unblock_futures_def runtime_new_def)
  from unblock_delivered_once [OF rt_reachable.init rt, of "[3]" "[5]"] rt show ?thesis by auto
qed

section \<open>The task tracker\<close>

lemma remove_completed_spec:
  assumes "fsm_inv n tr" "fsm_abs tr r = Some (Some p)"
  shows "\<exists>tr'. remove_completed tr r = Some (Some p, tr') \<and> fsm_inv n tr' \<and> fsm_abs tr' r = None"
  using fsm.remove_spec [OF assms(1), of r] assms(2) by (auto simp: remove_completed_def)

lemma is_task_complete_spec:
  "fsm_inv n tr \<Longrightarrow> is_task_complete tr r \<longleftrightarrow> (\<exists>p. fsm_abs tr r = Some (Some p))"
  by (cases "fsm_abs tr r") (auto simp: is_task_complete_def fsm.read_spec)

lemma fsm_is_empty_abs: "fsm_inv n m \<Longrightarrow> fsm_is_empty m \<longleftrightarrow> fsm_abs m = Map.empty"
proof (elim fsm_inv_repr)
  fix kvs assume r: "fsm_repr n kvs m"
  show ?thesis using fsm_repr_facts(2,4) [OF r] by (simp add: fsm_is_empty_def fsm_len_def)
qed


lemma task_work_spec:
  assumes "fsm_inv n tr"
  shows "\<exists>res tr'. task_work tr worker = Some (res, tr') \<and> fsm_inv n tr' \<and>
    fsm_abs tr' = (\<lambda>k. map_option (\<lambda>v. case worker k of Inr p \<Rightarrow> Some p | Inl e \<Rightarrow> v) (fsm_abs tr k))"
proof -
  let ?f = "\<lambda>err item. case worker (fst item) of
            Inr response \<Rightarrow> (False, (fst item, Some response), err)
          | Inl e \<Rightarrow> (False, item, Some e)"
  let ?g = "\<lambda>k v. case worker k of Inr p \<Rightarrow> Some p | Inl e \<Rightarrow> v"
  let ?h = "\<lambda>err k. case worker k of Inr p \<Rightarrow> err | Inl e \<Rightarrow> Some e"
  have "?f s (k, v) = (False, (k, ?g k v), ?h s k)" for s k v by (simp split: sum.split)
  from map_edit_values [where s = None and f = ?f and g = ?g and h = ?h, OF assms this] obtain tr' err where
    "map_edit tr ?f None = Some (tr', err)" "fsm_inv n tr'"
    "fsm_abs tr' = (\<lambda>k. map_option (?g k) (fsm_abs tr k))" by blast
  then show ?thesis by (simp add: task_work_def)
qed


end
