(* ===== verification/Sysaug_Types.thy ===== *)
theory Sysaug_Types
  imports Ptrace_Base Async_Runtime
begin

text \<open>
  The shared vocabulary of the system-call augmentation crate: the error type, the arguments,
  the description of a system call and the constants of \<open>src/sysaug/src/common.rs\<close>, the
  configuration of \<open>src/sysaug/src/config.rs\<close>, and the reasons and responses of the ptrace
  runtime of \<open>src/executor/src/futures.rs\<close>.  A path is the byte string it is on Unix (type
  \<open>string\<close>).  An I/O error is its errno.  Regular expressions belong to the \<open>regex\<close> crate: a
  pattern is an opaque string here and matching is a parameter of the code that uses it.
\<close>

section \<open>Reasons and responses of the ptrace runtime (\<open>src/executor\<close>)\<close>

datatype ptrace_future_type =
    WaitForPtraceSeccomp
  | WaitForPtraceSyscall
  | WaitForPtraceEvent
  | WaitForSignal

fun pft_rank :: "ptrace_future_type \<Rightarrow> nat" where
  "pft_rank WaitForPtraceSeccomp = 0"
| "pft_rank WaitForPtraceSyscall = 1"
| "pft_rank WaitForPtraceEvent = 2"
| "pft_rank WaitForSignal = 3"

lemma pft_rank_inj: "pft_rank x = pft_rank y \<Longrightarrow> x = y"
  by (cases x; cases y) simp_all

text \<open>The derived \<open>Ord\<close> of the enum is the order of its variants.\<close>

instantiation ptrace_future_type :: linorder
begin

definition less_eq_ptrace_future_type :: "ptrace_future_type \<Rightarrow> ptrace_future_type \<Rightarrow> bool" where
  "less_eq_ptrace_future_type x y \<longleftrightarrow> pft_rank x \<le> pft_rank y"

definition less_ptrace_future_type :: "ptrace_future_type \<Rightarrow> ptrace_future_type \<Rightarrow> bool" where
  "less_ptrace_future_type x y \<longleftrightarrow> pft_rank x < pft_rank y"

instance
  by standard (auto simp: less_eq_ptrace_future_type_def less_ptrace_future_type_def
      intro: pft_rank_inj)

end

type_synonym ptrace_status = wait_status

type_synonym ptrace_async_runtime = "(ptrace_future_type, ptrace_status) runtime"

definition PTRACE_MAX_PENDING :: nat where "PTRACE_MAX_PENDING = 4"

type_synonym io_error = int
type_synonym path = string

datatype procfs_error = InvalidGzip io_error | NoGzip io_error | ProcfsIO io_error

datatype executor_error =
    TaskEnqueue
  | TaskDequeue
  | ResultDequeue
  | ResultEnqueue string
  | Attach nix_error
  | ExecPtraceError ptrace_error
  | TransferDetach nix_error
  | TransferLock
  | TransferWaitpid wait_status
  | AsyncBanOfExternalCode

section \<open>Errors, arguments and system-call descriptions (\<open>common.rs\<close>)\<close>

datatype sysaug_error =
    InternalExecutor executor_error
  | ParseWaitStatus nix_error
  | Procfs procfs_error
  | Ptrace ptrace_error
  | PtraceDetach nix_error
  | PtraceGetSigInfo
  | PtraceGetSigInfo2 nix_error
  | PtraceRead nix_error
  | PtraceSetOptions nix_error
  | PtraceSyscallErr nix_error
  | PtraceContinue nix_error
  | ReadKernelVersion nix_error
  | ParseKernelVersion string
  | AbsolutePath path
  | ConvertAbsolutePath io_error
  | ConvertAbsolutePathPrefix
  | DirfdReg
  | GDBDetach nix_error
  | GDB io_error
  | IntoIntErr
  | ListMetadata io_error
  | LockTraceeHandler
  | TraceeCrashed
  | WriteMetadata string
  | MetadataDir io_error
  | DeleteMetadata io_error
  | NullValue string
  | UnimplementedAugment
  | ReadBin io_error
  | ReadSymlink io_error
  | ModError string string string
  | InitMissingSavedRegs
  | AsyncMismatch ptrace_future_type ptrace_status
  | AsyncMisMatchSyscall string ptrace_status
  | AsyncRuntimeErr async_runtime_error
  | WeakReference
  | SeccompInit
  | ParseRootFsMetadata string
  | WriteRootFsMetadata io_error
  | WriteRootFsMetadata2 string
  | LockRootFsMetadata
  | CheckRootFsMetadata io_error
  | SyscallMissingField string
  | CreateHardlinkIO io_error
  | RenameMetadata io_error
  | StatHardlinkIO io_error
  | SysaugPanic string

text \<open>\<open>SysaugPanic\<close> is not a variant of the source: it stands for a panic of the Rust code.\<close>

datatype perms_mode = Passthrough | RootOnly | SudoOnly

record sysaug_args =
  a_chroot :: "path option"
  a_rootfs :: "path option"
  a_perms_mode :: perms_mode
  a_fail_fast :: bool
  a_fix_sigsys :: bool
  a_fix_mmap :: bool
  a_no_seccomp :: bool
  a_gdb :: bool
  a_gdb_at :: "usize option"
  a_use_native_loader :: bool

definition sysaug_args_default :: sysaug_args where
  "sysaug_args_default = \<lparr>a_chroot = None, a_rootfs = None, a_perms_mode = Passthrough,
     a_fail_fast = False, a_fix_sigsys = False, a_fix_mmap = False, a_no_seccomp = False,
     a_gdb = False, a_gdb_at = None, a_use_native_loader = False\<rparr>"

datatype augments =
  AugClone | AugExec | AugPaths | AugPerms | AugSeccomp | AugWaitpid | AugNone | AugUnimplemented

datatype path_action = ELOOP | NoAction | HidePath | Override path

record rootfs_metadata =
  m_chmod :: "usize option"
  m_chown_owner :: "usize option"
  m_chown_group :: "usize option"
  m_is_symlink :: "bool option"
  m_hardlink_counter :: "usize option"

definition rootfs_metadata_default :: rootfs_metadata where
  "rootfs_metadata_default = \<lparr>m_chmod = None, m_chown_owner = None, m_chown_group = None,
     m_is_symlink = None, m_hardlink_counter = None\<rparr>"

datatype del_type = DelFile | DelDir

datatype perm_type = PermChmod | PermChmodOnCreation | PermChown

record syscall_info =
  si_augment :: augments
  si_flags :: "nat option"
  si_path_positions :: usize
  si_dirfd_position :: "nat option"
  si_filefd_position :: "nat option"
  si_dirfd_precedes_path :: bool
  si_getdents_bits :: "nat option"
  si_stat_buf_position :: "nat option"
  si_stat_legacy_buf_position :: "nat option"
  si_stat64_buf_position :: "nat option"
  si_statx_buf_position :: "nat option"
  si_sets_file_perms :: "perm_type option"
  si_file_perms_position :: "nat option"
  si_deletion_type :: "del_type option"
  si_dont_follow_symlink :: bool
  si_flag_dont_follow_symlink :: "usize option"
  si_creates_symlink :: "(nat \<times> nat) option"
  si_creates_hardlink :: "(nat \<times> nat) option"
  si_should_follow_hardlink :: bool
  si_renames_metadata :: "(nat \<times> nat) option"
  si_is_setter :: bool
  si_res_bits :: u8
  si_resf_bit :: "nat option"
  si_seccomp_position :: "nat option"
  si_num :: usize
  si_name :: string

definition default_syscall_info :: syscall_info where
  "default_syscall_info = \<lparr>
     si_augment = AugNone, si_flags = None, si_path_positions = 0, si_dirfd_position = None,
     si_filefd_position = None, si_dirfd_precedes_path = False, si_getdents_bits = None,
     si_stat_buf_position = None, si_stat_legacy_buf_position = None,
     si_stat64_buf_position = None, si_statx_buf_position = None, si_sets_file_perms = None,
     si_file_perms_position = None, si_deletion_type = None, si_dont_follow_symlink = False,
     si_flag_dont_follow_symlink = None, si_creates_symlink = None, si_creates_hardlink = None,
     si_should_follow_hardlink = False, si_renames_metadata = None, si_is_setter = False,
     si_res_bits = 0, si_resf_bit = None, si_seccomp_position = None, si_num = 0, si_name = []\<rparr>"

definition syscall_info_name :: "syscall_info \<Rightarrow> string" where
  "syscall_info_name i = drop 10 (si_name i)"

text \<open>Constants of the Linux ABI on x86_64 the code names through \<open>libc\<close>.  An error number is
  returned in a register as the two's complement of its value.\<close>

definition EINVAL :: usize where "EINVAL = 22"
definition ENOSYS :: usize where "ENOSYS = 38"
definition ENOENT :: usize where "ENOENT = 2"
definition ELOOP_NO :: usize where "ELOOP_NO = 40"
definition EACCES :: usize where "EACCES = 13"
definition EEXIST :: usize where "EEXIST = 17"
definition EINTR :: usize where "EINTR = 4"
definition AT_FDCWD :: usize where "AT_FDCWD = - 100"
definition O_CREAT :: usize where "O_CREAT = 64"
definition AT_SYMLINK_NOFOLLOW :: usize where "AT_SYMLINK_NOFOLLOW = 256"
definition CLONE_PTRACE :: usize where "CLONE_PTRACE = 8192"
definition CLONE_UNTRACED :: usize where "CLONE_UNTRACED = 8388608"
definition WNOHANG :: usize where "WNOHANG = 1"
definition PROT_READ :: usize where "PROT_READ = 1"
definition MAP_SHARED :: usize where "MAP_SHARED = 1"
definition PTRACE_EVENT_FORK :: int where "PTRACE_EVENT_FORK = 1"
definition PTRACE_EVENT_VFORK :: int where "PTRACE_EVENT_VFORK = 2"
definition PTRACE_EVENT_CLONE :: int where "PTRACE_EVENT_CLONE = 3"
definition PTRACE_EVENT_EXIT :: int where "PTRACE_EVENT_EXIT = 6"
definition PTRACE_EVENT_SECCOMP :: int where "PTRACE_EVENT_SECCOMP = 7"
definition SIGSEGV :: int where "SIGSEGV = 11"
definition SIGSTOP :: int where "SIGSTOP = 19"
definition SIGSYS :: int where "SIGSYS = 31"

definition PR_SET_SECCOMP :: usize where "PR_SET_SECCOMP = 22"
definition PR_SET_NO_NEW_PRIVS :: usize where "PR_SET_NO_NEW_PRIVS = 38"
definition SECCOMP_SET_MODE_FILTER :: usize where "SECCOMP_SET_MODE_FILTER = 1"
definition SECCOMP_FILTER_FLAG_TSYNC :: usize where "SECCOMP_FILTER_FLAG_TSYNC = 1"
definition SI_CODE_SYS_SECCOMP :: int where "SI_CODE_SYS_SECCOMP = 1"
definition SYS_MMAP_PGOFFSET_BLOCK :: usize where "SYS_MMAP_PGOFFSET_BLOCK = 1"

text \<open>System-call numbers come from the \<open>libc\<close> crate: \<open>nr\<close> maps a name to its number.\<close>

definition NO_MOD_SYSCALL :: "(string \<Rightarrow> usize) \<Rightarrow> usize" where
  "NO_MOD_SYSCALL nr = nr ''getpid''"

section \<open>Configuration (\<open>config.rs\<close>)\<close>

record rename_config =
  rc_regex :: string
  rc_replacement :: "string option"
  rc_should_replace_all :: bool

record rootfs_config =
  rf_passthroughs :: "string list"
  rf_host_file_perms :: usize
  rf_host_uid :: usize
  rf_host_gid :: usize
  rf_rename_guest_paths :: "rename_config list"
  rf_rename_host_paths :: "rename_config list"

definition default_passthroughs :: "string list" where
  "default_passthroughs = [''/dev'', ''/proc'', ''/sys'', ''/system/lib64'', ''/system/lib'']"

definition default_host_file_perms :: usize where "default_host_file_perms = 448"

text \<open>The user and group of the tracer process are arguments.\<close>

definition rootfs_config_default :: "usize \<Rightarrow> usize \<Rightarrow> rootfs_config" where
  "rootfs_config_default uid gid = \<lparr>rf_passthroughs = default_passthroughs,
     rf_host_file_perms = default_host_file_perms, rf_host_uid = uid, rf_host_gid = gid,
     rf_rename_guest_paths = [], rf_rename_host_paths = []\<rparr>"

definition init_passthroughs_from_config :: "rootfs_config \<Rightarrow> path list" where
  "init_passthroughs_from_config config = map (\<lambda>p. p) (rf_passthroughs config)"

definition PERMS_IDBIT_UG :: u8 where "PERMS_IDBIT_UG = 4"
definition PERMS_IDS_SIZE :: nat where "PERMS_IDS_SIZE = 8"

datatype resf_ug_type =
  RealUid | EffectiveUid | SavedSetUid | FileSystemUid | RealGid | EffectiveGid | SavedSetGid | FileSystemGid

fun resf_index :: "resf_ug_type \<Rightarrow> nat" where
  "resf_index RealUid = 0"
| "resf_index EffectiveUid = 1"
| "resf_index SavedSetUid = 2"
| "resf_index FileSystemUid = 3"
| "resf_index RealGid = unat (PERMS_IDBIT_UG OR 0)"
| "resf_index EffectiveGid = unat (PERMS_IDBIT_UG OR 1)"
| "resf_index SavedSetGid = unat (PERMS_IDBIT_UG OR 2)"
| "resf_index FileSystemGid = unat (PERMS_IDBIT_UG OR 3)"

definition resf_from_str :: "string \<Rightarrow> string + resf_ug_type" where
  "resf_from_str s =
     (if s = ''realUid'' then Inr RealUid
      else if s = ''effectiveUid'' then Inr EffectiveUid
      else if s = ''savedSetUid'' then Inr SavedSetUid
      else if s = ''fileSystemUid'' then Inr FileSystemUid
      else if s = ''realGid'' then Inr RealGid
      else if s = ''effectiveGid'' then Inr EffectiveGid
      else if s = ''savedSetGid'' then Inr SavedSetGid
      else if s = ''fileSystemGid'' then Inr FileSystemGid
      else Inl (''Invalid ResfUgType: '' @ s))"

type_synonym perms_config = "(resf_ug_type \<times> usize) list"

text \<open>A \<open>HashMap\<close> is iterated in some order: the entries as a list with distinct keys.\<close>

definition init_perms_ids_from_config ::
  "usize option list \<Rightarrow> perms_config \<Rightarrow> usize option list" where
  "init_perms_ids_from_config perms_ids root_ids =
     foldl (\<lambda>ids (ty, v). ids[resf_index ty := Some v]) perms_ids root_ids"

definition default_root_ids :: perms_config where
  "default_root_ids = [(RealUid, 0), (EffectiveUid, 0), (SavedSetUid, 0), (FileSystemUid, 0),
     (RealGid, 0), (EffectiveGid, 0), (SavedSetGid, 0), (FileSystemGid, 0)]"

record mount_config =
  mc_source :: string
  mc_target :: string
  mc_fstype :: string

definition mount_config_default :: mount_config where
  "mount_config_default = \<lparr>mc_source = [], mc_target = [], mc_fstype = []\<rparr>"

record sysaug_config =
  c_rootfs :: rootfs_config
  c_perms :: perms_config
  c_mounts :: "mount_config list"

definition sysaug_config_default :: "usize \<Rightarrow> usize \<Rightarrow> sysaug_config" where
  "sysaug_config_default uid gid =
     \<lparr>c_rootfs = rootfs_config_default uid gid, c_perms = default_root_ids, c_mounts = []\<rparr>"

text \<open>\<open>walk_res_bits\<close> calls the callback for the set bits among the two lowest of \<open>res_bits\<close>; the
  callback gets the bit's number and the slot, and returns the new slot.  Its state \<open>'s\<close> is
  what the closure captures.\<close>

definition walk_res_bits_step ::
  "u8 \<Rightarrow> (nat \<Rightarrow> usize option \<Rightarrow> 's \<Rightarrow> (sysaug_error + usize option) \<times> 's) \<Rightarrow> nat \<Rightarrow>
   usize option list \<Rightarrow> ('s, sysaug_error, usize option list) act" where
  "walk_res_bits_step res_bits callback i ids =
     (if res_bits AND push_bit i 1 = 0 then act_ret ids
      else let idx = unat ((res_bits AND PERMS_IDBIT_UG) OR of_nat i)
           in if idx < length ids
              then act_bind (callback i (ids ! idx)) (\<lambda>v. act_ret (ids[idx := v]))
              else act_err (SysaugPanic ''index out of bounds''))"

definition walk_res_bits ::
  "u8 \<Rightarrow> (nat \<Rightarrow> usize option \<Rightarrow> 's \<Rightarrow> (sysaug_error + usize option) \<times> 's) \<Rightarrow>
   usize option list \<Rightarrow> ('s, sysaug_error, usize option list) act" where
  "walk_res_bits res_bits callback ids =
     act_bind (walk_res_bits_step res_bits callback 0 ids)
       (walk_res_bits_step res_bits callback 1)"

end
