(* ===== verification/Syscalls.thy ===== *)
theory Syscalls
  imports Sysaug_Types
begin

text \<open>
  The table of system calls the tracer intercepts and the seccomp filter derived from it
  (\<open>src/sysaug/src/syscalls.rs\<close>, as compiled for Linux on x86_64).  Each macro of the source is
  a function that makes an entry; \<open>define_all\<close> appends the entries as the macros do, with their
  panics (at compile time) as \<open>None\<close>.  The numbers of the \<open>libc\<close> crate are the argument \<open>nr\<close>.  The
  filter is a classic BPF program for the kernel: what bpf(2) documents of the four
  instructions it uses is the hypothesis \<open>classic_bpf\<close> of the theorems about running it.
\<close>

definition MAX_RAW_SYSCALL_INFOS :: nat where "MAX_RAW_SYSCALL_INFOS = 512"
definition MAX_SYSCALL_NUMBER :: nat where "MAX_SYSCALL_NUMBER = 1024"

section \<open>The macros\<close>

text \<open>\<open>stringify!\<close> of a name in \<open>libc\<close> is the ten characters \<open>libc::SYS_\<close> and the name.\<close>

definition libc_name :: "string \<Rightarrow> string" where
  "libc_name s = ''libc::SYS_'' @ s"

definition push_entry ::
  "(string \<Rightarrow> usize) \<Rightarrow> syscall_info \<Rightarrow> syscall_info list \<Rightarrow> syscall_info list option" where
  "push_entry nr info entries =
     (let next_idx = length entries + 1
      in if next_idx \<ge> MAX_RAW_SYSCALL_INFOS then None
         else if si_num info = NO_MOD_SYSCALL nr then None
         else Some (entries @ [info]))"

definition define_syscall :: "(string \<Rightarrow> usize) \<Rightarrow> string \<Rightarrow> augments \<Rightarrow> syscall_info" where
  "define_syscall nr name aug = default_syscall_info
     \<lparr>si_augment := aug, si_name := libc_name name, si_num := nr name\<rparr>"

definition define_seccomp_syscall :: "(string \<Rightarrow> usize) \<Rightarrow> string \<Rightarrow> nat \<Rightarrow> syscall_info" where
  "define_seccomp_syscall nr name seccomp_position = default_syscall_info
     \<lparr>si_augment := AugSeccomp, si_name := libc_name name, si_num := nr name,
      si_seccomp_position := Some seccomp_position\<rparr>"

definition define_fileperms_syscall ::
  "(string \<Rightarrow> usize) \<Rightarrow> string \<Rightarrow> perm_type \<Rightarrow> nat \<Rightarrow> syscall_info" where
  "define_fileperms_syscall nr name perm_type perms_pos = default_syscall_info
     \<lparr>si_augment := AugPaths, si_name := libc_name name, si_num := nr name,
      si_sets_file_perms := Some perm_type, si_file_perms_position := Some perms_pos\<rparr>"

definition define_perms_syscall ::
  "(string \<Rightarrow> usize) \<Rightarrow> string \<Rightarrow> bool \<Rightarrow> u8 \<Rightarrow> nat option \<Rightarrow> syscall_info" where
  "define_perms_syscall nr name is_setter res_bits resf_bit = default_syscall_info
     \<lparr>si_augment := AugPerms, si_name := libc_name name, si_num := nr name,
      si_is_setter := is_setter, si_res_bits := res_bits, si_resf_bit := resf_bit\<rparr>"

definition define_paths_syscall :: "(string \<Rightarrow> usize) \<Rightarrow> string \<Rightarrow> usize \<Rightarrow> syscall_info" where
  "define_paths_syscall nr name path_positions = default_syscall_info
     \<lparr>si_augment := AugPaths, si_name := libc_name name, si_num := nr name,
      si_path_positions := path_positions, si_getdents_bits := None\<rparr>"

definition define_paths_deletion_syscall ::
  "(string \<Rightarrow> usize) \<Rightarrow> string \<Rightarrow> usize \<Rightarrow> del_type \<Rightarrow> syscall_info" where
  "define_paths_deletion_syscall nr name path_positions ty = default_syscall_info
     \<lparr>si_augment := AugPaths, si_name := libc_name name, si_num := nr name,
      si_path_positions := path_positions, si_getdents_bits := None, si_deletion_type := Some ty\<rparr>"

definition define_paths_fileperms_syscall ::
  "(string \<Rightarrow> usize) \<Rightarrow> string \<Rightarrow> usize \<Rightarrow> perm_type \<Rightarrow> nat \<Rightarrow> syscall_info" where
  "define_paths_fileperms_syscall nr name path_positions perm_type perms_pos = default_syscall_info
     \<lparr>si_augment := AugPaths, si_name := libc_name name, si_num := nr name,
      si_path_positions := path_positions, si_getdents_bits := None,
      si_sets_file_perms := Some perm_type, si_file_perms_position := Some perms_pos\<rparr>"

definition define_dirfd_syscall ::
  "(string \<Rightarrow> usize) \<Rightarrow> string \<Rightarrow> usize \<Rightarrow> nat \<Rightarrow> syscall_info" where
  "define_dirfd_syscall nr name path_positions dirfd_position = default_syscall_info
     \<lparr>si_augment := AugPaths, si_name := libc_name name, si_num := nr name,
      si_path_positions := path_positions, si_dirfd_position := Some dirfd_position,
      si_getdents_bits := None\<rparr>"

definition define_filefd_syscall :: "(string \<Rightarrow> usize) \<Rightarrow> string \<Rightarrow> nat \<Rightarrow> syscall_info" where
  "define_filefd_syscall nr name filefd_position = default_syscall_info
     \<lparr>si_augment := AugPaths, si_name := libc_name name, si_num := nr name,
      si_filefd_position := Some filefd_position, si_getdents_bits := None\<rparr>"

definition define_dirfd2_syscall :: "(string \<Rightarrow> usize) \<Rightarrow> string \<Rightarrow> usize \<Rightarrow> syscall_info" where
  "define_dirfd2_syscall nr name path_positions = default_syscall_info
     \<lparr>si_augment := AugPaths, si_name := libc_name name, si_num := nr name,
      si_path_positions := path_positions, si_dirfd_precedes_path := True,
      si_dirfd_position := None, si_getdents_bits := None\<rparr>"

definition define_dirfd_deletion_syscall ::
  "(string \<Rightarrow> usize) \<Rightarrow> string \<Rightarrow> usize \<Rightarrow> nat \<Rightarrow> del_type \<Rightarrow> syscall_info" where
  "define_dirfd_deletion_syscall nr name path_positions dirfd_position ty = default_syscall_info
     \<lparr>si_augment := AugPaths, si_name := libc_name name, si_num := nr name,
      si_path_positions := path_positions, si_dirfd_position := Some dirfd_position,
      si_getdents_bits := None, si_deletion_type := Some ty\<rparr>"

definition define_dirfd_fileperms_syscall ::
  "(string \<Rightarrow> usize) \<Rightarrow> string \<Rightarrow> usize \<Rightarrow> nat \<Rightarrow> perm_type \<Rightarrow> nat \<Rightarrow> syscall_info" where
  "define_dirfd_fileperms_syscall nr name path_positions dirfd_position perm_type perms_pos =
     default_syscall_info
     \<lparr>si_augment := AugPaths, si_name := libc_name name, si_num := nr name,
      si_path_positions := path_positions, si_dirfd_position := Some dirfd_position,
      si_getdents_bits := None, si_sets_file_perms := Some perm_type,
      si_file_perms_position := Some perms_pos\<rparr>"

definition define_getdents_syscall :: "(string \<Rightarrow> usize) \<Rightarrow> string \<Rightarrow> nat \<Rightarrow> syscall_info" where
  "define_getdents_syscall nr name getdents_bits = default_syscall_info
     \<lparr>si_augment := AugPaths, si_name := libc_name name, si_num := nr name,
      si_path_positions := 0, si_getdents_bits := Some getdents_bits\<rparr>"

section \<open>The table\<close>

definition raw_perms :: "(string \<Rightarrow> usize) \<Rightarrow> syscall_info list" where
  "raw_perms nr = [
     define_syscall nr ''clone'' AugClone,
     define_syscall nr ''wait4'' AugWaitpid,
     define_perms_syscall nr ''getuid'' False 0 (Some 4),
     define_perms_syscall nr ''geteuid'' False 0 (Some 5),
     define_perms_syscall nr ''getgid'' False 0 (Some 0),
     define_perms_syscall nr ''getegid'' False 0 (Some 1),
     define_perms_syscall nr ''getgroups'' False 0 None,
     define_perms_syscall nr ''setuid'' True 0 (Some 4),
     define_perms_syscall nr ''setgid'' True 0 (Some 0),
     define_perms_syscall nr ''setgroups'' True 0 None,
     define_perms_syscall nr ''setregid'' True 3 None,
     define_perms_syscall nr ''setreuid'' True 19 None,
     define_perms_syscall nr ''setresgid'' True 7 None,
     define_perms_syscall nr ''setresuid'' True 23 None,
     define_perms_syscall nr ''setfsgid'' True 0 (Some 3),
     define_perms_syscall nr ''setfsuid'' True 0 (Some 7)]"

definition raw_plain_paths :: "(string \<Rightarrow> usize) \<Rightarrow> syscall_info list" where
  "raw_plain_paths nr = [
     define_seccomp_syscall nr ''prctl'' 1,
     define_seccomp_syscall nr ''seccomp'' 0,
     define_paths_syscall nr ''acct'' 1,
     define_paths_syscall nr ''chdir'' 1,
     define_paths_syscall nr ''chroot'' 1,
     define_paths_syscall nr ''getxattr'' 1,
     define_paths_syscall nr ''listxattr'' 1,
     define_paths_syscall nr ''removexattr'' 1,
     define_paths_syscall nr ''setxattr'' 1,
     define_paths_syscall nr ''swapoff'' 1,
     define_paths_syscall nr ''swapon'' 1,
     define_paths_syscall nr ''umount2'' 1,
     define_syscall nr ''execve'' AugExec]"

definition raw_dirfd :: "(string \<Rightarrow> usize) \<Rightarrow> syscall_info list" where
  "raw_dirfd nr = [
     define_dirfd_syscall nr ''name_to_handle_at'' 2 0,
     define_dirfd_syscall nr ''faccessat'' 2 0,
     (define_dirfd2_syscall nr ''linkat'' 10)
       \<lparr>si_creates_hardlink := Some (1, 3), si_flags := Some 4,
        si_flag_dont_follow_symlink := Some AT_SYMLINK_NOFOLLOW\<rparr>,
     define_dirfd_fileperms_syscall nr ''fchmodat'' 2 0 PermChmod 2,
     define_dirfd_fileperms_syscall nr ''fchownat'' 2 0 PermChown 2,
     define_dirfd_fileperms_syscall nr ''mkdirat'' 2 0 PermChmod 2,
     define_dirfd_fileperms_syscall nr ''mknodat'' 2 0 PermChmod 2,
     (define_dirfd_syscall nr ''openat'' 2 0)
       \<lparr>si_sets_file_perms := Some PermChmodOnCreation, si_file_perms_position := Some 3,
        si_flags := Some 2, si_flag_dont_follow_symlink := Some AT_SYMLINK_NOFOLLOW,
        si_should_follow_hardlink := True\<rparr>,
     (define_dirfd_syscall nr ''readlinkat'' 2 0)
       \<lparr>si_dont_follow_symlink := True, si_should_follow_hardlink := True\<rparr>,
     (define_dirfd2_syscall nr ''renameat'' 10)
       \<lparr>si_dont_follow_symlink := True, si_renames_metadata := Some (1, 3)\<rparr>,
     (define_dirfd2_syscall nr ''renameat2'' 10)
       \<lparr>si_dont_follow_symlink := True, si_flags := Some 4, si_renames_metadata := Some (1, 3)\<rparr>,
     (define_dirfd_syscall nr ''symlinkat'' 4 1)
       \<lparr>si_dont_follow_symlink := True, si_creates_symlink := Some (0, 2)\<rparr>,
     (define_dirfd_deletion_syscall nr ''unlinkat'' 2 0 DelFile)\<lparr>si_dont_follow_symlink := True\<rparr>,
     (define_paths_syscall nr ''lgetxattr'' 1)
       \<lparr>si_dont_follow_symlink := True, si_should_follow_hardlink := True\<rparr>,
     (define_paths_syscall nr ''llistxattr'' 1)
       \<lparr>si_dont_follow_symlink := True, si_should_follow_hardlink := True\<rparr>,
     (define_filefd_syscall nr ''fstat'' 0)\<lparr>si_stat_legacy_buf_position := Some 1\<rparr>,
     (define_dirfd_syscall nr ''statx'' 2 0)
       \<lparr>si_flags := Some 2, si_flag_dont_follow_symlink := Some AT_SYMLINK_NOFOLLOW,
        si_should_follow_hardlink := True, si_statx_buf_position := Some 4\<rparr>,
     define_paths_syscall nr ''truncate'' 1,
     define_paths_syscall nr ''statfs'' 1,
     (define_dirfd_syscall nr ''utimensat'' 2 0)
       \<lparr>si_flags := Some 3, si_flag_dont_follow_symlink := Some AT_SYMLINK_NOFOLLOW,
        si_should_follow_hardlink := True\<rparr>,
     define_getdents_syscall nr ''getdents64'' 64,
     (define_fileperms_syscall nr ''fchmod'' PermChmod 1)\<lparr>si_filefd_position := Some 0\<rparr>,
     (define_fileperms_syscall nr ''fchown'' PermChown 1)\<lparr>si_filefd_position := Some 0\<rparr>]"

definition raw_x86_64 :: "(string \<Rightarrow> usize) \<Rightarrow> syscall_info list" where
  "raw_x86_64 nr = [
     define_dirfd_syscall nr ''faccessat2'' 2 0,
     (define_paths_syscall nr ''rename'' 3)
       \<lparr>si_dont_follow_symlink := True, si_renames_metadata := Some (0, 1)\<rparr>,
     define_paths_syscall nr ''utime'' 1,
     define_getdents_syscall nr ''getdents'' 32,
     (define_dirfd_fileperms_syscall nr ''fchmodat2'' 2 0 PermChmod 2)
       \<lparr>si_name := ''libc__SYS_fchmodat2'', si_num := 452, si_flags := Some 3,
        si_flag_dont_follow_symlink := Some AT_SYMLINK_NOFOLLOW\<rparr>,
     (define_dirfd_syscall nr ''newfstatat'' 2 0)
       \<lparr>si_name := ''libc__SYS_newfstatat'', si_flags := Some 3,
        si_flag_dont_follow_symlink := Some AT_SYMLINK_NOFOLLOW,
        si_should_follow_hardlink := True, si_stat_buf_position := Some 2\<rparr>]"

definition raw_legacy :: "(string \<Rightarrow> usize) \<Rightarrow> syscall_info list" where
  "raw_legacy nr = [
     define_paths_syscall nr ''access'' 1,
     define_paths_fileperms_syscall nr ''chmod'' 1 PermChmod 1,
     define_paths_fileperms_syscall nr ''chown'' 1 PermChown 1,
     define_paths_fileperms_syscall nr ''mknod'' 1 PermChown 1,
     define_paths_fileperms_syscall nr ''creat'' 1 PermChown 1,
     define_paths_syscall nr ''uselib'' 1,
     define_paths_syscall nr ''utimes'' 1,
     define_dirfd_syscall nr ''futimesat'' 2 0,
     (define_paths_syscall nr ''link'' 3)\<lparr>si_creates_hardlink := Some (0, 1)\<rparr>,
     (define_paths_syscall nr ''open'' 1)
       \<lparr>si_sets_file_perms := Some PermChmodOnCreation, si_file_perms_position := Some 2,
        si_flags := Some 1, si_flag_dont_follow_symlink := Some AT_SYMLINK_NOFOLLOW,
        si_should_follow_hardlink := True\<rparr>,
     (define_paths_syscall nr ''readlink'' 1)
       \<lparr>si_dont_follow_symlink := True, si_should_follow_hardlink := True\<rparr>,
     (define_paths_fileperms_syscall nr ''lchown'' 1 PermChown 1)\<lparr>si_dont_follow_symlink := True\<rparr>,
     (define_paths_syscall nr ''stat'' 1)
       \<lparr>si_dont_follow_symlink := True, si_should_follow_hardlink := True,
        si_stat_legacy_buf_position := Some 1\<rparr>,
     (define_paths_syscall nr ''lstat'' 1)
       \<lparr>si_dont_follow_symlink := True, si_should_follow_hardlink := True,
        si_stat_legacy_buf_position := Some 1\<rparr>,
     (define_paths_syscall nr ''symlink'' 2)
       \<lparr>si_dont_follow_symlink := True, si_creates_symlink := Some (0, 1)\<rparr>,
     (define_paths_deletion_syscall nr ''unlink'' 1 DelFile)\<lparr>si_dont_follow_symlink := True\<rparr>,
     define_paths_deletion_syscall nr ''rmdir'' 1 DelDir,
     define_paths_fileperms_syscall nr ''mkdir'' 1 PermChmod 1]"

fun define_all ::
  "(string \<Rightarrow> usize) \<Rightarrow> syscall_info list \<Rightarrow> syscall_info list \<Rightarrow> syscall_info list option" where
  "define_all nr [] entries = Some entries"
| "define_all nr (info # infos) entries = Option.bind (push_entry nr info entries) (define_all nr infos)"

definition raw_entries :: "(string \<Rightarrow> usize) \<Rightarrow> syscall_info list" where
  "raw_entries nr = raw_perms nr @ raw_plain_paths nr @ raw_dirfd nr @ raw_x86_64 nr @ raw_legacy nr"

text \<open>The array: slot 0 stays empty because the macros increment the index first.\<close>

definition RAW_SYSCALL_INFOS :: "(string \<Rightarrow> usize) \<Rightarrow> syscall_info option list option" where
  "RAW_SYSCALL_INFOS nr = map_option
     (\<lambda>es. None # map Some es @ replicate (MAX_RAW_SYSCALL_INFOS - 1 - length es) None)
     (define_all nr (raw_entries nr) [])"

section \<open>The index\<close>

fun syscall_infos_loop ::
  "nat \<Rightarrow> syscall_info option list \<Rightarrow> nat option list \<Rightarrow> nat option list option" where
  "syscall_infos_loop i [] tbl = Some tbl"
| "syscall_infos_loop i (None # raw) tbl = syscall_infos_loop (Suc i) raw tbl"
| "syscall_infos_loop i (Some v # raw) tbl =
     (if unat (si_num v) \<ge> MAX_SYSCALL_NUMBER then None
      else syscall_infos_loop (Suc i) raw (tbl[unat (si_num v) := Some i]))"

definition syscall_infos_new :: "syscall_info option list \<Rightarrow> nat option list option" where
  "syscall_infos_new raw = syscall_infos_loop 0 raw (replicate MAX_SYSCALL_NUMBER None)"

definition syscall_infos_get ::
  "syscall_info option list \<Rightarrow> nat option list \<Rightarrow> usize \<Rightarrow> syscall_info option" where
  "syscall_infos_get raw tbl num =
     (if unat num \<ge> MAX_SYSCALL_NUMBER then None
      else case tbl ! unat num of None \<Rightarrow> None | Some idx \<Rightarrow> raw ! idx)"

definition SYSCALL_INFOS :: "(string \<Rightarrow> usize) \<Rightarrow> (syscall_info option list \<times> nat option list) option" where
  "SYSCALL_INFOS nr = Option.bind (RAW_SYSCALL_INFOS nr)
     (\<lambda>raw. map_option (\<lambda>tbl. (raw, tbl)) (syscall_infos_new raw))"

definition get_syscall :: "(string \<Rightarrow> usize) \<Rightarrow> usize \<Rightarrow> syscall_info option" where
  "get_syscall nr num =
     Option.bind (SYSCALL_INFOS nr) (\<lambda>(raw, tbl). syscall_infos_get raw tbl num)"

definition SYSCALL_INSTRUCTION_SIZE :: usize where "SYSCALL_INSTRUCTION_SIZE = 2"

section \<open>The seccomp filter\<close>

record bpf_filter =
  bpf_code :: u16
  bpf_jt :: u8
  bpf_jf :: u8
  bpf_k :: u32

definition BPF_LD_W_ABS :: u16 where "BPF_LD_W_ABS = 0 + 0 + 0x20"
definition BPF_JMP_JEQ_K :: u16 where "BPF_JMP_JEQ_K = 0x05 + 0x10 + 0"
definition BPF_RET_K :: u16 where "BPF_RET_K = 0x06 + 0"
definition SECCOMP_SYSCALL_OFFSET :: u32 where "SECCOMP_SYSCALL_OFFSET = 0"
definition SECCOMP_RET_TRACE :: u32 where "SECCOMP_RET_TRACE = 0x7ff00000"
definition SECCOMP_RET_ALLOW :: u32 where "SECCOMP_RET_ALLOW = 0x7fff0000"

definition ld_syscall :: bpf_filter where
  "ld_syscall = \<lparr>bpf_code = BPF_LD_W_ABS, bpf_jt = 0, bpf_jf = 0, bpf_k = SECCOMP_SYSCALL_OFFSET\<rparr>"

definition jeq_num :: "u32 \<Rightarrow> bpf_filter" where
  "jeq_num num = \<lparr>bpf_code = BPF_JMP_JEQ_K, bpf_jt = 0, bpf_jf = 1, bpf_k = num\<rparr>"

definition ret_k :: "u32 \<Rightarrow> bpf_filter" where
  "ret_k k = \<lparr>bpf_code = BPF_RET_K, bpf_jt = 0, bpf_jf = 0, bpf_k = k\<rparr>"

fun filters_loop :: "syscall_info option list \<Rightarrow> bpf_filter list" where
  "filters_loop [] = []"
| "filters_loop (None # raw) = filters_loop raw"
| "filters_loop (Some info # raw) =
     jeq_num (ucast (si_num info)) # ret_k SECCOMP_RET_TRACE # filters_loop raw"

text \<open>The code fills a fixed array with default instructions first; \<open>actual_len\<close> is the number
  of instructions it wrote.\<close>

definition SECCOMP_FILTERS :: "syscall_info option list \<Rightarrow> (bpf_filter list \<times> nat) option" where
  "SECCOMP_FILTERS raw =
     (if length raw > MAX_RAW_SYSCALL_INFOS then None
      else let fs = ld_syscall # filters_loop raw @ [ret_k SECCOMP_RET_ALLOW]
           in Some (fs @ replicate (2 * MAX_RAW_SYSCALL_INFOS + 2 - length fs) (ret_k SECCOMP_RET_ALLOW),
                    length fs))"

record bpf_program =
  bp_len :: u16
  bp_filters_ptr :: usize

section \<open>What the numbers have to satisfy, and the x86_64 numbers\<close>

definition numbers_ok :: "(string \<Rightarrow> usize) \<Rightarrow> bool" where
  "numbers_ok nr \<longleftrightarrow> distinct (map si_num (raw_entries nr)) \<and>
     unat (NO_MOD_SYSCALL nr) < MAX_SYSCALL_NUMBER \<and>
     (\<forall>i \<in> set (raw_entries nr). unat (si_num i) < MAX_SYSCALL_NUMBER \<and> si_num i \<noteq> NO_MOD_SYSCALL nr)"

definition x86_64_numbers :: "(string \<times> usize) list" where
  "x86_64_numbers = [
     (''open'', 2), (''stat'', 4), (''fstat'', 5), (''lstat'', 6), (''mmap'', 9), (''access'', 21),
     (''getpid'', 39), (''clone'', 56), (''execve'', 59), (''wait4'', 61), (''truncate'', 76),
     (''getdents'', 78), (''chdir'', 80), (''rename'', 82), (''mkdir'', 83), (''rmdir'', 84),
     (''creat'', 85), (''link'', 86), (''unlink'', 87), (''symlink'', 88), (''readlink'', 89),
     (''chmod'', 90), (''fchmod'', 91), (''chown'', 92), (''fchown'', 93), (''lchown'', 94),
     (''getuid'', 102), (''getgid'', 104), (''setuid'', 105), (''setgid'', 106),
     (''geteuid'', 107), (''getegid'', 108), (''setreuid'', 113), (''setregid'', 114),
     (''getgroups'', 115), (''setgroups'', 116), (''setresuid'', 117), (''setresgid'', 119),
     (''setfsuid'', 122), (''setfsgid'', 123), (''utime'', 132), (''mknod'', 133),
     (''uselib'', 134), (''statfs'', 137), (''prctl'', 157), (''chroot'', 161), (''acct'', 163),
     (''umount2'', 166), (''swapon'', 167), (''swapoff'', 168), (''setxattr'', 188),
     (''getxattr'', 191), (''lgetxattr'', 192), (''listxattr'', 194), (''llistxattr'', 195),
     (''removexattr'', 197), (''getdents64'', 217), (''utimes'', 235), (''openat'', 257),
     (''mkdirat'', 258), (''mknodat'', 259), (''fchownat'', 260), (''futimesat'', 261),
     (''newfstatat'', 262), (''unlinkat'', 263), (''renameat'', 264), (''linkat'', 265),
     (''symlinkat'', 266), (''readlinkat'', 267), (''fchmodat'', 268), (''faccessat'', 269),
     (''utimensat'', 280), (''name_to_handle_at'', 303), (''renameat2'', 316),
     (''seccomp'', 317), (''statx'', 332), (''faccessat2'', 439)]"

definition x86_64_nr :: "string \<Rightarrow> usize" where
  "x86_64_nr name = (case map_of x86_64_numbers name of Some n \<Rightarrow> n | None \<Rightarrow> 0)"

lemmas define_defs = define_syscall_def define_seccomp_syscall_def define_fileperms_syscall_def
  define_perms_syscall_def define_paths_syscall_def define_paths_deletion_syscall_def
  define_paths_fileperms_syscall_def define_dirfd_syscall_def define_filefd_syscall_def
  define_dirfd2_syscall_def define_dirfd_deletion_syscall_def define_dirfd_fileperms_syscall_def
  define_getdents_syscall_def

lemma raw_nums:
  "map si_num (raw_entries nr) =
   [nr ''clone'', nr ''wait4'', nr ''getuid'', nr ''geteuid'', nr ''getgid'', nr ''getegid'',
    nr ''getgroups'', nr ''setuid'', nr ''setgid'', nr ''setgroups'', nr ''setregid'', nr ''setreuid'',
    nr ''setresgid'', nr ''setresuid'', nr ''setfsgid'', nr ''setfsuid'', nr ''prctl'', nr ''seccomp'',
    nr ''acct'', nr ''chdir'', nr ''chroot'', nr ''getxattr'', nr ''listxattr'', nr ''removexattr'',
    nr ''setxattr'', nr ''swapoff'', nr ''swapon'', nr ''umount2'', nr ''execve'',
    nr ''name_to_handle_at'', nr ''faccessat'', nr ''linkat'', nr ''fchmodat'', nr ''fchownat'',
    nr ''mkdirat'', nr ''mknodat'', nr ''openat'', nr ''readlinkat'', nr ''renameat'',
    nr ''renameat2'', nr ''symlinkat'', nr ''unlinkat'', nr ''lgetxattr'', nr ''llistxattr'',
    nr ''fstat'', nr ''statx'', nr ''truncate'', nr ''statfs'', nr ''utimensat'', nr ''getdents64'',
    nr ''fchmod'', nr ''fchown'', nr ''faccessat2'', nr ''rename'', nr ''utime'', nr ''getdents'', 452,
    nr ''newfstatat'', nr ''access'', nr ''chmod'', nr ''chown'', nr ''mknod'', nr ''creat'',
    nr ''uselib'', nr ''utimes'', nr ''futimesat'', nr ''link'', nr ''open'', nr ''readlink'',
    nr ''lchown'', nr ''stat'', nr ''lstat'', nr ''symlink'', nr ''unlink'', nr ''rmdir'', nr ''mkdir'']"
  by (simp add: raw_entries_def raw_perms_def raw_plain_paths_def raw_dirfd_def raw_x86_64_def
      raw_legacy_def define_defs)

lemma length_raw_entries: "length (raw_entries nr) = 76"
  using arg_cong [OF raw_nums, of length] by (simp add: eval_nat_numeral)

lemma x86_64_nums:
  "map si_num (raw_entries x86_64_nr) =
   [56, 61, 102, 107, 104, 108, 115, 105, 106, 116, 114, 113, 119, 117, 123, 122, 157, 317, 163,
    80, 161, 191, 194, 197, 188, 168, 167, 166, 59, 303, 269, 265, 268, 260, 258, 259, 257, 267,
    264, 316, 266, 263, 192, 195, 5, 332, 76, 137, 280, 217, 91, 93, 439, 82, 132, 78, 452, 262,
    21, 90, 92, 133, 85, 134, 235, 261, 86, 2, 89, 94, 4, 6, 88, 87, 84, 83]"
  unfolding raw_nums by code_simp

lemma x86_64_numbers_ok: "numbers_ok x86_64_nr"
proof -
  have no_mod: "NO_MOD_SYSCALL x86_64_nr = 39" by (simp add: NO_MOD_SYSCALL_def x86_64_nr_def x86_64_numbers_def)
  have "distinct (map si_num (raw_entries x86_64_nr))" unfolding x86_64_nums by simp
  moreover have "\<forall>n \<in> set (map si_num (raw_entries x86_64_nr)). unat n < MAX_SYSCALL_NUMBER \<and> n \<noteq> 39"
    unfolding x86_64_nums by (simp add: MAX_SYSCALL_NUMBER_def)
  ultimately show ?thesis by (simp add: numbers_ok_def no_mod MAX_SYSCALL_NUMBER_def)
qed

section \<open>The index finds every entry by its number\<close>

lemma define_all_spec:
  "length entries + length infos < MAX_RAW_SYSCALL_INFOS \<Longrightarrow>
   (\<forall>i \<in> set infos. si_num i \<noteq> NO_MOD_SYSCALL nr) \<Longrightarrow>
   define_all nr infos entries = Some (entries @ infos)"
  by (induction infos arbitrary: entries) (auto simp: push_entry_def)

lemma RAW_SYSCALL_INFOS_spec:
  "numbers_ok nr \<Longrightarrow>
   RAW_SYSCALL_INFOS nr = Some (None # map Some (raw_entries nr) @ replicate 435 None)"
  by (simp add: RAW_SYSCALL_INFOS_def define_all_spec numbers_ok_def length_raw_entries
      MAX_RAW_SYSCALL_INFOS_def)

lemma infos_loop_append:
  "syscall_infos_loop i (xs @ ys) tbl =
   Option.bind (syscall_infos_loop i xs tbl) (syscall_infos_loop (i + length xs) ys)"
  by (induction i xs tbl rule: syscall_infos_loop.induct) auto

lemma infos_loop_None: "syscall_infos_loop i (replicate n None) tbl = Some tbl"
  by (induction n arbitrary: i) auto

lemma infos_loop_spec:
  "distinct (map si_num es) \<Longrightarrow> (\<forall>e \<in> set es. unat (si_num e) < MAX_SYSCALL_NUMBER) \<Longrightarrow>
   length tbl = MAX_SYSCALL_NUMBER \<Longrightarrow>
   \<exists>tbl'. syscall_infos_loop i (map Some es) tbl = Some tbl' \<and> length tbl' = MAX_SYSCALL_NUMBER \<and>
     (\<forall>j < length es. tbl' ! unat (si_num (es ! j)) = Some (i + j)) \<and>
     (\<forall>k. (\<forall>e \<in> set es. unat (si_num e) \<noteq> k) \<longrightarrow> tbl' ! k = tbl ! k)"
proof (induction es arbitrary: i tbl)
  case (Cons e es)
  let ?tbl = "tbl[unat (si_num e) := Some i]"
  obtain tbl' where t: "syscall_infos_loop (Suc i) (map Some es) ?tbl = Some tbl'"
    "length tbl' = MAX_SYSCALL_NUMBER"
    "\<forall>j < length es. tbl' ! unat (si_num (es ! j)) = Some (Suc i + j)"
    "\<forall>k. (\<forall>e \<in> set es. unat (si_num e) \<noteq> k) \<longrightarrow> tbl' ! k = ?tbl ! k"
    using Cons.IH [of ?tbl "Suc i"] Cons.prems by auto
  have lt: "unat (si_num e) < MAX_SYSCALL_NUMBER" using Cons.prems(2) by simp
  have "\<forall>e' \<in> set es. unat (si_num e') \<noteq> unat (si_num e)"
    using Cons.prems(1) by (auto simp: word_unat_eq_iff image_iff)
  then have "tbl' ! unat (si_num e) = Some i" using t(4) lt Cons.prems(3) by simp
  then have "\<forall>j < length (e # es). tbl' ! unat (si_num ((e # es) ! j)) = Some (i + j)"
    using t(3) by (auto simp: less_Suc_eq_0_disj)
  moreover have "\<forall>k. (\<forall>e \<in> set (e # es). unat (si_num e) \<noteq> k) \<longrightarrow> tbl' ! k = tbl ! k"
    using t(4) by simp
  ultimately show ?case using t(1,2) lt by simp
qed simp

lemma get_syscall_spec:
  assumes "numbers_ok nr"
  shows "get_syscall nr n = List.find (\<lambda>e. si_num e = n) (raw_entries nr)"
proof -
  let ?es = "raw_entries nr" and ?t0 = "replicate MAX_SYSCALL_NUMBER (None :: nat option)"
  let ?raw = "None # map Some ?es @ replicate 435 None"
  have d: "distinct (map si_num ?es)" and lt: "\<forall>e \<in> set ?es. unat (si_num e) < MAX_SYSCALL_NUMBER"
    using assms by (auto simp: numbers_ok_def)
  obtain tbl where t: "syscall_infos_loop 1 (map Some ?es) ?t0 = Some tbl"
    "\<forall>j < length ?es. tbl ! unat (si_num (?es ! j)) = Some (1 + j)"
    "\<forall>k. (\<forall>e \<in> set ?es. unat (si_num e) \<noteq> k) \<longrightarrow> tbl ! k = ?t0 ! k"
    using infos_loop_spec [OF d lt, of ?t0 1] by auto
  have "SYSCALL_INFOS nr = Some (?raw, tbl)"
    using t(1) by (simp add: SYSCALL_INFOS_def RAW_SYSCALL_INFOS_spec [OF assms] syscall_infos_new_def
        infos_loop_append infos_loop_None)
  then have get: "get_syscall nr n = syscall_infos_get ?raw tbl n" by (simp add: get_syscall_def)
  show ?thesis
  proof (cases "\<exists>e \<in> set ?es. si_num e = n")
    case True
    then obtain j where j: "j < length ?es" "si_num (?es ! j) = n" by (auto simp: in_set_conv_nth)
    then have "\<forall>i < j. si_num (?es ! i) \<noteq> n"
      using d by (auto simp: distinct_conv_nth)
    then have "List.find (\<lambda>e. si_num e = n) ?es = Some (?es ! j)"
      using j by (auto simp: find_Some_iff)
    moreover have "tbl ! unat n = Some (1 + j)" using t(2) j by auto
    moreover have "unat n < MAX_SYSCALL_NUMBER" using lt j by (metis nth_mem)
    ultimately show ?thesis using j by (simp add: get syscall_infos_get_def nth_append)
  next
    case False
    then have "List.find (\<lambda>e. si_num e = n) ?es = None" by (auto simp: find_None_iff)
    moreover have "tbl ! unat n = ?t0 ! unat n" using t(3) False by (metis word_unat_eq_iff)
    ultimately show ?thesis by (auto simp: get syscall_infos_get_def)
  qed
qed

section \<open>The filter traps exactly the intercepted calls\<close>

text \<open>What the kernel documents of the classic BPF instructions the filter uses: \<open>run prog data pc
  acc\<close> is the verdict from instruction \<open>pc\<close> on, \<open>data\<close> the system-call number at offset 0 of the
  data the program loads from.\<close>

definition classic_bpf :: "(bpf_filter list \<Rightarrow> u32 \<Rightarrow> nat \<Rightarrow> u32 \<Rightarrow> u32 option) \<Rightarrow> bool" where
  "classic_bpf run \<longleftrightarrow> (\<forall>prog data pc acc. pc < length prog \<longrightarrow>
     (bpf_code (prog ! pc) = BPF_LD_W_ABS \<and> bpf_k (prog ! pc) = 0 \<longrightarrow>
        run prog data pc acc = run prog data (pc + 1) data) \<and>
     (bpf_code (prog ! pc) = BPF_JMP_JEQ_K \<longrightarrow>
        run prog data pc acc = run prog data (pc + 1 +
          unat (if acc = bpf_k (prog ! pc) then bpf_jt (prog ! pc) else bpf_jf (prog ! pc))) acc) \<and>
     (bpf_code (prog ! pc) = BPF_RET_K \<longrightarrow> run prog data pc acc = Some (bpf_k (prog ! pc))))"

lemma classic_bpf_steps:
  assumes "classic_bpf run" "i < length prog"
  shows "prog ! i = ld_syscall \<Longrightarrow> run prog data i acc = run prog data (Suc i) data"
    and "prog ! i = jeq_num k \<Longrightarrow>
      run prog data i acc = run prog data (if acc = k then Suc i else Suc (Suc i)) acc"
    and "prog ! i = ret_k k \<Longrightarrow> run prog data i acc = Some k"
  using assms
  by (simp_all add: classic_bpf_def ld_syscall_def jeq_num_def ret_k_def SECCOMP_SYSCALL_OFFSET_def)

lemma run_filters_loop:
  assumes "classic_bpf run"
  shows "run (pre @ filters_loop raw @ [ret_k SECCOMP_RET_ALLOW]) d (length pre) d =
    Some (if \<exists>info. Some info \<in> set raw \<and> ucast (si_num info) = d
          then SECCOMP_RET_TRACE else SECCOMP_RET_ALLOW)"
proof (induction raw arbitrary: pre rule: filters_loop.induct)
  case 1
  show ?case by (simp add: classic_bpf_steps(3) [OF assms])
next
  case (2 raw)
  then show ?case by simp
next
  case (3 info raw)
  let ?prog = "pre @ filters_loop (Some info # raw) @ [ret_k SECCOMP_RET_ALLOW]"
  have j: "run ?prog d (length pre) d =
      run ?prog d (if d = ucast (si_num info) then Suc (length pre) else Suc (Suc (length pre))) d"
    by (rule classic_bpf_steps(2) [OF assms]) simp_all
  show ?case
  proof (cases "d = ucast (si_num info)")
    case True
    have "run ?prog d (Suc (length pre)) d = Some SECCOMP_RET_TRACE"
      by (rule classic_bpf_steps(3) [OF assms]) (simp_all add: nth_append)
    with j True show ?thesis by auto
  next
    case False
    have "?prog = (pre @ [jeq_num (ucast (si_num info)), ret_k SECCOMP_RET_TRACE]) @
        filters_loop raw @ [ret_k SECCOMP_RET_ALLOW]" by simp
    then have "run ?prog d (Suc (Suc (length pre))) d =
        Some (if \<exists>info. Some info \<in> set raw \<and> ucast (si_num info) = d
          then SECCOMP_RET_TRACE else SECCOMP_RET_ALLOW)"
      using 3 [of "pre @ [jeq_num (ucast (si_num info)), ret_k SECCOMP_RET_TRACE]"] by simp
    with j False show ?thesis by auto
  qed
qed

lemma seccomp_filters_verdict:
  assumes "classic_bpf run" "SECCOMP_FILTERS raw = Some (fs, n)"
  shows "run (take n fs) d 0 acc =
    Some (if \<exists>info. Some info \<in> set raw \<and> ucast (si_num info) = d
          then SECCOMP_RET_TRACE else SECCOMP_RET_ALLOW)"
proof -
  have t: "take n fs = [ld_syscall] @ filters_loop raw @ [ret_k SECCOMP_RET_ALLOW]"
    using assms(2) by (auto simp: SECCOMP_FILTERS_def Let_def split: if_splits)
  have "run (take n fs) d 0 acc = run (take n fs) d (Suc 0) d"
    by (rule classic_bpf_steps(1) [OF assms(1)]) (simp_all add: t)
  also have "\<dots> = run ([ld_syscall] @ filters_loop raw @ [ret_k SECCOMP_RET_ALLOW]) d (length [ld_syscall]) d"
    by (simp add: t)
  finally show ?thesis by (simp only: run_filters_loop [OF assms(1)])
qed

text \<open>C25: every intercepted system call is found.  Looking a number up in the two-level table
  gives exactly the entry of the list of intercepted calls with this number, for all
  machine words, and nothing for a number that has no entry.\<close>

theorem get_syscall_finds:
  assumes "numbers_ok nr"
  shows "get_syscall nr n = List.find (\<lambda>e. si_num e = n) (raw_entries nr)"
  using assms by (rule get_syscall_spec)

theorem get_syscall_finds_witness:
  "map_option syscall_info_name (get_syscall x86_64_nr 59) = Some ''execve'' \<and>
   get_syscall x86_64_nr 39 = None"
proof -
  have "map_option syscall_info_name (List.find (\<lambda>e. si_num e = 59) (raw_entries x86_64_nr)) = Some ''execve''"
    by code_simp
  moreover have "List.find (\<lambda>e. si_num e = 39) (raw_entries x86_64_nr) = None" by code_simp
  ultimately show ?thesis using get_syscall_finds [OF x86_64_numbers_ok] by simp
qed

lemma set_raw: "Some info \<in> set (None # map Some es @ replicate n None) \<longleftrightarrow> info \<in> set es"
  by auto

lemma ucast_num_eq:
  assumes "unat (a :: usize) < MAX_SYSCALL_NUMBER" "unat n < 2 ^ 32"
  shows "(ucast a :: u32) = ucast n \<longleftrightarrow> a = n"
proof
  assume eq: "(ucast a :: u32) = ucast n"
  have "unat (ucast a :: u32) = unat a" "unat (ucast n :: u32) = unat n"
    using assms by (simp_all add: unsigned_ucast_eq take_bit_nat_eq_self MAX_SYSCALL_NUMBER_def)
  then show "a = n" using eq by (simp add: word_unat_eq_iff)
qed simp

text \<open>C3: the filter and the table agree.  On a kernel that runs classic BPF as documented, the
  filter the tracer installs stops the tracee exactly at the system calls that
  \<open>get_syscall\<close> finds, and lets every other call through at full speed; in particular the
  call the tracer puts in place of a skipped one is never trapped.\<close>

theorem seccomp_filter_exact:
  assumes "classic_bpf run" "numbers_ok nr" "RAW_SYSCALL_INFOS nr = Some raw"
    "SECCOMP_FILTERS raw = Some (fs, n)" "unat num < 2 ^ 32"
  shows "run (take n fs) (ucast num) 0 0 =
      Some (if get_syscall nr num \<noteq> None then SECCOMP_RET_TRACE else SECCOMP_RET_ALLOW) \<and>
    run (take n fs) (ucast (NO_MOD_SYSCALL nr)) 0 0 = Some SECCOMP_RET_ALLOW"
proof -
  have raw: "raw = None # map Some (raw_entries nr) @ replicate 435 None"
    using assms(3) RAW_SYSCALL_INFOS_spec [OF assms(2)] by simp
  have lt: "\<forall>e \<in> set (raw_entries nr). unat (si_num e) < MAX_SYSCALL_NUMBER \<and> si_num e \<noteq> NO_MOD_SYSCALL nr"
    using assms(2) by (simp add: numbers_ok_def)
  have v: "run (take n fs) (ucast m) 0 0 = Some (if \<exists>e \<in> set (raw_entries nr). si_num e = m
      then SECCOMP_RET_TRACE else SECCOMP_RET_ALLOW)" if m: "unat m < 2 ^ 32" for m
  proof -
    have "(\<exists>info. Some info \<in> set raw \<and> (ucast (si_num info) :: u32) = ucast m) \<longleftrightarrow>
        (\<exists>e \<in> set (raw_entries nr). si_num e = m)"
      using lt ucast_num_eq [OF _ m] unfolding raw set_raw by blast
    then show ?thesis using seccomp_filters_verdict [OF assms(1,4), of "ucast m" 0] by simp
  qed
  have "get_syscall nr num \<noteq> None \<longleftrightarrow> (\<exists>e \<in> set (raw_entries nr). si_num e = num)"
    using get_syscall_spec [OF assms(2)] by (auto simp: find_None_iff)
  with v [OF assms(5)] have "run (take n fs) (ucast num) 0 0 =
      Some (if get_syscall nr num \<noteq> None then SECCOMP_RET_TRACE else SECCOMP_RET_ALLOW)" by simp
  moreover have "unat (NO_MOD_SYSCALL nr) < 2 ^ 32"
    using assms(2) by (simp add: numbers_ok_def MAX_SYSCALL_NUMBER_def)
  then have "run (take n fs) (ucast (NO_MOD_SYSCALL nr)) 0 0 = Some SECCOMP_RET_ALLOW"
    using v [of "NO_MOD_SYSCALL nr"] lt by auto
  ultimately show ?thesis by blast
qed

text \<open>An interpreter of these instructions, for the witness.\<close>

function bpf_run :: "bpf_filter list \<Rightarrow> u32 \<Rightarrow> nat \<Rightarrow> u32 \<Rightarrow> u32 option" where
  "bpf_run prog data i acc =
     (if i < length prog
      then if bpf_code (prog ! i) = BPF_LD_W_ABS \<and> bpf_k (prog ! i) = 0
           then bpf_run prog data (i + 1) data
           else if bpf_code (prog ! i) = BPF_JMP_JEQ_K
           then bpf_run prog data (i + 1 +
                  unat (if acc = bpf_k (prog ! i) then bpf_jt (prog ! i) else bpf_jf (prog ! i))) acc
           else if bpf_code (prog ! i) = BPF_RET_K then Some (bpf_k (prog ! i))
           else None
      else None)"
  by pat_completeness auto
termination by (relation "measure (\<lambda>(prog, data, i, acc). length prog - i)") auto

declare bpf_run.simps [simp del]

lemma bpf_run_classic: "classic_bpf bpf_run"
  unfolding classic_bpf_def
  by (intro allI impI conjI) (subst bpf_run.simps; simp add: BPF_LD_W_ABS_def BPF_JMP_JEQ_K_def
      BPF_RET_K_def)+

theorem seccomp_filter_exact_witness:
  "\<exists>raw fs n. RAW_SYSCALL_INFOS x86_64_nr = Some raw \<and> SECCOMP_FILTERS raw = Some (fs, n) \<and>
     bpf_run (take n fs) 59 0 0 = Some SECCOMP_RET_TRACE \<and>
     bpf_run (take n fs) 39 0 0 = Some SECCOMP_RET_ALLOW"
proof -
  obtain raw where raw: "RAW_SYSCALL_INFOS x86_64_nr = Some raw" "length raw = 512"
    using RAW_SYSCALL_INFOS_spec [OF x86_64_numbers_ok] by (simp add: length_raw_entries)
  then obtain fs n where fs: "SECCOMP_FILTERS raw = Some (fs, n)"
    by (auto simp: SECCOMP_FILTERS_def MAX_RAW_SYSCALL_INFOS_def Let_def)
  have "List.find (\<lambda>e. si_num e = 59) (raw_entries x86_64_nr) \<noteq> None" by code_simp
  then have "get_syscall x86_64_nr 59 \<noteq> None" by (simp add: get_syscall_spec [OF x86_64_numbers_ok])
  moreover have "NO_MOD_SYSCALL x86_64_nr = 39" by code_simp
  ultimately show ?thesis
    using seccomp_filter_exact [OF bpf_run_classic x86_64_numbers_ok raw(1) fs, of 59] raw(1) fs
    by simp
qed

end
