(* ===== verification/Std_Path.thy ===== *)
theory Std_Path
  imports Pocker_Prelude "HOL-Library.Sublist"
begin

text \<open>
  The part of \<open>std::path\<close> (Unix) the program uses, on paths as byte strings: \<open>components\<close>, \<open>join\<close>,
  \<open>push\<close>, \<open>pop\<close>, \<open>parent\<close>, \<open>file_name\<close>, \<open>with_file_name\<close>, \<open>strip_prefix\<close>, \<open>starts_with\<close>,
  \<open>is_absolute\<close> and the comparison of paths by components.  Empty components and \<open>.\<close> are skipped
  except for a leading \<open>.\<close>, and \<open>..\<close> is kept; results are the exact byte strings, with the
  separators the input had.  The lemmas relate every operation to the list of components.
\<close>

abbreviation sep :: char where "sep \<equiv> CHR ''/''"

datatype component = RootDir | CurDir | ParentDir | Normal string

section \<open>Splitting at separators\<close>

fun split_sep :: "string \<Rightarrow> string list" where
  "split_sep [] = [[]]"
| "split_sep (c # cs) =
     (if c = sep then [] # split_sep cs
      else case split_sep cs of [] \<Rightarrow> [[c]] | p # ps \<Rightarrow> (c # p) # ps)"

definition parse_single_component :: "string \<Rightarrow> component option" where
  "parse_single_component p =
     (if p = [] \<or> p = ''.'' then None else if p = ''..'' then Some ParentDir else Some (Normal p))"

definition body_components :: "string \<Rightarrow> component list" where
  "body_components s = List.map_filter parse_single_component (split_sep s)"

definition is_absolute :: "string \<Rightarrow> bool" where
  "is_absolute p = (case p of c # _ \<Rightarrow> c = sep | [] \<Rightarrow> False)"

definition include_cur_dir :: "string \<Rightarrow> bool" where
  "include_cur_dir p = (p = ''.'' \<or> take 2 p = ''./'')"

definition components :: "string \<Rightarrow> component list" where
  "components p =
     (if is_absolute p then [RootDir] else if include_cur_dir p then [CurDir] else []) @ body_components p"

definition path_eq :: "string \<Rightarrow> string \<Rightarrow> bool" where
  "path_eq p q = (components p = components q)"

definition starts_with :: "string \<Rightarrow> string \<Rightarrow> bool" where
  "starts_with p base = prefix (components base) (components p)"

section \<open>Joining\<close>

definition path_join :: "string \<Rightarrow> string \<Rightarrow> string" where
  "path_join base p =
     (if is_absolute p then p
      else if base \<noteq> [] \<and> last base \<noteq> sep then base @ sep # p
      else base @ p)"

section \<open>Removing a prefix\<close>

function body_next :: "string \<Rightarrow> (component \<times> string) option" where
  "body_next p =
     (if p = [] then None
      else let comp = takeWhile (\<lambda>c. c \<noteq> sep) p;
               rest = drop (Suc (length comp)) p
           in case parse_single_component comp of
                Some c \<Rightarrow> Some (c, rest)
              | None \<Rightarrow> body_next rest)"
  by pat_completeness auto
termination by (relation "measure length") auto

declare body_next.simps [simp del]

text \<open>The iterator: whether the front has passed the start of the path, and what is left of it.\<close>

definition components_next :: "bool \<times> string \<Rightarrow> (component \<times> (bool \<times> string)) option" where
  "components_next it =
     (case it of
        (False, p) \<Rightarrow>
          (if is_absolute p then Some (RootDir, (True, tl p))
           else if include_cur_dir p then Some (CurDir, (True, tl p))
           else map_option (\<lambda>(c, r). (c, (True, r))) (body_next p))
      | (True, p) \<Rightarrow> map_option (\<lambda>(c, r). (c, (True, r))) (body_next p))"

function trim_left :: "string \<Rightarrow> string" where
  "trim_left p =
     (if p = [] then []
      else let comp = takeWhile (\<lambda>c. c \<noteq> sep) p
           in if parse_single_component comp = None then trim_left (drop (Suc (length comp)) p) else p)"
  by pat_completeness auto
termination by (relation "measure length") auto

declare trim_left.simps [simp del]

text \<open>Trimming on the right leaves the first \<open>n\<close> bytes alone (\<open>len_before_body\<close>).\<close>

function trim_right :: "nat \<Rightarrow> string \<Rightarrow> string" where
  "trim_right n p =
     (if length p \<le> n then p
      else let comp = rev (takeWhile (\<lambda>c. c \<noteq> sep) (rev (drop n p)));
               extra = (if length comp < length (drop n p) then 1 else 0)
           in if parse_single_component comp = None \<and> 0 < length comp + extra
              then trim_right n (take (length p - (length comp + extra)) p) else p)"
  by pat_completeness auto
termination
  by (relation "measure (\<lambda>(n, p). length p)") (auto simp: Let_def)

declare trim_right.simps [simp del]

definition as_path :: "bool \<times> string \<Rightarrow> string" where
  "as_path it =
     (case it of
        (True, p) \<Rightarrow> trim_right 0 (trim_left p)
      | (False, p) \<Rightarrow> trim_right (if is_absolute p \<or> include_cur_dir p then 1 else 0) p)"

fun iter_after :: "bool \<times> string \<Rightarrow> component list \<Rightarrow> (bool \<times> string) option" where
  "iter_after it [] = Some it"
| "iter_after it (c # cs) =
     (case components_next it of
        Some (d, it') \<Rightarrow> if d = c then iter_after it' cs else None
      | None \<Rightarrow> None)"

definition strip_prefix :: "string \<Rightarrow> string \<Rightarrow> string option" where
  "strip_prefix p base = map_option as_path (iter_after (False, p) (components base))"

section \<open>The last component\<close>

definition len_before_body :: "string \<Rightarrow> nat" where
  "len_before_body p = (if is_absolute p \<or> include_cur_dir p then 1 else 0)"

definition file_name :: "string \<Rightarrow> string option" where
  "file_name p =
     (if components p = [] then None
      else case last (components p) of Normal s \<Rightarrow> Some s | _ \<Rightarrow> None)"

text \<open>Dropping the last body component: trim, remove the part after the last separator, trim.\<close>

definition path_parent :: "string \<Rightarrow> string option" where
  "path_parent p =
     (if components p = [] \<or> last (components p) = RootDir then None
      else let n = len_before_body p; q = trim_right n p;
               body = drop n q;
               comp = takeWhile (\<lambda>c. c \<noteq> sep) (rev body);
               keep = (if body = [] then 0 else length q - length comp)
           in Some (if body = [] then [] else trim_right n (take keep q)))"

definition path_pop :: "string \<Rightarrow> string" where
  "path_pop p = (case path_parent p of Some q \<Rightarrow> q | None \<Rightarrow> p)"

definition with_file_name :: "string \<Rightarrow> string \<Rightarrow> string" where
  "with_file_name p name = path_join (if file_name p \<noteq> None then path_pop p else p) name"

section \<open>Components of joined paths\<close>

lemma split_sep_nonempty [simp]: "split_sep s \<noteq> []"
  by (induction s) (auto split: list.splits)

lemma split_sep_append: "split_sep (a @ sep # b) = split_sep a @ split_sep b"
proof (induction a)
  case (Cons c a)
  then show ?case by (cases "split_sep a") (auto split: list.splits)
qed simp

lemma split_sep_plain: "sep \<notin> set a \<Longrightarrow> split_sep a = [a]"
  by (induction a) auto

lemma map_filter_append: "List.map_filter f (xs @ ys) = List.map_filter f xs @ List.map_filter f ys"
  by (simp add: List.map_filter_def)

lemma body_components_append:
  "body_components (a @ sep # b) = body_components a @ body_components b"
  by (simp add: body_components_def split_sep_append map_filter_append)

lemma body_components_plain:
  "sep \<notin> set a \<Longrightarrow> body_components a = (case parse_single_component a of None \<Rightarrow> [] | Some c \<Rightarrow> [c])"
  by (simp add: body_components_def split_sep_plain List.map_filter_def split: option.splits)

lemma body_components_Nil [simp]: "body_components [] = []"
  by (simp add: body_components_plain parse_single_component_def)

lemma body_components_sep [simp]: "body_components (sep # b) = body_components b"
  using body_components_append [of "[]" b] by simp

lemma body_components_join:
  "base \<noteq> [] \<Longrightarrow> \<not> is_absolute p \<Longrightarrow>
   body_components (path_join base p) = body_components base @ body_components p"
proof (cases "last base = sep")
  case True
  assume "base \<noteq> []" "\<not> is_absolute p"
  with True have b: "base = butlast base @ [sep]" by (metis append_butlast_last_id)
  then have "base @ p = butlast base @ sep # p" by simp
  then have "body_components (base @ p) = body_components (butlast base) @ body_components p"
    by (metis body_components_append)
  moreover have "body_components base = body_components (butlast base)"
    by (subst b, subst body_components_append) simp
  ultimately show ?thesis using True \<open>\<not> is_absolute p\<close> by (simp add: path_join_def)
next
  case False
  assume "base \<noteq> []" "\<not> is_absolute p"
  with False show ?thesis by (simp add: path_join_def body_components_append)
qed

lemma join_start:
  assumes "base \<noteq> []" "\<not> is_absolute p"
  shows "is_absolute (path_join base p) = is_absolute base"
    and "\<not> is_absolute base \<Longrightarrow> include_cur_dir (path_join base p) = include_cur_dir base"
proof -
  obtain c cs where b: "base = c # cs" using assms(1) by (cases base) auto
  show "is_absolute (path_join base p) = is_absolute base"
    using assms(2) by (simp add: path_join_def is_absolute_def b)
  show "include_cur_dir (path_join base p) = include_cur_dir base" if "\<not> is_absolute base"
    using that assms(2)
    by (cases cs) (auto simp: path_join_def include_cur_dir_def is_absolute_def b)
qed

lemma components_join:
  "base \<noteq> [] \<Longrightarrow> \<not> is_absolute p \<Longrightarrow> components (path_join base p) = components base @ body_components p"
  using join_start [of base p] by (auto simp: components_def body_components_join)

lemma starts_with_join: "base \<noteq> [] \<Longrightarrow> \<not> is_absolute p \<Longrightarrow> starts_with (path_join base p) base"
  by (simp add: starts_with_def components_join)

section \<open>Components of the rest of a path\<close>

definition it_components :: "bool \<times> string \<Rightarrow> component list" where
  "it_components it = (case it of (True, p) \<Rightarrow> body_components p | (False, p) \<Rightarrow> components p)"

lemma first_part:
  assumes "sep \<in> set p"
  obtains rest where "p = takeWhile (\<lambda>c. c \<noteq> sep) p @ sep # rest"
    "drop (Suc (length (takeWhile (\<lambda>c. c \<noteq> sep) p))) p = rest"
proof -
  obtain ys zs where p: "p = ys @ sep # zs" "sep \<notin> set ys" using assms by (metis split_list_first)
  have t: "takeWhile (\<lambda>c. c \<noteq> sep) p = ys"
    unfolding p(1) using p(2) by (subst takeWhile_append2) auto
  show ?thesis by (rule that [of zs]) (simp_all add: t, simp_all add: p(1))
qed

lemma body_components_first:
  fixes p :: string
  defines "first \<equiv> takeWhile (\<lambda>c. c \<noteq> sep) p"
  shows "body_components p =
    (case parse_single_component first of None \<Rightarrow> [] | Some c \<Rightarrow> [c]) @
    body_components (drop (Suc (length first)) p)"
proof -
  have ns: "sep \<notin> set first" by (auto simp: first_def dest: set_takeWhileD)
  show ?thesis
  proof (cases "sep \<in> set p")
    case True
    then obtain rest where r: "p = first @ sep # rest" "drop (Suc (length first)) p = rest"
      unfolding first_def by (rule first_part)
    have "body_components p = body_components first @ body_components rest"
      by (subst r(1)) (rule body_components_append)
    then show ?thesis using ns r(2) by (simp add: body_components_plain)
  next
    case False
    then have "first = p" unfolding first_def by (subst takeWhile_eq_all_conv) auto
    then show ?thesis using ns by (simp add: body_components_plain)
  qed
qed

lemma body_next_spec:
  "body_components p = (case body_next p of None \<Rightarrow> [] | Some (c, r) \<Rightarrow> c # body_components r)"
proof (induction p rule: body_next.induct)
  case (1 p)
  show ?case
  proof (cases "p = []")
    case False
    let ?comp = "takeWhile (\<lambda>c. c \<noteq> sep) p"
    show ?thesis
      using False 1 [OF False refl refl] body_components_first [of p]
      by (subst body_next.simps) (auto simp: Let_def split: option.splits)
  qed (simp add: body_next.simps)
qed

lemma components_next_spec:
  "it_components it = (case components_next it of None \<Rightarrow> [] | Some (c, it') \<Rightarrow> c # it_components it')"
proof (cases it)
  case (Pair b p)
  show ?thesis
  proof (cases b)
    case True
    then show ?thesis using Pair body_next_spec [of p]
      by (auto simp: components_next_def it_components_def split: option.splits)
  next
    case False
    consider (abs) "is_absolute p" | (cur) "\<not> is_absolute p" "include_cur_dir p"
      | (body) "\<not> is_absolute p" "\<not> include_cur_dir p" by blast
    then show ?thesis
    proof cases
      case abs
      then obtain q where "p = sep # q" by (cases p) (auto simp: is_absolute_def)
      then show ?thesis using Pair False abs
        by (simp add: components_next_def it_components_def components_def)
    next
      case cur
      have "p = ''.'' \<or> (\<exists>q. p = CHR ''.'' # sep # q)"
        using cur(2) by (cases p; cases "tl p") (auto simp: include_cur_dir_def)
      then have "body_components p = body_components (tl p)"
        using body_components_append [of "''.''"]
        by (auto simp: body_components_plain parse_single_component_def)
      then show ?thesis using Pair False cur
        by (simp add: components_next_def it_components_def components_def)
    next
      case body
      then show ?thesis using Pair False body_next_spec [of p]
        by (auto simp: components_next_def it_components_def components_def split: option.splits)
    qed
  qed
qed

lemma iter_after_spec:
  "(case iter_after it cs of
      Some it' \<Rightarrow> it_components it = cs @ it_components it' \<and> (cs \<noteq> [] \<longrightarrow> fst it')
    | None \<Rightarrow> \<not> prefix cs (it_components it))"
proof (induction cs arbitrary: it)
  case (Cons c cs)
  show ?case
  proof (cases "components_next it")
    case None
    then show ?thesis using components_next_spec [of it] by simp
  next
    case (Some x)
    then obtain d it' where x: "x = (d, it')" by (cases x)
    have it: "it_components it = d # it_components it'" using components_next_spec [of it] Some x by simp
    have f: "fst it'" using Some x
      by (auto simp: components_next_def split: prod.splits bool.splits if_splits)
    show ?thesis
    proof (cases "d = c")
      case True
      then show ?thesis using Cons.IH [of it'] Some x it f
        by (cases cs) (auto split: option.splits)
    next
      case False
      then show ?thesis using Some x it by simp
    qed
  qed
qed simp

lemma trim_left_spec:
  "body_components (trim_left p) = body_components p"
  "\<not> is_absolute (trim_left p)" "\<not> include_cur_dir (trim_left p)"
proof -
  have "body_components (trim_left p) = body_components p \<and> \<not> is_absolute (trim_left p) \<and>
    \<not> include_cur_dir (trim_left p)"
  proof (induction p rule: trim_left.induct)
    case (1 p)
    let ?c = "takeWhile (\<lambda>c. c \<noteq> sep) p"
    consider (nil) "p = []" | (skip) "p \<noteq> []" "parse_single_component ?c = None"
      | (real) "p \<noteq> []" "parse_single_component ?c \<noteq> None" by blast
    then show ?case
    proof cases
      case nil
      then show ?thesis by (simp add: trim_left.simps is_absolute_def include_cur_dir_def)
    next
      case skip
      then have "trim_left p = trim_left (drop (Suc (length ?c)) p)"
        by (subst trim_left.simps) (simp add: Let_def)
      then show ?thesis using 1 [OF skip(1) refl skip(2)] body_components_first [of p] skip(2) by simp
    next
      case real
      then have t: "trim_left p = p" by (subst trim_left.simps) (auto simp: Let_def)
      have "\<not> is_absolute p" using real by (cases p) (auto simp: is_absolute_def parse_single_component_def)
      moreover have "\<not> include_cur_dir p"
      proof
        assume "include_cur_dir p"
        then have "p = ''.'' \<or> (\<exists>q. p = CHR ''.'' # sep # q)"
          by (cases p; cases "tl p") (auto simp: include_cur_dir_def)
        then have "?c = ''.''" by auto
        with real(2) show False by (simp add: parse_single_component_def)
      qed
      ultimately show ?thesis by (simp add: t)
    qed
  qed
  then show "body_components (trim_left p) = body_components p"
    "\<not> is_absolute (trim_left p)" "\<not> include_cur_dir (trim_left p)" by auto
qed

lemma last_part:
  fixes p :: string
  defines "c \<equiv> rev (takeWhile (\<lambda>c. c \<noteq> sep) (rev p))"
  shows "sep \<notin> set c"
    and "length c < length p \<Longrightarrow> p = take (length p - Suc (length c)) p @ sep # c"
    and "\<not> length c < length p \<Longrightarrow> p = c"
proof -
  show ns: "sep \<notin> set c" by (auto simp: c_def dest: set_takeWhileD)
  have cases: "p = c \<or> (\<exists>q. p = q @ sep # c)"
  proof (cases "sep \<in> set p")
    case True
    then have "sep \<in> set (rev p)" by simp
    then obtain rest where "rev p = takeWhile (\<lambda>c. c \<noteq> sep) (rev p) @ sep # rest" by (rule first_part)
    then have "p = rev rest @ sep # c" unfolding c_def by (metis append.assoc append_Cons append_Nil
          rev.simps(2) rev_append rev_rev_ident)
    then show ?thesis by blast
  next
    case False
    then have "takeWhile (\<lambda>c. c \<noteq> sep) (rev p) = rev p" by (subst takeWhile_eq_all_conv) auto
    then have "c = rev (rev p)" unfolding c_def by (rule arg_cong)
    then show ?thesis by simp
  qed
  show "p = take (length p - Suc (length c)) p @ sep # c" if lt: "length c < length p"
  proof -
    obtain q where q: "p = q @ sep # c" using cases lt by auto
    then have "length p - Suc (length c) = length q" by simp
    then have "take (length p - Suc (length c)) p = q" using q by simp
    with q show ?thesis by simp
  qed
  show "p = c" if "\<not> length c < length p" using cases that by auto
qed

lemma trim_right_Nil: "trim_right n [] = []"
  by (subst trim_right.simps) simp

lemma trim_right_spec:
  "body_components (trim_right 0 p) = body_components p \<and>
   (\<exists>t. p = trim_right 0 p @ t \<and> (t = [] \<or> hd t = sep \<or> trim_right 0 p = []))"
proof (induction "length p" arbitrary: p rule: less_induct)
  case less
  let ?c = "rev (takeWhile (\<lambda>c. c \<noteq> sep) (rev p))"
  let ?e = "if length ?c < length p then 1 else 0 :: nat"
  show ?case
  proof (cases "p \<noteq> [] \<and> parse_single_component ?c = None \<and> 0 < length ?c + ?e")
    case False
    then have "trim_right 0 p = p" by (subst trim_right.simps) (auto simp: Let_def)
    then show ?thesis by simp
  next
    case True
    let ?q = "take (length p - (length ?c + ?e)) p"
    have t: "trim_right 0 p = trim_right 0 ?q"
      using True by (subst trim_right.simps) (auto simp: Let_def)
    have lq: "length ?q < length p" using True by auto
    note IH = less [OF lq]
    show ?thesis
    proof (cases "length ?c < length p")
      case sep: True
      then have p: "p = ?q @ sep # ?c" using last_part(2) [of p] by simp
      have "body_components p = body_components ?q @ body_components ?c"
        by (subst p) (rule body_components_append)
      then have "body_components p = body_components ?q"
        using True last_part(1) [of p] by (simp add: body_components_plain)
      moreover obtain t where t': "?q = trim_right 0 ?q @ t" "t = [] \<or> hd t = sep \<or> trim_right 0 ?q = []"
        using IH by blast
      moreover have "p = trim_right 0 ?q @ (t @ sep # ?c)" using p t'(1) by (metis append_assoc)
      moreover have "hd (t @ sep # ?c) = sep \<or> trim_right 0 ?q = []" using t'(2) by (cases t) auto
      ultimately show ?thesis using IH t by metis
    next
      case False
      then have p: "p = ?c" using last_part(3) [of p] by blast
      then have "body_components p = []"
        using True last_part(1) [of p] body_components_plain [of ?c] by simp
      moreover have "?q = []" using False p by (metis diff_is_0_eq' le_add1 take_eq_Nil)
      then have "trim_right 0 p = trim_right 0 []" using t by (simp only:)
      then have "trim_right 0 p = []" by (simp only: trim_right_Nil)
      ultimately show ?thesis by simp
    qed
  qed
qed

lemma components_as_path:
  assumes "fst it"
  shows "components (as_path it) = it_components it" "\<not> is_absolute (as_path it)"
proof -
  obtain p where it: "it = (True, p)" using assms by (cases it) auto
  let ?l = "trim_left p" and ?r = "trim_right 0 (trim_left p)"
  obtain t where t: "?l = ?r @ t" "t = [] \<or> hd t = sep \<or> ?r = []" using trim_right_spec by blast
  have na: "\<not> is_absolute ?r"
    using t trim_left_spec(2) [of p] by (cases ?r) (auto simp: is_absolute_def)
  have "\<not> include_cur_dir ?r"
  proof
    assume "include_cur_dir ?r"
    then have cases: "?r = ''.'' \<or> (\<exists>q. ?r = CHR ''.'' # sep # q)"
      by (cases ?r; cases "tl ?r") (auto simp: include_cur_dir_def)
    have "include_cur_dir (?r @ t)"
    proof (cases "?r = ''.''")
      case True
      then show ?thesis using t(2) by (cases t) (auto simp: include_cur_dir_def)
    next
      case False
      then show ?thesis using cases by (auto simp: include_cur_dir_def)
    qed
    then show False using trim_left_spec(3) [of p] t(1) by simp
  qed
  then show "components (as_path it) = it_components it"
    using na trim_right_spec [of ?l] trim_left_spec(1) [of p]
    by (simp add: it as_path_def it_components_def components_def)
  show "\<not> is_absolute (as_path it)" using na by (simp add: it as_path_def)
qed

lemma strip_prefix_Some:
  assumes "strip_prefix p base = Some r" "components base \<noteq> []"
  shows "components p = components base @ components r" "\<not> is_absolute r"
proof -
  obtain it where it: "iter_after (False, p) (components base) = Some it" "r = as_path it"
    using assms(1) by (auto simp: strip_prefix_def)
  have f: "fst it" "it_components (False, p) = components base @ it_components it"
    using iter_after_spec [where it = "(False, p)" and cs = "components base"] it(1) assms(2) by auto
  show "\<not> is_absolute r" using components_as_path [OF f(1)] it(2) by simp
  show "components p = components base @ components r"
    using f(2) components_as_path [OF f(1)] it(2) by (simp add: it_components_def)
qed

lemma strip_prefix_None: "strip_prefix p base = None \<longleftrightarrow> \<not> starts_with p base"
  using iter_after_spec [where it = "(False, p)" and cs = "components base"]
  by (auto simp: strip_prefix_def starts_with_def it_components_def prefix_def split: option.splits)

lemma relative_no_root: "\<not> is_absolute p \<Longrightarrow> RootDir \<notin> set (components p)"
proof -
  assume "\<not> is_absolute p"
  moreover have "RootDir \<notin> set (body_components p)"
    by (auto simp: body_components_def List.map_filter_def parse_single_component_def split: if_splits)
  ultimately show ?thesis by (auto simp: components_def)
qed

end
