(* ===== verification/Handler_State.thy ===== *)
theory Handler_State
  imports Ptrace_Contracts Syscalls Std_Path
begin

text \<open>
  The state of one tracee's handler (\<open>AsyncTraceeHandler\<close> and \<open>AsyncNotifications\<close> of
  \<open>src/sysaug/src/handler_async.rs\<close>), the constants it carries (\<open>TraceeHandlerConsts\<close> of
  \<open>handler_sync.rs\<close>), and the operations on the tracee's scratch stack.  Every \<open>RefCell\<close> of the
  source is a field of the record \<open>handler\<close>; the handler runs on one thread, so a borrow is a
  read or an update of the field.

  What lies outside the repository is a parameter, a field of the record \<open>env\<close>: the memory and
  register requests (\<open>kernel\<close>), the requests that resume the tracee and report its events
  (\<open>events\<close>), and the file system of the host with the third-party crates the code reads files
  through (\<open>host\<close>: \<open>std::fs\<close>, \<open>serde_json\<close>, \<open>uuid\<close>, \<open>elf\<close>, \<open>regex\<close>).  A closure passed to
  \<open>PtraceClient::execute\<close> runs once and its result is returned, which the theory of the executor
  shows for both clients; a lock is never poisoned.
\<close>

section \<open>The environment\<close>

record 'w events =
  ev_cont :: "int option \<Rightarrow> ('w, nix_error, unit) act"
  ev_syscall :: "int option \<Rightarrow> ('w, nix_error, unit) act"
  ev_waitpid :: "pid \<Rightarrow> ('w, nix_error, wait_status) act"
  ev_getsiginfo :: "'w \<Rightarrow> nix_error + int"
  ev_getevent :: "'w \<Rightarrow> nix_error + usize"
  ev_attach :: "pid \<Rightarrow> ('w, nix_error, unit) act"
  ev_setoptions :: "('w, nix_error, unit) act"
  ev_detach :: "pid \<Rightarrow> int option \<Rightarrow> ('w, nix_error, unit) act"
  ev_spawn_handler :: "pid \<Rightarrow> 'w \<Rightarrow> 'w"
  ev_gdb :: "pid \<Rightarrow> ('w, io_error, int option) act"

record elf_phdr =
  ph_type :: u32
  ph_offset :: usize
  ph_filesz :: usize

record file_stat =
  fst_mode :: usize
  fst_uid :: usize
  fst_gid :: usize

record 'w host =
  ho_exists :: "'w \<Rightarrow> path \<Rightarrow> io_error + bool"
  ho_canonicalize :: "'w \<Rightarrow> path \<Rightarrow> io_error + path"
  ho_is_symlink :: "'w \<Rightarrow> path \<Rightarrow> io_error + bool"
  ho_read_link :: "'w \<Rightarrow> path \<Rightarrow> io_error + path"
  ho_is_dir :: "'w \<Rightarrow> path \<Rightarrow> bool"
  ho_stat :: "'w \<Rightarrow> path \<Rightarrow> nix_error + file_stat"
  ho_absolute :: "'w \<Rightarrow> path \<Rightarrow> io_error + path"
  ho_create_dir_all :: "path \<Rightarrow> ('w, io_error, unit) act"
  ho_rename :: "path \<Rightarrow> path \<Rightarrow> ('w, io_error, unit) act"
  ho_symlink :: "path \<Rightarrow> path \<Rightarrow> ('w, io_error, unit) act"
  ho_remove_file :: "path \<Rightarrow> ('w, io_error, unit) act"
  ho_remove_dir_all :: "path \<Rightarrow> ('w, io_error, unit) act"
  ho_open_create :: "path \<Rightarrow> ('w, string, unit) act"
  ho_open_read :: "'w \<Rightarrow> path \<Rightarrow> string + unit"
  ho_flock :: "path \<Rightarrow> ('w, unit, unit) act"
  ho_from_json :: "'w \<Rightarrow> path \<Rightarrow> string + rootfs_metadata"
  ho_truncate :: "path \<Rightarrow> ('w, io_error, unit) act"
  ho_to_json :: "path \<Rightarrow> rootfs_metadata \<Rightarrow> ('w, string, unit) act"
  ho_uuid :: "'w \<Rightarrow> string \<times> 'w"
  ho_open :: "'w \<Rightarrow> path \<Rightarrow> io_error + unit"
  ho_elf :: "'w \<Rightarrow> path \<Rightarrow> elf_phdr list option"
  ho_read_at :: "'w \<Rightarrow> path \<Rightarrow> usize \<Rightarrow> nat \<Rightarrow> io_error + string"
  ho_first_line :: "'w \<Rightarrow> path \<Rightarrow> io_error + string"
  ho_regex_match :: "string \<Rightarrow> string \<Rightarrow> bool"
  ho_regex_replace :: "string \<Rightarrow> string \<Rightarrow> string \<Rightarrow> string"
  ho_regex_replace_all :: "string \<Rightarrow> string \<Rightarrow> string \<Rightarrow> string"

text \<open>\<open>e_parent\<close> is the parent's set of children whose next SIGSTOP is to be ignored, when the
  tracee has a parent; the parent's thread updates it, so it is read from the world.
  \<open>e_local_client\<close> tells \<open>LocalPtraceClient\<close> from \<open>MainThreadClient\<close>, and \<open>e_stack_depth\<close> is the
  depth of recursive calls the tracer's stack allows.\<close>

record 'w env =
  e_pid :: pid
  e_root_pid :: pid
  e_local_client :: bool
  e_stack_depth :: nat
  e_args :: sysaug_args
  e_config :: sysaug_config
  e_shared_fd :: usize
  e_parent :: "('w \<Rightarrow> pid set) option"
  e_nr :: "string \<Rightarrow> usize"
  e_kernel :: "'w kernel"
  e_events :: "'w events"
  e_host :: "'w host"

section \<open>The handler\<close>

record 'w handler =
  h_tracer :: "'w tracer"
  h_direct :: bool
  h_perms_ids :: "usize option list"
  h_path_prefix :: "path option"
  h_path_prefix_excludes :: "path list"
  h_mmap_tracee_addr :: usize
  h_stack_offset :: usize
  h_after_syscall_entry :: bool
  h_legacy_seccomp :: bool
  h_seccomp_init_complete :: bool
  h_orig_syscall_num :: "usize option"
  h_ignore_sigstops :: "pid set"
  h_num_polls :: usize
  h_yielding :: "usize option"
  h_resume_through_syscall :: bool
  h_signal_tracee :: "int option"
  h_transfer_to_gdb :: bool

abbreviation h_world :: "'w handler \<Rightarrow> 'w" where "h_world h \<equiv> tr_world (h_tracer h)"

type_synonym ('w, 'a) hact = "('w handler, sysaug_error, 'a) act"

text \<open>The handler as \<open>event_loop\<close> creates it, before the configuration is applied.\<close>

definition handler_new :: "'w tracer \<Rightarrow> bool \<Rightarrow> 'w handler" where
  "handler_new t is_legacy =
     \<lparr>h_tracer = t, h_direct = False, h_perms_ids = replicate PERMS_IDS_SIZE None,
      h_path_prefix = None, h_path_prefix_excludes = [], h_mmap_tracee_addr = 0,
      h_stack_offset = 0, h_after_syscall_entry = False, h_legacy_seccomp = is_legacy,
      h_seccomp_init_complete = False, h_orig_syscall_num = None, h_ignore_sigstops = {},
      h_num_polls = 0, h_yielding = None, h_resume_through_syscall = False,
      h_signal_tracee = None, h_transfer_to_gdb = False\<rparr>"

definition handler_init :: "'w env \<Rightarrow> 'w handler \<Rightarrow> 'w handler" where
  "handler_init E h =
     (let h = h\<lparr>h_perms_ids := init_perms_ids_from_config (h_perms_ids h) (c_perms (e_config E))\<rparr>
      in if a_chroot (e_args E) \<noteq> None
         then h\<lparr>h_path_prefix_excludes := h_path_prefix_excludes h @
                  init_passthroughs_from_config (c_rootfs (e_config E)),
                h_path_prefix := a_chroot (e_args E)\<rparr>
         else h)"

section \<open>Running requests\<close>

definition on_tracer :: "('w tracer, 'e, 'a) act \<Rightarrow> ('w handler, 'e, 'a) act" where
  "on_tracer m = (\<lambda>h. case m (h_tracer h) of (r, t) \<Rightarrow> (r, h\<lparr>h_tracer := t\<rparr>))"

definition exec :: "('w, ptrace_error, 'a) act \<Rightarrow> ('w, 'a) hact" where
  "exec m = act_map_err Ptrace (on_tracer (on_world m))"

definition exec_mem :: "('w tracer, ptrace_error, 'a) act \<Rightarrow> ('w, 'a) hact" where
  "exec_mem m = act_map_err Ptrace (on_tracer m)"

text \<open>A request whose own result is inspected by the caller.\<close>

definition exec_try :: "('w, 'e, 'a) act \<Rightarrow> ('w, 'e + 'a) hact" where
  "exec_try m = (\<lambda>h. case on_tracer (on_world m) h of (r, h') \<Rightarrow> (Inr r, h'))"

definition exec_as :: "('e \<Rightarrow> sysaug_error) \<Rightarrow> ('w, 'e, 'a) act \<Rightarrow> ('w, 'a) hact" where
  "exec_as f m = act_map_err f (on_tracer (on_world m))"

definition get_mem_helper :: "'w env \<Rightarrow> 'w handler \<Rightarrow> 'w tracer mem_helpers" where
  "get_mem_helper E h =
     (if h_direct h then DIRECT_MEM_HELPERS (e_kernel E) (e_pid E) else SLOW_MEM_HELPERS (e_kernel E))"

definition with_mem :: "'w env \<Rightarrow> ('w tracer mem_helpers \<Rightarrow> ('w tracer, ptrace_error, 'a) act) \<Rightarrow> ('w, 'a) hact" where
  "with_mem E f = (\<lambda>h. exec_mem (f (get_mem_helper E h)) h)"

section \<open>The tracee's scratch stack\<close>

definition tracee_stack_append :: "'w env \<Rightarrow> u8 list \<Rightarrow> ('w, usize) hact" where
  "tracee_stack_append E bytes = (\<lambda>h.
     act_bind (with_mem E (\<lambda>mh. mh_write_bytes_to_tracee mh (h_stack_offset h) bytes))
       (\<lambda>(addr, new_offset).
         act_bind (act_upd (h_stack_offset_update (\<lambda>_. new_offset))) (\<lambda>_. act_ret addr)) h)"

definition bytes_of :: "string \<Rightarrow> u8 list" where
  "bytes_of s = map of_char s"

definition string_of :: "u8 list \<Rightarrow> string" where
  "string_of bs = map (\<lambda>b. char_of (unat b)) bs"

definition tracee_stack_append_str :: "'w env \<Rightarrow> string \<Rightarrow> ('w, usize) hact" where
  "tracee_stack_append_str E val = tracee_stack_append E (bytes_of val @ [0])"

definition tracee_stack_append_path :: "'w env \<Rightarrow> path \<Rightarrow> ('w, usize) hact" where
  "tracee_stack_append_path E path = tracee_stack_append E (bytes_of path @ [0])"

definition tracee_stack_append_fixed_size_obj :: "'w env \<Rightarrow> u8 list \<Rightarrow> ('w, usize) hact" where
  "tracee_stack_append_fixed_size_obj E obj = tracee_stack_append E obj"

definition tracee_stack_seek :: "usize \<Rightarrow> ('w, unit) hact" where
  "tracee_stack_seek offset = act_upd (h_stack_offset_update (\<lambda>_. offset))"

lemma string_of_bytes_of [simp]: "string_of (bytes_of s) = s"
proof (induction s)
  case (Cons c s)
  have "of_char c < (256 :: nat)" by simp
  then have "unat (of_char c :: u8) = of_char c"
    by (subst of_nat_of_char [symmetric]) (simp add: unat_of_nat take_bit_eq_mod)
  then show ?case using Cons by (simp add: bytes_of_def string_of_def)
qed (simp add: bytes_of_def string_of_def)

end
