(* ===== verification/Model_Host.thy ===== *)
theory Model_Host
  imports Handler_State
begin

text \<open>
  A small concrete host and kernel: flat memory, a register file, a list of files, a list of
  symbolic links and the contents of the metadata files, and a tracee that makes one system call
  after another, receiving a given number of signals first.  The hypotheses of the properties hold
  of it, and their witnesses run on it.
\<close>

datatype phase = PhUser | PhSeccomp | PhEntry | PhInside

record model =
  d_regs :: regs
  d_mem :: "usize \<Rightarrow> u8"
  d_files :: "path list"
  d_links :: "(path \<times> path) list"
  d_meta :: "(path \<times> rootfs_metadata) list"
  d_phase :: phase
  d_thru :: bool
  d_signals :: nat

definition model_kernel :: "model kernel" where
  "model_kernel = \<lparr>
     k_peek = (\<lambda>w a. Inr (from_ne_bytes (map (\<lambda>i. d_mem w (a + of_nat i)) [0..<8]))),
     k_poke = (\<lambda>w a v. Inr (w\<lparr>d_mem := \<lambda>b.
       if unat (b - a) < 8 then to_ne_bytes v ! unat (b - a) else d_mem w b\<rparr>)),
     k_getregs = (\<lambda>w. Inr (d_regs w)),
     k_setregs = (\<lambda>w r. Inr (w\<lparr>d_regs := r\<rparr>)),
     k_open_mem = (\<lambda>w. Inr ()),
     k_pread = (\<lambda>w a n. Inr (map (\<lambda>i. d_mem w (a + of_nat i)) [0..<n])) \<rparr>"

lemma model_word_memory: "word_memory model_kernel d_mem"
proof -
  have "to_ne_bytes (from_ne_bytes (map (\<lambda>i. m (a + of_nat i)) [0..<8])) ! i = m (a + of_nat i)"
    if "i < 8" for m :: "usize \<Rightarrow> u8" and a i
    using that by (subst to_from_ne_bytes) simp_all
  then show ?thesis by (simp add: word_memory_def model_kernel_def)
qed

lemma model_full_reads: "full_reads model_kernel"
  by (simp add: full_reads_def model_kernel_def)

lemma model_regs_stored: "regs_stored model_kernel"
  by (auto simp: regs_stored_def model_kernel_def)

lemma model_regs_kept: "regs_kept model_kernel"
  by (auto simp: regs_kept_def model_kernel_def)

lemma model_readable: "readable model_kernel w lo hi"
  by (simp add: readable_def model_kernel_def)

fun model_stop :: "phase \<Rightarrow> bool \<Rightarrow> bool \<Rightarrow> wait_status \<times> phase" where
  "model_stop PhUser False legacy = (PtraceEvent 100 5 PTRACE_EVENT_SECCOMP, PhSeccomp)"
| "model_stop PhSeccomp True legacy = (PtraceSyscall 100, if legacy then PhEntry else PhUser)"
| "model_stop _ _ legacy = (PtraceSyscall 100, PhUser)"

definition model_waitpid :: "bool \<Rightarrow> pid \<Rightarrow> (model, nix_error, wait_status) act" where
  "model_waitpid legacy p = (\<lambda>w.
     if p \<noteq> 100 then (Inr (Stopped p SIGSTOP), w)
     else if d_phase w = PhUser \<and> \<not> d_thru w \<and> 0 < d_signals w
     then (Inr (Stopped 100 10), w\<lparr>d_signals := d_signals w - 1\<rparr>)
     else case model_stop (d_phase w) (d_thru w) legacy of (st, p') \<Rightarrow> (Inr st, w\<lparr>d_phase := p'\<rparr>))"

definition model_events :: "bool \<Rightarrow> model events" where
  "model_events legacy = \<lparr>
     ev_cont = (\<lambda>sig. act_upd (d_thru_update (\<lambda>_. False))),
     ev_syscall = (\<lambda>sig. act_upd (d_thru_update (\<lambda>_. True))),
     ev_waitpid = model_waitpid legacy,
     ev_getsiginfo = (\<lambda>w. Inr 0),
     ev_getevent = (\<lambda>w. Inr 101),
     ev_attach = (\<lambda>p. act_ret ()),
     ev_setoptions = act_ret (),
     ev_detach = (\<lambda>p sig. act_ret ()),
     ev_spawn_handler = (\<lambda>p w. w),
     ev_gdb = (\<lambda>p. act_ret (Some 0)) \<rparr>"

definition model_exists :: "model \<Rightarrow> path \<Rightarrow> bool" where
  "model_exists w p = (p \<in> set (d_files w) \<or> p \<in> fst ` set (d_meta w) \<or> map_of (d_links w) p \<noteq> None)"

definition model_remove :: "path \<Rightarrow> (model, io_error, unit) act" where
  "model_remove p = (\<lambda>w.
     if model_exists w p
     then (Inr (), w\<lparr>d_files := filter (\<lambda>f. f \<noteq> p) (d_files w),
                     d_links := filter (\<lambda>l. fst l \<noteq> p) (d_links w),
                     d_meta := filter (\<lambda>l. fst l \<noteq> p) (d_meta w)\<rparr>)
     else (Inl 2, w))"

definition model_rename :: "path \<Rightarrow> path \<Rightarrow> (model, io_error, unit) act" where
  "model_rename p q = (\<lambda>w.
     let ren = (\<lambda>f. if f = p then q else f)
     in if model_exists w p
        then (Inr (), w\<lparr>d_files := map ren (filter (\<lambda>f. f \<noteq> q) (d_files w)),
                        d_links := map (\<lambda>(f, t). (ren f, t)) (filter (\<lambda>l. fst l \<noteq> q) (d_links w)),
                        d_meta := map (\<lambda>(f, t). (ren f, t)) (filter (\<lambda>l. fst l \<noteq> q) (d_meta w))\<rparr>)
        else (Inl 2, w))"

definition model_host :: "model host" where
  "model_host = \<lparr>
     ho_exists = (\<lambda>w p. Inr (model_exists w p)),
     ho_canonicalize = (\<lambda>w p. case map_of (d_links w) p of
       Some l \<Rightarrow> Inr l | None \<Rightarrow> if model_exists w p then Inr p else Inl 2),
     ho_is_symlink = (\<lambda>w p. if model_exists w p then Inr (map_of (d_links w) p \<noteq> None) else Inl 2),
     ho_read_link = (\<lambda>w p. case map_of (d_links w) p of Some l \<Rightarrow> Inr l | None \<Rightarrow> Inl 22),
     ho_is_dir = (\<lambda>w p. False),
     ho_stat = (\<lambda>w p. Inl 2),
     ho_absolute = (\<lambda>w p. Inr p),
     ho_create_dir_all = (\<lambda>p. act_ret ()),
     ho_rename = model_rename,
     ho_symlink = (\<lambda>t p. act_upd (d_links_update (\<lambda>l. (p, t) # l))),
     ho_remove_file = model_remove,
     ho_remove_dir_all = (\<lambda>p. act_ret ()),
     ho_open_create = (\<lambda>p. act_ret ()),
     ho_open_read = (\<lambda>w p. Inr ()),
     ho_flock = (\<lambda>p. act_ret ()),
     ho_from_json = (\<lambda>w p. case map_of (d_meta w) p of Some m \<Rightarrow> Inr m | None \<Rightarrow> Inl ''EOF''),
     ho_truncate = (\<lambda>p. act_ret ()),
     ho_to_json = (\<lambda>p m. act_upd (d_meta_update (\<lambda>l. (p, m) # filter (\<lambda>x. fst x \<noteq> p) l))),
     ho_uuid = (\<lambda>w. (''0f'', w)),
     ho_open = (\<lambda>w p. Inr ()),
     ho_elf = (\<lambda>w p. None),
     ho_read_at = (\<lambda>w p a n. Inl 5),
     ho_first_line = (\<lambda>w p. Inr []),
     ho_regex_match = (\<lambda>re s. re = s),
     ho_regex_replace = (\<lambda>re s r. r),
     ho_regex_replace_all = (\<lambda>re s r. r) \<rparr>"

definition model_args :: sysaug_args where
  "model_args = sysaug_args_default\<lparr>a_chroot := Some ''/r/fs'', a_rootfs := Some ''/r/fs'', a_perms_mode := RootOnly\<rparr>"

definition model_env_of :: "bool \<Rightarrow> model env" where
  "model_env_of legacy = \<lparr>e_pid = 100, e_root_pid = 100, e_local_client = True, e_stack_depth = 8,
     e_args = model_args, e_config = sysaug_config_default 1000 1000, e_shared_fd = 3,
     e_parent = None, e_nr = x86_64_nr, e_kernel = model_kernel, e_events = model_events legacy,
     e_host = model_host\<rparr>"

abbreviation model_env :: "model env" where "model_env \<equiv> model_env_of False"

lemma model_env_simps [simp]:
  "e_pid (model_env_of legacy) = 100" "e_stack_depth (model_env_of legacy) = 8" "e_args (model_env_of legacy) = model_args"
  "e_config (model_env_of legacy) = sysaug_config_default 1000 1000" "e_nr (model_env_of legacy) = x86_64_nr"
  "e_kernel (model_env_of legacy) = model_kernel" "e_events (model_env_of legacy) = model_events legacy" "e_host (model_env_of legacy) = model_host"
  by (simp_all only: model_env_of_def env.simps)

definition model_world :: model where
  "model_world = \<lparr>d_regs = zero_regs, d_mem = (\<lambda>_. 0), d_files = [''/r/fs'', ''/r/fs/a''],
     d_links = [(''/r/fs/l'', ''/k''), (''/r/fs/k'', ''/l''), (''/r/fs/s'', ''/a'')], d_meta = [],
     d_phase = PhUser, d_thru = False, d_signals = 1\<rparr>"

definition model_tracer :: "model \<Rightarrow> model tracer" where
  "model_tracer w = \<lparr>tr_world = w, SHARED_REGIONS = [], AVAILABLE_REGION_IDS = [],
     REGION_IDS_BY_PID = (\<lambda>_. None), TRACEE_READ_FD = None, TRACEE_WRITE_REGION_ADDR = None,
     TRACEE_WRITE_REGION_ID = None\<rparr>"

definition model_handler :: "model \<Rightarrow> model handler" where
  "model_handler w = handler_init model_env (handler_new (model_tracer w) False)"

end
