(* ===== verification/Aug_Perms.thy ===== *)
theory Aug_Perms
  imports Handler_State Model_Host
begin

text \<open>
  The emulated user and group ids (\<open>src/sysaug/src/aug_perms.rs\<close>): what a \<open>set*id\<close> call does on
  entry and a \<open>get*id\<close> call on exit.  The eight slots are \<open>h_perms_ids\<close>.
\<close>

definition is_i32_negative :: "usize \<Rightarrow> bool" where
  "is_i32_negative x = (sint (ucast x :: 32 word) < 0)"

definition is_isize_negative :: "usize \<Rightarrow> bool" where
  "is_isize_negative x = (sint x < 0)"

definition handle_setid :: "'w env \<Rightarrow> usize \<Rightarrow> usize" where
  "handle_setid E proposed_id =
     (if a_perms_mode (e_args E) = RootOnly \<and> proposed_id \<ge> 0xFFFFFFFFFFFFFFFF div 2 then 0 else proposed_id)"

definition write_retval :: "'w env \<Rightarrow> regs \<Rightarrow> usize \<Rightarrow> ('w, unit) hact" where
  "write_retval E r val = exec (setregs (e_kernel E) (set_syscall_retval r val))"

text \<open>The two walks over the slots of a call that sets several ids.  The first looks for a negative
  id; \<open>retval\<close> is the variable the closures capture.\<close>

definition check_ids :: "u8 \<Rightarrow> usize list \<Rightarrow> usize option list \<Rightarrow> (int, sysaug_error, usize option list) act" where
  "check_ids res_bits possible_args =
     walk_res_bits res_bits (\<lambda>i val retval.
       (Inr val, if is_i32_negative (possible_args ! i) then - sint EINVAL else retval))"

definition store_ids ::
  "'w env \<Rightarrow> u8 \<Rightarrow> usize list \<Rightarrow> usize option list \<Rightarrow> (int, sysaug_error, usize option list) act" where
  "store_ids E res_bits possible_args =
     walk_res_bits res_bits (\<lambda>i val retval.
       (Inr (if retval > 0 then Some (handle_setid E (possible_args ! i)) else val), retval))"

definition do_sysenter_perms :: "'w env \<Rightarrow> regs \<Rightarrow> syscall_info \<Rightarrow> ('w, usize option) hact" where
  "do_sysenter_perms E r syscall =
     (let possible_args = [arg0 r, arg1 r, arg2 r]
      in if \<not> si_is_setter syscall \<or> a_perms_mode (e_args E) = Passthrough then act_ret None
      else case si_resf_bit syscall of
        Some resf_bit \<Rightarrow>
          if is_i32_negative (arg0 r) then act_ret (Some (- EINVAL))
          else (\<lambda>h. if resf_bit < length (h_perms_ids h)
                    then (Inr (Some 0),
                          h\<lparr>h_perms_ids := (h_perms_ids h)[resf_bit := Some (handle_setid E (arg0 r))]\<rparr>)
                    else (Inl (SysaugPanic ''index out of bounds''), h))
      | None \<Rightarrow>
          if si_res_bits syscall > 0
          then (\<lambda>h. case check_ids (si_res_bits syscall) possible_args (h_perms_ids h) 0 of
                 (Inl e, _) \<Rightarrow> (Inl e, h)
               | (Inr ids, retval) \<Rightarrow>
                   (case store_ids E (si_res_bits syscall) possible_args ids retval of
                      (Inl e, _) \<Rightarrow> (Inl e, h)
                    | (Inr ids', _) \<Rightarrow> (Inr (Some (of_int retval)), h\<lparr>h_perms_ids := ids'\<rparr>)))
          else act_ret None)"

definition write_ids ::
  "'w env \<Rightarrow> u8 \<Rightarrow> usize list \<Rightarrow> usize option list \<Rightarrow> ('w, usize option list) hact" where
  "write_ids E res_bits possible_args =
     walk_res_bits res_bits (\<lambda>i val. case val of
       Some v \<Rightarrow> act_bind (exec (ptrace_write (e_kernel E) (possible_args ! i) v)) (\<lambda>_. act_ret val)
     | None \<Rightarrow> act_ret val)"

definition do_sysexit_perms :: "'w env \<Rightarrow> regs \<Rightarrow> syscall_info \<Rightarrow> ('w, unit) hact" where
  "do_sysexit_perms E r syscall =
     (let possible_args = [arg0 r, arg1 r, arg2 r]
      in if si_is_setter syscall \<or> a_perms_mode (e_args E) = Passthrough then act_ret ()
      else case si_resf_bit syscall of
        Some resf_bit \<Rightarrow>
          (\<lambda>h. if resf_bit < length (h_perms_ids h)
               then (case h_perms_ids h ! resf_bit of
                       Some val \<Rightarrow> write_retval E r val h
                     | None \<Rightarrow> act_ret () h)
               else (Inl (SysaugPanic ''index out of bounds''), h))
      | None \<Rightarrow>
          if si_res_bits syscall > 0
          then (if syscall_retval r = 0
                then (\<lambda>h. act_bind (write_ids E (si_res_bits syscall) possible_args (h_perms_ids h))
                        (\<lambda>_. act_ret ()) h)
                else act_ret ())
          else if is_isize_negative (syscall_retval r) then write_retval E r 0 else act_ret ())"

section \<open>The walks\<close>

lemma walk_pure:
  assumes "\<And>i v s. f i v s = (Inr (g i v s), k i s)"
  shows "(\<exists>ids' s'. walk_res_bits b f ids s = (Inr ids', s') \<and> length ids' = length ids) \<or>
         (\<exists>s'. walk_res_bits b f ids s = (Inl (SysaugPanic ''index out of bounds''), s'))"
  by (auto simp: walk_res_bits_def walk_res_bits_step_def res_simps assms Let_def)

lemma slot_in_range:
  assumes "i < 2"
  shows "unat ((b AND PERMS_IDBIT_UG) OR of_nat i) < 8"
proof -
  let ?x = "(b AND PERMS_IDBIT_UG) OR of_nat i"
  have "i = 0 \<or> i = 1" using assms by auto
  then have "?x AND 7 = ?x"
    by (elim disjE) (simp_all add: PERMS_IDBIT_UG_def bit.conj_disj_distrib2 and.assoc)
  then have "take_bit 3 ?x = ?x" by (simp add: take_bit_eq_mask mask_eq_exp_minus_1)
  then have "unat ?x = take_bit 3 (unat ?x)" by (metis unsigned_take_bit_eq)
  also have "\<dots> < 2 ^ 3" by (rule take_bit_nat_less_exp)
  finally show ?thesis by simp
qed

lemma walk_unchanged:
  assumes "\<And>i v s. Q s \<Longrightarrow> fst (f i v s) = Inr v \<and> Q (snd (f i v s))" "Q s" "8 \<le> length ids"
  shows "\<exists>s'. walk_res_bits b f ids s = (Inr ids, s') \<and> Q s'"
proof -
  have step: "\<exists>s'. walk_res_bits_step b f i ids s = (Inr ids, s') \<and> Q s'" if q: "Q s" "i < 2" for i s
  proof (cases "b AND push_bit i 1 = 0")
    case True
    then show ?thesis using q by (simp add: walk_res_bits_step_def res_simps)
  next
    case False
    let ?x = "(b AND PERMS_IDBIT_UG) OR of_nat i"
    have lt: "unat ?x < length ids" using slot_in_range [OF q(2)] assms(3) by (rule less_le_trans)
    obtain s' where "f i (ids ! unat ?x) s = (Inr (ids ! unat ?x), s')" "Q s'"
      using assms(1) [OF q(1), of i "ids ! unat ?x"] by (cases "f i (ids ! unat ?x) s") auto
    then show ?thesis using False lt by (simp add: walk_res_bits_step_def res_simps Let_def)
  qed
  obtain s1 where "walk_res_bits_step b f 0 ids s = (Inr ids, s1)" "Q s1"
    using step [OF assms(2), of 0] by auto
  moreover obtain s2 where "walk_res_bits_step b f 1 ids s1 = (Inr ids, s2)" "Q s2"
    using step [OF calculation(2), of 1] by auto
  ultimately show ?thesis by (simp add: walk_res_bits_def res_simps)
qed

lemma check_ids_unchanged:
  assumes "8 \<le> length ids"
  shows "\<exists>retval. check_ids b args ids 0 = (Inr ids, retval) \<and> retval \<le> 0"
  unfolding check_ids_def
  by (rule walk_unchanged [where Q = "\<lambda>r :: int. r \<le> 0", OF _ _ assms]) (auto simp: EINVAL_def)

lemma store_ids_unchanged:
  assumes "8 \<le> length ids" "retval \<le> 0"
  shows "\<exists>r'. store_ids E b args ids retval = (Inr ids, r')"
proof -
  have "\<exists>r'. store_ids E b args ids retval = (Inr ids, r') \<and> r' \<le> 0"
    unfolding store_ids_def
    by (rule walk_unchanged [where Q = "\<lambda>r :: int. r \<le> 0", OF _ assms(2,1)]) auto
  then show ?thesis by blast
qed

section \<open>Properties\<close>

text \<open>C35: the calls that set several ids at once never change an id.  Outside passthrough mode
  \<open>setresuid\<close>, \<open>setreuid\<close> and their group variants are skipped with some return value, and the
  handler is left exactly as it was: the second walk stores only when the return value is
  positive, and it never is.\<close>

theorem multi_setters_keep_ids:
  assumes "si_is_setter s" "si_resf_bit s = None" "si_res_bits s > 0"
    and "a_perms_mode (e_args E) \<noteq> Passthrough" "length (h_perms_ids h) = PERMS_IDS_SIZE"
  shows "\<exists>retval. do_sysenter_perms E r s h = (Inr (Some retval), h)"
proof -
  have len: "8 \<le> length (h_perms_ids h)" using assms(5) by (simp add: PERMS_IDS_SIZE_def)
  obtain retval where c: "check_ids (si_res_bits s) [arg0 r, arg1 r, arg2 r] (h_perms_ids h) 0 =
      (Inr (h_perms_ids h), retval)" "retval \<le> 0"
    using check_ids_unchanged [OF len] by blast
  obtain r' where "store_ids E (si_res_bits s) [arg0 r, arg1 r, arg2 r] (h_perms_ids h) retval =
      (Inr (h_perms_ids h), r')"
    using store_ids_unchanged [OF len c(2)] by blast
  with c(1) show ?thesis using assms by (simp add: do_sysenter_perms_def Let_def)
qed

lemma model_mode: "a_perms_mode model_args = RootOnly"
  by code_simp

lemma model_ids: "length (h_perms_ids (model_handler w)) = PERMS_IDS_SIZE"
  by (simp add: model_handler_def handler_init_def Let_def handler_new_def init_perms_ids_from_config_def
      sysaug_config_default_def default_root_ids_def)

theorem multi_setters_keep_ids_witness:
  "\<exists>retval. do_sysenter_perms model_env zero_regs
     (default_syscall_info\<lparr>si_is_setter := True, si_res_bits := 7\<rparr>) (model_handler model_world) =
     (Inr (Some retval), model_handler model_world)"
  by (rule multi_setters_keep_ids) (simp_all add: default_syscall_info_def model_mode model_ids)

text \<open>C27: an id that was set is the id that is read.  Outside passthrough mode, a call that sets
  one id to a non-negative value is skipped with result 0, and a later call that reads the same
  slot has exactly that id as its return value, whatever the host returned; the other slots
  are unchanged.\<close>

theorem set_id_then_get_id:
  assumes "si_is_setter s" "si_resf_bit s = Some b" "\<not> si_is_setter g" "si_resf_bit g = Some b"
    and "a_perms_mode (e_args E) \<noteq> Passthrough" "b < length (h_perms_ids h)"
    and "\<not> is_i32_negative (arg0 r)" "a_perms_mode (e_args E) = RootOnly \<longrightarrow> unat (arg0 r) < 2 ^ 63 - 1"
    and "regs_stored (e_kernel E)" "\<And>w q. \<exists>w'. k_setregs (e_kernel E) w q = Inr w'"
  shows "\<exists>h1 h2. do_sysenter_perms E r s h = (Inr (Some 0), h1) \<and>
           (\<forall>i. i \<noteq> b \<longrightarrow> h_perms_ids h1 ! i = h_perms_ids h ! i) \<and>
           do_sysexit_perms E q g h1 = (Inr (), h2) \<and>
           k_getregs (e_kernel E) (h_world h2) = Inr (set_syscall_retval q (arg0 r))"
proof -
  let ?h1 = "h\<lparr>h_perms_ids := (h_perms_ids h)[b := Some (arg0 r)]\<rparr>"
  have "\<not> (0x7FFFFFFFFFFFFFFF :: usize) \<le> arg0 r" if "a_perms_mode (e_args E) = RootOnly"
    using that assms(8) by (simp add: word_le_nat_alt)
  then have id: "handle_setid E (arg0 r) = arg0 r" by (auto simp: handle_setid_def)
  then have e: "do_sysenter_perms E r s h = (Inr (Some 0), ?h1)"
    using assms by (simp add: do_sysenter_perms_def Let_def)
  obtain w' where w': "k_setregs (e_kernel E) (h_world ?h1) (set_syscall_retval q (arg0 r)) = Inr w'"
    using assms(10) by blast
  let ?h2 = "?h1\<lparr>h_tracer := (h_tracer ?h1)\<lparr>tr_world := w'\<rparr>\<rparr>"
  have "do_sysexit_perms E q g ?h1 = (Inr (), ?h2)"
    using assms w'
    by (simp add: do_sysexit_perms_def Let_def write_retval_def exec_def on_tracer_def on_world_def
        setregs_def res_simps)
  moreover have "k_getregs (e_kernel E) (h_world ?h2) = Inr (set_syscall_retval q (arg0 r))"
    using assms(9) w' by (simp add: regs_stored_def)
  ultimately show ?thesis using e by (intro exI [of _ ?h1] exI [of _ ?h2]) simp
qed

theorem set_id_then_get_id_witness:
  "\<exists>h1 h2. do_sysenter_perms model_env (zero_regs\<lparr>arg0 := 1000\<rparr>)
       (default_syscall_info\<lparr>si_is_setter := True, si_resf_bit := Some 5\<rparr>) (model_handler model_world) =
       (Inr (Some 0), h1) \<and>
     (\<forall>i. i \<noteq> 5 \<longrightarrow> h_perms_ids h1 ! i = h_perms_ids (model_handler model_world) ! i) \<and>
     do_sysexit_perms model_env zero_regs (default_syscall_info\<lparr>si_resf_bit := Some 5\<rparr>) h1 = (Inr (), h2) \<and>
     k_getregs (e_kernel model_env) (h_world h2) = Inr (set_syscall_retval zero_regs 1000)"
proof -
  have a: "arg0 (zero_regs\<lparr>arg0 := 1000\<rparr>) = 1000" by simp
  have n: "\<not> is_i32_negative 1000" by code_simp
  show ?thesis
    using set_id_then_get_id [of "default_syscall_info\<lparr>si_is_setter := True, si_resf_bit := Some 5\<rparr>" 5
        "default_syscall_info\<lparr>si_resf_bit := Some 5\<rparr>" model_env "model_handler model_world"
        "zero_regs\<lparr>arg0 := 1000\<rparr>" zero_regs] n model_regs_stored
    by (simp add: default_syscall_info_def model_mode model_ids PERMS_IDS_SIZE_def model_kernel_def)
qed

end
