(* ===== verification/Event_Loop.thy ===== *)
theory Event_Loop
  imports Aug_Perms
begin

text \<open>
  The event loop of one tracee (\<open>src/sysaug/src/handler_sync.rs\<close>) and the loops it drives
  (\<open>handler_async.rs\<close>).  Three loops wait at the same time: for signals, for system calls, and for
  other ptrace events.  Each step of the event loop resumes the tracee, waits for its next event
  and polls the three in this order.  The system-call loop is written here as it is in the
  source, as straight code that waits; \<open>await_status\<close> is what happens in between: resume the
  tracee, receive an event, let the signal loop handle it, return it when it is the event the
  system-call loop waits for, and otherwise let the loop of other events handle it.

  Waiting may last forever, so it takes fuel; running out of it is the result \<open>OutOfFuel\<close>.  When one
  of the other loops returns, all of them are dropped (\<open>LoopsReturn\<close>); an error of the event loop
  itself is \<open>EventLoopFail\<close>; an error raised in the system-call loop, which its callers may still
  handle, is \<open>SyscallFail\<close>.
\<close>

datatype stop =
    LoopsReturn "sysaug_error + u8"
  | SyscallFail sysaug_error
  | EventLoopFail sysaug_error
  | OutOfFuel

type_synonym ('w, 'a) sact = "('w handler, stop, 'a) act"

text \<open>An error of the code that runs inside the signal loop or the loop of other events makes
  that loop return it.\<close>

definition in_loop :: "('w, 'a) hact \<Rightarrow> ('w, 'a) sact" where
  "in_loop m = act_map_err (\<lambda>e. LoopsReturn (Inl e)) m"

definition in_syscall :: "('w, 'a) hact \<Rightarrow> ('w, 'a) sact" where
  "in_syscall m = act_map_err SyscallFail m"

section \<open>Resuming the tracee and receiving an event\<close>

definition ptrace_request_next_syscall :: "'w env \<Rightarrow> int option \<Rightarrow> ('w, unit) hact" where
  "ptrace_request_next_syscall E maybe_signal = (\<lambda>h.
     (if h_resume_through_syscall h
      then exec_as PtraceSyscallErr (ev_syscall (e_events E) maybe_signal)
      else exec_as PtraceContinue (ev_cont (e_events E) maybe_signal)) h)"

definition waitpid_hang :: "'w env \<Rightarrow> pid \<Rightarrow> ('w, ptrace_error, wait_status) act" where
  "waitpid_hang E pid = act_map_err WaitpidErr (ev_waitpid (e_events E) pid)"

definition getevent :: "'w env \<Rightarrow> ('w, ptrace_error, usize) act" where
  "getevent E = (\<lambda>w. (map_err GetEventMsg (ev_getevent (e_events E) w), w))"

definition get_tracee_maybe_signal :: "'w env \<Rightarrow> 'w \<Rightarrow> wait_status \<Rightarrow> int option" where
  "get_tracee_maybe_signal E w s =
     (case s of
        Stopped _ signal \<Rightarrow>
          if signal = SIGTRAP then None
          else if ev_getsiginfo (e_events E) w = Inl 22 then None
          else Some signal
      | _ \<Rightarrow> None)"

text \<open>Which future a wait status unblocks.\<close>

definition unblocked_by :: "'w env \<Rightarrow> 'w \<Rightarrow> wait_status \<Rightarrow> ptrace_future_type option" where
  "unblocked_by E w s =
     (if get_tracee_maybe_signal E w s \<noteq> None then Some WaitForSignal
      else case s of
        PtraceEvent _ _ ev \<Rightarrow>
          Some (if ev = PTRACE_EVENT_SECCOMP then WaitForPtraceSeccomp else WaitForPtraceEvent)
      | PtraceSyscall _ \<Rightarrow> Some WaitForPtraceSyscall
      | _ \<Rightarrow> None)"

fun wait_event :: "nat \<Rightarrow> 'w env \<Rightarrow> int option \<Rightarrow> ('w, ptrace_future_type \<times> wait_status) sact" where
  "wait_event 0 E maybe_signal = act_err OutOfFuel"
| "wait_event (Suc fuel) E maybe_signal =
     act_bind (act_map_err EventLoopFail (ptrace_request_next_syscall E maybe_signal)) (\<lambda>_.
     act_bind (act_map_err EventLoopFail (exec (waitpid_hang E (e_pid E)))) (\<lambda>status.
     if \<not> is_trace_stop status \<and> \<not> is_still_alive status
     then act_bind (act_map_err EventLoopFail (exec_as PtraceDetach (ev_detach (e_events E) (e_pid E) None)))
            (\<lambda>_. act_err (EventLoopFail TraceeCrashed))
     else (\<lambda>h. case unblocked_by E (h_world h) status of
            Some ty \<Rightarrow> (Inr (ty, status), h)
          | None \<Rightarrow> wait_event fuel E None h)))"

section \<open>The signal loop\<close>

text \<open>One round of \<open>loop_handle_tracee_signals\<close> after the signal arrived; the result is the value the
  loop returns, if it returns.  Waiting for the next system call is the field \<open>h_yielding\<close>.\<close>

definition sigsys_perms :: "'w env \<Rightarrow> regs \<Rightarrow> ('w, unit) hact" where
  "sigsys_perms E r =
     (case get_syscall (e_nr E) (syscall_num r) of
        Some info \<Rightarrow>
          if si_augment info = AugPerms
          then act_bind (do_sysenter_perms E r info) (\<lambda>skip. case skip of
                 Some retval \<Rightarrow> exec (setregs (e_kernel E) (set_syscall_retval r retval))
               | None \<Rightarrow> do_sysexit_perms E r info)
          else act_ret ()
      | None \<Rightarrow> act_ret ())"

definition yield_to_syscall :: "('w, unit) hact" where
  "yield_to_syscall = act_upd (\<lambda>h. h\<lparr>h_yielding := Some (yield_now (h_num_polls h))\<rparr>)"

definition deliver_signal :: "'w env \<Rightarrow> int \<Rightarrow> ('w, u8 option) hact" where
  "deliver_signal E signal =
     (if signal = SIGSEGV \<and> a_gdb (e_args E)
      then act_bind (act_upd (h_transfer_to_gdb_update (\<lambda>_. True))) (\<lambda>_. act_ret (Some 0))
      else act_bind (act_upd (h_signal_tracee_update (\<lambda>_. Some signal))) (\<lambda>_. act_ret None))"

definition ignored_sigstop :: "'w env \<Rightarrow> 'w \<Rightarrow> int \<Rightarrow> bool" where
  "ignored_sigstop E w signal =
     (signal = SIGSTOP \<and> (case e_parent E of Some ignores \<Rightarrow> e_pid E \<in> ignores w | None \<Rightarrow> False))"

definition handle_sigsys :: "'w env \<Rightarrow> int \<Rightarrow> ('w, u8 option) hact" where
  "handle_sigsys E si_code =
     act_bind (exec (getregs (e_kernel E))) (\<lambda>r.
     let is_seccomp = (\<not> a_no_seccomp (e_args E) \<and> si_code = SI_CODE_SYS_SECCOMP);
         is_fix_sigsys = (a_fix_sigsys (e_args E) \<and> si_code > 0)
     in if is_seccomp \<or> is_fix_sigsys
        then (if is_seccomp then act_bind (sigsys_perms E r) (\<lambda>_. act_ret None)
              else if syscall_num r = NO_MOD_SYSCALL (e_nr E)
              then act_bind yield_to_syscall (\<lambda>_. act_ret None)
              else act_bind (exec (setregs (e_kernel E) (set_syscall_retval r (- ENOSYS)))) (\<lambda>_. act_ret None))
        else deliver_signal E SIGSYS)"

definition handle_tracee_signal :: "'w env \<Rightarrow> wait_status \<Rightarrow> ('w, u8 option) hact" where
  "handle_tracee_signal E status = (\<lambda>h.
     (case status of
        Stopped _ signal \<Rightarrow>
          (let getsig_ans = ev_getsiginfo (e_events E) (h_world h)
           in if getsig_ans = Inl 22 then act_ret None
              else if ignored_sigstop E (h_world h) signal then act_ret None
              else if signal = SIGSYS
              then (case getsig_ans of
                      Inl e \<Rightarrow> act_err (PtraceGetSigInfo2 e)
                    | Inr si_code \<Rightarrow> handle_sigsys E si_code)
              else deliver_signal E signal)
      | _ \<Rightarrow> act_err (AsyncMismatch WaitForSignal status)) h)"

definition end_yield :: "'w handler \<Rightarrow> 'w handler" where
  "end_yield h =
     (case h_yielding h of
        Some n \<Rightarrow> (case yielder_poll n (h_num_polls h) of Pending \<Rightarrow> h | Ready _ \<Rightarrow> h\<lparr>h_yielding := None\<rparr>)
      | None \<Rightarrow> h)"

definition poll_signals :: "'w env \<Rightarrow> ptrace_future_type \<times> wait_status \<Rightarrow> ('w, unit) sact" where
  "poll_signals E ev = (\<lambda>h.
     let h = end_yield h
     in if h_yielding h = None \<and> fst ev = WaitForSignal
        then act_bind (in_loop (handle_tracee_signal E (snd ev))) (\<lambda>ret. case ret of
               None \<Rightarrow> act_ret ()
             | Some code \<Rightarrow> act_err (LoopsReturn (Inr code))) h
        else (Inr (), h))"

section \<open>The loop of other events\<close>

definition prep_attach_to :: "'w env \<Rightarrow> pid \<Rightarrow> ('w handler, executor_error, unit) act" where
  "prep_attach_to E child =
     (if e_local_client E
      then act_bind (act_map_err ExecPtraceError (on_tracer (on_world (waitpid_hang E child)))) (\<lambda>status.
           if \<not> is_trace_stop status \<and> \<not> is_still_alive status
           then act_err (TransferWaitpid status)
           else act_bind (act_upd (h_ignore_sigstops_update (insert child))) (\<lambda>_.
                act_map_err TransferDetach
                  (on_tracer (on_world (ev_detach (e_events E) child (Some SIGSTOP))))))
      else act_ret ())"

definition is_fork_event :: "wait_status \<Rightarrow> bool" where
  "is_fork_event s =
     (case s of
        PtraceEvent _ _ ev \<Rightarrow> ev = PTRACE_EVENT_CLONE \<or> ev = PTRACE_EVENT_FORK \<or> ev = PTRACE_EVENT_VFORK
      | _ \<Rightarrow> False)"

definition handle_fork :: "'w env \<Rightarrow> ('w, unit) hact" where
  "handle_fork E =
     act_bind (exec (getevent E)) (\<lambda>raw_pid.
     if sint raw_pid > 0
     then let child_pid = sint (ucast raw_pid :: 32 word)
          in act_bind (act_map_err InternalExecutor (prep_attach_to E child_pid)) (\<lambda>_.
             on_tracer (on_world (act_upd (ev_spawn_handler (e_events E) child_pid))))
     else act_ret ())"

definition handle_other_event :: "'w env \<Rightarrow> wait_status \<Rightarrow> ('w, u8 option) hact" where
  "handle_other_event E status =
     (if is_fork_event status then act_bind (handle_fork E) (\<lambda>_. act_ret None)
      else case status of
        PtraceEvent _ _ ev \<Rightarrow>
          if ev = PTRACE_EVENT_EXIT
          then act_bind (exec (getevent E)) (\<lambda>rawret.
               act_bind (exec_as PtraceDetach (ev_detach (e_events E) (e_pid E) None)) (\<lambda>_.
               act_ret (Some (ucast (drop_bit 8 (ucast rawret :: 32 word))))))
          else act_ret None
      | _ \<Rightarrow> act_ret None)"

definition poll_other_events :: "'w env \<Rightarrow> ptrace_future_type \<times> wait_status \<Rightarrow> ('w, unit) sact" where
  "poll_other_events E ev =
     (if fst ev = WaitForPtraceEvent
      then act_bind (in_loop (handle_other_event E (snd ev))) (\<lambda>ret. case ret of
             None \<Rightarrow> act_ret ()
           | Some code \<Rightarrow> act_err (LoopsReturn (Inr code)))
      else act_ret ())"

section \<open>Waiting in the system-call loop\<close>

definition take_signal :: "'w handler \<Rightarrow> int option \<times> 'w handler" where
  "take_signal h = (h_signal_tracee h, h\<lparr>h_signal_tracee := None\<rparr>)"

fun await_status :: "nat \<Rightarrow> 'w env \<Rightarrow> ptrace_future_type \<Rightarrow> ('w, wait_status) sact" where
  "await_status 0 E ty = act_err OutOfFuel"
| "await_status (Suc fuel) E ty = (\<lambda>h.
     case take_signal h of (maybe_signal, h) \<Rightarrow>
     act_bind (wait_event (Suc fuel) E maybe_signal) (\<lambda>ev.
     act_bind (poll_signals E ev) (\<lambda>_.
     if fst ev = ty then act_ret (snd ev)
     else act_bind (poll_other_events E ev) (\<lambda>_. await_status fuel E ty))) h)"

definition set_resume :: "bool \<Rightarrow> ('w, unit) sact" where
  "set_resume b = act_upd (h_resume_through_syscall_update (\<lambda>_. b))"

definition set_after_entry :: "bool \<Rightarrow> ('w, unit) sact" where
  "set_after_entry b = act_upd (h_after_syscall_entry_update (\<lambda>_. b))"

abbreviation loop_err :: "sysaug_error \<Rightarrow> ('w, 'a) sact" where
  "loop_err e \<equiv> act_err (SyscallFail e)"

definition is_seccomp_event :: "wait_status \<Rightarrow> bool" where
  "is_seccomp_event s = (case s of PtraceEvent _ _ ev \<Rightarrow> ev = PTRACE_EVENT_SECCOMP | _ \<Rightarrow> False)"

definition wait_for_syscall :: "nat \<Rightarrow> 'w env \<Rightarrow> ('w, wait_status) sact" where
  "wait_for_syscall fuel E = (\<lambda>h.
     let is_legacy = h_legacy_seccomp h;
         is_seccomp_ready = h_seccomp_init_complete h;
         expects_syscall_exit = h_after_syscall_entry h;
         expects_syscall_stop = (\<not> is_seccomp_ready \<or> expects_syscall_exit);
         future_type = (if expects_syscall_stop then WaitForPtraceSyscall else WaitForPtraceSeccomp)
     in act_bind (set_after_entry False) (\<lambda>_.
        act_bind (set_resume expects_syscall_stop) (\<lambda>_.
        act_bind (await_status fuel E future_type) (\<lambda>status.
        if \<not> is_seccomp_ready
        then (if \<not> is_syscall_stop status
              then loop_err (AsyncMisMatchSyscall ''non-syscall stop while initializing seccomp'' status)
              else act_ret status)
        else if is_seccomp_event status
        then (if expects_syscall_exit
              then loop_err (AsyncMisMatchSyscall ''seccomp stop right after seccomp stop'' status)
              else act_bind (set_after_entry True) (\<lambda>_. act_ret status))
        else if is_syscall_stop status \<and> expects_syscall_exit
        then (if \<not> is_legacy then act_bind (set_after_entry False) (\<lambda>_. act_ret status)
              else act_bind (set_after_entry False) (\<lambda>_.
                   act_bind (set_resume True) (\<lambda>_.
                   act_bind (await_status fuel E WaitForPtraceSyscall) (\<lambda>status.
                   if is_syscall_stop status
                   then act_bind (set_after_entry False) (\<lambda>_. act_ret status)
                   else loop_err (AsyncMismatch WaitForPtraceSyscall status)))))
        else loop_err (AsyncMismatch WaitForPtraceSyscall status)))) h)"

definition do_resume_syscall :: "nat \<Rightarrow> 'w env \<Rightarrow> ('w, regs) sact" where
  "do_resume_syscall fuel E =
     act_bind (wait_for_syscall fuel E) (\<lambda>_. in_syscall (exec (getregs (e_kernel E))))"

definition do_skip_syscall :: "nat \<Rightarrow> 'w env \<Rightarrow> usize \<Rightarrow> ('w, unit) sact" where
  "do_skip_syscall fuel E retval =
     act_bind (in_syscall (exec (set_syscall_num (e_kernel E) (NO_MOD_SYSCALL (e_nr E))))) (\<lambda>_.
     act_bind (do_resume_syscall fuel E) (\<lambda>r.
     in_syscall (exec (setregs (e_kernel E) (set_syscall_retval r retval)))))"

end
