(* ===== verification/Syscall_Phases.thy ===== *)
theory Syscall_Phases
  imports Event_Loop Model_Host
begin

text \<open>
  The handler and the kernel stay in step.  \<open>next_stop\<close> states the order of ptrace stops that
  ptrace(2) documents for a tracee with a seccomp filter: \<open>PTRACE_CONT\<close> from user code leads to a
  seccomp stop; \<open>PTRACE_SYSCALL\<close> from there leads to the system call's exit stop, and on kernels
  before 4.8 first to its entry stop; inside a system call only events of clone, fork and exit are
  reported, and signals only outside.  \<open>phase_kernel\<close> says that a kernel follows this order, where
  \<open>ph\<close> reads the phase from the world and \<open>legacy\<close> tells the two kernel generations apart.  An
  action is \<open>quiet\<close> when it moves neither the phase nor the handler's flags about it.
\<close>

named_theorems quiet_intros \<open>actions that do not change the phase\<close>

fun next_stop :: "bool \<Rightarrow> phase \<Rightarrow> bool \<Rightarrow> wait_status \<Rightarrow> phase \<Rightarrow> bool" where
  "next_stop legacy PhUser False st p' =
     (case st of
        PtraceEvent _ _ ev \<Rightarrow> p' = (if ev = PTRACE_EVENT_SECCOMP then PhSeccomp else PhUser)
      | PtraceSyscall _ \<Rightarrow> False
      | _ \<Rightarrow> p' = PhUser)"
| "next_stop legacy PhUser True st p' = True"
| "next_stop legacy p False st p' = True"
| "next_stop legacy p True st p' =
     (case st of
        PtraceSyscall _ \<Rightarrow> p' = (if legacy \<and> p = PhSeccomp then PhEntry else PhUser)
      | PtraceEvent _ _ ev \<Rightarrow> ev \<noteq> PTRACE_EVENT_SECCOMP \<and> \<not> (legacy \<and> p = PhSeccomp) \<and> p' = PhInside
      | Stopped _ _ \<Rightarrow> False
      | _ \<Rightarrow> p' = p)"

text \<open>At a fork, vfork or clone event the event message is the pid of another process.\<close>

definition names_child :: "'w env \<Rightarrow> 'w \<Rightarrow> bool" where
  "names_child E w \<longleftrightarrow> (\<forall>raw. ev_getevent (e_events E) w = Inr raw \<longrightarrow> sint (ucast raw :: 32 word) \<noteq> e_pid E)"

definition phase_kernel :: "'w env \<Rightarrow> bool \<Rightarrow> ('w \<Rightarrow> phase) \<Rightarrow> bool" where
  "phase_kernel E legacy ph \<longleftrightarrow>
     (\<forall>thru sig w w1 st w2.
        (if thru then ev_syscall (e_events E) sig w else ev_cont (e_events E) sig w) = (Inr (), w1) \<longrightarrow>
        ev_waitpid (e_events E) (e_pid E) w1 = (Inr st, w2) \<longrightarrow>
        next_stop legacy (ph w) thru st (ph w2) \<and> (is_fork_event st \<longrightarrow> names_child E w2)) \<and>
     (\<forall>w a v w'. k_poke (e_kernel E) w a v = Inr w' \<longrightarrow> ph w' = ph w) \<and>
     (\<forall>w r w'. k_setregs (e_kernel E) w r = Inr w' \<longrightarrow> ph w' = ph w) \<and>
     (\<forall>p w. p \<noteq> e_pid E \<longrightarrow> ph (snd (ev_waitpid (e_events E) p w)) = ph w) \<and>
     (\<forall>p sig w. ph (snd (ev_detach (e_events E) p sig w)) = ph w) \<and>
     (\<forall>p w. ph (ev_spawn_handler (e_events E) p w) = ph w)"

definition sync :: "('w \<Rightarrow> phase) \<Rightarrow> 'w handler \<Rightarrow> phase \<times> bool \<times> bool \<times> bool \<times> bool" where
  "sync ph h = (ph (h_world h), h_after_syscall_entry h, h_legacy_seccomp h, h_seccomp_init_complete h,
                h_resume_through_syscall h)"

definition quiet :: "('w \<Rightarrow> phase) \<Rightarrow> ('w handler, 'e, 'a) act \<Rightarrow> bool" where
  "quiet ph m \<longleftrightarrow> (\<forall>h. sync ph (snd (m h)) = sync ph h)"

section \<open>Quiet actions\<close>

lemma quiet_run: "quiet ph m \<Longrightarrow> m h = (r, h') \<Longrightarrow> sync ph h' = sync ph h"
  by (metis quiet_def snd_conv)

lemma quiet_ret [quiet_intros]: "quiet ph (act_ret x)"
  by (simp add: quiet_def act_ret_def)

lemma quiet_err [quiet_intros]: "quiet ph (act_err e)"
  by (simp add: quiet_def act_err_def)

lemma quiet_lift [quiet_intros]: "quiet ph (act_lift r)"
  by (simp add: quiet_def act_lift_def)

lemma quiet_bind [quiet_intros]:
  "quiet ph m \<Longrightarrow> (\<And>x. quiet ph (f x)) \<Longrightarrow> quiet ph (act_bind m f)"
proof -
  assume m: "quiet ph m" and f: "\<And>x. quiet ph (f x)"
  have "sync ph (snd (act_bind m f h)) = sync ph h" for h
  proof (cases "m h")
    case (Pair r h')
    then have "sync ph h' = sync ph h" by (rule quiet_run [OF m])
    then show ?thesis using f Pair by (cases r) (simp_all add: act_bind_run quiet_def)
  qed
  then show ?thesis by (simp add: quiet_def)
qed

lemma quiet_map_err [quiet_intros]: "quiet ph m \<Longrightarrow> quiet ph (act_map_err g m)"
  unfolding quiet_def act_map_err_def by (simp add: case_prod_beta)

lemma quiet_if [quiet_intros]: "quiet ph m \<Longrightarrow> quiet ph m' \<Longrightarrow> quiet ph (if b then m else m')"
  by simp

lemma quiet_option [quiet_intros]:
  "quiet ph m \<Longrightarrow> (\<And>x. quiet ph (f x)) \<Longrightarrow> quiet ph (case v of None \<Rightarrow> m | Some x \<Rightarrow> f x)"
  by (cases v) simp_all

lemma quiet_sum [quiet_intros]:
  "(\<And>e. quiet ph (m e)) \<Longrightarrow> (\<And>x. quiet ph (f x)) \<Longrightarrow> quiet ph (case v of Inl e \<Rightarrow> m e | Inr x \<Rightarrow> f x)"
  by (cases v) simp_all

lemma quiet_state: "(\<And>h. quiet ph (f h)) \<Longrightarrow> quiet ph (\<lambda>h. f h h)"
  by (simp add: quiet_def)

lemma quiet_upd: "(\<And>h. sync ph (f h) = sync ph h) \<Longrightarrow> quiet ph (act_upd f)"
  by (simp add: quiet_def act_upd_def)

lemma quiet_in_loop [quiet_intros]: "quiet ph m \<Longrightarrow> quiet ph (in_loop m)"
  by (simp add: in_loop_def quiet_map_err)

lemma quiet_in_syscall [quiet_intros]: "quiet ph m \<Longrightarrow> quiet ph (in_syscall m)"
  by (simp add: in_syscall_def quiet_map_err)

lemma quiet_world: "(\<And>w. ph (snd (m w)) = ph w) \<Longrightarrow> quiet ph (on_tracer (on_world m))"
  by (auto simp: quiet_def sync_def on_tracer_def on_world_def split: prod.splits) (metis snd_conv)+

lemma quiet_exec: "(\<And>w. ph (snd (m w)) = ph w) \<Longrightarrow> quiet ph (exec m)"
  unfolding exec_def by (intro quiet_map_err quiet_world)

lemma quiet_exec_as: "(\<And>w. ph (snd (m w)) = ph w) \<Longrightarrow> quiet ph (exec_as f m)"
  unfolding exec_as_def by (intro quiet_map_err quiet_world)

lemma quiet_getregs [quiet_intros]: "quiet ph (exec (getregs K))"
  by (rule quiet_exec) (simp add: getregs_def)

lemma quiet_getevent [quiet_intros]: "quiet ph (exec (getevent E))"
  by (rule quiet_exec) (simp add: getevent_def)

lemma quiet_setregs [quiet_intros]: "phase_kernel E legacy ph \<Longrightarrow> quiet ph (exec (setregs (e_kernel E) r))"
  by (rule quiet_exec) (auto simp: setregs_def phase_kernel_def split: sum.splits)

lemma quiet_write [quiet_intros]: "phase_kernel E legacy ph \<Longrightarrow> quiet ph (exec (ptrace_write (e_kernel E) a v))"
  by (rule quiet_exec) (auto simp: ptrace_write_def phase_kernel_def split: sum.splits)

lemma quiet_set_syscall_num [quiet_intros]:
  "phase_kernel E legacy ph \<Longrightarrow> quiet ph (exec (set_syscall_num (e_kernel E) v))"
  by (rule quiet_exec)
    (auto simp: set_syscall_num_def getregs_def setregs_def res_simps phase_kernel_def split: sum.splits)

lemma quiet_perms_ids: "quiet ph (\<lambda>h. (r h, h\<lparr>h_perms_ids := f h\<rparr>))"
  by (simp add: quiet_def sync_def)

lemma quiet_do_sysenter_perms [quiet_intros]: "quiet ph (do_sysenter_perms E r s)"
  unfolding do_sysenter_perms_def Let_def
  by (auto simp: quiet_def sync_def act_ret_def split: option.splits prod.splits sum.splits)

lemma quiet_walk_step:
  "(\<And>i v. quiet ph (f i v)) \<Longrightarrow> quiet ph (walk_res_bits_step b f i ids)"
  unfolding walk_res_bits_step_def Let_def by (intro quiet_intros)

lemma quiet_walk [quiet_intros]: "(\<And>i v. quiet ph (f i v)) \<Longrightarrow> quiet ph (walk_res_bits b f ids)"
  unfolding walk_res_bits_def by (intro quiet_intros quiet_walk_step)

lemma quiet_do_sysexit_perms [quiet_intros]:
  assumes "phase_kernel E legacy ph"
  shows "quiet ph (do_sysexit_perms E r s)"
proof -
  have w: "quiet ph (write_retval E r v)" for v
    unfolding write_retval_def by (rule quiet_setregs [OF assms])
  have "quiet ph (write_ids E b args ids)" for b args ids
    unfolding write_ids_def
    by (intro quiet_walk quiet_option quiet_bind quiet_ret quiet_write [OF assms])
  then have "quiet ph (act_bind (write_ids E b args ids) (\<lambda>_. act_ret ()))" for b args ids
    by (intro quiet_bind quiet_ret)
  then have "quiet ph (\<lambda>h. act_bind (write_ids E b args (h_perms_ids h)) (\<lambda>_. act_ret ()) h)" for b args
    by (simp add: quiet_def)
  moreover have "quiet ph (\<lambda>h. if b < length (h_perms_ids h)
      then (case h_perms_ids h ! b of Some val \<Rightarrow> write_retval E r val h | None \<Rightarrow> act_ret () h)
      else (Inl e, h))" for b e
    unfolding quiet_def
  proof
    fix h
    show "sync ph (snd (if b < length (h_perms_ids h)
      then (case h_perms_ids h ! b of Some val \<Rightarrow> write_retval E r val h | None \<Rightarrow> act_ret () h)
      else (Inl e, h))) = sync ph h"
      using w [unfolded quiet_def] by (cases "h_perms_ids h ! b") (simp_all add: act_ret_def)
  qed
  ultimately show ?thesis
    unfolding do_sysexit_perms_def Let_def using w
    by (intro quiet_if quiet_option quiet_ret) simp_all
qed

section \<open>The loops that run in between are quiet\<close>

lemma quiet_deliver_signal: "quiet ph (deliver_signal E sig)"
  unfolding deliver_signal_def by (intro quiet_intros quiet_upd) (simp_all add: sync_def)

lemma quiet_sigsys_perms: "phase_kernel E legacy ph \<Longrightarrow> quiet ph (sigsys_perms E r)"
  unfolding sigsys_perms_def
  by (intro quiet_option quiet_if quiet_bind quiet_ret quiet_do_sysenter_perms quiet_do_sysexit_perms quiet_setregs)

lemma quiet_handle_sigsys: "phase_kernel E legacy ph \<Longrightarrow> quiet ph (handle_sigsys E code)"
  unfolding handle_sigsys_def Let_def yield_to_syscall_def
  by (intro quiet_bind quiet_getregs quiet_if quiet_ret quiet_sigsys_perms quiet_upd quiet_setregs
      quiet_deliver_signal) (simp_all add: sync_def)

lemma quiet_handle_tracee_signal:
  assumes "phase_kernel E legacy ph"
  shows "quiet ph (handle_tracee_signal E st)"
  unfolding quiet_def handle_tracee_signal_def Let_def
  using quiet_handle_sigsys [OF assms, unfolded quiet_def] quiet_deliver_signal [of ph E, unfolded quiet_def]
  by (auto simp: act_ret_def act_err_def split: wait_status.splits sum.splits)

lemma sync_end_yield [simp]: "sync ph (end_yield h) = sync ph h"
  by (simp add: end_yield_def sync_def split: option.splits poll.splits)

lemma quiet_poll_signals:
  assumes "phase_kernel E legacy ph"
  shows "quiet ph (poll_signals E ev)"
proof -
  have "quiet ph (act_bind (in_loop (handle_tracee_signal E (snd ev))) (\<lambda>ret. case ret of
      None \<Rightarrow> act_ret () | Some code \<Rightarrow> act_err (LoopsReturn (Inr code))))"
    by (intro quiet_bind quiet_in_loop quiet_option quiet_ret quiet_err
        quiet_handle_tracee_signal [OF assms])
  then show ?thesis by (simp add: quiet_def poll_signals_def Let_def)
qed

lemma sync_prep_attach:
  assumes "phase_kernel E legacy ph" "child \<noteq> e_pid E"
  shows "quiet ph (prep_attach_to E child)"
  unfolding prep_attach_to_def
  using assms
  by (intro quiet_if quiet_bind quiet_map_err quiet_world quiet_err quiet_ret quiet_upd)
    (auto simp: phase_kernel_def waitpid_hang_def act_map_err_def sync_def case_prod_beta)

lemma sync_handle_fork:
  assumes "phase_kernel E legacy ph" "names_child E (h_world h)"
  shows "sync ph (snd (handle_fork E h)) = sync ph h"
proof (cases "ev_getevent (e_events E) (h_world h)")
  case (Inl e)
  then show ?thesis
    by (simp add: handle_fork_def res_simps exec_def on_tracer_def on_world_def getevent_def sync_def)
next
  case (Inr raw)
  let ?c = "sint (ucast raw :: 32 word)"
  have run: "exec (getevent E) h = (Inr raw, h)"
    by (simp add: Inr res_simps exec_def on_tracer_def on_world_def getevent_def)
  have "?c \<noteq> e_pid E" using assms(2) Inr by (simp add: names_child_def)
  then have "quiet ph (act_bind (act_map_err InternalExecutor (prep_attach_to E ?c)) (\<lambda>_.
      on_tracer (on_world (act_upd (ev_spawn_handler (e_events E) ?c)))))"
    using assms(1)
    by (intro quiet_bind quiet_map_err sync_prep_attach [OF assms(1)] quiet_world)
      (auto simp: act_upd_def phase_kernel_def)
  then show ?thesis
    by (simp add: handle_fork_def act_bind_run run Let_def quiet_def act_ret_def)
qed

lemma sync_poll_other_events:
  assumes "phase_kernel E legacy ph" "is_fork_event (snd ev) \<longrightarrow> names_child E (h_world h)"
    and "poll_other_events E ev h = (Inr x, h')"
  shows "sync ph h' = sync ph h"
proof (cases "fst ev = WaitForPtraceEvent \<and> is_fork_event (snd ev)")
  case True
  then have "sync ph (snd (handle_fork E h)) = sync ph h" using assms sync_handle_fork by blast
  then show ?thesis
    using assms(3) True
    by (auto simp: poll_other_events_def handle_other_event_def in_loop_def res_simps
        split: prod.splits sum.splits)
next
  case False
  have "quiet ph (handle_other_event E (snd ev))" if "\<not> is_fork_event (snd ev)"
    using that assms(1) unfolding handle_other_event_def
    by (auto simp: phase_kernel_def split: wait_status.splits
        intro!: quiet_ret quiet_bind quiet_getevent quiet_exec_as)
  then have "quiet ph (poll_other_events E ev)"
    using False unfolding poll_other_events_def
    by (auto intro!: quiet_bind quiet_in_loop quiet_option quiet_ret quiet_err)
  then show ?thesis using assms(3) quiet_run by blast
qed

section \<open>Waiting\<close>

lemma unblocked_by_Some:
  assumes "unblocked_by E w st = Some ty"
  shows "(ty = WaitForSignal \<longleftrightarrow> (\<exists>p s. st = Stopped p s)) \<and>
         (ty = WaitForPtraceSeccomp \<longleftrightarrow> is_seccomp_event st) \<and>
         (ty = WaitForPtraceSyscall \<longleftrightarrow> is_syscall_stop st) \<and>
         (ty = WaitForPtraceEvent \<longleftrightarrow> (\<exists>p s ev. st = PtraceEvent p s ev \<and> ev \<noteq> PTRACE_EVENT_SECCOMP))"
  using assms
  by (cases st) (auto simp: unblocked_by_def get_tracee_maybe_signal_def is_seccomp_event_def split: if_splits)

lemma unblocked_by_None:
  "unblocked_by E w st = None \<Longrightarrow> next_stop legacy p thru st p' \<Longrightarrow> (p = PhUser \<longleftrightarrow> \<not> thru) \<Longrightarrow> p' = p"
  by (cases st; cases p; cases thru) (auto simp: unblocked_by_def get_tracee_maybe_signal_def split: if_splits)

definition in_phase :: "('w \<Rightarrow> phase) \<Rightarrow> 'w handler \<Rightarrow> bool" where
  "in_phase ph h \<longleftrightarrow> (ph (h_world h) = PhUser \<longleftrightarrow> \<not> h_resume_through_syscall h)"

definition sync_rest :: "'w handler \<Rightarrow> bool \<times> bool \<times> bool \<times> bool" where
  "sync_rest h = (h_after_syscall_entry h, h_legacy_seccomp h, h_seccomp_init_complete h, h_resume_through_syscall h)"

lemma sync_alt: "sync ph h = (ph (h_world h), sync_rest h)"
  by (simp add: sync_def sync_rest_def)

lemma wait_event_next:
  assumes "phase_kernel E legacy ph" "in_phase ph h" "wait_event fuel E sig h = (Inr (ty, st), h')"
  shows "next_stop legacy (ph (h_world h)) (h_resume_through_syscall h) st (ph (h_world h')) \<and>
         (is_fork_event st \<longrightarrow> names_child E (h_world h')) \<and>
         unblocked_by E (h_world h') st = Some ty \<and> sync_rest h' = sync_rest h"
  using assms(2,3)
proof (induction fuel arbitrary: sig h)
  case (Suc fuel)
  obtain h1 h2 st2 where r: "ptrace_request_next_syscall E sig h = (Inr (), h1)"
    "exec (waitpid_hang E (e_pid E)) h1 = (Inr st2, h2)"
    and cont: "(case unblocked_by E (h_world h2) st2 of Some ty \<Rightarrow> (Inr (ty, st2), h2)
                | None \<Rightarrow> wait_event fuel E None h2) = (Inr (ty, st), h')"
    using Suc.prems(2)
    by (auto simp: act_bind_Inr_iff act_map_err_run act_err_def split: if_splits prod.splits)
  have w: "(if h_resume_through_syscall h then ev_syscall (e_events E) sig (h_world h)
      else ev_cont (e_events E) sig (h_world h)) = (Inr (), h_world h1)"
    and rest1: "sync_rest h1 = sync_rest h"
    using r(1)
    by (auto simp: ptrace_request_next_syscall_def exec_as_def act_map_err_run on_tracer_def on_world_def
        sync_rest_def split: if_splits prod.splits)
  have w2: "ev_waitpid (e_events E) (e_pid E) (h_world h1) = (Inr st2, h_world h2)"
    and rest2: "sync_rest h2 = sync_rest h1"
    using r(2)
    by (auto simp: exec_def waitpid_hang_def act_map_err_run on_tracer_def on_world_def sync_rest_def
        split: prod.splits)
  have next2: "next_stop legacy (ph (h_world h)) (h_resume_through_syscall h) st2 (ph (h_world h2))"
    "is_fork_event st2 \<longrightarrow> names_child E (h_world h2)"
    using assms(1) w w2 unfolding phase_kernel_def by blast+
  have res: "h_resume_through_syscall h2 = h_resume_through_syscall h"
    using rest1 rest2 by (simp add: sync_rest_def)
  show ?case
  proof (cases "unblocked_by E (h_world h2) st2")
    case None
    have same: "ph (h_world h2) = ph (h_world h)"
      using unblocked_by_None [OF None next2(1)] Suc.prems(1) by (simp add: in_phase_def)
    then have "in_phase ph h2" using Suc.prems(1) res by (simp add: in_phase_def)
    from Suc.IH [OF this] show ?thesis using cont None same res rest1 rest2 by simp
  next
    case (Some ty2)
    then show ?thesis using cont next2 rest1 rest2 by simp
  qed
qed (simp add: act_err_def)

lemma await_step:
  assumes "await_status (Suc fuel) E ty h = (Inr st, h')"
  obtains ev h1 h2 where "wait_event (Suc fuel) E (h_signal_tracee h) (h\<lparr>h_signal_tracee := None\<rparr>) = (Inr ev, h1)"
    "poll_signals E ev h1 = (Inr (), h2)"
    "(fst ev = ty \<and> st = snd ev \<and> h' = h2) \<or>
     (fst ev \<noteq> ty \<and> (\<exists>h3. poll_other_events E ev h2 = (Inr (), h3) \<and> await_status fuel E ty h3 = (Inr st, h')))"
  using assms
  by (auto simp: take_signal_def act_bind_Inr_iff act_ret_def simp del: wait_event.simps split: if_splits)

lemma poll_signals_world:
  "poll_signals E ev h = (Inr x, h') \<Longrightarrow> fst ev \<noteq> WaitForSignal \<Longrightarrow> h_world h' = h_world h"
  by (auto simp: poll_signals_def Let_def end_yield_def split: option.splits poll.splits)

text \<open>One event: where the tracee is afterwards, and that handling it changed nothing of this.\<close>

lemma await_step_phase:
  assumes "phase_kernel E legacy ph" "in_phase ph h" "await_status (Suc fuel) E ty h = (Inr st, h')"
  obtains ev w h2 where
    "next_stop legacy (ph (h_world h)) (h_resume_through_syscall h) (snd ev) (ph (h_world h2))"
    "sync_rest h2 = sync_rest h" "unblocked_by E w (snd ev) = Some (fst ev)"
    "(fst ev = ty \<and> st = snd ev \<and> h' = h2) \<or>
     (fst ev \<noteq> ty \<and> (\<exists>h3. sync ph h3 = sync ph h2 \<and> await_status fuel E ty h3 = (Inr st, h')))"
proof -
  let ?h0 = "h\<lparr>h_signal_tracee := None\<rparr>"
  obtain ev h1 h2 where r: "wait_event (Suc fuel) E (h_signal_tracee h) ?h0 = (Inr ev, h1)"
    "poll_signals E ev h1 = (Inr (), h2)"
    and c: "(fst ev = ty \<and> st = snd ev \<and> h' = h2) \<or> (fst ev \<noteq> ty \<and>
      (\<exists>h3. poll_other_events E ev h2 = (Inr (), h3) \<and> await_status fuel E ty h3 = (Inr st, h')))"
    using await_step [OF assms(3)] by blast
  have "in_phase ph ?h0" using assms(2) by (simp add: in_phase_def)
  from wait_event_next [OF assms(1) this, of "Suc fuel" "h_signal_tracee h" "fst ev" "snd ev" h1]
  have n: "next_stop legacy (ph (h_world h)) (h_resume_through_syscall h) (snd ev) (ph (h_world h1))"
    "is_fork_event (snd ev) \<longrightarrow> names_child E (h_world h1)"
    "unblocked_by E (h_world h1) (snd ev) = Some (fst ev)" "sync_rest h1 = sync_rest h"
    using r(1) by (simp_all add: sync_rest_def)
  have q: "sync ph h2 = sync ph h1" using quiet_run [OF quiet_poll_signals [OF assms(1)] r(2)] .
  have "names_child E (h_world h2)" if f: "is_fork_event (snd ev)"
  proof -
    have "fst ev \<noteq> WaitForSignal"
      using f unblocked_by_Some [OF n(3)] by (auto simp: is_fork_event_def split: wait_status.splits)
    then show ?thesis using n(2) f poll_signals_world [OF r(2)] by simp
  qed
  then have "sync ph h3 = sync ph h2" if "poll_other_events E ev h2 = (Inr (), h3)" for h3
    using sync_poll_other_events [OF assms(1) _ that] by blast
  then show ?thesis using that [of ev h2 "h_world h1"] n q c by (auto simp: sync_alt)
qed

lemma await_seccomp:
  assumes "phase_kernel E legacy ph" "ph (h_world h) = PhUser" "\<not> h_resume_through_syscall h"
    and "await_status fuel E WaitForPtraceSeccomp h = (Inr st, h')"
  shows "is_seccomp_event st \<and> ph (h_world h') = PhSeccomp \<and> sync_rest h' = sync_rest h"
  using assms(2-4)
proof (induction fuel arbitrary: h)
  case (Suc fuel)
  have "in_phase ph h" using Suc.prems by (simp add: in_phase_def)
  then obtain ev w h2 where n: "next_stop legacy (ph (h_world h)) (h_resume_through_syscall h) (snd ev) (ph (h_world h2))"
    and s0:
    "sync_rest h2 = sync_rest h" "unblocked_by E w (snd ev) = Some (fst ev)"
    "(fst ev = WaitForPtraceSeccomp \<and> st = snd ev \<and> h' = h2) \<or> (fst ev \<noteq> WaitForPtraceSeccomp \<and>
      (\<exists>h3. sync ph h3 = sync ph h2 \<and> await_status fuel E WaitForPtraceSeccomp h3 = (Inr st, h')))"
    by (rule await_step_phase [OF assms(1) _ Suc.prems(3)])
  note s = n [unfolded Suc.prems(1), simplified Suc.prems(2)] s0
  note u = unblocked_by_Some [OF s(3)]
  show ?case
  proof (cases "fst ev = WaitForPtraceSeccomp")
    case True
    then have "ph (h_world h2) = PhSeccomp"
      using u s(1) by (auto simp: is_seccomp_event_def split: wait_status.splits if_splits)
    with True show ?thesis using s u by auto
  next
    case False
    then obtain h3 where h3: "sync ph h3 = sync ph h2"
      "await_status fuel E WaitForPtraceSeccomp h3 = (Inr st, h')" using s(4) by blast
    have "ph (h_world h2) = PhUser"
      using False u s(1) by (auto simp: is_seccomp_event_def split: wait_status.splits if_splits)
    then have "ph (h_world h3) = PhUser" "\<not> h_resume_through_syscall h3" "sync_rest h3 = sync_rest h"
      using h3(1) s(2) Suc.prems(2) by (auto simp: sync_alt sync_rest_def)
    then show ?thesis using Suc.IH [OF _ _ h3(2)] by simp
  qed
qed (simp add: act_err_def)

lemma await_syscall:
  assumes "phase_kernel E legacy ph" "ph (h_world h) \<noteq> PhUser" "h_resume_through_syscall h"
    and "await_status fuel E WaitForPtraceSyscall h = (Inr st, h')"
  shows "is_syscall_stop st \<and> sync_rest h' = sync_rest h \<and>
    ph (h_world h') = (if legacy \<and> ph (h_world h) = PhSeccomp then PhEntry else PhUser)"
  using assms(2-4)
proof (induction fuel arbitrary: h)
  case (Suc fuel)
  have "in_phase ph h" using Suc.prems by (simp add: in_phase_def)
  then obtain ev w h2 where n: "next_stop legacy (ph (h_world h)) (h_resume_through_syscall h) (snd ev) (ph (h_world h2))"
    and s0:
    "sync_rest h2 = sync_rest h" "unblocked_by E w (snd ev) = Some (fst ev)"
    "(fst ev = WaitForPtraceSyscall \<and> st = snd ev \<and> h' = h2) \<or> (fst ev \<noteq> WaitForPtraceSyscall \<and>
      (\<exists>h3. sync ph h3 = sync ph h2 \<and> await_status fuel E WaitForPtraceSyscall h3 = (Inr st, h')))"
    by (rule await_step_phase [OF assms(1) _ Suc.prems(3)])
  note s = n [simplified Suc.prems(2)] s0
  note u = unblocked_by_Some [OF s(3)]
  show ?case
  proof (cases "fst ev = WaitForPtraceSyscall")
    case True
    then have "ph (h_world h2) = (if legacy \<and> ph (h_world h) = PhSeccomp then PhEntry else PhUser)"
      using u s(1) Suc.prems(1) by (cases "snd ev"; cases "ph (h_world h)") auto
    with True show ?thesis using s u by auto
  next
    case False
    then obtain h3 where h3: "sync ph h3 = sync ph h2"
      "await_status fuel E WaitForPtraceSyscall h3 = (Inr st, h')" using s(4) by blast
    have "ph (h_world h2) = PhInside \<and> \<not> (legacy \<and> ph (h_world h) = PhSeccomp)"
      using False u s(1,3) Suc.prems(1)
      by (cases "snd ev"; cases "ph (h_world h)") (auto simp: unblocked_by_def get_tracee_maybe_signal_def)
    moreover from this have "ph (h_world h3) = PhInside" "h_resume_through_syscall h3" "sync_rest h3 = sync_rest h"
      using h3(1) s(2) Suc.prems(2) by (auto simp: sync_alt sync_rest_def)
    ultimately show ?thesis using Suc.IH [OF _ _ h3(2)] by auto
  qed
qed (simp add: act_err_def)

section \<open>Which errors can occur\<close>

fun is_mismatch :: "sysaug_error \<Rightarrow> bool" where
  "is_mismatch (AsyncMismatch _ _) = True"
| "is_mismatch (AsyncMisMatchSyscall _ _) = True"
| "is_mismatch _ = False"

fun stop_mismatch :: "stop \<Rightarrow> bool" where
  "stop_mismatch (LoopsReturn (Inl e)) = is_mismatch e"
| "stop_mismatch (SyscallFail e) = is_mismatch e"
| "stop_mismatch _ = False"

definition no_err :: "('e \<Rightarrow> bool) \<Rightarrow> ('s, 'e, 'a) act \<Rightarrow> bool" where
  "no_err Q m \<longleftrightarrow> (\<forall>s e s'. m s = (Inl e, s') \<longrightarrow> \<not> Q e)"

lemma no_err_ret: "no_err Q (act_ret x)"
  by (simp add: no_err_def act_ret_def)

lemma no_err_err: "\<not> Q e \<Longrightarrow> no_err Q (act_err e)"
  by (simp add: no_err_def act_err_def)

lemma no_err_upd: "no_err Q (act_upd f)"
  by (simp add: no_err_def act_upd_def)

lemma no_err_bind: "no_err Q m \<Longrightarrow> (\<And>x. no_err Q (f x)) \<Longrightarrow> no_err Q (act_bind m f)"
  by (auto simp: no_err_def act_bind_run split: prod.splits sum.splits)

lemma no_err_map_err: "no_err (\<lambda>e. Q (g e)) m \<Longrightarrow> no_err Q (act_map_err g m)"
  by (auto simp: no_err_def act_map_err_run map_err_Inl_iff split: prod.splits)

lemma no_err_if: "no_err Q m \<Longrightarrow> no_err Q m' \<Longrightarrow> no_err Q (if b then m else m')"
  by simp

lemma no_err_option:
  "no_err Q m \<Longrightarrow> (\<And>x. no_err Q (f x)) \<Longrightarrow> no_err Q (case v of None \<Rightarrow> m | Some x \<Rightarrow> f x)"
  by (cases v) simp_all

lemma no_err_all: "(\<And>e. \<not> Q e) \<Longrightarrow> no_err Q m"
  by (simp add: no_err_def)

lemma no_err_exec: "no_err is_mismatch (exec m)"
  unfolding exec_def by (rule no_err_map_err) (simp add: no_err_def)

lemma no_err_exec_as: "(\<And>e. \<not> is_mismatch (f e)) \<Longrightarrow> no_err is_mismatch (exec_as f m)"
  unfolding exec_as_def by (rule no_err_map_err) (simp add: no_err_def)

lemma no_err_in_loop: "no_err is_mismatch m \<Longrightarrow> no_err stop_mismatch (in_loop m)"
  unfolding in_loop_def by (rule no_err_map_err) simp

lemma no_err_walk:
  "(\<And>i v. no_err is_mismatch (f i v)) \<Longrightarrow> no_err is_mismatch (walk_res_bits b f ids)"
  unfolding walk_res_bits_def walk_res_bits_step_def Let_def
  by (intro no_err_bind no_err_if no_err_ret no_err_err) simp_all

lemmas no_err_rules = no_err_ret no_err_err no_err_upd no_err_bind no_err_if no_err_option no_err_exec
  no_err_in_loop no_err_walk

lemma no_err_do_sysenter_perms: "no_err is_mismatch (do_sysenter_perms E r s)"
proof -
  have "no_err is_mismatch (check_ids b args ids)" "no_err is_mismatch (store_ids E b args ids)" for b args ids
    unfolding check_ids_def store_ids_def by (rule no_err_walk, simp add: no_err_def)+
  then show ?thesis
    unfolding do_sysenter_perms_def Let_def
    unfolding no_err_def by (auto simp: act_ret_def split: option.splits prod.splits sum.splits if_splits) blast+
qed

lemma no_err_do_sysexit_perms: "no_err is_mismatch (do_sysexit_perms E r s)"
proof -
  have w: "no_err is_mismatch (write_retval E r v)" for v
    unfolding write_retval_def by (rule no_err_exec)
  have "no_err is_mismatch (write_ids E b args ids)" for b args ids
    unfolding write_ids_def by (intro no_err_rules)
  then have "no_err is_mismatch (act_bind (write_ids E b args ids) (\<lambda>_. act_ret ()))" for b args ids
    by (intro no_err_bind no_err_ret)
  then have "no_err is_mismatch (\<lambda>h. act_bind (write_ids E b args (h_perms_ids h)) (\<lambda>_. act_ret ()) h)" for b args
    by (simp add: no_err_def)
  moreover have "no_err is_mismatch (\<lambda>h. if b < length (h_perms_ids h)
      then (case h_perms_ids h ! b of Some val \<Rightarrow> write_retval E r val h | None \<Rightarrow> act_ret () h)
      else (Inl (SysaugPanic m), h))" for b m
    using w by (auto simp: no_err_def act_ret_def split: option.splits if_splits)
  ultimately show ?thesis
    unfolding do_sysexit_perms_def Let_def by (intro no_err_if no_err_option no_err_ret w) simp_all
qed

lemma no_err_handle_tracee_signal:
  "no_err is_mismatch (handle_tracee_signal E (Stopped p sig))"
proof -
  have d: "no_err is_mismatch (deliver_signal E sig)" for sig
    unfolding deliver_signal_def by (intro no_err_rules)
  have "no_err is_mismatch (sigsys_perms E r)" for r
    unfolding sigsys_perms_def
    by (intro no_err_rules no_err_do_sysenter_perms no_err_do_sysexit_perms)
  then have "no_err is_mismatch (handle_sigsys E code)" for code
    unfolding handle_sigsys_def Let_def yield_to_syscall_def by (intro no_err_rules d)
  with d show ?thesis
    by (auto simp: no_err_def handle_tracee_signal_def Let_def act_ret_def act_err_def
        split: if_splits sum.splits)
qed

lemma no_err_poll_signals:
  assumes "fst ev = WaitForSignal \<longrightarrow> (\<exists>p s. snd ev = Stopped p s)"
  shows "no_err stop_mismatch (poll_signals E ev)"
proof -
  have "no_err stop_mismatch (act_bind (in_loop (handle_tracee_signal E (snd ev))) (\<lambda>ret. case ret of
      None \<Rightarrow> act_ret () | Some code \<Rightarrow> act_err (LoopsReturn (Inr code))))" if "fst ev = WaitForSignal"
    using that assms
    by (auto intro!: no_err_bind no_err_in_loop no_err_handle_tracee_signal no_err_option no_err_ret no_err_err)
  then show ?thesis by (auto simp: no_err_def poll_signals_def Let_def)
qed

lemma no_err_poll_other_events: "no_err stop_mismatch (poll_other_events E ev)"
proof -
  have "no_err is_mismatch (act_map_err InternalExecutor (prep_attach_to E c))" for c
    by (rule no_err_map_err) (simp add: no_err_def)
  moreover have "no_err is_mismatch (on_tracer (on_world (act_upd f)))" for f
    by (simp add: no_err_def act_upd_def on_tracer_def on_world_def)
  ultimately have "no_err is_mismatch (handle_fork E)"
    unfolding handle_fork_def Let_def by (intro no_err_rules)
  then have "no_err is_mismatch (handle_other_event E st)" for st
    unfolding handle_other_event_def
    by (auto intro!: no_err_rules no_err_exec_as split: wait_status.splits)
  then show ?thesis unfolding poll_other_events_def by (intro no_err_rules) simp_all
qed

lemma no_err_wait_event: "no_err stop_mismatch (wait_event fuel E sig)"
proof (induction fuel arbitrary: sig)
  case (Suc fuel)
  have f: "no_err stop_mismatch (act_map_err EventLoopFail m)" for m :: "('a, 'b) hact"
    by (rule no_err_map_err) (simp add: no_err_def)
  have "no_err stop_mismatch (\<lambda>h. case unblocked_by E (h_world h) st of
      Some ty \<Rightarrow> (Inr (ty, st), h) | None \<Rightarrow> wait_event fuel E None h)" for st
    using Suc by (auto simp: no_err_def split: option.splits)
  then show ?case
    unfolding wait_event.simps
    by (intro no_err_bind no_err_if no_err_err f no_err_map_err) (simp_all add: no_err_def)
qed (simp add: no_err_def act_err_def)

lemma wait_event_unblocked:
  "wait_event fuel E sig h = (Inr ev, h') \<Longrightarrow> unblocked_by E (h_world h') (snd ev) = Some (fst ev)"
proof (induction fuel arbitrary: sig h)
  case (Suc fuel)
  then show ?case
    by (auto simp: act_bind_Inr_iff act_err_def split: if_splits option.splits)
qed (simp add: act_err_def)

lemma no_err_await: "no_err stop_mismatch (await_status fuel E ty)"
proof (induction fuel)
  case (Suc fuel)
  have "\<not> stop_mismatch e" if a: "await_status (Suc fuel) E ty h = (Inl e, h')" for h e h'
  proof (cases "wait_event (Suc fuel) E (h_signal_tracee h) (h\<lparr>h_signal_tracee := None\<rparr>)")
    case (Pair r h1)
    show ?thesis
    proof (cases r)
      case (Inl e1)
      then have "e = e1" using a Pair
        by (simp add: take_signal_def act_bind_run del: wait_event.simps)
      then show ?thesis using no_err_wait_event Pair Inl unfolding no_err_def by blast
    next
      case (Inr ev)
      have "no_err stop_mismatch (act_bind (poll_signals E ev) (\<lambda>_.
          if fst ev = ty then act_ret (snd ev)
          else act_bind (poll_other_events E ev) (\<lambda>_. await_status fuel E ty)))"
        using Suc unblocked_by_Some [OF wait_event_unblocked] Pair Inr
        by (intro no_err_bind no_err_poll_signals no_err_if no_err_ret no_err_poll_other_events) blast+
      then show ?thesis using a Pair Inr
        by (auto simp: no_err_def take_signal_def act_bind_run [of "wait_event _ _ _"] simp del: wait_event.simps)
    qed
  qed
  then show ?case by (simp add: no_err_def del: await_status.simps)
qed (simp add: no_err_def act_err_def)

section \<open>Every wait ends at the stop it asks for\<close>

lemma stop_exclusive: "is_syscall_stop st \<Longrightarrow> \<not> is_seccomp_event st"
  by (cases st) (auto simp: is_seccomp_event_def)

text \<open>The handler and the kernel are in step: the handler expects an exit exactly at a seccomp stop.\<close>

definition in_step :: "('w \<Rightarrow> phase) \<Rightarrow> 'w handler \<Rightarrow> bool" where
  "in_step ph h \<longleftrightarrow> h_seccomp_init_complete h \<and>
     ph (h_world h) = (if h_after_syscall_entry h then PhSeccomp else PhUser)"

definition toggled :: "('w \<Rightarrow> phase) \<Rightarrow> 'w handler \<Rightarrow> wait_status \<Rightarrow> 'w handler \<Rightarrow> bool" where
  "toggled ph h st h' \<longleftrightarrow> in_step ph h' \<and> h_legacy_seccomp h' = h_legacy_seccomp h \<and>
     h_after_syscall_entry h' = (\<not> h_after_syscall_entry h) \<and>
     (if h_after_syscall_entry h then is_syscall_stop st else is_seccomp_event st)"

lemma wait_for_entry:
  assumes "phase_kernel E legacy ph" "in_step ph h" "\<not> h_after_syscall_entry h"
  shows "case wait_for_syscall fuel E h of
      (Inr st, h') \<Rightarrow> toggled ph h st h' | (Inl e, _) \<Rightarrow> \<not> stop_mismatch e"
proof -
  let ?h = "h\<lparr>h_after_syscall_entry := False, h_resume_through_syscall := False\<rparr>"
  have i: "h_seccomp_init_complete h" "ph (h_world h) = PhUser" using assms(2,3) by (auto simp: in_step_def)
  have run: "wait_for_syscall fuel E h = (case await_status fuel E WaitForPtraceSeccomp ?h of
      (Inl e, h') \<Rightarrow> (Inl e, h')
    | (Inr st, h') \<Rightarrow> if is_seccomp_event st then (Inr st, h'\<lparr>h_after_syscall_entry := True\<rparr>)
        else (Inl (SyscallFail (AsyncMismatch WaitForPtraceSyscall st)), h'))"
    using i(1) assms(3)
    by (simp add: wait_for_syscall_def Let_def set_after_entry_def set_resume_def res_simps
        split: prod.splits sum.splits)
  show ?thesis
  proof (cases "await_status fuel E WaitForPtraceSeccomp ?h")
    case (Pair r h')
    show ?thesis
    proof (cases r)
      case (Inl e)
      then show ?thesis using run Pair no_err_await unfolding no_err_def by fastforce
    next
      case (Inr st)
      have "is_seccomp_event st \<and> ph (h_world h') = PhSeccomp \<and> sync_rest h' = sync_rest ?h"
        using await_seccomp [OF assms(1), of ?h fuel st h'] Pair Inr i(2) by simp
      then show ?thesis using run Pair Inr i(1) assms(3)
        by (simp add: toggled_def in_step_def sync_rest_def)
    qed
  qed
qed

lemma wait_for_exit:
  assumes "phase_kernel E (h_legacy_seccomp h) ph" "in_step ph h" "h_after_syscall_entry h"
  shows "case wait_for_syscall fuel E h of
      (Inr st, h') \<Rightarrow> toggled ph h st h' | (Inl e, _) \<Rightarrow> \<not> stop_mismatch e"
proof -
  let ?h = "h\<lparr>h_after_syscall_entry := False, h_resume_through_syscall := True\<rparr>"
  let ?again = "\<lambda>h'. case await_status fuel E WaitForPtraceSyscall
      (h'\<lparr>h_after_syscall_entry := False, h_resume_through_syscall := True\<rparr>) of
      (Inl e, h'') \<Rightarrow> (Inl e, h'')
    | (Inr st, h'') \<Rightarrow> if is_syscall_stop st then (Inr st, h''\<lparr>h_after_syscall_entry := False\<rparr>)
        else (Inl (SyscallFail (AsyncMismatch WaitForPtraceSyscall st)), h'')"
  have i: "h_seccomp_init_complete h" "ph (h_world h) = PhSeccomp" using assms(2,3) by (auto simp: in_step_def)
  have no_err: "\<not> stop_mismatch e" if "await_status fuel E ty g = (Inl e, g')" for ty g e g'
    using no_err_await that unfolding no_err_def by blast
  show ?thesis
  proof (cases "await_status fuel E WaitForPtraceSyscall ?h")
    case (Pair r h')
    show ?thesis
    proof (cases r)
      case (Inl e)
      then have "wait_for_syscall fuel E h = (Inl e, h')"
        using Pair i(1) assms(3)
        by (simp add: wait_for_syscall_def Let_def set_after_entry_def set_resume_def res_simps)
      then show ?thesis using no_err Pair Inl by auto
    next
      case (Inr st)
      have s: "is_syscall_stop st" "sync_rest h' = sync_rest ?h"
        "ph (h_world h') = (if h_legacy_seccomp h then PhEntry else PhUser)"
        using await_syscall [OF assms(1), of ?h fuel st h'] Pair Inr i(2) by simp_all
      have run: "wait_for_syscall fuel E h =
          (if h_legacy_seccomp h then ?again h' else (Inr st, h'\<lparr>h_after_syscall_entry := False\<rparr>))"
        using Pair Inr i(1) assms(3) s(1) stop_exclusive [OF s(1)]
        by (simp add: wait_for_syscall_def Let_def set_after_entry_def set_resume_def res_simps
            split: prod.splits sum.splits)
      show ?thesis
      proof (cases "h_legacy_seccomp h")
        case False
        then show ?thesis using run s i(1) assms(3) by (simp add: toggled_def in_step_def sync_rest_def)
      next
        case True
        let ?h2 = "h'\<lparr>h_after_syscall_entry := False, h_resume_through_syscall := True\<rparr>"
        show ?thesis
        proof (cases "await_status fuel E WaitForPtraceSyscall ?h2")
          case p2: (Pair r2 h'')
          show ?thesis
          proof (cases r2)
            case (Inl e)
            then show ?thesis using run True p2 no_err by auto
          next
            case (Inr st2)
            have "is_syscall_stop st2 \<and> sync_rest h'' = sync_rest ?h2 \<and> ph (h_world h'') = PhUser"
              using await_syscall [OF assms(1), of ?h2 fuel st2 h''] p2 Inr s(3) True by simp
            then show ?thesis using run True p2 Inr s i(1) assms(3)
              by (simp add: toggled_def in_step_def sync_rest_def)
          qed
        qed
      qed
    qed
  qed
qed

text \<open>C1: the handler never loses track of system calls.  On a kernel that stops in the documented
  order, old or new, every wait that starts in step with the kernel either ends at the stop it
  asks for (the seccomp stop that begins a call when the handler is outside one, the exit stop
  that ends it when it is inside), again in step with the kernel, or ends with an error or with
  the tracee, and never with one of the errors about an unexpected stop, whatever signals and
  clone, fork and exit events arrive in between.\<close>

theorem wait_for_syscall_in_step:
  assumes "phase_kernel E (h_legacy_seccomp h) ph" "in_step ph h"
  shows "case wait_for_syscall fuel E h of
      (Inr st, h') \<Rightarrow> toggled ph h st h' | (Inl e, _) \<Rightarrow> \<not> stop_mismatch e"
  using wait_for_entry [OF assms] wait_for_exit [OF assms] by (cases "h_after_syscall_entry h") auto

lemma model_waitpid_next:
  assumes "model_waitpid legacy 100 w = (Inr st, w2)"
  shows "next_stop legacy (d_phase w) (d_thru w) st (d_phase w2)" "\<not> is_fork_event st"
proof -
  have fork: "\<not> is_fork_event (fst (model_stop p t l))" for p t l
    by (cases p; cases t) (simp_all add: is_fork_event_def PTRACE_EVENT_SECCOMP_def PTRACE_EVENT_CLONE_def
        PTRACE_EVENT_FORK_def PTRACE_EVENT_VFORK_def)
  have stop: "next_stop l p t (fst (model_stop p t l)) (snd (model_stop p t l))" for p t l
    by (cases p; cases t) simp_all
  consider (sig) "d_phase w = PhUser" "\<not> d_thru w" "st = Stopped 100 10" "d_phase w2 = PhUser"
    | (other) "st = fst (model_stop (d_phase w) (d_thru w) legacy)"
        "d_phase w2 = snd (model_stop (d_phase w) (d_thru w) legacy)"
    using assms by (auto simp: model_waitpid_def case_prod_beta split: if_splits)
  then have "next_stop legacy (d_phase w) (d_thru w) st (d_phase w2) \<and> \<not> is_fork_event st"
  proof cases
    case sig
    then show ?thesis by (simp add: is_fork_event_def)
  next
    case other
    then show ?thesis using stop fork by simp
  qed
  then show "next_stop legacy (d_phase w) (d_thru w) st (d_phase w2)" "\<not> is_fork_event st" by blast+
qed

lemma model_phase_kernel: "phase_kernel (model_env_of legacy) legacy d_phase"
  unfolding phase_kernel_def model_env_simps
proof (intro conjI allI impI)
  fix thru sig w w1 st w2
  assume "(if thru then ev_syscall (model_events legacy) sig w else ev_cont (model_events legacy) sig w) = (Inr (), w1)"
  then have w1: "w1 = w\<lparr>d_thru := thru\<rparr>" by (auto simp: model_events_def act_upd_def split: if_splits)
  assume "ev_waitpid (model_events legacy) 100 w1 = (Inr st, w2)"
  then have "model_waitpid legacy 100 w1 = (Inr st, w2)" by (simp add: model_events_def)
  from model_waitpid_next [OF this] show "next_stop legacy (d_phase w) thru st (d_phase w2)"
    and "is_fork_event st \<Longrightarrow> names_child (model_env_of legacy) w2"
    by (simp_all add: w1)
next
  fix p :: int and w assume "p \<noteq> 100"
  then show "d_phase (snd (ev_waitpid (model_events legacy) p w)) = d_phase w"
    by (simp add: model_events_def model_waitpid_def)
qed (auto simp: model_kernel_def model_events_def act_ret_def)

text \<open>The witness: a signal arrives before the system call, on an old kernel; the first wait ends at
  the seccomp stop and the second at the exit stop.\<close>

definition traced_handler :: "bool \<Rightarrow> model handler" where
  "traced_handler legacy = (model_handler model_world)\<lparr>h_legacy_seccomp := legacy, h_seccomp_init_complete := True\<rparr>"

theorem wait_for_syscall_in_step_witness:
  "(case wait_for_syscall 5 (model_env_of True) (traced_handler True) of
      (Inr st, h') \<Rightarrow> toggled d_phase (traced_handler True) st h' | (Inl e, _) \<Rightarrow> \<not> stop_mismatch e) \<and>
   fst (wait_for_syscall 5 (model_env_of True) (traced_handler True)) =
     Inr (PtraceEvent 100 5 PTRACE_EVENT_SECCOMP)"
proof
  have "phase_kernel (model_env_of True) (h_legacy_seccomp (traced_handler True)) d_phase"
    using model_phase_kernel by (simp add: traced_handler_def)
  moreover have "in_step d_phase (traced_handler True)" by code_simp
  ultimately show "case wait_for_syscall 5 (model_env_of True) (traced_handler True) of
      (Inr st, h') \<Rightarrow> toggled d_phase (traced_handler True) st h' | (Inl e, _) \<Rightarrow> \<not> stop_mismatch e"
    by (rule wait_for_syscall_in_step)
  show "fst (wait_for_syscall 5 (model_env_of True) (traced_handler True)) =
     Inr (PtraceEvent 100 5 PTRACE_EVENT_SECCOMP)"
    by code_simp
qed

end
