(* ===== verification/Rootfs_Paths.thy ===== *)
theory Rootfs_Paths
  imports Handler_State
begin

text \<open>
  Paths and metadata of the emulated root file system (\<open>src/sysaug/src/aug_common.rs\<close>, with
  \<open>src/procfs/src/pids.rs\<close>): where the metadata of a host file is kept, reading, updating and
  deleting it, the translation of a guest path to the host path below the chroot, and the
  following of symbolic links whose targets are guest paths.  Reads of the host are functions
  of the world; updates are actions on it.

  \<open>calc_real_path_recurse\<close> calls itself for every link it follows.  The depth of calls the
  tracer's stack allows is a parameter; a deeper recursion aborts, which is the error
  \<open>stack_overflow\<close>.  \<open>calc_real_path_returns\<close> shows that a depth above the number of
  symbolic links of the host is never exceeded.
\<close>

type_synonym ('w, 'a) wact = "('w, sysaug_error, 'a) act"

definition on_host :: "('w, 'a) wact \<Rightarrow> ('w, 'a) hact" where
  "on_host m = on_tracer (on_world m)"

definition act_ignore :: "('s, 'e, 'a) act \<Rightarrow> ('s, 'f, unit) act" where
  "act_ignore m = (\<lambda>s. case m s of (_, s') \<Rightarrow> (Inr (), s'))"

definition act_look :: "('s \<Rightarrow> 'e + 'a) \<Rightarrow> ('s, 'e, 'a) act" where
  "act_look f = (\<lambda>s. (f s, s))"

definition stack_overflow :: sysaug_error where "stack_overflow = SysaugPanic ''stack overflow''"

section \<open>Decimal numbers and \<open>/proc\<close> (\<open>pids.rs\<close>)\<close>

fun show_nat :: "nat \<Rightarrow> string" where
  "show_nat n = (if n < 10 then [] else show_nat (n div 10)) @ [char_of (48 + n mod 10)]"

declare show_nat.simps [simp del]

definition show_int :: "int \<Rightarrow> string" where
  "show_int i = (if i < 0 then CHR ''-'' # show_nat (nat (- i)) else show_nat (nat i))"

definition pid_path :: "pid \<Rightarrow> path" where
  "pid_path pid = path_join (path_join [] ''/proc'') (show_int pid)"

definition getcwd :: "'w host \<Rightarrow> pid \<Rightarrow> 'w \<Rightarrow> procfs_error + path" where
  "getcwd H pid w = map_err ProcfsIO (ho_read_link H w (path_join (pid_path pid) ''cwd''))"

definition getfd_path :: "'w host \<Rightarrow> pid \<Rightarrow> int \<Rightarrow> 'w \<Rightarrow> procfs_error + path option" where
  "getfd_path H pid fd w =
     (case ho_read_link H w (path_join (path_join (pid_path pid) ''fd'') (show_int fd)) of
        Inr ans \<Rightarrow> Inr (Some ans)
      | Inl e \<Rightarrow> if e = 2 then Inr None else Inl (ProcfsIO e))"

section \<open>Where metadata is kept\<close>

definition path_exists :: "'w host \<Rightarrow> 'w \<Rightarrow> path \<Rightarrow> bool" where
  "path_exists H w p = (ho_exists H w p = Inr True)"

definition get_metadata_dir :: "'w env \<Rightarrow> sysaug_error + path option" where
  "get_metadata_dir E =
     (case a_rootfs (e_args E) of
        None \<Rightarrow> Inr None
      | Some rootfs \<Rightarrow>
          if path_eq rootfs ''/'' then Inr None
          else case file_name rootfs of
                 None \<Rightarrow> Inl (SysaugPanic ''unwrap on None'')
               | Some metaname \<Rightarrow> Inr (Some (with_file_name rootfs (metaname @ ''.metadata''))))"

definition read_symlink :: "'w env \<Rightarrow> 'w \<Rightarrow> path \<Rightarrow> sysaug_error + path option" where
  "read_symlink E w p =
     (case ho_is_symlink (e_host E) w p of
        Inl _ \<Rightarrow> Inr None
      | Inr False \<Rightarrow> Inr None
      | Inr True \<Rightarrow>
          res_bind (map_err ReadSymlink (ho_read_link (e_host E) w p)) (\<lambda>link.
            if \<not> is_absolute link then Inr None else Inr (Some link)))"

fun push_children :: "path \<Rightarrow> component list \<Rightarrow> path option" where
  "push_children metadir [] = Some metadir"
| "push_children metadir (c # cs) =
     (case c of
        CurDir \<Rightarrow> push_children metadir cs
      | RootDir \<Rightarrow> push_children metadir cs
      | Normal part \<Rightarrow> push_children (path_join (path_join metadir part) ''chld'') cs
      | ParentDir \<Rightarrow> None)"

definition rootfs_meta_path :: "path \<Rightarrow> path \<Rightarrow> path \<Rightarrow> path option" where
  "rootfs_meta_path metadir rootfs canonical_path =
     (case strip_prefix canonical_path rootfs of
        None \<Rightarrow> None
      | Some relative_path \<Rightarrow>
          map_option (\<lambda>d. path_join (path_pop d) ''meta'')
            (push_children (path_join (path_join metadir ''rootfs'') ''chld'')
              (components relative_path)))"

definition resolve_metadata_path :: "'w env \<Rightarrow> 'w \<Rightarrow> path \<Rightarrow> sysaug_error + path option" where
  "resolve_metadata_path E w path =
     res_bind (get_metadata_dir E) (\<lambda>dir. case dir of
       None \<Rightarrow> Inr None
     | Some metadir \<Rightarrow>
         if \<not> path_exists (e_host E) w path then Inr None
         else case ho_canonicalize (e_host E) w path of
           Inl _ \<Rightarrow> Inr None
         | Inr canonical_path \<Rightarrow>
             let case2 = (case a_rootfs (e_args E) of
                   None \<Rightarrow> Inl (SysaugPanic ''unwrap on None'')
                 | Some rootfs \<Rightarrow> Inr (rootfs_meta_path metadir rootfs canonical_path))
             in if strip_prefix canonical_path metadir \<noteq> None
                then res_bind (read_symlink E w path) (\<lambda>one_link.
                  if (case one_link of Some l \<Rightarrow> path_eq l canonical_path | None \<Rightarrow> False) \<or>
                     path_eq path canonical_path
                  then (case file_name canonical_path of
                          None \<Rightarrow> Inr None
                        | Some basename \<Rightarrow> Inr (Some (with_file_name canonical_path (basename @ ''.json''))))
                  else case2)
                else case2)"

definition get_metadata_path :: "'w env \<Rightarrow> 'w \<Rightarrow> path \<Rightarrow> sysaug_error + path option" where
  "get_metadata_path E w path =
     (if a_rootfs (e_args E) = None then Inr None else resolve_metadata_path E w path)"

section \<open>Reading, updating and deleting metadata\<close>

definition save_metadata_for_file ::
  "'w env \<Rightarrow> path \<Rightarrow> (rootfs_metadata \<Rightarrow> 't \<times> rootfs_metadata) \<Rightarrow> ('w, 't option) wact" where
  "save_metadata_for_file E path update_fn =
     (if a_rootfs (e_args E) = None then act_ret None
      else act_bind (act_look (\<lambda>w. get_metadata_path E w path)) (\<lambda>mp. case mp of
        None \<Rightarrow> act_ret None
      | Some meta_path \<Rightarrow>
          act_bind (act_look (\<lambda>w. map_err CheckRootFsMetadata (ho_exists (e_host E) w meta_path))) (\<lambda>ex.
          case path_parent meta_path of
            None \<Rightarrow> act_err (SysaugPanic ''unwrap on None'')
          | Some metadir \<Rightarrow>
          act_bind (act_ignore (ho_create_dir_all (e_host E) metadir)) (\<lambda>_.
          act_bind (act_map_err WriteMetadata (ho_open_create (e_host E) meta_path)) (\<lambda>_.
          act_bind (act_map_err (\<lambda>_. LockRootFsMetadata) (ho_flock (e_host E) meta_path)) (\<lambda>_.
          act_bind (if \<not> ex then act_ret rootfs_metadata_default
                    else act_look (\<lambda>w. map_err ParseRootFsMetadata (ho_from_json (e_host E) w meta_path)))
            (\<lambda>curr_data. case update_fn curr_data of (t, new_data) \<Rightarrow>
          act_bind (if ex then act_map_err WriteRootFsMetadata (ho_truncate (e_host E) meta_path)
                    else act_ret ()) (\<lambda>_.
          act_bind (act_map_err WriteRootFsMetadata2 (ho_to_json (e_host E) meta_path new_data)) (\<lambda>_.
          act_ret (Some t))))))))))"

definition read_metadata_for_file :: "'w env \<Rightarrow> 'w \<Rightarrow> path \<Rightarrow> sysaug_error + rootfs_metadata option" where
  "read_metadata_for_file E w path =
     (if a_rootfs (e_args E) = None then Inr None
      else res_bind (get_metadata_path E w path) (\<lambda>mp. case mp of
        None \<Rightarrow> Inr None
      | Some meta_path \<Rightarrow>
          res_bind (map_err CheckRootFsMetadata (ho_exists (e_host E) w meta_path)) (\<lambda>ex.
          if \<not> ex then Inr None
          else res_bind (map_err WriteMetadata (ho_open_read (e_host E) w meta_path)) (\<lambda>_.
               map_err ParseRootFsMetadata (map_sum id Some (ho_from_json (e_host E) w meta_path))))))"

definition release_link :: "rootfs_metadata \<Rightarrow> bool \<times> rootfs_metadata" where
  "release_link x =
     (case m_hardlink_counter x of
        Some val \<Rightarrow> if val > 1 then (True, x\<lparr>m_hardlink_counter := Some (val - 1)\<rparr>) else (False, x)
      | None \<Rightarrow> (False, x))"

definition delete_dir_metadata :: "'w env \<Rightarrow> path \<Rightarrow> ('w, unit) wact" where
  "delete_dir_metadata E path = (\<lambda>w.
     (if ho_is_dir (e_host E) w path
      then act_bind (act_look (\<lambda>w. get_metadata_path E w path)) (\<lambda>mp. case mp of
             None \<Rightarrow> act_ret ()
           | Some meta_path \<Rightarrow> act_ignore (ho_remove_dir_all (e_host E) (path_pop meta_path)))
      else act_ret ()) w)"

definition delete_metadata_for_file :: "'w env \<Rightarrow> path \<Rightarrow> ('w, unit) wact" where
  "delete_metadata_for_file E path =
     (if a_rootfs (e_args E) = None then act_ret ()
      else act_bind (act_look (\<lambda>w. get_metadata_path E w path)) (\<lambda>mp. case mp of
        None \<Rightarrow> delete_dir_metadata E path
      | Some meta_path \<Rightarrow>
          act_bind (save_metadata_for_file E path release_link) (\<lambda>should_keep.
          if should_keep = Some True then act_ret ()
          else
            act_bind (\<lambda>w. (case ho_canonicalize (e_host E) w path of
                         Inr p \<Rightarrow> act_ignore (ho_remove_file (e_host E) p)
                       | Inl _ \<Rightarrow> act_ret ()) w) (\<lambda>_.
            act_bind (act_get (\<lambda>w. path_exists (e_host E) w meta_path)) (\<lambda>ex.
            if \<not> ex then act_ret ()
            else act_bind (act_ignore (ho_remove_file (e_host E) meta_path)) (\<lambda>_.
                 delete_dir_metadata E path))))))"

section \<open>From guest paths to host paths\<close>

text \<open>\<open>get_mod_path\<close>: the first rename rule whose pattern matches decides.\<close>

definition get_mod_path :: "'w env \<Rightarrow> path \<Rightarrow> path_action \<Rightarrow> bool \<Rightarrow> path_action" where
  "get_mod_path E orig_path initial_override is_reverse =
     (let bytes_str = (case initial_override of Override p \<Rightarrow> p | _ \<Rightarrow> orig_path);
          rename_map = (if is_reverse then rf_rename_guest_paths (c_rootfs (e_config E))
                        else rf_rename_host_paths (c_rootfs (e_config E)))
      in case find (\<lambda>c. ho_regex_match (e_host E) (rc_regex c) bytes_str) rename_map of
           None \<Rightarrow> initial_override
         | Some c \<Rightarrow>
             (case rc_replacement c of
                None \<Rightarrow> HidePath
              | Some r \<Rightarrow>
                  Override ((if rc_should_replace_all c then ho_regex_replace_all (e_host E)
                             else ho_regex_replace (e_host E)) (rc_regex c) bytes_str r)))"

definition is_excluded :: "'w handler \<Rightarrow> path \<Rightarrow> bool" where
  "is_excluded h p = list_ex (\<lambda>x. starts_with p x) (h_path_prefix_excludes h)"

definition calc_real_path_simple :: "'w env \<Rightarrow> 'w handler \<Rightarrow> path \<Rightarrow> sysaug_error + path_action" where
  "calc_real_path_simple E h orig_path =
     (if \<not> is_excluded h orig_path
      then case h_path_prefix h of
             None \<Rightarrow> Inr (get_mod_path E orig_path NoAction False)
           | Some pre \<Rightarrow>
               if is_absolute orig_path
               then case strip_prefix orig_path ''/'' of
                      None \<Rightarrow> Inl (SysaugPanic ''unwrap on Err'')
                    | Some rel \<Rightarrow> Inr (get_mod_path E orig_path (Override (path_join pre rel)) False)
               else Inr (get_mod_path E orig_path NoAction False)
      else Inr (get_mod_path E orig_path NoAction False))"

section \<open>Following symbolic links\<close>

function str_replace :: "string \<Rightarrow> string \<Rightarrow> string \<Rightarrow> string" where
  "str_replace pat new s =
     (if s = [] then []
      else if pat \<noteq> [] \<and> prefix pat s then new @ str_replace pat new (drop (length pat) s)
      else hd s # str_replace pat new (tl s))"
  by pat_completeness auto
termination
  by (relation "measure (\<lambda>(_, _, s). length s)") (auto simp: prefix_def)

declare str_replace.simps [simp del]

fun str_contains :: "string \<Rightarrow> string \<Rightarrow> bool" where
  "str_contains pat [] = (pat = [])"
| "str_contains pat (c # cs) = (prefix pat (c # cs) \<or> str_contains pat cs)"

text \<open>UTF-8 validity of a byte string, as \<open>OsString::into_string\<close> checks it.\<close>

abbreviation utf8_cont :: "nat \<Rightarrow> bool" where "utf8_cont b \<equiv> 128 \<le> b \<and> b < 192"

fun utf8_bytes :: "nat list \<Rightarrow> bool" where
  "utf8_bytes [] = True"
| "utf8_bytes (b # bs) =
     (if b < 128 then utf8_bytes bs
      else case bs of
        [] \<Rightarrow> False
      | c # cs \<Rightarrow>
          if 194 \<le> b \<and> b < 224 then utf8_cont c \<and> utf8_bytes cs
          else case cs of
            [] \<Rightarrow> False
          | d # ds \<Rightarrow>
              if 224 \<le> b \<and> b < 240
              then utf8_cont c \<and> (b = 224 \<longrightarrow> 160 \<le> c) \<and> (b = 237 \<longrightarrow> c < 160) \<and> utf8_cont d \<and> utf8_bytes ds
              else case ds of
                [] \<Rightarrow> False
              | e # es \<Rightarrow>
                  240 \<le> b \<and> b < 245 \<and> utf8_cont c \<and> (b = 240 \<longrightarrow> 144 \<le> c) \<and> (b = 244 \<longrightarrow> c < 144) \<and>
                  utf8_cont d \<and> utf8_cont e \<and> utf8_bytes es)"

definition utf8_valid :: "string \<Rightarrow> bool" where
  "utf8_valid s = utf8_bytes (map of_char s)"

lemma show_nat_chars: "c \<in> set (show_nat n) \<Longrightarrow> c \<noteq> sep \<and> c \<noteq> CHR ''s'' \<and> c \<noteq> CHR ''p''"
proof (induction n rule: show_nat.induct)
  case (1 n)
  have "of_char (char_of (48 + n mod 10) :: char) = (48 + n mod 10 :: nat)" by simp
  moreover have "n mod 10 < 10" by simp
  ultimately have "char_of (48 + n mod 10) \<noteq> sep \<and> char_of (48 + n mod 10) \<noteq> CHR ''s'' \<and>
      char_of (48 + n mod 10) \<noteq> CHR ''p''"
    by (auto simp flip: of_char_eq_iff [where 'a = nat] simp del: of_char_eq_iff)
  with 1 show ?case by (subst (asm) show_nat.simps) (auto split: if_splits)
qed

lemma show_int_chars:
  "c \<in> set (show_int i) \<Longrightarrow> c \<noteq> sep \<and> c \<noteq> CHR ''s'' \<and> c \<noteq> CHR ''p''"
  by (auto simp: show_int_def show_nat_chars split: if_splits dest: show_nat_chars)

lemma show_nat_nonempty [simp]: "show_nat n \<noteq> []"
  by (subst show_nat.simps) simp

lemma show_int_nonempty [simp]: "show_int i \<noteq> []"
  by (simp add: show_int_def)

text \<open>One pass of \<open>str::replace\<close> leaves no occurrence of \<open>/proc/self\<close> behind.\<close>

abbreviation proc_self :: string where "proc_self \<equiv> ''/proc/self''"

definition to_proc_pid :: "pid \<Rightarrow> path \<Rightarrow> path" where
  "to_proc_pid pid p = str_replace proc_self (''/proc/'' @ show_int pid) p"

lemma to_proc_pid_Nil [simp]: "to_proc_pid pid [] = []"
  by (simp add: to_proc_pid_def str_replace.simps)

lemma to_proc_pid_self:
  "to_proc_pid pid (proc_self @ p) = ''/proc/'' @ show_int pid @ to_proc_pid pid p"
  unfolding to_proc_pid_def by (subst str_replace.simps) simp

lemma to_proc_pid_Cons:
  "\<not> prefix proc_self (c # p) \<Longrightarrow> to_proc_pid pid (c # p) = c # to_proc_pid pid p"
  unfolding to_proc_pid_def by (subst str_replace.simps) (simp del: Cons_prefix_Cons)

lemma to_proc_pid_cases:
  obtains (nil) "p = []" "to_proc_pid pid p = []"
  | (self) q where "p = proc_self @ q" "to_proc_pid pid p = ''/proc/'' @ show_int pid @ to_proc_pid pid q"
  | (other) c q where "p = c # q" "\<not> prefix proc_self p" "to_proc_pid pid p = c # to_proc_pid pid q"
proof (cases p)
  case (Cons c q)
  show ?thesis
  proof (cases "prefix proc_self p")
    case True
    then obtain r where "p = proc_self @ r" by (auto simp: prefix_def)
    then show ?thesis using that(2) to_proc_pid_self by blast
  next
    case False
    then show ?thesis using that(3) Cons to_proc_pid_Cons by blast
  qed
qed (use that(1) in simp)

lemma to_proc_pid_plain_head:
  "to_proc_pid pid p = c # r \<Longrightarrow> c \<noteq> sep \<Longrightarrow> \<exists>q. p = c # q \<and> to_proc_pid pid q = r"
  by (rule to_proc_pid_cases [of p pid]) auto

lemma to_proc_pid_sep_head:
  "to_proc_pid pid p = sep # c # r \<Longrightarrow> c \<noteq> CHR ''p'' \<Longrightarrow> \<exists>q. p = sep # q \<and> to_proc_pid pid q = c # r"
  by (rule to_proc_pid_cases [of p pid]) auto

lemma to_proc_pid_tail:
  assumes "prefix ''proc/self'' (to_proc_pid pid p)"
  shows "prefix ''proc/self'' p"
proof -
  obtain r where "to_proc_pid pid p = ''proc/self'' @ r" using assms by (auto simp: prefix_def)
  then have "\<exists>q. p = ''proc/self'' @ q"
    by (auto dest!: to_proc_pid_plain_head to_proc_pid_sep_head)
  then show ?thesis by (auto simp: prefix_def)
qed

lemma no_self_prefix: "c \<noteq> sep \<Longrightarrow> \<not> prefix proc_self (c # s)"
  by simp

lemma str_contains_skip:
  "(\<And>c. c \<in> set xs \<Longrightarrow> c \<noteq> sep) \<Longrightarrow> str_contains proc_self (xs @ s) = str_contains proc_self s"
  by (induction xs) auto

lemma to_proc_pid_no_self: "\<not> str_contains proc_self (to_proc_pid pid p)"
proof (induction "length p" arbitrary: p rule: less_induct)
  case less
  show ?case
  proof (rule to_proc_pid_cases [of p pid])
    fix q assume q: "p = proc_self @ q"
      "to_proc_pid pid p = ''/proc/'' @ show_int pid @ to_proc_pid pid q"
    obtain d ds where d: "show_int pid = d # ds" by (cases "show_int pid") auto
    have dc: "d \<noteq> sep" "d \<noteq> CHR ''s''" "d \<noteq> CHR ''p''" using show_int_chars [of d pid] d by auto
    have "str_contains proc_self (show_int pid @ to_proc_pid pid q) = str_contains proc_self (to_proc_pid pid q)"
      by (rule str_contains_skip) (auto dest: show_int_chars)
    then show ?thesis using less [of q] q dc by (auto simp: d)
  next
    fix c q assume q: "p = c # q" "\<not> prefix proc_self p" "to_proc_pid pid p = c # to_proc_pid pid q"
    have "\<not> prefix proc_self (c # to_proc_pid pid q)"
      using q(1,2) to_proc_pid_tail [of pid q] by auto
    then show ?thesis using less [of q] q by simp
  qed simp
qed

definition nofollow_flag :: "syscall_info \<Rightarrow> usize list \<Rightarrow> sysaug_error + bool" where
  "nofollow_flag syscall args =
     (case (si_flag_dont_follow_symlink syscall, si_flags syscall) of
        (Some flag, Some flag_reg) \<Rightarrow>
          if flag_reg < length args then Inr (args ! flag_reg AND flag \<noteq> 0)
          else Inl (SysaugPanic ''index out of bounds'')
      | _ \<Rightarrow> Inr False)"

text \<open>The inner result of \<open>calc_follow_symlink\<close> is \<open>Inl True\<close> for a loop, \<open>Inl False\<close> when there is
  nothing to follow, and \<open>Inr link\<close> for the target of the link.  A \<open>HashSet\<close> of paths compares
  paths by their components.\<close>

definition follow_one_link :: "'w env \<Rightarrow> 'w \<Rightarrow> path \<Rightarrow> path list \<Rightarrow> sysaug_error + (bool + path)" where
  "follow_one_link E w real_path visited =
     res_bind (read_symlink E w real_path) (\<lambda>l. case l of
       None \<Rightarrow> Inr (Inl False)
     | Some link \<Rightarrow>
         res_bind (get_metadata_dir E) (\<lambda>md.
           if (case md of
                 Some metadir \<Rightarrow>
                   (case ho_canonicalize (e_host E) w link of
                      Inr l' \<Rightarrow> starts_with l' metadir | Inl _ \<Rightarrow> False)
               | None \<Rightarrow> False)
           then Inr (Inl False)
           else if list_ex (\<lambda>v. path_eq v link) visited then Inr (Inl True)
           else Inr (Inr link)))"

function calc_follow_symlink ::
  "'w env \<Rightarrow> 'w \<Rightarrow> path \<Rightarrow> syscall_info \<Rightarrow> path list \<Rightarrow> usize list \<Rightarrow> sysaug_error + (bool + path)" where
  "calc_follow_symlink E w real_path syscall visited args =
     (if si_dont_follow_symlink syscall then Inr (Inl False)
      else case nofollow_flag syscall args of
        Inl e \<Rightarrow> Inl e
      | Inr True \<Rightarrow> Inr (Inl False)
      | Inr False \<Rightarrow>
          if utf8_valid real_path \<and> str_contains proc_self real_path
          then calc_follow_symlink E w (to_proc_pid (e_pid E) real_path) syscall visited args
          else follow_one_link E w real_path visited)"
  by pat_completeness auto
termination
  by (relation "measure (\<lambda>(E, w, p, s, v, a). if str_contains proc_self p then 1 else 0)")
    (auto simp: to_proc_pid_no_self)

declare calc_follow_symlink.simps [simp del]

fun calc_real_path_recurse ::
  "nat \<Rightarrow> 'w env \<Rightarrow> 'w handler \<Rightarrow> path \<Rightarrow> syscall_info \<Rightarrow> path list \<Rightarrow> usize list \<Rightarrow>
   sysaug_error + path_action" where
  "calc_real_path_recurse 0 E h orig_path syscall visited args = Inl stack_overflow"
| "calc_real_path_recurse (Suc depth) E h orig_path syscall visited args =
     (let visited = orig_path # visited;
          follow = (\<lambda>real_path action.
            res_bind (calc_follow_symlink E (h_world h) real_path syscall visited args) (\<lambda>r. case r of
              Inl False \<Rightarrow> Inr action
            | Inl True \<Rightarrow> Inr ELOOP
            | Inr link \<Rightarrow>
                res_bind (calc_real_path_recurse depth E h link syscall visited args) (\<lambda>new_action.
                  Inr (if new_action = NoAction then Override link else new_action))))
      in res_bind (calc_real_path_simple E h orig_path) (\<lambda>action. case action of
           Override real_path \<Rightarrow> follow real_path action
         | NoAction \<Rightarrow> if is_excluded h orig_path then Inr NoAction else follow orig_path NoAction
         | _ \<Rightarrow> Inr action))"

definition calc_real_path ::
  "'w env \<Rightarrow> 'w handler \<Rightarrow> path \<Rightarrow> syscall_info \<Rightarrow> usize list \<Rightarrow> sysaug_error + path_action" where
  "calc_real_path E h orig_path syscall args =
     calc_real_path_recurse (e_stack_depth E) E h orig_path syscall [] args"

definition path_from_bytes :: "u8 list \<Rightarrow> path" where
  "path_from_bytes bs = string_of (rev (dropWhile (\<lambda>b. b = 0) (rev bs)))"

end
