(* ===== verification/Getdents.thy ===== *)
theory Getdents
  imports Rootfs_Paths Model_Host
begin

text \<open>
  Directory listings (\<open>src/sysaug/src/aug_paths_getdents.rs\<close>): the two layouts of a directory
  entry, and the replacement of the listing the kernel left in the tracee's buffer.  The locale
  \<open>c_struct\<close> is interpreted on both layouts, so what \<open>Ptrace_Structs\<close> shows of reading and writing
  structures holds for them.  An entry is its memory image of 536 bytes.
\<close>

section \<open>The layouts\<close>

text \<open>Both entries begin with the inode (8 bytes), the offset (8 bytes) and \<open>reclen\<close> (2 bytes); the
  header structures are padded to 24 bytes and the entries to 536.\<close>

definition reclen :: "u8 list \<Rightarrow> usize" where
  "reclen bs = (if 18 \<le> length bs then ucast (bs ! 16) OR push_bit 8 (ucast (bs ! 17)) else 0)"

definition set_reclen :: "u8 list \<Rightarrow> usize \<Rightarrow> u8 list" where
  "set_reclen bs n = bs[16 := ucast n, 17 := ucast (drop_bit 8 n)]"

definition Dirent64 :: cstruct where
  "Dirent64 = \<lparr>cs_size = 536, cs_header_size = 24, cs_item_size_deducer = reclen,
     cs_item_size_updater = set_reclen\<rparr>"

definition Dirent :: cstruct where
  "Dirent = \<lparr>cs_size = 536, cs_header_size = 24, cs_item_size_deducer = reclen,
     cs_item_size_updater = set_reclen\<rparr>"

text \<open>The trait \<open>IDirent\<close>: where the 512 bytes of the name are, and \<open>normalize_type\<close>.\<close>

record idirent =
  id_struct :: cstruct
  id_name :: nat
  id_normalize_type :: "u8 list \<Rightarrow> u8 list"

definition DT_UNKNOWN :: u8 where "DT_UNKNOWN = 0"
definition DT_LNK :: u8 where "DT_LNK = 10"

definition NAME_LEN :: nat where "NAME_LEN = 512"

definition normalize_type64 :: "u8 list \<Rightarrow> u8 list" where
  "normalize_type64 entry = (if entry ! 18 = DT_LNK then entry[18 := DT_UNKNOWN] else entry)"

definition IDirent64 :: idirent where
  "IDirent64 = \<lparr>id_struct = Dirent64, id_name = 19, id_normalize_type = normalize_type64\<rparr>"

definition IDirent32 :: idirent where
  "IDirent32 = \<lparr>id_struct = Dirent, id_name = 18, id_normalize_type = (\<lambda>entry. entry)\<rparr>"

definition get_name :: "idirent \<Rightarrow> u8 list \<Rightarrow> u8 list" where
  "get_name T entry = take NAME_LEN (drop (id_name T) entry)"

definition set_name :: "idirent \<Rightarrow> u8 list \<Rightarrow> u8 list \<Rightarrow> u8 list" where
  "set_name T entry name = take (id_name T) entry @ name @ drop (id_name T + NAME_LEN) entry"

section \<open>Replacing a listing\<close>

text \<open>The loop over the entries: every entry with its verdict whether it is to be deleted.\<close>

definition modify_entry :: "'w env \<Rightarrow> idirent \<Rightarrow> u8 list \<Rightarrow> sysaug_error + (u8 list \<times> bool)" where
  "modify_entry E T entry0 =
     (let entry = id_normalize_type T entry0
      in case get_mod_path E (path_from_bytes (get_name T entry)) NoAction True of
           Override override_path \<Rightarrow>
             (let bytes = takeWhile (\<lambda>b. b \<noteq> 0) (bytes_of override_path)
              in if length bytes > NAME_LEN then Inl (SysaugPanic ''index out of bounds'')
                 else Inr (set_name T entry (bytes @ replicate (NAME_LEN - length bytes) 0), False))
         | HidePath \<Rightarrow> Inr (entry, True)
         | _ \<Rightarrow> Inr (entry, False))"

fun modify_entries :: "'w env \<Rightarrow> idirent \<Rightarrow> u8 list list \<Rightarrow> sysaug_error + (u8 list \<times> bool) list" where
  "modify_entries E T [] = Inr []"
| "modify_entries E T (entry # entries) =
     res_bind (modify_entry E T entry) (\<lambda>e.
     res_bind (modify_entries E T entries) (\<lambda>es. Inr (e # es)))"

definition retained :: "(u8 list \<times> bool) list \<Rightarrow> u8 list list" where
  "retained es = map fst (filter (\<lambda>e. \<not> snd e) es)"

text \<open>\<open>read_bytes_to_structs\<close> returns for every structure with a header
  (\<open>read_bytes_to_structs_returns\<close>), so its result is taken out of the option.\<close>

definition read_dirents :: "'w env \<Rightarrow> idirent \<Rightarrow> usize \<Rightarrow> usize \<Rightarrow> ('w, u8 list list) hact" where
  "read_dirents E T addr list_size =
     with_mem E (\<lambda>mh s. the (read_bytes_to_structs mh (id_struct T) addr list_size s))"

definition replace_getdents_result :: "'w env \<Rightarrow> idirent \<Rightarrow> regs \<Rightarrow> ('w, unit) hact" where
  "replace_getdents_result E T regs =
     (let addr = arg1 regs; buf_size = arg2 regs * 2; list_size = syscall_retval regs
      in act_bind (read_dirents E T addr list_size) (\<lambda>dirents.
         act_bind (act_lift (modify_entries E T dirents)) (\<lambda>es.
         act_bind (exec (write_structs_to_tracee (e_kernel E) (id_struct T) addr buf_size (retained es) 2))
           (\<lambda>num_bytes.
         exec (setregs (e_kernel E)
           (set_syscall_retval (regs\<lparr>arg2 := arg2 regs * 2\<rparr>) num_bytes))))))"

section \<open>The contract of a C structure\<close>

lemma reclen_set_reclen:
  assumes "24 \<le> length bs" "n \<le> MAX_STRUCT_SIZE"
  shows "reclen (set_reclen bs n) = n"
proof (rule bit_word_eqI)
  fix i assume "i < LENGTH(64)"
  have "unat n < 2 ^ 16" using assms(2) by (simp add: MAX_STRUCT_SIZE_def word_le_nat_alt)
  then have "unat (take_bit 16 n) = unat n" by (simp add: unsigned_take_bit_eq take_bit_nat_eq_self)
  then have "take_bit 16 n = n" by (rule word_unat_eq_iff [THEN iffD2])
  then have small: "bit n j \<Longrightarrow> j < 16" for j by (metis bit_take_bit_iff)
  show "bit (reclen (set_reclen bs n)) i = bit n i"
    using assms(1) small [of i]
    by (cases "i < 8")
      (auto simp: reclen_def set_reclen_def bit_simps bit_push_bit_iff bit_drop_bit_eq
        dest: bit_imp_le_length)
qed

lemma reclen_prefix: "reclen (take 24 bs) = reclen bs"
  by (auto simp: reclen_def min_def)

lemma drop_set_reclen: "drop 24 (set_reclen bs n) = drop 24 bs"
  by (simp add: set_reclen_def)

lemma length_set_reclen [simp]: "length (set_reclen bs n) = length bs"
  by (simp add: set_reclen_def)

interpretation dirent64: c_struct Dirent64
  by unfold_locales
    (simp_all add: Dirent64_def MAX_STRUCT_SIZE_def reclen_prefix drop_set_reclen reclen_set_reclen)

interpretation dirent32: c_struct Dirent
  by unfold_locales
    (simp_all add: Dirent_def MAX_STRUCT_SIZE_def reclen_prefix drop_set_reclen reclen_set_reclen)

theorem write_structs_in_bounds_witness:
  "snd (snd (write_structs_to_tracee flat_kernel Dirent64 4096 1024 [replicate 536 1] 2
     (zero_regs, \<lambda>_. 7))) 8192 = 7"
  using write_structs_in_bounds [OF flat_word_memory _ prod.collapse [symmetric], of 1024 8192 4096
      Dirent64 "[replicate 536 1]" 2 "(zero_regs, \<lambda>_. 7)"] by simp

theorem read_bytes_to_structs_returns_witness:
  "\<exists>r s'. read_bytes_to_structs (SLOW_MEM_HELPERS flat_kernel) Dirent64 4096 48 (flat_tracer (\<lambda>_. 1)) = Some (r, s')"
  by (rule read_bytes_to_structs_returns [OF dirent64.header_nonempty])

end
