(* ===== verification/Augment_State.thy ===== *)
theory Augment_State
  imports Rootfs_Paths Model_Host
begin

text \<open>
  What the path augments share during one system call (\<open>src/sysaug/src/aug_paths_common.rs\<close>): the
  registers and arguments at entry, the host path of every path argument, and what has to be
  written back before the call resumes.  The source keeps each field of \<open>AugmentState\<close> in a
  \<open>RefCell\<close>; here the augments are actions on the pair of the handler and this record.
\<close>

definition FILE_PERMS_MASK :: usize where "FILE_PERMS_MASK = 4095"
definition ARGS_LEN :: nat where "ARGS_LEN = 5"

record augment_state =
  as_entry_regs :: regs
  as_orig_args :: "usize list"
  as_save_paths :: "path option list"
  as_need_write_regs :: bool
  as_need_write_paths :: usize
  as_need_skip_syscall :: "usize option"

type_synonym ('w, 'a) pact = "('w handler \<times> augment_state, sysaug_error, 'a) act"

definition on_handler :: "('w, 'a) hact \<Rightarrow> ('w, 'a) pact" where
  "on_handler m = (\<lambda>(h, st). case m h of (r, h') \<Rightarrow> (r, (h', st)))"

definition on_state :: "(augment_state \<Rightarrow> augment_state) \<Rightarrow> ('w, unit) pact" where
  "on_state f = (\<lambda>(h, st). (Inr (), (h, f st)))"

abbreviation state_of :: "(augment_state \<Rightarrow> 'a) \<Rightarrow> ('w handler \<times> augment_state, 'e, 'a) act" where
  "state_of f \<equiv> act_get (\<lambda>s. f (snd s))"

definition index_panic :: sysaug_error where
  "index_panic = SysaugPanic ''index out of bounds''"

text \<open>\<open>a[i]\<close> of an array, which panics out of range.\<close>

definition at_index :: "'a list \<Rightarrow> nat \<Rightarrow> sysaug_error + 'a" where
  "at_index xs i = (if i < length xs then Inr (xs ! i) else Inl index_panic)"

section \<open>Operations of \<open>AugmentState\<close>\<close>

definition set_arg :: "nat \<Rightarrow> usize \<Rightarrow> regs \<Rightarrow> regs" where
  "set_arg idx val r =
     (if idx = 0 then r\<lparr>arg0 := val\<rparr> else if idx = 1 then r\<lparr>arg1 := val\<rparr>
      else if idx = 2 then r\<lparr>arg2 := val\<rparr> else if idx = 3 then r\<lparr>arg3 := val\<rparr>
      else if idx = 4 then r\<lparr>arg4 := val\<rparr> else r)"

definition write_arg :: "nat \<Rightarrow> usize \<Rightarrow> augment_state \<Rightarrow> augment_state" where
  "write_arg idx val st =
     st\<lparr>as_entry_regs := set_arg idx val (as_entry_regs st), as_need_write_regs := True\<rparr>"

definition set_skip_syscall :: "usize \<Rightarrow> augment_state \<Rightarrow> augment_state" where
  "set_skip_syscall retval st = st\<lparr>as_need_skip_syscall := Some retval\<rparr>"

definition is_skip_syscall :: "augment_state \<Rightarrow> usize option" where
  "is_skip_syscall st = as_need_skip_syscall st"

fun each_path :: "(path \<Rightarrow> ('s, 'e, unit) act) \<Rightarrow> path option list \<Rightarrow> ('s, 'e, unit) act" where
  "each_path f [] = act_ret ()"
| "each_path f (None # ps) = each_path f ps"
| "each_path f (Some p # ps) = act_bind (f p) (\<lambda>_. each_path f ps)"

definition for_saved_path :: "(path \<Rightarrow> ('w, unit) pact) \<Rightarrow> ('w, unit) pact" where
  "for_saved_path iter_fn = act_bind (state_of as_save_paths) (each_path iter_fn)"

text \<open>The closure returns whether it changed the path, and the path.\<close>

definition first_saved_path_mut :: "(path \<Rightarrow> nat \<Rightarrow> ('w, bool \<times> path) pact) \<Rightarrow> ('w, bool) pact" where
  "first_saved_path_mut iter_fn =
     act_bind (state_of as_save_paths) (\<lambda>ps.
       case List.find (\<lambda>i. ps ! i \<noteq> None) [0..<length ps] of
         None \<Rightarrow> act_ret False
       | Some i \<Rightarrow>
           act_bind (iter_fn (the (ps ! i)) i) (\<lambda>(is_changed, p).
           act_bind (on_state (\<lambda>st. st\<lparr>as_save_paths := (as_save_paths st)[i := Some p]\<rparr>)) (\<lambda>_.
           act_bind (on_state (\<lambda>st. if is_changed
                       then st\<lparr>as_need_write_paths := as_need_write_paths st OR push_bit i 1\<rparr> else st)) (\<lambda>_.
           act_ret is_changed))))"

definition saved_path_idx :: "nat \<Rightarrow> (path \<Rightarrow> ('w, unit) pact) \<Rightarrow> ('w, unit) pact" where
  "saved_path_idx i iter_fn =
     act_bind (state_of as_save_paths) (\<lambda>ps.
     act_bind (act_lift (at_index ps i)) (\<lambda>p. case p of
       Some path \<Rightarrow> iter_fn path | None \<Rightarrow> act_ret ()))"

definition saved_path_pair :: "nat \<Rightarrow> nat \<Rightarrow> (path \<Rightarrow> path \<Rightarrow> ('w, unit) pact) \<Rightarrow> ('w, unit) pact" where
  "saved_path_pair i j iter_fn =
     act_bind (state_of as_save_paths) (\<lambda>ps.
     act_bind (act_lift (at_index ps i)) (\<lambda>p1.
     act_bind (act_lift (at_index ps j)) (\<lambda>p2. case (p1, p2) of
       (Some path1, Some path2) \<Rightarrow> iter_fn path1 path2 | _ \<Rightarrow> act_ret ())))"

section \<open>Parsing the registers at entry\<close>

definition get_dirfd_path :: "'w env \<Rightarrow> regs \<Rightarrow> syscall_info \<Rightarrow> nat \<Rightarrow> 'w \<Rightarrow> sysaug_error + path option" where
  "get_dirfd_path E r syscall i w =
     (let maybe = (case si_dirfd_position syscall of
            Some dirfd_reg \<Rightarrow> Some (int dirfd_reg)
          | None \<Rightarrow> if si_dirfd_precedes_path syscall then Some (int i - 1) else None);
          cwd = map_err Procfs (map_sum id Some (getcwd (e_host E) (e_pid E) w))
      in case maybe of
           None \<Rightarrow> cwd
         | Some dirfd_reg \<Rightarrow>
             if dirfd_reg \<ge> 3 then Inl DirfdReg
             else if dirfd_reg < 0 then Inl index_panic
             else let dirfd = sint (ucast ([arg0 r, arg1 r, arg2 r] ! nat dirfd_reg) :: 32 word)
                  in if dirfd \<noteq> - 100
                     then map_err Procfs (getfd_path (e_host E) (e_pid E) dirfd w)
                     else cwd)"

definition resolve_dirfd :: "path \<Rightarrow> path \<Rightarrow> path" where
  "resolve_dirfd dirfd_path final_path =
     (if final_path = [] then dirfd_path else path_join dirfd_path final_path)"

text \<open>The loop over the arguments; the last component of the result tells that it ended with
  \<open>ELOOP\<close>.\<close>

fun parse_paths ::
  "'w env \<Rightarrow> regs \<Rightarrow> syscall_info \<Rightarrow> usize list \<Rightarrow> nat list \<Rightarrow> path option list \<Rightarrow> usize \<Rightarrow>
   ('w, path option list \<times> usize \<times> bool) hact" where
  "parse_paths E r syscall orig_args [] save_paths need = act_ret (save_paths, need, False)"
| "parse_paths E r syscall orig_args (i # is) save_paths need =
     (let check_bit = push_bit i 1; arg_i = orig_args ! i
      in if check_bit AND si_path_positions syscall = 0 \<or> arg_i = 0
         then parse_paths E r syscall orig_args is save_paths need
         else act_bind (act_look (\<lambda>h. get_dirfd_path E r syscall i (h_world h))) (\<lambda>dirfd_path.
              act_bind (with_mem E (\<lambda>mh. mh_read_bytes_until_zero mh arg_i)) (\<lambda>path_bytes.
              let orig_path = path_from_bytes path_bytes;
                  dirfd_path = (case dirfd_path of Some p \<Rightarrow> p | None \<Rightarrow> [])
              in act_bind (act_look (\<lambda>h. calc_real_path E h orig_path syscall orig_args)) (\<lambda>path_action.
                 case path_action of
                   Override new_path \<Rightarrow>
                     parse_paths E r syscall orig_args is
                       (save_paths[i := Some (resolve_dirfd dirfd_path new_path)]) (need OR check_bit)
                 | ELOOP \<Rightarrow> act_ret (save_paths, need, True)
                 | _ \<Rightarrow>
                     parse_paths E r syscall orig_args is
                       (save_paths[i := Some (resolve_dirfd dirfd_path orig_path)]) need))))"

definition aug_paths_do_parse_state :: "'w env \<Rightarrow> regs \<Rightarrow> syscall_info \<Rightarrow> ('w, augment_state) hact" where
  "aug_paths_do_parse_state E r syscall =
     (let orig_args = [arg0 r, arg1 r, arg2 r, arg3 r, arg4 r];
          new_state = (\<lambda>save_paths need skip.
            \<lparr>as_entry_regs = r, as_orig_args = orig_args, as_save_paths = save_paths,
             as_need_write_regs = False, as_need_write_paths = need, as_need_skip_syscall = skip\<rparr>)
      in act_bind (parse_paths E r syscall orig_args [0..<ARGS_LEN] (replicate ARGS_LEN None) 0)
           (\<lambda>(save_paths, need, eloop).
         if eloop then act_ret (new_state save_paths need (Some (- ELOOP_NO)))
         else case si_filefd_position syscall of
           None \<Rightarrow> act_ret (new_state save_paths need None)
         | Some position \<Rightarrow>
             act_bind (act_lift (at_index orig_args position)) (\<lambda>fd.
             act_bind (act_look (\<lambda>h. map_err Procfs (getfd_path (e_host E) (e_pid E) (sint fd) (h_world h))))
               (\<lambda>fd_path.
             act_ret (new_state
               (save_paths[position := Some (case fd_path of Some p \<Rightarrow> p | None \<Rightarrow> [])]) need None)))))"

section \<open>Writing the registers back\<close>

fun write_paths :: "'w env \<Rightarrow> usize \<Rightarrow> nat list \<Rightarrow> ('w, unit) pact" where
  "write_paths E need [] = act_ret ()"
| "write_paths E need (i # is) =
     (if need AND push_bit i 1 = 0 then write_paths E need is
      else act_bind (state_of as_save_paths) (\<lambda>save_paths. case save_paths ! i of
             None \<Rightarrow> write_paths E need is
           | Some path \<Rightarrow>
               act_bind (on_handler (tracee_stack_append_path E path)) (\<lambda>tracee_addr.
               act_bind (on_state (write_arg i tracee_addr)) (\<lambda>_. write_paths E need is))))"

definition aug_paths_do_write_registers :: "'w env \<Rightarrow> ('w, unit) pact" where
  "aug_paths_do_write_registers E =
     act_bind (state_of is_skip_syscall) (\<lambda>need_skip_syscall.
     act_bind (state_of as_need_write_paths) (\<lambda>need_write_paths.
     act_bind (write_paths E need_write_paths [0..<ARGS_LEN]) (\<lambda>_.
     act_bind (state_of (\<lambda>st. (as_need_write_regs st, as_entry_regs st))) (\<lambda>(need_write_regs, r).
     if need_write_regs \<and> need_skip_syscall = None
     then on_handler (exec (setregs (e_kernel E) r))
     else act_ret ()))))"

end
