(* ===== verification/Aug_Links.thy ===== *)
theory Aug_Links
  imports Augment_State
begin

text \<open>
  Links (\<open>src/sysaug/src/aug_paths_links.rs\<close>).  A hard link is emulated: the file moves to the
  metadata directory and every name becomes a symbolic link to it, with a counter in the file's
  metadata.  An asynchronous augment has a part before the system call, whose result tells
  whether it goes on to wait for the call, and a part after it, which receives the call's
  outcome: an error of the wait, or the registers at the exit and the return value.  The error
  \<open>None\<close> of an after-part stands for the failed wait.
\<close>

type_synonym strong_output = "sysaug_error + regs \<times> int"
type_synonym ('w, 'a) aact = "('w handler \<times> augment_state, sysaug_error option, 'a) act"

definition after :: "('w, 'a) pact \<Rightarrow> ('w, 'a) aact" where
  "after m = act_map_err Some m"

text \<open>\<open>guard.as_ref().or(Err(None))?\<close>\<close>

definition with_output :: "strong_output \<Rightarrow> (regs \<Rightarrow> int \<Rightarrow> ('w, 'a) aact) \<Rightarrow> ('w, 'a) aact" where
  "with_output out f = (case out of Inl _ \<Rightarrow> act_err None | Inr (r, retval) \<Rightarrow> f r retval)"

definition on_file :: "('w, 'a) wact \<Rightarrow> ('w, 'a) pact" where
  "on_file m = on_handler (on_host m)"

abbreviation look :: "('w \<Rightarrow> sysaug_error + 'a) \<Rightarrow> ('w, 'a) pact" where
  "look f \<equiv> on_file (act_look f)"

definition increment_hardlink_counter :: "'w env \<Rightarrow> path \<Rightarrow> ('w, unit) wact" where
  "increment_hardlink_counter E path =
     act_bind (save_metadata_for_file E path (\<lambda>x. ((),
         x\<lparr>m_hardlink_counter := Some (case m_hardlink_counter x of Some count \<Rightarrow> count + 1 | None \<Rightarrow> 1)\<rparr>)))
       (\<lambda>_. act_ret ())"

section \<open>Symbolic links\<close>

definition symlink_creation_after :: "'w env \<Rightarrow> syscall_info \<Rightarrow> strong_output \<Rightarrow> ('w, unit) aact" where
  "symlink_creation_after E syscall out =
     (case si_creates_symlink syscall of
        None \<Rightarrow> act_ret ()
      | Some (_, i) \<Rightarrow>
          after (saved_path_idx i (\<lambda>path. on_file
            (act_bind (save_metadata_for_file E path (\<lambda>x. ((), x\<lparr>m_is_symlink := Some True\<rparr>))) (\<lambda>_. act_ret ())))))"

section \<open>Creating hard links\<close>

text \<open>The file is moved to the directory of links under a fresh name, its metadata next to it, and
  its old name becomes the first link.\<close>

definition store_hardlink :: "'w env \<Rightarrow> path \<Rightarrow> path \<Rightarrow> ('w, path) wact" where
  "store_hardlink E metadir path =
     (let links_dir = path_join metadir ''links''; io = act_map_err CreateHardlinkIO
      in act_bind (\<lambda>w. case ho_uuid (e_host E) w of (u, w') \<Rightarrow> (Inr u, w')) (\<lambda>uuid.
         let new_meta = path_join links_dir (uuid @ ''.json''); target_path = path_join links_dir uuid
         in act_bind (io (ho_create_dir_all (e_host E) links_dir)) (\<lambda>_.
            act_bind (act_look (\<lambda>w. get_metadata_path E w path)) (\<lambda>old_meta.
            act_bind (case old_meta of
                        Some old_meta \<Rightarrow> act_ignore (ho_rename (e_host E) old_meta new_meta)
                      | None \<Rightarrow> act_ret ()) (\<lambda>_.
            act_bind (io (ho_rename (e_host E) path target_path)) (\<lambda>_.
            act_bind (io (ho_symlink (e_host E) target_path path)) (\<lambda>_.
            act_bind (increment_hardlink_counter E path) (\<lambda>_. act_ret target_path))))))))"

definition create_hardlink :: "'w env \<Rightarrow> path \<Rightarrow> path \<Rightarrow> path \<Rightarrow> ('w, unit) pact" where
  "create_hardlink E metadir path0 result_path =
     act_bind (look (\<lambda>w. map_err CreateHardlinkIO (ho_canonicalize (e_host E) w path0))) (\<lambda>path.
     act_bind (look (\<lambda>w. Inr (path_exists (e_host E) w path))) (\<lambda>ex.
     if \<not> ex then act_ret ()
     else act_bind (if starts_with path metadir then act_ret path
                    else on_file (store_hardlink E metadir path)) (\<lambda>target_path.
          case a_rootfs (e_args E) of
            None \<Rightarrow> act_err (SysaugPanic ''unwrap on None'')
          | Some rootfs_path \<Rightarrow>
              if \<not> starts_with result_path rootfs_path then on_state (set_skip_syscall (- EACCES))
              else act_bind (look (\<lambda>w. Inr (path_exists (e_host E) w result_path))) (\<lambda>ex.
                   if ex then on_state (set_skip_syscall (- EEXIST))
                   else act_bind (on_file (act_map_err CreateHardlinkIO
                            (ho_symlink (e_host E) target_path result_path))) (\<lambda>_.
                        on_state (set_skip_syscall 0))))))"

definition hardlink_creation_before :: "'w env \<Rightarrow> syscall_info \<Rightarrow> ('w, bool) pact" where
  "hardlink_creation_before E syscall =
     (case si_creates_hardlink syscall of
        None \<Rightarrow> act_ret False
      | Some (i, j) \<Rightarrow>
          act_bind (act_lift (get_metadata_dir E)) (\<lambda>dir. case dir of
            None \<Rightarrow> act_ret False
          | Some metadir \<Rightarrow>
              act_bind (saved_path_pair i j (create_hardlink E metadir)) (\<lambda>_. act_ret True)))"

definition hardlink_creation_after :: "'w env \<Rightarrow> syscall_info \<Rightarrow> strong_output \<Rightarrow> ('w, unit) aact" where
  "hardlink_creation_after E syscall out =
     with_output out (\<lambda>_ retval.
       if retval < 0 then act_ret ()
       else case si_creates_hardlink syscall of
         None \<Rightarrow> act_ret ()
       | Some (_, j) \<Rightarrow> after (saved_path_idx j (\<lambda>path. on_file (increment_hardlink_counter E path))))"

section \<open>Following hard links\<close>

definition follow_hardlink :: "'w env \<Rightarrow> syscall_info \<Rightarrow> path \<Rightarrow> nat \<Rightarrow> ('w, bool \<times> path) pact" where
  "follow_hardlink E syscall path i =
     act_bind (look (\<lambda>w. read_metadata_for_file E w path)) (\<lambda>meta.
     if (case meta of Some m \<Rightarrow> m_hardlink_counter m \<noteq> None | None \<Rightarrow> False)
     then act_bind (look (\<lambda>w. map_err StatHardlinkIO (ho_canonicalize (e_host E) w path))) (\<lambda>path'.
          act_bind (if si_dirfd_precedes_path syscall
                    then on_state (write_arg (unat (of_nat i - 1 :: usize)) AT_FDCWD)
                    else act_ret ()) (\<lambda>_.
          act_bind (case si_dirfd_position syscall of
                      Some j \<Rightarrow> on_state (write_arg j AT_FDCWD) | None \<Rightarrow> act_ret ()) (\<lambda>_.
          act_ret (True, path'))))
     else act_ret (False, path))"

definition augment_hardlink_following :: "'w env \<Rightarrow> syscall_info \<Rightarrow> ('w, unit) pact" where
  "augment_hardlink_following E syscall =
     (if \<not> si_should_follow_hardlink syscall then act_ret ()
      else act_bind (first_saved_path_mut (follow_hardlink E syscall)) (\<lambda>_. act_ret ()))"

section \<open>Renaming\<close>

definition rename_hardlinks :: "'w env \<Rightarrow> path \<Rightarrow> path \<Rightarrow> path \<Rightarrow> ('w, unit) pact" where
  "rename_hardlinks E metadir path1 path2 =
     act_bind (look (\<lambda>w. Inr (ho_canonicalize (e_host E) w path1))) (\<lambda>c1.
     act_bind (look (\<lambda>w. Inr (ho_canonicalize (e_host E) w path2))) (\<lambda>c2.
       case (c1, c2) of
         (Inr path1, Inr path2) \<Rightarrow>
           act_bind (look (\<lambda>w. Inr (path_exists (e_host E) w path1 \<and> path_exists (e_host E) w path2))) (\<lambda>ex.
           if \<not> ex then act_ret ()
           else let is_hardlink1 = starts_with path1 metadir; is_hardlink2 = starts_with path2 metadir
                in if is_hardlink1 \<and> is_hardlink2 \<and> path_eq path1 path2 then on_state (set_skip_syscall 0)
                   else if is_hardlink2 then on_file (delete_metadata_for_file E path2)
                   else act_ret ())
       | _ \<Rightarrow> act_ret ()))"

definition hardlink_rename_before :: "'w env \<Rightarrow> syscall_info \<Rightarrow> ('w, bool) pact" where
  "hardlink_rename_before E syscall =
     (case si_renames_metadata syscall of
        None \<Rightarrow> act_ret False
      | Some (i, j) \<Rightarrow>
          act_bind (act_lift (get_metadata_dir E)) (\<lambda>dir.
          act_bind (case dir of
                      Some metadir \<Rightarrow> saved_path_pair i j (rename_hardlinks E metadir)
                    | None \<Rightarrow> act_ret ()) (\<lambda>_. act_ret True)))"

definition rename_metadata :: "'w env \<Rightarrow> path \<Rightarrow> path \<Rightarrow> ('w, unit) pact" where
  "rename_metadata E path1 path2 =
     act_bind (look (\<lambda>w. get_metadata_path E w path1)) (\<lambda>m1.
     act_bind (look (\<lambda>w. get_metadata_path E w path2)) (\<lambda>m2. case (m1, m2) of
       (Some p1, Some p2) \<Rightarrow> on_file (act_map_err RenameMetadata (ho_rename (e_host E) p1 p2))
     | _ \<Rightarrow> act_ret ()))"

text \<open>The variable \<open>is_hardlink2\<close> the closure captures is the result of the first step.\<close>

definition renamed_to_hardlink :: "'w env \<Rightarrow> path \<Rightarrow> nat \<Rightarrow> ('w, bool) pact" where
  "renamed_to_hardlink E metadir j =
     act_bind (state_of as_save_paths) (\<lambda>ps.
     act_bind (act_lift (at_index ps j)) (\<lambda>p. case p of
       None \<Rightarrow> act_ret False
     | Some path2 \<Rightarrow>
         look (\<lambda>w. Inr (case ho_canonicalize (e_host E) w path2 of
           Inr path2 \<Rightarrow> starts_with path2 metadir | Inl _ \<Rightarrow> False))))"

definition hardlink_rename_after :: "'w env \<Rightarrow> syscall_info \<Rightarrow> strong_output \<Rightarrow> ('w, unit) aact" where
  "hardlink_rename_after E syscall out =
     with_output out (\<lambda>_ retval.
       if retval < 0 then act_ret ()
       else case si_renames_metadata syscall of
         None \<Rightarrow> act_ret ()
       | Some (i, j) \<Rightarrow>
           after (act_bind (act_lift (get_metadata_dir E)) (\<lambda>dir.
             act_bind (case dir of Some metadir \<Rightarrow> renamed_to_hardlink E metadir j | None \<Rightarrow> act_ret False)
               (\<lambda>is_hardlink2.
             if is_hardlink2 then act_ret () else saved_path_pair i j (rename_metadata E)))))"

end
