(* ===== verification/Aug_Stat.thy ===== *)
theory Aug_Stat
  imports Aug_Links
begin

text \<open>
  Results of the \<open>stat\<close> family (\<open>src/sysaug/src/aug_paths_stat.rs\<close>): after the call the buffer of
  the tracee is read, the fields the metadata of the file overrides are replaced, and it is
  written back.  The trait \<open>IStat\<close> is the record \<open>istat\<close>; the offsets of the fields are those of
  the Linux ABI on x86_64, where \<open>libc::stat\<close> and \<open>libc::stat64\<close> have the same layout.  An object is
  its memory image.  \<open>StatLegacy\<close> is used on 32-bit targets only.
\<close>

record istat =
  is_size :: usize
  is_mode :: "nat \<times> nat"
  is_uid :: "nat \<times> nat"
  is_gid :: "nat \<times> nat"
  is_nlink :: "nat \<times> nat"

text \<open>A field is its offset and its width in bytes.\<close>

definition get_field :: "nat \<times> nat \<Rightarrow> u8 list \<Rightarrow> usize" where
  "get_field f x = bytes_word (take (snd f) (drop (fst f) x))"

definition set_field :: "nat \<times> nat \<Rightarrow> usize \<Rightarrow> u8 list \<Rightarrow> u8 list" where
  "set_field f val x = take (fst f) x @ word_bytes (snd f) val @ drop (fst f + snd f) x"

definition libc_stat :: istat where
  "libc_stat = \<lparr>is_size = 144, is_mode = (24, 4), is_uid = (28, 4), is_gid = (32, 4), is_nlink = (16, 8)\<rparr>"

definition libc_statx :: istat where
  "libc_statx = \<lparr>is_size = 256, is_mode = (28, 2), is_uid = (20, 4), is_gid = (24, 4), is_nlink = (16, 4)\<rparr>"

definition set_opt :: "nat \<times> nat \<Rightarrow> usize option \<Rightarrow> u8 list \<Rightarrow> u8 list" where
  "set_opt f v x = (case v of Some val \<Rightarrow> set_field f val x | None \<Rightarrow> x)"

definition fake_stat :: "istat \<Rightarrow> rootfs_metadata \<Rightarrow> u8 list \<Rightarrow> u8 list" where
  "fake_stat T meta x0 =
     (let x = set_opt (is_nlink T) (m_hardlink_counter meta) x0;
          x = (case m_chmod meta of
                 Some chmod \<Rightarrow>
                   set_field (is_mode T)
                     ((get_field (is_mode T) x AND NOT FILE_PERMS_MASK) OR (chmod AND FILE_PERMS_MASK)) x
               | None \<Rightarrow> x)
      in set_opt (is_gid T) (m_chown_group meta) (set_opt (is_uid T) (m_chown_owner meta) x))"

text \<open>Reading one object always returns (\<open>read_objs_loop_enough\<close>).\<close>

definition replace_statbuf_result :: "'w env \<Rightarrow> istat \<Rightarrow> usize \<Rightarrow> path \<Rightarrow> ('w, unit) hact" where
  "replace_statbuf_result E T addr path =
     act_bind (act_look (\<lambda>h. read_metadata_for_file E (h_world h) path)) (\<lambda>meta. case meta of
       None \<Rightarrow> act_ret ()
     | Some meta \<Rightarrow>
         act_bind (with_mem E (\<lambda>mh s. the (read_bytes_to_fixed_sized_objs mh (is_size T) addr 1 s))) (\<lambda>stats.
         let stats' = map (fake_stat T meta) stats;
             max_size = of_nat (length stats') * is_size T
         in act_bind (exec (write_fixed_sized_objs_to_tracee (e_kernel E) (is_size T) addr max_size stats'))
              (\<lambda>_. act_ret ())))"

text \<open>The first position that is set decides where the buffer is.\<close>

definition stat_position :: "syscall_info \<Rightarrow> nat option" where
  "stat_position syscall =
     List.foldr (\<lambda>x rest. case x of Some p \<Rightarrow> Some p | None \<Rightarrow> rest)
       [si_stat_buf_position syscall, si_stat_legacy_buf_position syscall,
        si_stat64_buf_position syscall, si_statx_buf_position syscall] None"

definition stat_layout :: "syscall_info \<Rightarrow> istat option" where
  "stat_layout syscall =
     (if si_stat_buf_position syscall \<noteq> None then Some libc_stat
      else if si_stat_legacy_buf_position syscall \<noteq> None then Some libc_stat
      else if si_stat64_buf_position syscall \<noteq> None then Some libc_stat
      else if si_statx_buf_position syscall \<noteq> None then Some libc_statx
      else None)"

definition stat_before :: "syscall_info \<Rightarrow> ('w, bool) pact" where
  "stat_before syscall = act_ret (stat_position syscall \<noteq> None)"

definition stat_after :: "'w env \<Rightarrow> syscall_info \<Rightarrow> strong_output \<Rightarrow> ('w, unit) aact" where
  "stat_after E syscall out =
     with_output out (\<lambda>_ retval.
       if retval < 0 then act_ret ()
       else case stat_position syscall of
         None \<Rightarrow> act_ret ()
       | Some position \<Rightarrow>
           after (act_bind (first_saved_path_mut (\<lambda>path _.
             act_bind (state_of as_orig_args) (\<lambda>orig_args.
             act_bind (act_lift (at_index orig_args position)) (\<lambda>addr.
             act_bind (case stat_layout syscall of
                         Some T \<Rightarrow> on_handler (replace_statbuf_result E T addr path)
                       | None \<Rightarrow> act_ret ()) (\<lambda>_.
             act_ret (False, path)))))) (\<lambda>_. act_ret ())))"

end
