(* ===== verification/Aug_Paths.thy ===== *)
theory Aug_Paths
  imports Event_Loop Getdents Aug_Stat
begin

text \<open>
  The augment of system calls that take paths (\<open>src/sysaug/src/aug_paths.rs\<close>).  Two synchronous
  augments run first; then eight asynchronous ones share the system call through a strong
  future.  Its first poll runs the parts before the call, in the order of the nested
  \<open>try_zip\<close>s, and then starts the call; the poll that completes the call runs the parts after
  it in the same order.  A part that fails ends its phase.

  \<open>augment_symlink_creation\<close> always waits, so the weak futures never all complete in the first poll.
  When a part before the call fails, the strong future drops that result unless the call
  completes in the same poll, and its next poll resumes a future that has completed, which
  panics (\<open>before_failed\<close>).
\<close>

definition deletion_path :: "'w env \<Rightarrow> path \<Rightarrow> ('w, unit) pact" where
  "deletion_path E path = on_file (delete_metadata_for_file E path)"

definition augment_deletion :: "'w env \<Rightarrow> syscall_info \<Rightarrow> ('w, unit) pact" where
  "augment_deletion E syscall =
     (if si_deletion_type syscall = None then act_ret () else for_saved_path (deletion_path E))"

section \<open>Ownership and permissions\<close>

definition perms_position :: "string \<Rightarrow> syscall_info \<Rightarrow> sysaug_error + nat" where
  "perms_position msg syscall = ok_or (SyscallMissingField msg) (si_file_perms_position syscall)"

definition save_each :: "'w env \<Rightarrow> (rootfs_metadata \<Rightarrow> rootfs_metadata) \<Rightarrow> ('w, unit) pact" where
  "save_each E f =
     for_saved_path (\<lambda>path. on_file
       (act_bind (save_metadata_for_file E path (\<lambda>x. ((), f x))) (\<lambda>_. act_ret ())))"

definition chown_before :: "'w env \<Rightarrow> syscall_info \<Rightarrow> ('w, bool) pact" where
  "chown_before E syscall =
     (if si_sets_file_perms syscall \<noteq> Some PermChown then act_ret False
      else act_bind (act_lift (perms_position ''Chown syscall doesn't have sets_file_perms'' syscall)) (\<lambda>position.
           act_bind (on_state (write_arg position (rf_host_uid (c_rootfs (e_config E))))) (\<lambda>_.
           act_bind (on_state (write_arg (position + 1) (rf_host_gid (c_rootfs (e_config E))))) (\<lambda>_.
           act_ret True))))"

definition chown_after :: "'w env \<Rightarrow> syscall_info \<Rightarrow> strong_output \<Rightarrow> ('w, unit) aact" where
  "chown_after E syscall out = after
     (act_bind (act_lift (perms_position ''Chown syscall doesn't have sets_file_perms'' syscall)) (\<lambda>position.
      act_bind (state_of as_orig_args) (\<lambda>orig_args.
      act_bind (act_lift (at_index orig_args position)) (\<lambda>new_owner.
      act_bind (act_lift (at_index orig_args (position + 1))) (\<lambda>new_group.
      save_each E (\<lambda>x. x\<lparr>m_chown_owner := Some new_owner, m_chown_group := Some new_group\<rparr>))))))"

definition chmod_before :: "'w env \<Rightarrow> syscall_info \<Rightarrow> ('w, bool) pact" where
  "chmod_before E syscall =
     (if si_sets_file_perms syscall \<noteq> Some PermChmod then act_ret False
      else act_bind (act_lift (perms_position ''Chmod syscall doesn't have sets_file_perms'' syscall)) (\<lambda>position.
           act_bind (on_state (write_arg position (rf_host_file_perms (c_rootfs (e_config E))))) (\<lambda>_.
           act_ret True)))"

definition save_chmod :: "'w env \<Rightarrow> nat \<Rightarrow> ('w, unit) pact" where
  "save_chmod E position =
     act_bind (state_of as_orig_args) (\<lambda>orig_args.
     act_bind (act_lift (at_index orig_args position)) (\<lambda>new_mod.
     save_each E (\<lambda>x. x\<lparr>m_chmod := Some (new_mod AND FILE_PERMS_MASK)\<rparr>)))"

definition chmod_after :: "'w env \<Rightarrow> syscall_info \<Rightarrow> strong_output \<Rightarrow> ('w, unit) aact" where
  "chmod_after E syscall out = after
     (act_bind (act_lift (perms_position ''Chmod syscall doesn't have sets_file_perms'' syscall)) (save_chmod E))"

definition flags_position :: "syscall_info \<Rightarrow> sysaug_error + nat" where
  "flags_position syscall =
     ok_or (SyscallMissingField ''ChmodOnCreation syscall doesn't have flags'') (si_flags syscall)"

definition chmod_on_creation_before :: "'w env \<Rightarrow> syscall_info \<Rightarrow> ('w, bool) pact" where
  "chmod_on_creation_before E syscall =
     (if si_sets_file_perms syscall \<noteq> Some PermChmodOnCreation then act_ret False
      else act_bind (act_lift (flags_position syscall)) (\<lambda>_.
           act_bind (act_lift (perms_position ''ChmodOnCreation syscall doesn't have sets_file_perms'' syscall))
             (\<lambda>position.
           act_bind (on_state (write_arg position (rf_host_file_perms (c_rootfs (e_config E))))) (\<lambda>_.
           act_ret True))))"

definition chmod_on_creation_after :: "'w env \<Rightarrow> syscall_info \<Rightarrow> strong_output \<Rightarrow> ('w, unit) aact" where
  "chmod_on_creation_after E syscall out = after
     (act_bind (act_lift (flags_position syscall)) (\<lambda>fpos.
      act_bind (act_lift (perms_position ''ChmodOnCreation syscall doesn't have sets_file_perms'' syscall))
        (\<lambda>position.
      act_bind (state_of as_orig_args) (\<lambda>orig_args.
      act_bind (act_lift (at_index orig_args fpos)) (\<lambda>flags.
      if flags AND O_CREAT \<noteq> 0 then save_chmod E position else act_ret ())))))"

section \<open>Directory listings\<close>

definition getdents_before :: "syscall_info \<Rightarrow> ('w, bool) pact" where
  "getdents_before syscall =
     act_bind (if si_getdents_bits syscall \<noteq> None
               then (\<lambda>(h, st). (Inr (), (h, write_arg 2 (as_orig_args st ! 2 div 2) st)))
               else act_ret ()) (\<lambda>_. act_ret True)"

definition getdents_after :: "'w env \<Rightarrow> syscall_info \<Rightarrow> strong_output \<Rightarrow> ('w, unit) aact" where
  "getdents_after E syscall out =
     with_output out (\<lambda>r retval.
       if retval \<le> 0 then act_ret ()
       else if si_getdents_bits syscall = Some 32
       then after (on_handler (replace_getdents_result E IDirent32 r))
       else if si_getdents_bits syscall = Some 64
       then after (on_handler (replace_getdents_result E IDirent64 r))
       else act_ret ())"

section \<open>Sharing one system call\<close>

record 'w weak_augment =
  wa_before :: "('w, bool) pact"
  wa_after :: "strong_output \<Rightarrow> ('w, unit) aact"

definition weak_augments :: "'w env \<Rightarrow> syscall_info \<Rightarrow> 'w weak_augment list" where
  "weak_augments E syscall =
     [\<lparr>wa_before = chmod_before E syscall, wa_after = chmod_after E syscall\<rparr>,
      \<lparr>wa_before = chmod_on_creation_before E syscall, wa_after = chmod_on_creation_after E syscall\<rparr>,
      \<lparr>wa_before = chown_before E syscall, wa_after = chown_after E syscall\<rparr>,
      \<lparr>wa_before = hardlink_rename_before E syscall, wa_after = hardlink_rename_after E syscall\<rparr>,
      \<lparr>wa_before = act_ret True, wa_after = symlink_creation_after E syscall\<rparr>,
      \<lparr>wa_before = hardlink_creation_before E syscall, wa_after = hardlink_creation_after E syscall\<rparr>,
      \<lparr>wa_before = getdents_before syscall, wa_after = getdents_after E syscall\<rparr>,
      \<lparr>wa_before = stat_before syscall, wa_after = stat_after E syscall\<rparr>]"

text \<open>The result of the first phase: the parts that wait for the call.\<close>

fun run_before :: "'w weak_augment list \<Rightarrow> ('w, (strong_output \<Rightarrow> ('w, unit) aact) list) pact" where
  "run_before [] = act_ret []"
| "run_before (a # as) =
     act_bind (wa_before a) (\<lambda>waits.
     act_bind (run_before as) (\<lambda>rest. act_ret (if waits then wa_after a # rest else rest)))"

fun run_after :: "(strong_output \<Rightarrow> ('w, unit) aact) list \<Rightarrow> strong_output \<Rightarrow> ('w, unit) aact" where
  "run_after [] out = act_ret ()"
| "run_after (f # fs) out = act_bind (f out) (\<lambda>_. run_after fs out)"

type_synonym ('w, 'a) psact = "('w handler \<times> augment_state, stop, 'a) act"

definition step_handler :: "('w, 'a) sact \<Rightarrow> ('w, 'a) psact" where
  "step_handler m = (\<lambda>(h, st). case m h of (r, h') \<Rightarrow> (r, (h', st)))"

definition in_augment :: "('w, 'a) pact \<Rightarrow> ('w, 'a) psact" where
  "in_augment m = act_map_err SyscallFail m"

definition syscall_future :: "nat \<Rightarrow> 'w env \<Rightarrow> ('w, regs \<times> int) psact" where
  "syscall_future fuel E =
     act_bind (in_augment (aug_paths_do_write_registers E)) (\<lambda>_.
     act_bind (state_of is_skip_syscall) (\<lambda>skip. case skip of
       Some retval \<Rightarrow>
         act_bind (step_handler (do_skip_syscall fuel E retval)) (\<lambda>_.
         act_bind (in_augment (on_handler (exec (getregs (e_kernel E))))) (\<lambda>r. act_ret (r, sint retval)))
     | None \<Rightarrow>
         act_bind (step_handler (do_resume_syscall fuel E)) (\<lambda>r. act_ret (r, sint (syscall_retval r)))))"

text \<open>The outcome of the strong future: an error of its own is a value, every other stop is not.\<close>

definition strong_outcome :: "('w, 'a) psact \<Rightarrow> ('w, sysaug_error + 'a) psact" where
  "strong_outcome m = (\<lambda>s. case m s of
     (Inr x, s') \<Rightarrow> (Inr (Inr x), s')
   | (Inl (SyscallFail e), s') \<Rightarrow> (Inr (Inl e), s')
   | (Inl e, s') \<Rightarrow> (Inl e, s'))"

text \<open>The system call up to the point where it starts to wait.\<close>

definition begin_syscall :: "'w env \<Rightarrow> ('w, unit) psact" where
  "begin_syscall E =
     act_bind (in_augment (aug_paths_do_write_registers E)) (\<lambda>_.
     act_bind (state_of is_skip_syscall) (\<lambda>skip.
     act_bind (if skip \<noteq> None
               then in_augment (on_handler (exec (set_syscall_num (e_kernel E) (NO_MOD_SYSCALL (e_nr E)))))
               else act_ret ()) (\<lambda>_.
     step_handler (\<lambda>h.
       let expects_syscall_stop = (\<not> h_seccomp_init_complete h \<or> h_after_syscall_entry h)
       in act_bind (set_after_entry False) (\<lambda>_. set_resume expects_syscall_stop) h))))"

definition next_poll_panics :: "nat \<Rightarrow> 'w env \<Rightarrow> ('w, unit) sact" where
  "next_poll_panics fuel E = (\<lambda>h.
     case take_signal h of (maybe_signal, h) \<Rightarrow>
     act_bind (wait_event fuel E maybe_signal) (\<lambda>ev.
     act_bind (poll_signals E ev) (\<lambda>_.
     act_err (SyscallFail (SysaugPanic ''async fn resumed after completion'')))) h)"

definition before_failed :: "nat \<Rightarrow> 'w env \<Rightarrow> sysaug_error \<Rightarrow> ('w, unit) psact" where
  "before_failed fuel E e =
     act_bind (strong_outcome (begin_syscall E)) (\<lambda>out. case out of
       Inl _ \<Rightarrow> act_err (SyscallFail e)
     | Inr _ \<Rightarrow> step_handler (next_poll_panics fuel E))"

definition run_weak :: "(strong_output \<Rightarrow> ('w, unit) aact) list \<Rightarrow> strong_output \<Rightarrow> ('w, unit) psact" where
  "run_weak fs out = (\<lambda>s. case run_after fs out s of
     (Inl (Some e), s') \<Rightarrow> (Inl (SyscallFail e), s')
   | (_, s') \<Rightarrow> (Inr (), s'))"

definition run_augments :: "nat \<Rightarrow> 'w env \<Rightarrow> 'w weak_augment list \<Rightarrow> ('w, unit) psact" where
  "run_augments fuel E augs = (\<lambda>s. case run_before augs s of
     (Inl e, s') \<Rightarrow> before_failed fuel E e s'
   | (Inr fs, s') \<Rightarrow> act_bind (strong_outcome (syscall_future fuel E)) (run_weak fs) s')"

definition augment_paths_body :: "nat \<Rightarrow> 'w env \<Rightarrow> syscall_info \<Rightarrow> ('w, unit) psact" where
  "augment_paths_body fuel E syscall =
     act_bind (in_augment (augment_deletion E syscall)) (\<lambda>_.
     act_bind (in_augment (augment_hardlink_following E syscall)) (\<lambda>_.
     run_augments fuel E (weak_augments E syscall)))"

definition augment_sys_paths :: "nat \<Rightarrow> 'w env \<Rightarrow> regs \<Rightarrow> syscall_info \<Rightarrow> ('w, unit) sact" where
  "augment_sys_paths fuel E orig_regs syscall =
     act_bind (in_syscall (aug_paths_do_parse_state E orig_regs syscall)) (\<lambda>st.
     case is_skip_syscall st of
       Some retval \<Rightarrow> do_skip_syscall fuel E retval
     | None \<Rightarrow> (\<lambda>h. case augment_paths_body fuel E syscall (h, st) of (r, (h', _)) \<Rightarrow> (r, h')))"

end
