(* ===== verification/Aug_Exec.thy ===== *)
theory Aug_Exec
  imports Event_Loop Rootfs_Paths
begin

text \<open>
  The augment of \<open>execve\<close> (\<open>src/sysaug/src/aug_exec.rs\<close>).  The program is translated to its host path;
  a dynamically linked one is started through its interpreter, a script through the
  interpreter its first line names, which is then expanded in turn.  The recursion over
  interpreters takes the depth of calls the tracer's stack allows, as in \<open>Rootfs_Paths\<close>.

  Reading the ELF headers is left to the crate \<open>elf\<close> (\<open>ho_elf\<close>).  \<open>str::trim\<close> removes the ASCII white
  space; the other white space of Unicode is not considered.
\<close>

definition S_ISUID :: usize where "S_ISUID = 2048"
definition S_ISGID :: usize where "S_ISGID = 1024"
definition PT_INTERP :: u32 where "PT_INTERP = 3"

section \<open>The first line of a script\<close>

definition is_space :: "char \<Rightarrow> bool" where
  "is_space c = (c = CHR '' '' \<or> (9 \<le> (of_char c :: nat) \<and> (of_char c :: nat) \<le> 13))"

definition trim :: "string \<Rightarrow> string" where
  "trim s = rev (dropWhile is_space (rev (dropWhile is_space s)))"

definition parse_shebang :: "'w env \<Rightarrow> path \<Rightarrow> 'w \<Rightarrow> sysaug_error + string option" where
  "parse_shebang E file w =
     res_bind (map_err ReadBin (ho_first_line (e_host E) w file)) (\<lambda>line.
       Inr (if prefix ''#!'' line then Some (trim (drop 2 line)) else None))"

fun split_spaces :: "string \<Rightarrow> string list" where
  "split_spaces [] = [[]]"
| "split_spaces (c # cs) =
     (if c = CHR '' '' then [] # split_spaces cs
      else case split_spaces cs of part # parts \<Rightarrow> (c # part) # parts | [] \<Rightarrow> [[c]])"

lemma split_spaces_nonempty [simp]: "split_spaces s \<noteq> []"
  by (cases s) (auto split: list.splits)

section \<open>Permissions of the program\<close>

definition exec_setid :: "nat \<Rightarrow> usize \<Rightarrow> 'w handler \<Rightarrow> 'w handler" where
  "exec_setid which i h = h\<lparr>h_perms_ids := (h_perms_ids h)[which := Some i]\<rparr>"

definition exec_setids :: "'w env \<Rightarrow> path \<Rightarrow> ('w, unit) hact" where
  "exec_setids E path = (\<lambda>h.
     case ho_stat (e_host E) (h_world h) path of
       Inl _ \<Rightarrow> (Inr (), h)
     | Inr stat \<Rightarrow>
         (let h = (if fst_mode stat AND S_ISUID \<noteq> 0 then exec_setid 5 (fst_uid stat) h else h);
              h = (if fst_mode stat AND S_ISGID \<noteq> 0 then exec_setid 1 (fst_gid stat) h else h)
          in (Inr (), h)))"

section \<open>Programs with an interpreter\<close>

definition container_path :: "'w env \<Rightarrow> 'w \<Rightarrow> path \<Rightarrow> sysaug_error + path" where
  "container_path E w elf_path =
     (let absolute = (\<lambda>p. map_err ConvertAbsolutePath (ho_absolute (e_host E) w p))
      in if is_absolute elf_path then Inr elf_path
         else case a_chroot (e_args E) of
           Some chroot_path \<Rightarrow>
             res_bind (absolute elf_path) (\<lambda>host_absolute_path.
             res_bind (ok_or ConvertAbsolutePathPrefix (strip_prefix host_absolute_path chroot_path))
               (\<lambda>without_prefix. absolute (path_join ''/'' without_prefix)))
         | None \<Rightarrow> absolute elf_path)"

definition argv_tail :: "u8 list \<Rightarrow> sysaug_error + u8 list" where
  "argv_tail argv_bytes =
     (if 8 \<le> length argv_bytes then Inr (drop 8 argv_bytes)
      else Inl (SysaugPanic ''range start index out of range''))"

definition interpreter_path :: "'w env \<Rightarrow> 'w handler \<Rightarrow> syscall_info \<Rightarrow> usize list \<Rightarrow> path \<Rightarrow> sysaug_error + path" where
  "interpreter_path E h syscall read_args interp_path =
     res_bind (calc_real_path E h interp_path syscall read_args) (\<lambda>path_action.
       Inr (case path_action of
              Override new_path \<Rightarrow>
                if a_chroot (e_args E) \<noteq> None \<and> \<not> a_use_native_loader (e_args E) then new_path else interp_path
            | _ \<Rightarrow> interp_path))"

definition exec_interpreted ::
  "'w env \<Rightarrow> syscall_info \<Rightarrow> usize list \<Rightarrow> path \<Rightarrow> path \<Rightarrow> u8 list \<Rightarrow> elf_phdr \<Rightarrow> regs \<Rightarrow> ('w, regs) hact" where
  "exec_interpreted E syscall read_args elf_path new_elf_path argv_bytes header r =
     act_bind (act_look (\<lambda>h. map_err ReadBin
         (ho_read_at (e_host E) (h_world h) new_elf_path (ph_offset header) (unat (ph_filesz header))))) (\<lambda>buf.
     act_bind (act_look (\<lambda>h. interpreter_path E h syscall read_args (path_from_bytes (bytes_of buf))))
       (\<lambda>final_interp_path.
     act_bind (act_look (\<lambda>h. container_path E (h_world h) elf_path)) (\<lambda>final_elf_path.
     act_bind (tracee_stack_append_path E final_interp_path) (\<lambda>interp_addr.
     act_bind (tracee_stack_append_path E final_elf_path) (\<lambda>elf_addr.
     act_bind (act_lift (argv_tail argv_bytes)) (\<lambda>rest.
     act_bind (tracee_stack_append E
         (to_ne_bytes interp_addr @ to_ne_bytes elf_addr @ rest @ to_ne_bytes 0)) (\<lambda>new_argv_addr.
     act_ret (r\<lparr>arg0 := interp_addr, arg1 := new_argv_addr\<rparr>))))))))"

section \<open>Scripts\<close>

definition exec_script :: "'w env \<Rightarrow> string list \<Rightarrow> u8 list \<Rightarrow> regs \<Rightarrow> ('w, regs) hact" where
  "exec_script E parts argv_bytes r =
     act_bind (tracee_stack_append_str E (hd parts)) (\<lambda>interp_addr.
     act_bind (if length parts = 2
               then act_bind (tracee_stack_append_str E (parts ! 1)) (\<lambda>part1_addr. act_ret (to_ne_bytes part1_addr))
               else act_ret []) (\<lambda>part1_bytes.
     act_bind (act_lift (argv_tail argv_bytes)) (\<lambda>rest.
     act_bind (tracee_stack_append E
         (to_ne_bytes interp_addr @ part1_bytes @ to_ne_bytes (arg0 r) @ rest @ to_ne_bytes 0)) (\<lambda>new_argv_addr.
     act_ret (r\<lparr>arg0 := interp_addr, arg1 := new_argv_addr\<rparr>)))))"

section \<open>The expansion\<close>

definition real_program :: "'w env \<Rightarrow> syscall_info \<Rightarrow> usize list \<Rightarrow> path \<Rightarrow> ('w, path option) hact" where
  "real_program E syscall read_args elf_path =
     act_bind (act_look (\<lambda>h. calc_real_path E h elf_path syscall read_args)) (\<lambda>path_action.
     act_bind (exec_setids E elf_path) (\<lambda>_.
     act_bind (act_ret (case path_action of Override p \<Rightarrow> Some p | ELOOP \<Rightarrow> None | _ \<Rightarrow> Some elf_path)) (\<lambda>p.
     act_get (\<lambda>h. case p of
       None \<Rightarrow> None
     | Some new_elf_path \<Rightarrow>
         if path_exists (e_host E) (h_world h) new_elf_path then Some new_elf_path else None))))"

fun expand_exec_with_parser :: "nat \<Rightarrow> 'w env \<Rightarrow> syscall_info \<Rightarrow> regs \<Rightarrow> ('w, bool \<times> regs) hact" where
  "expand_exec_with_parser 0 E syscall r = act_err stack_overflow"
| "expand_exec_with_parser (Suc depth) E syscall r =
     act_bind (with_mem E (\<lambda>mh. mh_read_bytes_until_zero mh (arg0 r))) (\<lambda>path_bytes.
     act_bind (with_mem E (\<lambda>mh. mh_read_bytes_until_num_zeroes mh (arg1 r) USIZE_SIZE)) (\<lambda>argv_bytes.
     let read_args = [arg0 r, arg1 r, arg2 r, arg3 r]; elf_path = path_from_bytes path_bytes
     in act_bind (real_program E syscall read_args elf_path) (\<lambda>p. case p of
       None \<Rightarrow> act_ret (False, r)
     | Some new_elf_path \<Rightarrow>
         act_bind (act_look (\<lambda>h. map_err ReadBin (ho_open (e_host E) (h_world h) new_elf_path))) (\<lambda>_.
         act_bind (act_get (\<lambda>h. ho_elf (e_host E) (h_world h) new_elf_path)) (\<lambda>maybe_elf. case maybe_elf of
           Some phdrs \<Rightarrow>
             (case List.find (\<lambda>x. ph_type x = PT_INTERP) phdrs of
                Some header \<Rightarrow>
                  act_bind (exec_interpreted E syscall read_args elf_path new_elf_path argv_bytes header r)
                    (\<lambda>r'. act_ret (True, r'))
              | None \<Rightarrow>
                  act_bind (tracee_stack_append_path E new_elf_path) (\<lambda>path_addr.
                  act_ret (True, r\<lparr>arg0 := path_addr\<rparr>)))
         | None \<Rightarrow>
             act_bind (act_look (\<lambda>h. parse_shebang E new_elf_path (h_world h))) (\<lambda>maybe_shebang.
             case maybe_shebang of
               None \<Rightarrow> act_ret (False, r)
             | Some shebang \<Rightarrow>
                 (let parts = split_spaces shebang
                  in if length parts > 2 then act_ret (False, r)
                     else act_bind (exec_script E parts argv_bytes r) (\<lambda>r'.
                          expand_exec_with_parser depth E syscall r'))))))))"

definition augment_sys_exec :: "nat \<Rightarrow> 'w env \<Rightarrow> regs \<Rightarrow> syscall_info \<Rightarrow> ('w, unit) sact" where
  "augment_sys_exec fuel E r syscall =
     act_bind (in_syscall (expand_exec_with_parser (e_stack_depth E) E syscall r)) (\<lambda>(found, r').
     if \<not> found then do_skip_syscall fuel E (- ENOENT)
     else act_bind (in_syscall (exec (setregs (e_kernel E) r'))) (\<lambda>_.
          act_bind (do_resume_syscall fuel E) (\<lambda>_. act_ret ())))"

end
