(* ===== verification/Aug_Calls.thy ===== *)
theory Aug_Calls
  imports Event_Loop
begin

text \<open>
  The augments of \<open>clone\<close>, \<open>seccomp\<close>, \<open>prctl\<close>, the \<open>wait\<close> family and the id calls
  (\<open>aug_clone.rs\<close>, \<open>aug_seccomp.rs\<close>, \<open>aug_waitpid.rs\<close> and \<open>augment_sys_perms\<close> of \<open>aug_perms.rs\<close>, all under
  \<open>src/sysaug/src/\<close>).
\<close>

definition augment_sys_perms :: "nat \<Rightarrow> 'w env \<Rightarrow> regs \<Rightarrow> syscall_info \<Rightarrow> ('w, unit) sact" where
  "augment_sys_perms fuel E orig_regs syscall =
     act_bind (in_syscall (do_sysenter_perms E orig_regs syscall)) (\<lambda>should_skip. case should_skip of
       Some retval \<Rightarrow> do_skip_syscall fuel E retval
     | None \<Rightarrow>
         act_bind (do_resume_syscall fuel E) (\<lambda>r. in_syscall (do_sysexit_perms E r syscall)))"

definition traced_clone_flags :: "usize \<Rightarrow> usize" where
  "traced_clone_flags flags = (flags OR CLONE_PTRACE) AND NOT CLONE_UNTRACED"

definition augment_sys_clone :: "nat \<Rightarrow> 'w env \<Rightarrow> regs \<Rightarrow> syscall_info \<Rightarrow> ('w, unit) sact" where
  "augment_sys_clone fuel E r syscall =
     act_bind (in_syscall (exec (setregs (e_kernel E) (r\<lparr>arg0 := traced_clone_flags (arg0 r)\<rparr>)))) (\<lambda>_.
     act_bind (do_resume_syscall fuel E) (\<lambda>_. act_ret ()))"

definition augment_sys_seccomp :: "nat \<Rightarrow> 'w env \<Rightarrow> regs \<Rightarrow> syscall_info \<Rightarrow> ('w, unit) sact" where
  "augment_sys_seccomp fuel E r syscall =
     (let resume = act_bind (do_resume_syscall fuel E) (\<lambda>_. act_ret ());
          refuse = do_skip_syscall fuel E (- ENOSYS)
      in if si_num syscall = e_nr E ''prctl'' \<and> arg0 r \<noteq> PR_SET_SECCOMP then resume
         else case si_seccomp_position syscall of
           None \<Rightarrow> refuse
         | Some seccomp_position \<Rightarrow>
             if seccomp_position \<ge> 3 then refuse
             else if [arg0 r, arg1 r, arg2 r] ! seccomp_position = SECCOMP_SET_MODE_FILTER then refuse
             else resume)"

text \<open>\<open>WaitStatus::from_raw\<close> reads a status word as \<open>Stopped(_, SIGSTOP)\<close> when its low byte is \<open>0x7f\<close>, the
  next byte is the signal, and no ptrace event is in the upper half.\<close>

definition is_sigstop_status :: "usize \<Rightarrow> bool" where
  "is_sigstop_status status = ((ucast status :: u32) = 0x137f)"

definition hide_sigstop :: "'w env \<Rightarrow> usize \<Rightarrow> regs \<Rightarrow> pid \<Rightarrow> ('w, unit) hact" where
  "hide_sigstop E orig_wait_status r child =
     act_bind (with_mem E (\<lambda>mh. mh_read mh (arg1 r))) (\<lambda>wait_status.
     act_bind (act_get h_ignore_sigstops) (\<lambda>pids.
     if child \<in> pids \<and> is_sigstop_status wait_status
     then let override_retval = (if arg2 r AND WNOHANG = 0 then - EINTR else 0)
          in act_bind (exec (setregs (e_kernel E) (set_syscall_retval r override_retval))) (\<lambda>_.
             act_bind (exec (ptrace_write (e_kernel E) (arg1 r) orig_wait_status)) (\<lambda>_.
             act_upd (h_ignore_sigstops_update (\<lambda>pids. pids - {child}))))
     else act_ret ()))"

definition augment_sys_waitpid :: "nat \<Rightarrow> 'w env \<Rightarrow> regs \<Rightarrow> syscall_info \<Rightarrow> ('w, unit) sact" where
  "augment_sys_waitpid fuel E orig_regs syscall =
     act_bind (in_syscall (with_mem E (\<lambda>mh. mh_read mh (arg1 orig_regs)))) (\<lambda>orig_wait_status.
     act_bind (do_resume_syscall fuel E) (\<lambda>r.
     let retval = sint (ucast (syscall_retval r) :: u32)
     in if retval > 0 then in_syscall (hide_sigstop E orig_wait_status r retval) else act_ret ()))"

end
