(* ===== verification/Handler_Loop.thy ===== *)
theory Handler_Loop
  imports Aug_Paths Aug_Exec Aug_Calls
begin

text \<open>
  The loop over system calls and the life of a handler (\<open>loop_handle_tracee_syscalls\<close>,
  \<open>_insert_syscall_during_init\<close>, \<open>initialize_tracee_mmaps\<close>, \<open>initialize_tracee_seccomp\<close> and
  \<open>all_tracee_loops\<close> of \<open>src/sysaug/src/handler_async.rs\<close>; \<open>set_ptrace_options\<close>, \<open>event_loop\<close> and
  \<open>transfer_to_gdb\<close> of \<open>handler_sync.rs\<close>).  The loop runs until the tracee ends, so it takes fuel for its
  rounds, besides the fuel of each wait.
\<close>

section \<open>Dispatch (\<open>call_augment!\<close>)\<close>

definition call_augment :: "nat \<Rightarrow> 'w env \<Rightarrow> regs \<Rightarrow> syscall_info \<Rightarrow> ('w, unit) sact" where
  "call_augment fuel E r syscall =
     (case si_augment syscall of
        AugClone \<Rightarrow> augment_sys_clone fuel E r syscall
      | AugExec \<Rightarrow> augment_sys_exec fuel E r syscall
      | AugPaths \<Rightarrow> augment_sys_paths fuel E r syscall
      | AugPerms \<Rightarrow> augment_sys_perms fuel E r syscall
      | AugWaitpid \<Rightarrow> augment_sys_waitpid fuel E r syscall
      | AugSeccomp \<Rightarrow> augment_sys_seccomp fuel E r syscall
      | AugUnimplemented \<Rightarrow> loop_err UnimplementedAugment
      | AugNone \<Rightarrow> act_ret ())"

section \<open>System calls inserted while a tracee is initialised\<close>

definition unblock_yielder :: "('w, unit) sact" where
  "unblock_yielder = act_upd (\<lambda>h. h\<lparr>h_num_polls := yielder_unblock (h_num_polls h)\<rparr>)"

definition set_args :: "usize list \<Rightarrow> regs \<Rightarrow> regs" where
  "set_args args r = r\<lparr>arg0 := args ! 0, arg1 := args ! 1, arg2 := args ! 2,
     arg3 := args ! 3, arg4 := args ! 4, arg5 := args ! 5\<rparr>"

definition remember_syscall_num :: "regs \<Rightarrow> ('w, usize) sact" where
  "remember_syscall_num r = (\<lambda>h. case h_orig_syscall_num h of
     Some val \<Rightarrow> (Inr val, h)
   | None \<Rightarrow> (Inr (syscall_num r), h\<lparr>h_orig_syscall_num := Some (syscall_num r)\<rparr>))"

definition insert_syscall_during_init :: "nat \<Rightarrow> 'w env \<Rightarrow> usize \<Rightarrow> usize list \<Rightarrow> ('w, regs) sact" where
  "insert_syscall_during_init fuel E num args =
     act_bind unblock_yielder (\<lambda>_.
     act_bind (wait_for_syscall fuel E) (\<lambda>_.
     act_bind (in_syscall (exec (getregs (e_kernel E)))) (\<lambda>orig_regs.
     act_bind (remember_syscall_num orig_regs) (\<lambda>orig_num.
     act_bind (in_syscall (exec (setregs (e_kernel E) (set_args args orig_regs)))) (\<lambda>_.
     act_bind (in_syscall (exec (set_syscall_num (e_kernel E) num))) (\<lambda>_.
     act_bind unblock_yielder (\<lambda>_.
     act_bind (wait_for_syscall fuel E) (\<lambda>_.
     act_bind (in_syscall (exec (getregs (e_kernel E)))) (\<lambda>result_regs.
     act_bind (in_syscall (exec (setregs (e_kernel E)
                (orig_regs\<lparr>pc := pc orig_regs - SYSCALL_INSTRUCTION_SIZE\<rparr>)))) (\<lambda>_.
     act_bind (in_syscall (exec (set_syscall_num (e_kernel E) orig_num))) (\<lambda>_.
     act_ret result_regs)))))))))))"

definition initialize_tracee_mmaps :: "nat \<Rightarrow> 'w env \<Rightarrow> ('w, unit) sact" where
  "initialize_tracee_mmaps fuel E =
     act_bind (in_syscall (exec_mem (get_own_region_id (e_pid E)))) (\<lambda>region_id.
     act_bind (insert_syscall_during_init fuel E (e_nr E ''mmap'')
       [0, STACK_SAFE_ZONE_SIZE, PROT_READ, MAP_SHARED, e_shared_fd E,
        of_nat region_id * STACK_SAFE_ZONE_SIZE div SYS_MMAP_PGOFFSET_BLOCK]) (\<lambda>mmap_regs.
     act_bind (act_upd (h_mmap_tracee_addr_update (\<lambda>_. syscall_retval mmap_regs))) (\<lambda>_.
     act_bind (in_syscall (exec_mem (set_tracee_write_region_addr (syscall_retval mmap_regs)))) (\<lambda>_.
     if \<not> a_fix_mmap (e_args E) then act_upd (h_direct_update (\<lambda>_. True)) else act_ret ()))))"

text \<open>The memory images of the filter array and of the program; the padding of \<open>BpfProgram\<close> is zero.\<close>

definition filter_image :: "bpf_filter \<Rightarrow> u8 list" where
  "filter_image f = word_bytes 2 (ucast (bpf_code f)) @ word_bytes 1 (ucast (bpf_jt f)) @
     word_bytes 1 (ucast (bpf_jf f)) @ word_bytes 4 (ucast (bpf_k f))"

definition program_image :: "bpf_program \<Rightarrow> u8 list" where
  "program_image p = word_bytes 8 (ucast (bp_len p)) @ to_ne_bytes (bp_filters_ptr p)"

definition tracer_filters :: "'w env \<Rightarrow> sysaug_error + bpf_filter list \<times> nat" where
  "tracer_filters E = ok_or (SysaugPanic ''constant evaluation'')
     (case RAW_SYSCALL_INFOS (e_nr E) of None \<Rightarrow> None | Some raw \<Rightarrow> SECCOMP_FILTERS raw)"

definition initialize_tracee_seccomp :: "nat \<Rightarrow> 'w env \<Rightarrow> ('w, unit) sact" where
  "initialize_tracee_seccomp fuel E =
     (if a_no_seccomp (e_args E) then act_ret ()
      else act_bind (insert_syscall_during_init fuel E (e_nr E ''prctl'') [PR_SET_NO_NEW_PRIVS, 1, 0, 0, 0, 0])
        (\<lambda>prctl_regs.
      if syscall_retval prctl_regs \<noteq> 0 then loop_err SeccompInit
      else act_bind (act_lift (map_err SyscallFail (tracer_filters E))) (\<lambda>(filters, actual_len).
           act_bind (in_syscall (tracee_stack_append_fixed_size_obj E (concat (map filter_image filters))))
             (\<lambda>filters_addr.
           act_bind (in_syscall (tracee_stack_append_fixed_size_obj E
               (program_image \<lparr>bp_len = of_nat actual_len, bp_filters_ptr = filters_addr\<rparr>))) (\<lambda>program_addr.
           act_bind (insert_syscall_during_init fuel E (e_nr E ''seccomp'')
               [SECCOMP_SET_MODE_FILTER, SECCOMP_FILTER_FLAG_TSYNC, program_addr, 0, 0, 0]) (\<lambda>seccomp_regs.
           if syscall_retval seccomp_regs \<noteq> 0 then loop_err SeccompInit else act_ret ()))))))"

section \<open>The loop over system calls\<close>

definition reach_gdb :: "('w, unit) sact" where
  "reach_gdb = act_bind (act_upd (h_transfer_to_gdb_update (\<lambda>_. True))) (\<lambda>_. act_err (LoopsReturn (Inr 0)))"

definition finish_init :: "'w env \<Rightarrow> bool \<Rightarrow> ('w, unit) sact" where
  "finish_init E first =
     (if first
      then act_upd (\<lambda>h. h\<lparr>h_seccomp_init_complete := \<not> a_no_seccomp (e_args E), h_after_syscall_entry := True\<rparr>)
      else act_ret ())"

definition init_after_exec :: "nat \<Rightarrow> 'w env \<Rightarrow> ('w, unit) sact" where
  "init_after_exec fuel E =
     act_bind (if \<not> a_fix_mmap (e_args E) then initialize_tracee_mmaps fuel E else act_ret ()) (\<lambda>_.
     if e_parent E = None then initialize_tracee_seccomp fuel E else act_ret ())"

text \<open>One round, up to the point where the system call is known, and the rest of it; the result is
  \<open>is_first_loop_after_init\<close> for the next round.\<close>

definition round_entry :: "nat \<Rightarrow> 'w env \<Rightarrow> usize \<Rightarrow> bool \<Rightarrow> ('w, regs) sact" where
  "round_entry fuel E total_times first =
     act_bind unblock_yielder (\<lambda>_.
     act_bind (wait_for_syscall fuel E) (\<lambda>_.
     act_bind (act_upd (h_orig_syscall_num_update (\<lambda>_. None))) (\<lambda>_.
     act_bind (in_syscall (exec (getregs (e_kernel E)))) (\<lambda>r.
     act_bind (in_syscall (tracee_stack_seek 0)) (\<lambda>_.
     act_bind (if a_gdb_at (e_args E) = Some total_times then reach_gdb else act_ret ()) (\<lambda>_.
     act_bind (finish_init E first) (\<lambda>_. act_ret r)))))))"

definition round_call :: "nat \<Rightarrow> 'w env \<Rightarrow> regs \<Rightarrow> ('w, unit) sact" where
  "round_call fuel E r =
     (case get_syscall (e_nr E) (syscall_num r) of
        Some syscall \<Rightarrow> call_augment fuel E r syscall
      | None \<Rightarrow> act_bind (do_resume_syscall fuel E) (\<lambda>_. act_ret ()))"

definition round_end :: "nat \<Rightarrow> 'w env \<Rightarrow> ('w, bool) sact" where
  "round_end fuel E =
     act_bind (in_syscall (exec (getregs (e_kernel E)))) (\<lambda>new_regs.
     if (case get_syscall (e_nr E) (syscall_num new_regs) of
           Some syscall \<Rightarrow> si_augment syscall = AugExec | None \<Rightarrow> False)
     then act_bind (init_after_exec fuel E) (\<lambda>_. act_ret True)
     else act_ret False)"

definition syscall_round :: "nat \<Rightarrow> 'w env \<Rightarrow> usize \<Rightarrow> bool \<Rightarrow> ('w, bool) sact" where
  "syscall_round fuel E total_times first =
     act_bind (round_entry fuel E total_times first) (\<lambda>r.
     act_bind (round_call fuel E r) (\<lambda>_. round_end fuel E))"

fun loop_handle_tracee_syscalls :: "nat \<Rightarrow> nat \<Rightarrow> 'w env \<Rightarrow> usize \<Rightarrow> bool \<Rightarrow> ('w, unit) sact" where
  "loop_handle_tracee_syscalls 0 fuel E total_times first = act_err OutOfFuel"
| "loop_handle_tracee_syscalls (Suc rounds) fuel E total_times first =
     act_bind (syscall_round fuel E (total_times + 1) first) (\<lambda>first'.
     loop_handle_tracee_syscalls rounds fuel E (total_times + 1) first')"

section \<open>The life of a handler\<close>

text \<open>How the loops end: with a result, which is returned after the tracee's region is closed, or
  with an error of the event loop, or not within the fuel (\<open>None\<close>).\<close>

definition all_tracee_loops :: "nat \<Rightarrow> nat \<Rightarrow> 'w env \<Rightarrow> 'w handler \<Rightarrow> (sysaug_error + u8) option \<times> 'w handler" where
  "all_tracee_loops rounds fuel E h =
     (let closed = (\<lambda>result h.
            case with_mem E (\<lambda>mh. mh_close_tracee mh (e_pid E)) h of
              (Inl e, h') \<Rightarrow> (Some (Inl e), h')
            | (Inr _, h') \<Rightarrow> (Some result, h'))
      in case loop_handle_tracee_syscalls rounds fuel E 0 False h of
           (Inl (LoopsReturn result), h') \<Rightarrow> closed result h'
         | (Inl (SyscallFail e), h') \<Rightarrow> closed (Inl e) h'
         | (Inl (EventLoopFail e), h') \<Rightarrow> (Some (Inl e), h')
         | (Inl OutOfFuel, h') \<Rightarrow> (None, h')
         | (Inr _, h') \<Rightarrow> (None, h'))"

fun split_dots :: "string \<Rightarrow> string list" where
  "split_dots [] = [[]]"
| "split_dots (c # cs) =
     (if c = CHR ''.'' then [] # split_dots cs
      else case split_dots cs of part # parts \<Rightarrow> (c # part) # parts | [] \<Rightarrow> [[c]])"

text \<open>\<open>str::parse::<usize>\<close>: an optional plus sign, then digits, with the value in range.\<close>

definition is_digit :: "char \<Rightarrow> bool" where
  "is_digit c = (48 \<le> (of_char c :: nat) \<and> (of_char c :: nat) \<le> 57)"

definition digits_value :: "string \<Rightarrow> nat" where
  "digits_value s = foldl (\<lambda>n c. 10 * n + (of_char c - 48)) 0 s"

definition parse_usize :: "string \<Rightarrow> nat option" where
  "parse_usize s =
     (let ds = (case s of c # cs \<Rightarrow> if c = CHR ''+'' then cs else s | [] \<Rightarrow> [])
      in if ds \<noteq> [] \<and> list_all is_digit ds \<and> digits_value ds < 2 ^ 64 then Some (digits_value ds) else None)"

definition is_legacy_kernel :: "string \<Rightarrow> sysaug_error + bool" where
  "is_legacy_kernel release =
     (let parts = split_dots release; err = ParseKernelVersion release
      in res_bind (ok_or err (parse_usize (parts ! 0))) (\<lambda>major.
         res_bind (at_index parts 1) (\<lambda>minor_part.
         res_bind (ok_or err (parse_usize minor_part)) (\<lambda>minor.
         Inr (major \<le> 4 \<and> minor \<le> 7)))))"

definition attach_to :: "'w env \<Rightarrow> ('w, unit) hact" where
  "attach_to E =
     (if e_local_client E
      then exec_as (\<lambda>e. InternalExecutor (Attach e)) (ev_attach (e_events E) (e_pid E))
      else act_ret ())"

definition set_ptrace_options :: "'w env \<Rightarrow> ('w, unit) hact" where
  "set_ptrace_options E =
     act_bind (exec (waitpid_hang E (e_pid E))) (\<lambda>status.
     if \<not> is_trace_stop status \<and> \<not> is_still_alive status then act_err TraceeCrashed
     else exec_as PtraceSetOptions (ev_setoptions (e_events E)))"

definition transfer_to_gdb :: "'w env \<Rightarrow> ('w, u8) hact" where
  "transfer_to_gdb E =
     act_bind (exec_as GDBDetach (ev_detach (e_events E) (e_pid E) (Some SIGSTOP))) (\<lambda>_.
     act_bind (exec_as GDB (ev_gdb (e_events E) (e_pid E))) (\<lambda>status.
     act_ret (of_int (case status of Some code \<Rightarrow> code | None \<Rightarrow> - 1))))"

definition event_loop :: "nat \<Rightarrow> nat \<Rightarrow> 'w env \<Rightarrow> nix_error + string \<Rightarrow> 'w tracer \<Rightarrow> (sysaug_error + u8) option \<times> 'w tracer" where
  "event_loop rounds fuel E uname t =
     (case res_bind (map_err ReadKernelVersion uname) is_legacy_kernel of
        Inl e \<Rightarrow> (Some (Inl e), t)
      | Inr is_legacy \<Rightarrow>
          (case act_bind (attach_to E) (\<lambda>_. set_ptrace_options E) (handler_init E (handler_new t is_legacy)) of
             (Inl e, h) \<Rightarrow> (Some (Inl e), h_tracer h)
           | (Inr _, h) \<Rightarrow>
               (case all_tracee_loops rounds fuel E h of
                  (None, h) \<Rightarrow> (None, h_tracer h)
                | (Some result, h) \<Rightarrow>
                    if h_transfer_to_gdb h
                    then (case transfer_to_gdb E h of (r, h) \<Rightarrow> (Some r, h_tracer h))
                    else (Some result, h_tracer h))))"

end
