(* ===== verification/Calm_Actions.thy ===== *)
theory Calm_Actions
  imports Syscall_Phases Handler_Loop
begin

text \<open>
  What the augments do between two waits leaves the phase of the tracee alone and never ends with
  an error about an unexpected stop.  \<open>calm f Q m\<close> says both: \<open>m\<close> keeps what \<open>f\<close> observes of the
  state, and its errors are not in \<open>Q\<close>.  The rules follow the combinators; each operation of the
  memory helpers, the metadata, the path augments and \<open>execve\<close> is then shown calm once.  Of the host
  only \<open>calm_host\<close> is assumed: its file operations do not move the tracee.
\<close>

named_theorems calm_intros \<open>actions that keep the phase and raise no mismatch\<close>

definition calm :: "('s \<Rightarrow> 'v) \<Rightarrow> ('e \<Rightarrow> bool) \<Rightarrow> ('s, 'e, 'a) act \<Rightarrow> bool" where
  "calm f Q m \<longleftrightarrow> (\<forall>s. f (snd (m s)) = f s) \<and> no_err Q m"

definition harmless :: "('e \<Rightarrow> bool) \<Rightarrow> 'e + 'a \<Rightarrow> bool" where
  "harmless Q r \<longleftrightarrow> (\<forall>e. r = Inl e \<longrightarrow> \<not> Q e)"

section \<open>Results\<close>

lemma harmless_simps [simp]:
  "harmless Q (Inr x)" "harmless Q (Inl e) \<longleftrightarrow> \<not> Q e"
  by (simp_all add: harmless_def)

lemma harmless_bind [calm_intros]:
  "harmless Q r \<Longrightarrow> (\<And>x. harmless Q (f x)) \<Longrightarrow> harmless Q (res_bind r f)"
  by (cases r) simp_all

lemma harmless_map_err: "(\<And>e. \<not> Q (g e)) \<Longrightarrow> harmless Q (map_err g r)"
  by (cases r) simp_all

lemma harmless_ok_or: "\<not> Q e \<Longrightarrow> harmless Q (ok_or e x)"
  by (cases x) simp_all

section \<open>Rules\<close>

lemma calm_run: "calm f Q m \<Longrightarrow> m s = (r, s') \<Longrightarrow> f s' = f s \<and> harmless Q r"
  by (auto simp: calm_def no_err_def harmless_def) (metis snd_conv)

lemma calmI: "(\<And>s r s'. m s = (r, s') \<Longrightarrow> f s' = f s \<and> harmless Q r) \<Longrightarrow> calm f Q m"
  by (auto simp: calm_def no_err_def harmless_def) (metis prod.collapse)

lemma calm_ret [calm_intros]: "calm f Q (act_ret x)"
  by (simp add: calm_def no_err_def act_ret_def)

lemma calm_err: "\<not> Q e \<Longrightarrow> calm f Q (act_err e)"
  by (simp add: calm_def no_err_def act_err_def)

lemma calm_lift [calm_intros]: "harmless Q r \<Longrightarrow> calm f Q (act_lift r)"
  by (auto simp: calm_def no_err_def harmless_def act_lift_def)

lemma calm_get [calm_intros]: "calm f Q (act_get g)"
  by (simp add: calm_def no_err_def act_get_def)

lemma calm_look [calm_intros]: "(\<And>s. harmless Q (g s)) \<Longrightarrow> calm f Q (act_look g)"
  by (auto simp: calm_def no_err_def harmless_def act_look_def)

lemma calm_upd: "(\<And>s. f (g s) = f s) \<Longrightarrow> calm f Q (act_upd g)"
  by (simp add: calm_def no_err_def act_upd_def)

lemma calm_bind [calm_intros]:
  assumes m: "calm f Q m" and g: "\<And>x. calm f Q (g x)"
  shows "calm f Q (act_bind m g)"
proof (rule calmI)
  fix s r s' assume run: "act_bind m g s = (r, s')"
  obtain r1 s1 where m1: "m s = (r1, s1)" by fastforce
  show "f s' = f s \<and> harmless Q r"
    using calm_run [OF m m1] calm_run [OF g] run m1 by (cases r1) (auto simp: act_bind_run)
qed

lemma calm_if [calm_intros]: "calm f Q m \<Longrightarrow> calm f Q m' \<Longrightarrow> calm f Q (if b then m else m')"
  by simp

lemma calm_option [calm_intros]:
  "calm f Q m \<Longrightarrow> (\<And>x. calm f Q (g x)) \<Longrightarrow> calm f Q (case v of None \<Rightarrow> m | Some x \<Rightarrow> g x)"
  by (cases v) simp_all

lemma calm_prod [calm_intros]: "(\<And>x y. calm f Q (g x y)) \<Longrightarrow> calm f Q (case p of (x, y) \<Rightarrow> g x y)"
  by (cases p) simp

lemma calm_sum [calm_intros]:
  "(\<And>e. calm f Q (m e)) \<Longrightarrow> (\<And>x. calm f Q (g x)) \<Longrightarrow> calm f Q (case v of Inl e \<Rightarrow> m e | Inr x \<Rightarrow> g x)"
  by (cases v) simp_all

lemma calm_map_err: "calm f (\<lambda>e. Q (g e)) m \<Longrightarrow> calm f Q (act_map_err g m)"
  by (auto simp: calm_def act_map_err_def case_prod_beta intro: no_err_map_err [unfolded act_map_err_def case_prod_beta])

lemma calm_ignore [calm_intros]: "(\<And>s. f (snd (m s)) = f s) \<Longrightarrow> calm f Q (act_ignore m)"
  by (simp add: calm_def no_err_def act_ignore_def case_prod_beta)

lemma calm_state: "(\<And>s. calm f Q (g s)) \<Longrightarrow> calm f Q (\<lambda>s. g s s)"
  by (auto simp: calm_def no_err_def)

lemma calm_quiet: "quiet ph m \<Longrightarrow> no_err Q m \<Longrightarrow> calm (sync ph) Q m"
  by (simp add: calm_def quiet_def)

lemma calm_keeps: "calm f Q m \<Longrightarrow> f (snd (m s)) = f s"
  by (simp add: calm_def)

section \<open>Requests and the world\<close>

abbreviation keeps :: "('w \<Rightarrow> 'v) \<Rightarrow> ('w, 'e, 'a) act \<Rightarrow> bool" where
  "keeps ph m \<equiv> calm ph (\<lambda>_. False) m"

lemma keepsI: "(\<And>w. ph (snd (m w)) = ph w) \<Longrightarrow> keeps ph m"
  by (simp add: calm_def no_err_def)

lemma keeps_any: "calm f Q m \<Longrightarrow> keeps f m"
  by (simp add: calm_def no_err_def)

lemma sync_tracer:
  "ph (tr_world t) = ph (h_world h) \<Longrightarrow> sync ph (h\<lparr>h_tracer := t\<rparr>) = sync ph h"
  by (simp add: sync_def)

lemma calm_on_tracer:
  "calm (\<lambda>t. ph (tr_world t)) Q m \<Longrightarrow> calm (sync ph) Q (on_tracer m)"
  by (rule calmI) (auto simp: on_tracer_def intro!: sync_tracer split: prod.splits dest: calm_run)

lemma calm_on_world: "calm ph Q m \<Longrightarrow> calm (\<lambda>t. ph (tr_world t)) Q (on_world m)"
  by (rule calmI) (auto simp: on_world_def split: prod.splits dest: calm_run)

lemma calm_on_host [calm_intros]: "calm ph Q m \<Longrightarrow> calm (sync ph) Q (on_host m)"
  unfolding on_host_def by (intro calm_on_tracer calm_on_world)

lemma calm_exec_mem: "keeps (\<lambda>t. ph (tr_world t)) m \<Longrightarrow> calm (sync ph) is_mismatch (exec_mem m)"
  unfolding exec_mem_def by (rule calm_map_err, rule calm_on_tracer) simp

lemma calm_exec: "keeps ph m \<Longrightarrow> calm (sync ph) is_mismatch (exec m)"
  unfolding exec_def by (rule calm_map_err, rule calm_on_tracer, rule calm_on_world) simp

lemma keeps_map_err: "keeps ph m \<Longrightarrow> keeps ph (act_map_err g m)"
  by (rule calm_map_err)

lemma keeps_err: "keeps ph (act_err e)"
  by (rule calm_err) simp

lemma keeps_lift: "keeps ph (act_lift r)"
  by (rule calm_lift) (simp add: harmless_def)

lemmas keeps_intros = calm_ret calm_get calm_bind calm_if calm_option calm_prod keeps_err keeps_lift keeps_map_err

lemma with_mem_calm:
  assumes "\<And>p. keeps (\<lambda>t. ph (tr_world t)) (g (DIRECT_MEM_HELPERS (e_kernel E) p))"
    and "keeps (\<lambda>t. ph (tr_world t)) (g (SLOW_MEM_HELPERS (e_kernel E)))"
  shows "calm (sync ph) is_mismatch (with_mem E g)"
  unfolding with_mem_def
  by (rule calm_state, rule calm_exec_mem) (use assms in \<open>simp add: get_mem_helper_def\<close>)

section \<open>Memory helpers\<close>

lemma keeps_readers:
  "keeps (\<lambda>t. ph (tr_world t)) (mh_read_bytes (SLOW_MEM_HELPERS K) a n buf)"
  "keeps (\<lambda>t. ph (tr_world t)) (mh_read_bytes (DIRECT_MEM_HELPERS K p) a n buf)"
  "keeps (\<lambda>t. ph (tr_world t)) (mh_read_bytes_until_num_zeroes (SLOW_MEM_HELPERS K) a n)"
  "keeps (\<lambda>t. ph (tr_world t)) (mh_read_bytes_until_num_zeroes (DIRECT_MEM_HELPERS K p) a n)"
  by (rule keepsI, simp add: SLOW_MEM_HELPERS_def DIRECT_MEM_HELPERS_def
      slow_reader.read_world [OF prod.collapse [symmetric]] direct_reader.read_world [OF prod.collapse [symmetric]]
      slow_zero.until_world [OF prod.collapse [symmetric]] direct_zero.until_world [OF prod.collapse [symmetric]])+

lemma keeps_read_zero:
  "keeps (\<lambda>t. ph (tr_world t)) (mh_read_bytes_until_zero (SLOW_MEM_HELPERS K) a)"
  "keeps (\<lambda>t. ph (tr_world t)) (mh_read_bytes_until_zero (DIRECT_MEM_HELPERS K p) a)"
  using keeps_readers(3) [of ph K a 1] keeps_readers(4) [of ph K p a 1]
  by (simp_all add: SLOW_MEM_HELPERS_def DIRECT_MEM_HELPERS_def slow_read_bytes_until_zero_def
      direct_read_bytes_until_zero_def)

lemma keeps_read:
  "keeps (\<lambda>t. ph (tr_world t)) (mh_read (SLOW_MEM_HELPERS K) a)"
  "keeps (\<lambda>t. ph (tr_world t)) (mh_read (DIRECT_MEM_HELPERS K p) a)"
  by (rule keepsI, simp add: SLOW_MEM_HELPERS_def DIRECT_MEM_HELPERS_def on_world_def ptrace_read_def)+

lemma calm_read [calm_intros]: "calm (sync ph) is_mismatch (with_mem E (\<lambda>mh. mh_read mh a))"
  by (intro with_mem_calm keeps_read)

lemma calm_read_zero [calm_intros]:
  "calm (sync ph) is_mismatch (with_mem E (\<lambda>mh. mh_read_bytes_until_zero mh a))"
  by (intro with_mem_calm keeps_read_zero)

lemma calm_read_num_zeroes [calm_intros]:
  "calm (sync ph) is_mismatch (with_mem E (\<lambda>mh. mh_read_bytes_until_num_zeroes mh a n))"
  by (intro with_mem_calm keeps_readers)

text \<open>Reading structures.\<close>

lemma keeps_read_struct:
  "(\<And>a n buf. keeps f (mh_read_bytes mh a n buf)) \<Longrightarrow> keeps f (read_struct mh cs final cur)"
  unfolding read_struct_def Let_def by (intro keeps_intros)

lemma read_structs_loop_keeps:
  assumes "\<And>a n buf. keeps f (mh_read_bytes mh a n buf)"
  shows "read_structs_loop fuel mh cs final cur acc s = Some (r, s') \<Longrightarrow> f s' = f s"
proof (induction fuel arbitrary: cur acc s)
  case (Suc fuel)
  obtain r1 s1 where r1: "read_struct mh cs final cur s = (r1, s1)" by fastforce
  have "f s1 = f s" using calm_run [OF keeps_read_struct [OF assms] r1] by simp
  then show ?case using Suc r1 by (auto split: if_splits sum.splits)
qed simp

lemma keeps_read_structs:
  assumes "\<And>a n buf. keeps f (mh_read_bytes mh a n buf)" "0 < cs_header_size cs"
  shows "keeps f (\<lambda>s. the (read_bytes_to_structs mh cs a n s))"
proof (rule keepsI)
  fix s
  obtain r s' where r: "read_bytes_to_structs mh cs a n s = Some (r, s')"
    using read_structs_total [OF assms(2), of mh a n s] by blast
  then have "f s' = f s"
    using read_structs_loop_keeps [OF assms(1)]
    by (auto simp: read_bytes_to_structs_def Let_def simp del: read_structs_loop.simps split: sum.splits if_splits)
  with r show "f (snd (the (read_bytes_to_structs mh cs a n s))) = f s" by simp
qed

lemma read_objs_loop_keeps:
  assumes "\<And>a n buf. keeps f (mh_read_bytes mh a n buf)"
  shows "read_objs_loop fuel mh sz final cur acc s = Some (r, s') \<Longrightarrow> f s' = f s"
proof (induction fuel arbitrary: cur acc s)
  case (Suc fuel)
  let ?m = "act_bind (mh_read_bytes mh cur sz (replicate (unat MAX_STRUCT_SIZE) 0))
      (\<lambda>buffer. act_bind (act_lift (checked_add cur sz))
      (\<lambda>next_addr. act_ret (take (unat sz) buffer, next_addr)))"
  obtain r1 s1 where r1: "?m s = (r1, s1)" by fastforce
  have "keeps f ?m" by (intro keeps_intros assms)
  then have s1: "f s1 = f s" using calm_keeps [of f _ ?m s] r1 by simp
  have run: "read_objs_loop (Suc fuel) mh sz final cur acc s =
      (if cur < final then (case r1 of Inl e \<Rightarrow> Some (Inl e, s1)
         | Inr (item, next_addr) \<Rightarrow> read_objs_loop fuel mh sz final next_addr (acc @ [item]) s1)
       else Some (Inr acc, s))"
    unfolding read_objs_loop.simps r1 by (cases r1) simp_all
  show ?case
  proof (cases r1)
    case (Inl e)
    then show ?thesis using Suc.prems s1 unfolding run by (simp split: if_splits)
  next
    case (Inr x)
    then show ?thesis using Suc.prems Suc.IH s1 unfolding run by (cases x) (auto split: if_splits)
  qed
qed simp

lemma keeps_read_objs:
  assumes "\<And>a n buf. keeps f (mh_read_bytes mh a n buf)"
  shows "keeps f (\<lambda>s. the (read_bytes_to_fixed_sized_objs mh sz a n s))"
proof (rule keepsI)
  fix s
  obtain r s' where r: "read_bytes_to_fixed_sized_objs mh sz a n s = Some (r, s')"
    using read_objs_total [of mh sz a n s] by blast
  then have "f s' = f s"
    using read_objs_loop_keeps [OF assms]
    by (auto simp: read_bytes_to_fixed_sized_objs_def simp del: read_objs_loop.simps split: sum.splits if_splits)
  with r show "f (snd (the (read_bytes_to_fixed_sized_objs mh sz a n s))) = f s" by simp
qed

text \<open>Writing.\<close>

lemma keeps_ptrace_write: "phase_kernel E legacy ph \<Longrightarrow> keeps ph (ptrace_write (e_kernel E) a v)"
  by (rule keepsI) (auto simp: ptrace_write_def phase_kernel_def split: sum.splits)

lemma keeps_getregs: "keeps ph (getregs K)"
  by (rule keepsI) (simp add: getregs_def)

lemma keeps_setregs: "phase_kernel E legacy ph \<Longrightarrow> keeps ph (setregs (e_kernel E) r)"
  by (rule keepsI) (auto simp: setregs_def phase_kernel_def split: sum.splits)

lemma keeps_checked_write: "phase_kernel E legacy ph \<Longrightarrow> keeps ph (checked_write (e_kernel E) a b v)"
  unfolding checked_write_def by (intro keeps_intros keeps_ptrace_write)

lemma keeps_write_words: "phase_kernel E legacy ph \<Longrightarrow> keeps ph (write_words (e_kernel E) ws a)"
proof (induction ws arbitrary: a)
  case (Cons w ws)
  then show ?case unfolding write_words.simps by (intro keeps_intros keeps_ptrace_write)
qed (simp add: calm_ret)

lemma keeps_write_shrunk:
  "phase_kernel E legacy ph \<Longrightarrow> keeps ph (write_shrunk_words (e_kernel E) c m ws z s a)"
proof (induction ws arbitrary: z s a)
  case (Cons w ws)
  then show ?case unfolding write_shrunk_words.simps by (intro keeps_intros keeps_checked_write)
qed (simp add: calm_ret)

lemma keeps_write_struct:
  "phase_kernel E legacy ph \<Longrightarrow> keeps ph (write_struct (e_kernel E) cs c m k item a)"
  unfolding write_struct_def Let_def by (intro keeps_intros keeps_write_words keeps_write_shrunk)

lemma keeps_write_structs_loop:
  "phase_kernel E legacy ph \<Longrightarrow> keeps ph (write_structs_loop (e_kernel E) cs c m k its a)"
proof (induction its arbitrary: a)
  case (Cons i its)
  then show ?case unfolding write_structs_loop.simps by (intro keeps_intros keeps_write_struct)
qed (simp add: calm_ret)

lemma keeps_write_structs:
  "phase_kernel E legacy ph \<Longrightarrow> keeps ph (write_structs_to_tracee (e_kernel E) cs a n its c)"
  unfolding write_structs_to_tracee_def Let_def by (intro keeps_intros keeps_write_structs_loop)

lemma keeps_write_objs_loop:
  "phase_kernel E legacy ph \<Longrightarrow> keeps ph (write_objs_loop (e_kernel E) sz m its a)"
proof (induction its arbitrary: a)
  case (Cons i its)
  then show ?case unfolding write_objs_loop.simps by (intro keeps_intros keeps_write_words)
qed (simp add: calm_ret)

lemma keeps_write_objs:
  "phase_kernel E legacy ph \<Longrightarrow> keeps ph (write_fixed_sized_objs_to_tracee (e_kernel E) sz a n its)"
  unfolding write_fixed_sized_objs_to_tracee_def by (intro keeps_intros keeps_write_objs_loop)

lemma keeps_slow_write:
  "phase_kernel E legacy ph \<Longrightarrow>
   keeps (\<lambda>t. ph (tr_world t)) (mh_write_bytes_to_tracee (SLOW_MEM_HELPERS (e_kernel E)) off bs)"
  unfolding SLOW_MEM_HELPERS_def mem_helpers.simps slow_write_bytes_to_tracee_def slow_write_words_def
  by (intro calm_on_world keeps_intros keeps_getregs keeps_write_words)

lemma keeps_direct_write: "keeps (\<lambda>t. ph (tr_world t)) (mh_write_bytes_to_tracee (DIRECT_MEM_HELPERS K p) off bs)"
proof -
  have "keeps (\<lambda>t. ph (tr_world t)) (get_own_region_id q)" "keeps (\<lambda>t. ph (tr_world t)) (get_region_box i)" for q i
    by (rule keepsI, simp add: get_own_region_id_def get_region_box_def Let_def split: option.splits)+
  moreover have "keeps (\<lambda>t. ph (tr_world t)) (act_upd (put_region_box i b))" for i b
    by (rule calm_upd) (simp add: put_region_box_def)
  ultimately show ?thesis
    unfolding DIRECT_MEM_HELPERS_def mem_helpers.simps direct_write_bytes_to_tracee_def
    by (intro keeps_intros)
qed

lemma calm_getregs [calm_intros]: "calm (sync ph) is_mismatch (exec (getregs K))"
  by (intro calm_exec keeps_getregs)

lemma calm_setregs [calm_intros]:
  "phase_kernel E legacy ph \<Longrightarrow> calm (sync ph) is_mismatch (exec (setregs (e_kernel E) r))"
  by (intro calm_exec keeps_setregs)

lemma calm_ptrace_write [calm_intros]:
  "phase_kernel E legacy ph \<Longrightarrow> calm (sync ph) is_mismatch (exec (ptrace_write (e_kernel E) a v))"
  by (intro calm_exec keeps_ptrace_write)

lemma calm_set_syscall_num [calm_intros]:
  "phase_kernel E legacy ph \<Longrightarrow> calm (sync ph) is_mismatch (exec (set_syscall_num (e_kernel E) v))"
  unfolding set_syscall_num_def by (intro calm_exec keeps_intros keeps_getregs keeps_setregs)

lemma calm_write_structs [calm_intros]:
  "phase_kernel E legacy ph \<Longrightarrow>
   calm (sync ph) is_mismatch (exec (write_structs_to_tracee (e_kernel E) cs a n its c))"
  by (intro calm_exec keeps_write_structs)

lemma calm_write_objs [calm_intros]:
  "phase_kernel E legacy ph \<Longrightarrow>
   calm (sync ph) is_mismatch (exec (write_fixed_sized_objs_to_tracee (e_kernel E) sz a n its))"
  by (intro calm_exec keeps_write_objs)

lemma calm_stack_append [calm_intros]:
  assumes "phase_kernel E legacy ph"
  shows "calm (sync ph) is_mismatch (tracee_stack_append E bs)"
  unfolding tracee_stack_append_def
  by (rule calm_state)
    (intro calm_intros with_mem_calm keeps_slow_write [OF assms] keeps_direct_write calm_upd, simp add: sync_def)

lemma calm_stack_append_str [calm_intros]:
  "phase_kernel E legacy ph \<Longrightarrow> calm (sync ph) is_mismatch (tracee_stack_append_str E s)"
  "phase_kernel E legacy ph \<Longrightarrow> calm (sync ph) is_mismatch (tracee_stack_append_path E p)"
  "phase_kernel E legacy ph \<Longrightarrow> calm (sync ph) is_mismatch (tracee_stack_append_fixed_size_obj E b)"
  unfolding tracee_stack_append_str_def tracee_stack_append_path_def tracee_stack_append_fixed_size_obj_def
  by (rule calm_stack_append, assumption)+

lemma calm_read_dirents [calm_intros]:
  assumes "T = IDirent64 \<or> T = IDirent32"
  shows "calm (sync ph) is_mismatch (read_dirents E T a n)"
proof -
  have "0 < cs_header_size (id_struct T)"
    using assms dirent64.header_nonempty dirent32.header_nonempty by (auto simp: IDirent64_def IDirent32_def)
  then show ?thesis
    unfolding read_dirents_def by (intro with_mem_calm keeps_read_structs keeps_readers)
qed

end
