(* ===== verification/Calm_Augments.thy ===== *)
theory Calm_Augments
  imports Calm_Actions
begin

text \<open>
  The metadata operations, the translation of paths, the path augments and the expansion of
  \<open>execve\<close> are calm.
\<close>

definition calm_host :: "'w env \<Rightarrow> ('w \<Rightarrow> phase) \<Rightarrow> bool" where
  "calm_host E ph \<longleftrightarrow>
     (\<forall>p. keeps ph (ho_create_dir_all (e_host E) p) \<and> keeps ph (ho_remove_file (e_host E) p) \<and>
          keeps ph (ho_remove_dir_all (e_host E) p) \<and> keeps ph (ho_open_create (e_host E) p) \<and>
          keeps ph (ho_flock (e_host E) p) \<and> keeps ph (ho_truncate (e_host E) p)) \<and>
     (\<forall>p q. keeps ph (ho_rename (e_host E) p q) \<and> keeps ph (ho_symlink (e_host E) p q)) \<and>
     (\<forall>p m. keeps ph (ho_to_json (e_host E) p m)) \<and>
     (\<forall>w. ph (snd (ho_uuid (e_host E) w)) = ph w)"

section \<open>Errors of the pure operations\<close>

lemma index_panic_mismatch [simp]: "\<not> is_mismatch index_panic"
  by (simp add: index_panic_def)

lemma harmless_at_index [calm_intros]: "harmless is_mismatch (at_index xs i)"
  by (simp add: at_index_def)

lemma harmless_metadata_dir [calm_intros]: "harmless is_mismatch (get_metadata_dir E)"
  by (simp add: get_metadata_dir_def split: option.splits)

lemma harmless_read_symlink [calm_intros]: "harmless is_mismatch (read_symlink E w p)"
  unfolding read_symlink_def
  by (auto split: sum.splits bool.splits intro!: harmless_bind harmless_map_err)

lemma harmless_metadata_path [calm_intros]: "harmless is_mismatch (get_metadata_path E w p)"
proof -
  have "harmless is_mismatch (resolve_metadata_path E w p)"
    unfolding resolve_metadata_path_def Let_def
    by (auto split: sum.splits option.splits intro!: harmless_bind harmless_metadata_dir harmless_read_symlink)
  then show ?thesis by (simp add: get_metadata_path_def)
qed

lemma harmless_read_metadata [calm_intros]: "harmless is_mismatch (read_metadata_for_file E w p)"
  unfolding read_metadata_for_file_def
  by (auto split: option.splits intro!: harmless_bind harmless_metadata_path harmless_map_err)

lemma harmless_follow_link: "harmless is_mismatch (calc_follow_symlink E w p s v a)"
proof (induction E w p s v a rule: calc_follow_symlink.induct)
  case (1 E w p s v a)
  have n: "harmless is_mismatch (nofollow_flag s a)"
    by (simp add: nofollow_flag_def split: option.splits)
  have f: "harmless is_mismatch (follow_one_link E w p v)"
    unfolding follow_one_link_def
    by (auto split: option.splits intro!: harmless_bind harmless_read_symlink harmless_metadata_dir)
  show ?case
    using 1 n f by (subst calc_follow_symlink.simps) (auto split: sum.splits bool.splits)
qed

lemma harmless_simple: "harmless is_mismatch (calc_real_path_simple E h p)"
  by (simp add: calc_real_path_simple_def split: option.splits)

lemma harmless_recurse: "harmless is_mismatch (calc_real_path_recurse d E h p s v a)"
proof (induction d arbitrary: p v)
  case (Suc d)
  then show ?case
    by (auto simp: Let_def split: path_action.splits sum.splits bool.splits
        intro!: harmless_bind harmless_simple harmless_follow_link)
qed (simp add: stack_overflow_def)

lemma harmless_real_path [calm_intros]: "harmless is_mismatch (calc_real_path E h p s a)"
  unfolding calc_real_path_def by (rule harmless_recurse)

lemma harmless_procfs [calm_intros]: "harmless is_mismatch (map_err Procfs r)"
  by (rule harmless_map_err) simp

lemma harmless_dirfd [calm_intros]: "harmless is_mismatch (get_dirfd_path E r s i w)"
  unfolding get_dirfd_path_def Let_def
  by (auto split: option.splits intro!: harmless_procfs)

section \<open>Metadata\<close>

lemma calm_io: "keeps ph m \<Longrightarrow> (\<And>e. \<not> is_mismatch (g e)) \<Longrightarrow> calm ph is_mismatch (act_map_err g m)"
  by (rule calm_map_err) simp

lemma calm_err_mismatch: "\<not> is_mismatch e \<Longrightarrow> calm f is_mismatch (act_err e)"
  by (rule calm_err)

lemma calm_ignored: "keeps f m \<Longrightarrow> calm f Q (act_ignore m)"
  by (rule calm_ignore) (rule calm_keeps)

lemma calm_save_metadata [calm_intros]:
  assumes "calm_host E ph"
  shows "calm ph is_mismatch (save_metadata_for_file E p f)"
  unfolding save_metadata_for_file_def
  using assms unfolding calm_host_def
  by (intro calm_intros calm_io calm_err_mismatch calm_ignored harmless_map_err) simp_all

lemma calm_delete_dir [calm_intros]:
  assumes "calm_host E ph"
  shows "calm ph is_mismatch (delete_dir_metadata E p)"
  unfolding delete_dir_metadata_def
  by (rule calm_state) (use assms in \<open>intro calm_intros calm_ignored, simp add: calm_host_def\<close>)

lemma calm_delete_metadata [calm_intros]:
  assumes "calm_host E ph"
  shows "calm ph is_mismatch (delete_metadata_for_file E p)"
proof -
  have "calm ph is_mismatch (\<lambda>w. (case ho_canonicalize (e_host E) w p of
      Inr p \<Rightarrow> act_ignore (ho_remove_file (e_host E) p) | Inl _ \<Rightarrow> act_ret ()) w)"
    by (rule calm_state) (use assms in \<open>auto simp: calm_host_def split: sum.splits intro: calm_ignored calm_ret\<close>)
  then show ?thesis
    unfolding delete_metadata_for_file_def
    using assms by (intro calm_intros calm_ignored) (simp_all add: calm_host_def)
qed

lemma calm_increment [calm_intros]:
  "calm_host E ph \<Longrightarrow> calm ph is_mismatch (increment_hardlink_counter E p)"
  unfolding increment_hardlink_counter_def by (intro calm_intros)

lemma calm_store_hardlink [calm_intros]:
  assumes "calm_host E ph"
  shows "calm ph is_mismatch (store_hardlink E m p)"
proof -
  have "calm ph is_mismatch (\<lambda>w. case ho_uuid (e_host E) w of (u, w') \<Rightarrow> (Inr u, w'))"
    using assms by (simp add: calm_def no_err_def calm_host_def case_prod_beta)
  then show ?thesis
    unfolding store_hardlink_def Let_def
    using assms by (intro calm_intros calm_io calm_ignored) (simp_all add: calm_host_def)
qed

section \<open>The path augments\<close>

abbreviation calmp :: "('w \<Rightarrow> phase) \<Rightarrow> ('e \<Rightarrow> bool) \<Rightarrow> ('w handler \<times> augment_state, 'e, 'a) act \<Rightarrow> bool" where
  "calmp ph Q m \<equiv> calm (\<lambda>s. sync ph (fst s)) Q m"

lemma calm_on_handler [calm_intros]: "calm (sync ph) Q m \<Longrightarrow> calmp ph Q (on_handler m)"
  by (rule calmI) (auto simp: on_handler_def split: prod.splits dest: calm_run)

lemma calm_on_state [calm_intros]: "calmp ph Q (on_state f)"
  by (rule calmI) (auto simp: on_state_def)

lemma calm_on_file [calm_intros]: "calm ph Q m \<Longrightarrow> calmp ph Q (on_file m)"
  unfolding on_file_def by (intro calm_intros)

lemma calm_each_path: "(\<And>p. calm f Q (g p)) \<Longrightarrow> calm f Q (each_path g ps)"
proof (induction ps)
  case (Cons p ps)
  then show ?case by (cases p) (simp_all add: calm_bind)
qed (simp add: calm_ret)

lemma calm_for_saved_path [calm_intros]: "(\<And>p. calmp ph Q (g p)) \<Longrightarrow> calmp ph Q (for_saved_path g)"
  unfolding for_saved_path_def by (intro calm_intros calm_each_path)

lemma calm_first_saved_path [calm_intros]:
  "(\<And>p i. calmp ph Q (g p i)) \<Longrightarrow> calmp ph Q (first_saved_path_mut g)"
  unfolding first_saved_path_mut_def by (intro calm_intros)

lemma calm_saved_path_idx [calm_intros]:
  "(\<And>p. calmp ph is_mismatch (g p)) \<Longrightarrow> calmp ph is_mismatch (saved_path_idx i g)"
  unfolding saved_path_idx_def by (intro calm_intros)

lemma calm_saved_path_pair [calm_intros]:
  "(\<And>p q. calmp ph is_mismatch (g p q)) \<Longrightarrow> calmp ph is_mismatch (saved_path_pair i j g)"
  unfolding saved_path_pair_def by (intro calm_intros) (simp split: option.splits add: calm_ret)

lemma calm_parse_paths [calm_intros]:
  "calm (sync ph) is_mismatch (parse_paths E r s args is ps need)"
proof (induction "is" arbitrary: ps need)
  case (Cons i "is")
  have "calm (sync ph) is_mismatch (case a of
      Override p \<Rightarrow> parse_paths E r s args is (ps[i := Some (f p)]) n
    | ELOOP \<Rightarrow> act_ret x | _ \<Rightarrow> parse_paths E r s args is (ps[i := Some q]) need)" for a f n x q
    using Cons by (cases a) (simp_all add: calm_ret)
  then show ?case
    unfolding parse_paths.simps Let_def by (intro calm_intros Cons)
qed (simp add: calm_ret)

lemma calm_parse_state [calm_intros]: "calm (sync ph) is_mismatch (aug_paths_do_parse_state E r s)"
  unfolding aug_paths_do_parse_state_def Let_def by (intro calm_intros)

lemma calm_write_paths:
  "phase_kernel E legacy ph \<Longrightarrow> calmp ph is_mismatch (write_paths E need is)"
proof (induction "is")
  case (Cons i "is")
  then show ?case unfolding write_paths.simps by (intro calm_intros)
qed (simp add: calm_ret)

lemma calm_write_registers [calm_intros]:
  "phase_kernel E legacy ph \<Longrightarrow> calmp ph is_mismatch (aug_paths_do_write_registers E)"
  unfolding aug_paths_do_write_registers_def by (intro calm_intros calm_write_paths)

text \<open>The errors of the parts after the call carry an option.\<close>

definition late_mismatch :: "sysaug_error option \<Rightarrow> bool" where
  "late_mismatch e = (case e of Some e \<Rightarrow> is_mismatch e | None \<Rightarrow> False)"

lemma calm_after [calm_intros]: "calmp ph is_mismatch m \<Longrightarrow> calmp ph late_mismatch (after m)"
  unfolding after_def by (rule calm_map_err) (simp add: late_mismatch_def)

lemma calm_with_output [calm_intros]:
  "(\<And>r v. calmp ph late_mismatch (g r v)) \<Longrightarrow> calmp ph late_mismatch (with_output out g)"
  by (simp add: with_output_def late_mismatch_def calm_err split: sum.splits)

lemma calm_look_file [calm_intros]:
  "(\<And>w. harmless Q (g w)) \<Longrightarrow> calmp ph Q (on_file (act_look g))"
  by (intro calm_intros)

lemma calm_create_hardlink [calm_intros]:
  assumes "calm_host E ph"
  shows "calmp ph is_mismatch (create_hardlink E m p q)"
  unfolding create_hardlink_def
  using assms by (intro calm_intros calm_err_mismatch harmless_map_err calm_io) (simp_all add: calm_host_def)

lemma calm_follow_hardlink [calm_intros]: "calmp ph is_mismatch (follow_hardlink E s p i)"
  unfolding follow_hardlink_def by (intro calm_intros harmless_map_err) simp_all

lemma calm_rename_hardlinks [calm_intros]:
  assumes "calm_host E ph"
  shows "calmp ph is_mismatch (rename_hardlinks E m p q)"
  unfolding rename_hardlinks_def Let_def by (intro calm_intros assms) simp_all

lemma calm_rename_metadata [calm_intros]:
  assumes "calm_host E ph"
  shows "calmp ph is_mismatch (rename_metadata E p q)"
  unfolding rename_metadata_def
  using assms by (intro calm_intros calm_io) (simp_all add: calm_host_def)

lemma calm_renamed [calm_intros]: "calmp ph is_mismatch (renamed_to_hardlink E m j)"
  unfolding renamed_to_hardlink_def by (intro calm_intros) simp

lemma calm_perms_position [calm_intros]:
  "harmless is_mismatch (perms_position msg s)" "harmless is_mismatch (flags_position s)"
  by (simp_all add: perms_position_def flags_position_def harmless_ok_or)

lemma calm_save_each [calm_intros]: "calm_host E ph \<Longrightarrow> calmp ph is_mismatch (save_each E f)"
  unfolding save_each_def by (intro calm_intros)

lemma calm_modify_entries [calm_intros]: "harmless is_mismatch (modify_entries E T es)"
proof (induction es)
  case (Cons e es)
  have "harmless is_mismatch (modify_entry E T e)"
    by (simp add: modify_entry_def Let_def split: path_action.splits)
  with Cons show ?case by (simp add: harmless_bind)
qed simp

lemma calm_replace_getdents [calm_intros]:
  assumes "phase_kernel E legacy ph" "T = IDirent64 \<or> T = IDirent32"
  shows "calm (sync ph) is_mismatch (replace_getdents_result E T r)"
  unfolding replace_getdents_result_def Let_def using assms by (intro calm_intros)

lemma calm_replace_stat [calm_intros]:
  assumes "phase_kernel E legacy ph"
  shows "calm (sync ph) is_mismatch (replace_statbuf_result E T a p)"
  unfolding replace_statbuf_result_def Let_def
  using assms by (intro calm_intros with_mem_calm keeps_read_objs keeps_readers)

lemma calm_deletion: "calm_host E ph \<Longrightarrow> calmp ph is_mismatch (augment_deletion E s)"
  unfolding augment_deletion_def deletion_path_def by (intro calm_intros)

lemma calm_hardlink_following: "calmp ph is_mismatch (augment_hardlink_following E s)"
  unfolding augment_hardlink_following_def by (intro calm_intros)

section \<open>The parts before and after the call\<close>

lemma calm_getdents_before: "calmp ph is_mismatch (getdents_before s)"
proof -
  have "calmp ph is_mismatch (\<lambda>(h, st). (Inr (), (h, write_arg 2 (as_orig_args st ! 2 div 2) st)))"
    by (rule calmI) auto
  then show ?thesis unfolding getdents_before_def by (intro calm_intros)
qed

lemma calm_before:
  assumes "calm_host E ph" "a \<in> set (weak_augments E s)"
  shows "calmp ph is_mismatch (wa_before a)"
proof -
  have "calmp ph is_mismatch (chmod_before E s)" "calmp ph is_mismatch (chmod_on_creation_before E s)"
    "calmp ph is_mismatch (chown_before E s)" "calmp ph is_mismatch (stat_before s)"
    unfolding chmod_before_def chmod_on_creation_before_def chown_before_def stat_before_def
    by (intro calm_intros)+
  moreover have "calmp ph is_mismatch (hardlink_rename_before E s)" "calmp ph is_mismatch (hardlink_creation_before E s)"
    unfolding hardlink_rename_before_def hardlink_creation_before_def
    by (intro calm_intros assms(1))+
  ultimately show ?thesis
    using assms(2) calm_getdents_before by (auto simp: weak_augments_def calm_ret)
qed

lemma calm_late:
  assumes "phase_kernel E legacy ph" "calm_host E ph" "a \<in> set (weak_augments E s)"
  shows "calmp ph late_mismatch (wa_after a out)"
proof -
  have "calmp ph late_mismatch (chmod_after E s out)" "calmp ph late_mismatch (chmod_on_creation_after E s out)"
    "calmp ph late_mismatch (chown_after E s out)"
    unfolding chmod_after_def chmod_on_creation_after_def chown_after_def save_chmod_def
    by (intro calm_intros assms(2))+
  moreover have "calmp ph late_mismatch (hardlink_rename_after E s out)"
    "calmp ph late_mismatch (hardlink_creation_after E s out)"
    "calmp ph late_mismatch (symlink_creation_after E s out)"
    unfolding hardlink_rename_after_def hardlink_creation_after_def symlink_creation_after_def
    by (intro calm_intros assms(2))+
  moreover have "calmp ph late_mismatch (getdents_after E s out)"
    unfolding getdents_after_def by (intro calm_intros) (rule assms(1) | simp)+
  moreover have "calmp ph late_mismatch (stat_after E s out)"
    unfolding stat_after_def by (intro calm_intros) (rule assms(1))+
  ultimately show ?thesis using assms(3) by (auto simp: weak_augments_def)
qed

lemma calm_run_before:
  "(\<And>a. a \<in> set augs \<Longrightarrow> calmp ph is_mismatch (wa_before a)) \<Longrightarrow> calmp ph is_mismatch (run_before augs)"
proof (induction augs)
  case (Cons a augs)
  then show ?case unfolding run_before.simps by (intro calm_intros) simp_all
qed (simp add: calm_ret)

lemma calm_run_after:
  "(\<And>g. g \<in> set fs \<Longrightarrow> calmp ph late_mismatch (g out)) \<Longrightarrow> calmp ph late_mismatch (run_after fs out)"
proof (induction fs)
  case (Cons g fs)
  then show ?case unfolding run_after.simps by (intro calm_intros) simp_all
qed (simp add: calm_ret)

lemma run_before_parts:
  "run_before augs s = (Inr fs, s') \<Longrightarrow> set fs \<subseteq> wa_after ` set augs"
proof (induction augs arbitrary: s fs)
  case (Cons a augs)
  then show ?case by (fastforce simp: act_bind_Inr_iff act_ret_def split: if_splits)
qed (simp add: act_ret_def)

section \<open>The expansion of a program\<close>

lemma harmless_interpreter [calm_intros]: "harmless is_mismatch (interpreter_path E h s args p)"
  unfolding interpreter_path_def by (intro calm_intros) simp

lemma harmless_container [calm_intros]: "harmless is_mismatch (container_path E w p)"
proof -
  have "harmless is_mismatch (map_err ConvertAbsolutePath r)" for r :: "io_error + path"
    by (rule harmless_map_err) simp
  then show ?thesis
    unfolding container_path_def Let_def
    by (auto split: option.splits intro!: harmless_bind harmless_ok_or)
qed

lemma harmless_argv_tail [calm_intros]: "harmless is_mismatch (argv_tail bs)"
  by (simp add: argv_tail_def)

lemma harmless_shebang [calm_intros]: "harmless is_mismatch (parse_shebang E p w)"
  unfolding parse_shebang_def by (intro calm_intros harmless_map_err) simp_all

lemma harmless_read_bin [calm_intros]: "harmless is_mismatch (map_err ReadBin r)"
  by (rule harmless_map_err) simp

lemma calm_exec_setids [calm_intros]: "calm (sync ph) is_mismatch (exec_setids E p)"
  by (rule calmI) (auto simp: exec_setids_def exec_setid_def Let_def sync_def split: sum.splits)

lemma calm_real_program [calm_intros]: "calm (sync ph) is_mismatch (real_program E s args p)"
  unfolding real_program_def by (intro calm_intros)

lemma calm_exec_interpreted [calm_intros]:
  "phase_kernel E legacy ph \<Longrightarrow> calm (sync ph) is_mismatch (exec_interpreted E s args p q argv phdr r)"
  unfolding exec_interpreted_def by (intro calm_intros)

lemma calm_exec_script [calm_intros]:
  "phase_kernel E legacy ph \<Longrightarrow> calm (sync ph) is_mismatch (exec_script E parts argv r)"
  unfolding exec_script_def by (intro calm_intros)

lemma calm_expand_exec [calm_intros]:
  assumes "phase_kernel E legacy ph"
  shows "calm (sync ph) is_mismatch (expand_exec_with_parser d E s r)"
proof (induction d arbitrary: r)
  case (Suc d)
  then show ?case unfolding expand_exec_with_parser.simps Let_def by (intro calm_intros Suc) (rule assms)+
qed (simp add: stack_overflow_def calm_err)

section \<open>Permissions and waiting for children\<close>

lemma calm_sysenter_perms [calm_intros]: "calm (sync ph) is_mismatch (do_sysenter_perms E r s)"
  by (intro calm_quiet quiet_do_sysenter_perms no_err_do_sysenter_perms)

lemma calm_sysexit_perms [calm_intros]:
  "phase_kernel E legacy ph \<Longrightarrow> calm (sync ph) is_mismatch (do_sysexit_perms E r s)"
  by (intro calm_quiet quiet_do_sysexit_perms no_err_do_sysexit_perms)

lemma calm_hide_sigstop [calm_intros]:
  "phase_kernel E legacy ph \<Longrightarrow> calm (sync ph) is_mismatch (hide_sigstop E st r c)"
  unfolding hide_sigstop_def Let_def by (intro calm_intros calm_upd) (simp_all add: sync_def)

end
