(* ===== verification/Augment_Rounds.thy ===== *)
theory Augment_Rounds
  imports Calm_Augments
begin

text \<open>
  One round of the system-call loop.  \<open>triple P m Q\<close> is a Hoare triple for actions that may
  fail: from a state with \<open>P\<close>, \<open>m\<close> either succeeds in a state with \<open>Q\<close> or ends without an error about
  an unexpected stop.  \<open>inside\<close> and \<open>outside\<close> are the two states of the handler that are in step with
  the kernel.  Every augment leads from inside a system call to outside of it: it waits for exactly
  one exit.
\<close>

definition triple :: "('s \<Rightarrow> bool) \<Rightarrow> ('s, stop, 'a) act \<Rightarrow> ('s \<Rightarrow> bool) \<Rightarrow> bool" where
  "triple P m Q \<longleftrightarrow> (\<forall>s. P s \<longrightarrow> (case m s of (Inr _, s') \<Rightarrow> Q s' | (Inl e, _) \<Rightarrow> \<not> stop_mismatch e))"

definition inside :: "('w \<Rightarrow> phase) \<Rightarrow> bool \<Rightarrow> 'w handler \<Rightarrow> bool" where
  "inside ph legacy h \<longleftrightarrow> in_step ph h \<and> h_after_syscall_entry h \<and> h_legacy_seccomp h = legacy"

definition outside :: "('w \<Rightarrow> phase) \<Rightarrow> bool \<Rightarrow> 'w handler \<Rightarrow> bool" where
  "outside ph legacy h \<longleftrightarrow> in_step ph h \<and> \<not> h_after_syscall_entry h \<and> h_legacy_seccomp h = legacy"

section \<open>Rules\<close>

lemma tripleI:
  "(\<And>s x s'. P s \<Longrightarrow> m s = (Inr x, s') \<Longrightarrow> Q s') \<Longrightarrow>
   (\<And>s e s'. P s \<Longrightarrow> m s = (Inl e, s') \<Longrightarrow> \<not> stop_mismatch e) \<Longrightarrow> triple P m Q"
  by (auto simp: triple_def split: prod.splits sum.splits)

lemma tripleD:
  "triple P m Q \<Longrightarrow> P s \<Longrightarrow> m s = (Inr x, s') \<Longrightarrow> Q s'"
  "triple P m Q \<Longrightarrow> P s \<Longrightarrow> m s = (Inl e, s') \<Longrightarrow> \<not> stop_mismatch e"
  by (fastforce simp: triple_def)+

lemma triple_bind: "triple P m R \<Longrightarrow> (\<And>x. triple R (f x) Q) \<Longrightarrow> triple P (act_bind m f) Q"
  by (rule tripleI)
    (auto simp: act_bind_run split: prod.splits sum.splits dest: tripleD)

lemma triple_calm:
  "calm f stop_mismatch m \<Longrightarrow> (\<And>s s'. f s' = f s \<Longrightarrow> P s \<Longrightarrow> P s') \<Longrightarrow> triple P m P"
  by (rule tripleI) (auto dest: calm_run)

lemma triple_ret: "(\<And>s. P s \<Longrightarrow> Q s) \<Longrightarrow> triple P (act_ret x) Q"
  by (simp add: triple_def act_ret_def)

lemma triple_if: "triple P m Q \<Longrightarrow> triple P m' Q \<Longrightarrow> triple P (if b then m else m') Q"
  by simp

lemma triple_option:
  "triple P m Q \<Longrightarrow> (\<And>x. triple P (f x) Q) \<Longrightarrow> triple P (case v of None \<Rightarrow> m | Some x \<Rightarrow> f x) Q"
  by (cases v) simp_all

lemma triple_pair: "(\<And>x y. triple P (f x y) Q) \<Longrightarrow> triple P (case v of (x, y) \<Rightarrow> f x y) Q"
  by (cases v) simp

lemma triple_err: "\<not> stop_mismatch e \<Longrightarrow> triple P (act_err e) Q"
  by (simp add: triple_def act_err_def)

lemmas triple_rules = triple_bind triple_if triple_option triple_pair

lemma sync_inside: "sync ph h' = sync ph h \<Longrightarrow> inside ph l h \<Longrightarrow> inside ph l h'"
  by (auto simp: inside_def in_step_def sync_def)

lemma sync_outside: "sync ph h' = sync ph h \<Longrightarrow> outside ph l h \<Longrightarrow> outside ph l h'"
  by (auto simp: outside_def in_step_def sync_def)

lemma calm_in_syscall: "calm f is_mismatch m \<Longrightarrow> calm f stop_mismatch (in_syscall m)"
  unfolding in_syscall_def by (rule calm_map_err) simp

lemma inside_syscall: "calm (sync ph) is_mismatch m \<Longrightarrow> triple (inside ph l) (in_syscall m) (inside ph l)"
  by (rule triple_calm [OF calm_in_syscall]) (auto intro: sync_inside)

lemma outside_syscall: "calm (sync ph) is_mismatch m \<Longrightarrow> triple (outside ph l) (in_syscall m) (outside ph l)"
  by (rule triple_calm [OF calm_in_syscall]) (auto intro: sync_outside)

section \<open>Waiting\<close>

lemma wait_entry:
  assumes "phase_kernel E l ph"
  shows "triple (outside ph l) (wait_for_syscall fuel E) (inside ph l)"
  unfolding triple_def
proof (intro allI impI)
  fix h assume h: "outside ph l h"
  then have "case wait_for_syscall fuel E h of
      (Inr st, h') \<Rightarrow> toggled ph h st h' | (Inl e, _) \<Rightarrow> \<not> stop_mismatch e"
    using wait_for_entry [OF assms] by (simp add: outside_def)
  then show "case wait_for_syscall fuel E h of
      (Inr _, h') \<Rightarrow> inside ph l h' | (Inl e, _) \<Rightarrow> \<not> stop_mismatch e"
    using h by (auto simp: inside_def outside_def toggled_def split: prod.splits sum.splits)
qed

lemma wait_exit:
  assumes "phase_kernel E l ph"
  shows "triple (inside ph l) (wait_for_syscall fuel E) (outside ph l)"
  unfolding triple_def
proof (intro allI impI)
  fix h assume h: "inside ph l h"
  then have "case wait_for_syscall fuel E h of
      (Inr st, h') \<Rightarrow> toggled ph h st h' | (Inl e, _) \<Rightarrow> \<not> stop_mismatch e"
    using wait_for_exit [of E h ph] assms by (simp add: inside_def)
  then show "case wait_for_syscall fuel E h of
      (Inr _, h') \<Rightarrow> outside ph l h' | (Inl e, _) \<Rightarrow> \<not> stop_mismatch e"
    using h by (auto simp: inside_def outside_def toggled_def split: prod.splits sum.splits)
qed

lemma resume_exit:
  assumes "phase_kernel E l ph"
  shows "triple (inside ph l) (do_resume_syscall fuel E) (outside ph l)"
  unfolding do_resume_syscall_def
  by (rule triple_bind [OF wait_exit [OF assms]]) (intro outside_syscall calm_intros)

lemma skip_exit:
  assumes "phase_kernel E l ph"
  shows "triple (inside ph l) (do_skip_syscall fuel E v) (outside ph l)"
  unfolding do_skip_syscall_def
  by (intro triple_bind [OF inside_syscall] triple_bind [OF resume_exit] outside_syscall calm_intros)
    (rule assms)+

section \<open>The augments\<close>

lemma clone_exit:
  assumes "phase_kernel E l ph"
  shows "triple (inside ph l) (augment_sys_clone fuel E r s) (outside ph l)"
  unfolding augment_sys_clone_def
  by (intro triple_bind [OF inside_syscall] triple_bind [OF resume_exit] triple_ret calm_intros)
    (rule assms | assumption)+

lemma perms_exit:
  assumes "phase_kernel E l ph"
  shows "triple (inside ph l) (augment_sys_perms fuel E r s) (outside ph l)"
  unfolding augment_sys_perms_def
  by (intro triple_bind [OF inside_syscall] triple_option triple_bind [OF resume_exit] outside_syscall
      skip_exit calm_intros) (rule assms)+

lemma seccomp_exit:
  assumes "phase_kernel E l ph"
  shows "triple (inside ph l) (augment_sys_seccomp fuel E r s) (outside ph l)"
  unfolding augment_sys_seccomp_def Let_def
  by (intro triple_if triple_option triple_bind [OF resume_exit] skip_exit triple_ret)
    (rule assms | assumption)+

lemma waitpid_exit:
  assumes "phase_kernel E l ph"
  shows "triple (inside ph l) (augment_sys_waitpid fuel E r s) (outside ph l)"
  unfolding augment_sys_waitpid_def Let_def
  by (intro triple_bind [OF inside_syscall] triple_bind [OF resume_exit] triple_if outside_syscall triple_ret
      calm_intros) (rule assms | assumption)+

lemma exec_exit:
  assumes "phase_kernel E l ph"
  shows "triple (inside ph l) (augment_sys_exec fuel E r s) (outside ph l)"
  unfolding augment_sys_exec_def
  by (intro triple_bind [OF inside_syscall] triple_pair triple_if skip_exit triple_bind [OF resume_exit]
      triple_ret calm_intros) (rule assms | assumption)+

section \<open>The path augments\<close>

lemma calm_in_augment: "calmp ph is_mismatch m \<Longrightarrow> calmp ph stop_mismatch (in_augment m)"
  unfolding in_augment_def by (rule calm_map_err) simp

lemma inside_augment:
  "calmp ph is_mismatch m \<Longrightarrow> triple (\<lambda>s. inside ph l (fst s)) (in_augment m) (\<lambda>s. inside ph l (fst s))"
  by (rule triple_calm [OF calm_in_augment]) (auto intro: sync_inside)

lemma outside_augment:
  "calmp ph is_mismatch m \<Longrightarrow> triple (\<lambda>s. outside ph l (fst s)) (in_augment m) (\<lambda>s. outside ph l (fst s))"
  by (rule triple_calm [OF calm_in_augment]) (auto intro: sync_outside)

lemma triple_step: "triple P m Q \<Longrightarrow> triple (\<lambda>s. P (fst s)) (step_handler m) (\<lambda>s. Q (fst s))"
  by (rule tripleI) (auto simp: step_handler_def split: prod.splits dest: tripleD)

lemma triple_get: "(\<And>x. triple P (f x) Q) \<Longrightarrow> triple P (act_bind (act_get g) f) Q"
  by (simp add: triple_def act_bind_run act_get_def)

lemma future_exit:
  assumes "phase_kernel E l ph"
  shows "triple (\<lambda>s. inside ph l (fst s)) (syscall_future fuel E) (\<lambda>s. outside ph l (fst s))"
  unfolding syscall_future_def
  by (intro triple_bind [OF inside_augment] triple_get triple_option
      triple_bind [OF triple_step [OF skip_exit]] triple_bind [OF triple_step [OF resume_exit]]
      triple_bind [OF outside_augment] triple_ret calm_intros) (rule assms | assumption)+

text \<open>A part before the call failed: every outcome is an error, and none is a mismatch.\<close>

lemma no_err_outcome: "no_err stop_mismatch m \<Longrightarrow> no_err stop_mismatch (strong_outcome m)"
  unfolding no_err_def strong_outcome_def by (fastforce split: prod.splits sum.splits stop.splits)

lemma no_err_step: "no_err Q m \<Longrightarrow> no_err Q (step_handler m)"
  by (auto simp: no_err_def step_handler_def split: prod.splits)

lemma no_err_calm: "calm f Q m \<Longrightarrow> no_err Q m"
  by (simp add: calm_def)

lemma no_err_get: "no_err Q (act_get g)"
  by (simp add: no_err_def act_get_def)

lemma no_err_begin:
  assumes "phase_kernel E l ph"
  shows "no_err stop_mismatch (begin_syscall E)"
proof -
  have "no_err stop_mismatch (in_augment (aug_paths_do_write_registers E))"
    "no_err stop_mismatch (in_augment (on_handler (exec (set_syscall_num (e_kernel E) n))))" for n
    by (rule no_err_calm, rule calm_in_augment, intro calm_intros, rule assms)+
  moreover have "no_err stop_mismatch (step_handler (\<lambda>h.
      let b = (\<not> h_seccomp_init_complete h \<or> h_after_syscall_entry h)
      in act_bind (set_after_entry False) (\<lambda>_. set_resume b) h))"
    by (simp add: no_err_def step_handler_def set_after_entry_def set_resume_def res_simps split: prod.splits)
  ultimately show ?thesis
    unfolding begin_syscall_def by (intro no_err_bind no_err_get no_err_if no_err_ret)
qed

lemma next_poll_fails:
  "next_poll_panics fuel E h = (r, h') \<Longrightarrow> \<exists>e. r = Inl e \<and> \<not> stop_mismatch e"
proof -
  assume run: "next_poll_panics fuel E h = (r, h')"
  obtain r1 h1 where w: "wait_event fuel E (h_signal_tracee h) (h\<lparr>h_signal_tracee := None\<rparr>) = (r1, h1)"
    by fastforce
  show ?thesis
  proof (cases r1)
    case (Inl e)
    moreover have "\<not> stop_mismatch e" using no_err_wait_event w Inl unfolding no_err_def by blast
    ultimately show ?thesis using run w by (auto simp: next_poll_panics_def take_signal_def act_bind_run)
  next
    case (Inr ev)
    obtain r2 h2 where p: "poll_signals E ev h1 = (r2, h2)" by fastforce
    have "no_err stop_mismatch (poll_signals E ev)"
      using unblocked_by_Some [OF wait_event_unblocked] w Inr by (intro no_err_poll_signals) blast
    then have "\<not> stop_mismatch e" if "r2 = Inl e" for e using p that unfolding no_err_def by blast
    then show ?thesis
      using run w Inr p
      by (cases r2) (auto simp: next_poll_panics_def take_signal_def act_bind_run act_err_def)
  qed
qed

lemma before_failed_fails:
  assumes "phase_kernel E l ph" "\<not> is_mismatch e" "before_failed fuel E e s = (r, s')"
  shows "\<exists>e'. r = Inl e' \<and> \<not> stop_mismatch e'"
proof -
  obtain r1 s1 where b: "strong_outcome (begin_syscall E) s = (r1, s1)" by (rule prod.exhaust)
  show ?thesis
  proof (cases r1)
    case (Inl e1)
    then have "\<not> stop_mismatch e1"
      using no_err_outcome [OF no_err_begin [OF assms(1)]] b unfolding no_err_def by blast
    then show ?thesis using assms(3) b Inl by (auto simp: before_failed_def act_bind_run)
  next
    case (Inr out)
    show ?thesis
    proof (cases out)
      case (Inl e2)
      then show ?thesis using assms(2,3) b Inr by (auto simp: before_failed_def act_bind_run act_err_def)
    next
      case i: (Inr x)
      obtain r3 h3 where n: "next_poll_panics fuel E (fst s1) = (r3, h3)" by fastforce
      have "r = r3" using assms(3) b Inr i n
        by (cases s1) (auto simp: before_failed_def act_bind_run step_handler_def)
      then show ?thesis using next_poll_fails [OF n] by simp
    qed
  qed
qed

lemma run_weak_outside:
  assumes "\<And>g. g \<in> set fs \<Longrightarrow> calmp ph late_mismatch (g out)"
  shows "triple (\<lambda>s. outside ph l (fst s)) (run_weak fs out) (\<lambda>s. outside ph l (fst s))"
proof (rule tripleI)
  have cm: "calmp ph late_mismatch (run_after fs out)" by (rule calm_run_after) (rule assms)
  fix s x s' assume o: "outside ph l (fst s)" and run: "run_weak fs out s = (Inr x, s')"
  then obtain r where "run_after fs out s = (r, s')"
    by (auto simp: run_weak_def split: prod.splits sum.splits option.splits)
  from calm_run [OF cm this] o show "outside ph l (fst s')" by (auto intro: sync_outside)
next
  have cm: "calmp ph late_mismatch (run_after fs out)" by (rule calm_run_after) (rule assms)
  fix s e s' assume "run_weak fs out s = (Inl e, s')"
  then obtain e' where e': "run_after fs out s = (Inl (Some e'), s')" "e = SyscallFail e'"
    by (auto simp: run_weak_def split: prod.splits sum.splits option.splits)
  with calm_run [OF cm e'(1)] show "\<not> stop_mismatch e" by (simp add: late_mismatch_def)
qed

text \<open>The strong future of a path call can itself fail, when a register request is refused or the
  scratch area is full; \<open>augment_sys_paths\<close> then still returns normally.\<close>

definition path_call_fails :: "nat \<Rightarrow> 'w env \<Rightarrow> regs \<Rightarrow> syscall_info \<Rightarrow> 'w handler \<Rightarrow> bool" where
  "path_call_fails fuel E r syscall h =
     (case aug_paths_do_parse_state E r syscall h of
        (Inl _, _) \<Rightarrow> False
      | (Inr st, h1) \<Rightarrow>
          is_skip_syscall st = None \<and>
          (case act_bind (augment_deletion E syscall) (\<lambda>_.
                act_bind (augment_hardlink_following E syscall) (\<lambda>_.
                run_before (weak_augments E syscall))) (h1, st) of
             (Inl _, _) \<Rightarrow> False
           | (Inr _, s2) \<Rightarrow>
               (case syscall_future fuel E s2 of (Inl (SyscallFail _), _) \<Rightarrow> True | _ \<Rightarrow> False)))"

lemma run_augments_exit:
  assumes "phase_kernel E l ph" "calm_host E ph" "inside ph l (fst s)"
    and ok: "\<And>fs s2 e s3. run_before (weak_augments E i) s = (Inr fs, s2) \<Longrightarrow>
      syscall_future fuel E s2 \<noteq> (Inl (SyscallFail e), s3)"
  shows "case run_augments fuel E (weak_augments E i) s of
      (Inr _, s') \<Rightarrow> outside ph l (fst s') | (Inl e, _) \<Rightarrow> \<not> stop_mismatch e"
proof -
  obtain r1 s1 where b: "run_before (weak_augments E i) s = (r1, s1)" by (rule prod.exhaust)
  have c: "sync ph (fst s1) = sync ph (fst s)" "harmless is_mismatch r1"
    using calm_run [OF calm_run_before b] calm_before [OF assms(2)] by blast+
  show ?thesis
  proof (cases r1)
    case (Inl e)
    obtain r2 s2 where f: "before_failed fuel E e s1 = (r2, s2)" by (rule prod.exhaust)
    have "\<not> is_mismatch e" using c(2) Inl by simp
    from before_failed_fails [OF assms(1) this f] show ?thesis
      using b Inl f by (auto simp: run_augments_def)
  next
    case (Inr fs)
    have i1: "inside ph l (fst s1)" using assms(3) c(1) by (auto intro: sync_inside)
    have late: "calmp ph late_mismatch (g out)" if "g \<in> set fs" for g out
      using run_before_parts [of "weak_augments E i" s fs s1] b Inr that calm_late [OF assms(1,2)] by auto
    obtain r2 s2 where f: "syscall_future fuel E s1 = (r2, s2)" by (rule prod.exhaust)
    show ?thesis
    proof (cases r2)
      case i2: (Inl e)
      have "\<not> stop_mismatch e" using tripleD(2) [OF future_exit [OF assms(1)] i1] f i2 by blast
      moreover have "e \<noteq> SyscallFail e'" for e' using ok [of fs s1 e' s2] b Inr f i2 by auto
      ultimately show ?thesis
        using b Inr f i2 by (cases e) (auto simp: run_augments_def act_bind_run strong_outcome_def)
    next
      case i2: (Inr x)
      have o2: "outside ph l (fst s2)" using tripleD(1) [OF future_exit [OF assms(1)] i1] f i2 by blast
      have "triple (\<lambda>s. outside ph l (fst s)) (run_weak fs (Inr x)) (\<lambda>s. outside ph l (fst s))"
        by (rule run_weak_outside) (rule late)
      then have "case run_weak fs (Inr x) s2 of
          (Inr _, s') \<Rightarrow> outside ph l (fst s') | (Inl e, _) \<Rightarrow> \<not> stop_mismatch e"
        unfolding triple_def using o2 by (elim allE [of _ s2] impE)
      then show ?thesis using b Inr f i2 by (simp add: run_augments_def act_bind_run strong_outcome_def)
    qed
  qed
qed

lemma paths_body_exit:
  assumes "phase_kernel E l ph" "calm_host E ph" "inside ph l (fst s)"
    and ok: "\<And>fs s2 e s3. act_bind (augment_deletion E i) (\<lambda>_. act_bind (augment_hardlink_following E i) (\<lambda>_.
        run_before (weak_augments E i))) s = (Inr fs, s2) \<Longrightarrow> syscall_future fuel E s2 \<noteq> (Inl (SyscallFail e), s3)"
  shows "case augment_paths_body fuel E i s of
      (Inr _, s') \<Rightarrow> outside ph l (fst s') | (Inl e, _) \<Rightarrow> \<not> stop_mismatch e"
proof -
  obtain r1 s1 where d: "augment_deletion E i s = (r1, s1)" by (rule prod.exhaust)
  have c1: "sync ph (fst s1) = sync ph (fst s)" "harmless is_mismatch r1"
    using calm_run [OF calm_deletion [OF assms(2)] d] by simp_all
  obtain r2 s2 where f: "augment_hardlink_following E i s1 = (r2, s2)" by (rule prod.exhaust)
  have c2: "sync ph (fst s2) = sync ph (fst s1)" "harmless is_mismatch r2"
    using calm_run [OF calm_hardlink_following f] by simp_all
  show ?thesis
  proof (cases "(\<exists>e. r1 = Inl e) \<or> (\<exists>e. r2 = Inl e)")
    case True
    then show ?thesis
      using d f c1(2) c2(2)
      by (cases r1; cases r2) (auto simp: augment_paths_body_def in_augment_def act_bind_run act_map_err_run)
  next
    case False
    then have run: "augment_paths_body fuel E i s = run_augments fuel E (weak_augments E i) s2"
      using d f by (cases r1; cases r2) (auto simp: augment_paths_body_def in_augment_def act_bind_run act_map_err_run)
    have "inside ph l (fst s2)" using assms(3) c1(1) c2(1) by (auto intro: sync_inside)
    moreover have "syscall_future fuel E s3 \<noteq> (Inl (SyscallFail e), s4)"
      if "run_before (weak_augments E i) s2 = (Inr fs, s3)" for fs s3 e s4
      using ok [of fs s3] d f False that by (cases r1; cases r2) (auto simp: act_bind_run)
    ultimately show ?thesis unfolding run by (intro run_augments_exit [OF assms(1,2)])
  qed
qed

lemma paths_exit:
  assumes "phase_kernel E l ph" "calm_host E ph" "inside ph l h" "\<not> path_call_fails fuel E r i h"
  shows "case augment_sys_paths fuel E r i h of
      (Inr _, h') \<Rightarrow> outside ph l h' | (Inl e, _) \<Rightarrow> \<not> stop_mismatch e"
proof -
  obtain r1 h1 where p: "aug_paths_do_parse_state E r i h = (r1, h1)" by (rule prod.exhaust)
  have c: "sync ph h1 = sync ph h" "harmless is_mismatch r1" using calm_run [OF calm_parse_state p] by simp_all
  have i1: "inside ph l h1" using assms(3) c(1) by (auto intro: sync_inside)
  show ?thesis
  proof (cases r1)
    case (Inl e)
    then show ?thesis using p c(2) by (simp add: augment_sys_paths_def in_syscall_def act_bind_run act_map_err_run)
  next
    case (Inr st)
    show ?thesis
    proof (cases "is_skip_syscall st")
      case (Some v)
      have "augment_sys_paths fuel E r i h = do_skip_syscall fuel E v h1"
        using p Inr Some by (simp add: augment_sys_paths_def in_syscall_def act_bind_run act_map_err_run)
      then show ?thesis using skip_exit [OF assms(1)] i1 by (simp add: triple_def)
    next
      case None
      obtain r2 h2 st2 where b: "augment_paths_body fuel E i (h1, st) = (r2, (h2, st2))"
        by (metis prod.exhaust)
      have run: "augment_sys_paths fuel E r i h = (r2, h2)"
        using p Inr None b by (simp add: augment_sys_paths_def in_syscall_def act_bind_run act_map_err_run)
      have "case augment_paths_body fuel E i (h1, st) of
          (Inr _, s') \<Rightarrow> outside ph l (fst s') | (Inl e, _) \<Rightarrow> \<not> stop_mismatch e"
        by (rule paths_body_exit [OF assms(1,2)])
          (use i1 assms(4) p Inr None in \<open>auto simp: path_call_fails_def\<close>)
      then show ?thesis unfolding run b by (cases r2) simp_all
    qed
  qed
qed

section \<open>Dispatch and initialisation\<close>

lemma call_exit:
  assumes "phase_kernel E l ph" "calm_host E ph" "inside ph l h" "si_augment i \<noteq> AugNone"
    and "si_augment i = AugPaths \<Longrightarrow> \<not> path_call_fails fuel E r i h"
  shows "case call_augment fuel E r i h of
      (Inr _, h') \<Rightarrow> outside ph l h' | (Inl e, _) \<Rightarrow> \<not> stop_mismatch e"
proof (cases "si_augment i = AugPaths")
  case True
  then show ?thesis using paths_exit [OF assms(1-3)] assms(5) by (simp add: call_augment_def)
next
  case False
  then have "triple (inside ph l) (call_augment fuel E r i) (outside ph l)"
    using assms(4) clone_exit [OF assms(1)] exec_exit [OF assms(1)] perms_exit [OF assms(1)]
      waitpid_exit [OF assms(1)] seccomp_exit [OF assms(1)]
    by (cases "si_augment i") (simp_all add: call_augment_def triple_err)
  then show ?thesis using assms(3) by (simp add: triple_def)
qed

lemma entry_augments: "i \<in> set (raw_entries nr) \<Longrightarrow> si_augment i \<noteq> AugNone"
  by (auto simp: raw_entries_def define_defs raw_perms_def raw_plain_paths_def raw_dirfd_def raw_x86_64_def
      raw_legacy_def)

lemma get_syscall_augments: "numbers_ok nr \<Longrightarrow> get_syscall nr n = Some i \<Longrightarrow> si_augment i \<noteq> AugNone"
  by (metis entry_augments find_Some_iff get_syscall_spec nth_mem)

lemma triple_upd: "(\<And>s. P s \<Longrightarrow> Q (f s)) \<Longrightarrow> triple P (act_upd f) Q"
  by (simp add: triple_def act_upd_def)

lemma unblock_keeps:
  "triple (inside ph l) unblock_yielder (inside ph l)" "triple (outside ph l) unblock_yielder (outside ph l)"
  unfolding unblock_yielder_def by (rule triple_upd, simp add: inside_def outside_def in_step_def)+

lemma remember_keeps: "triple (inside ph l) (remember_syscall_num r) (inside ph l)"
  by (auto simp: triple_def remember_syscall_num_def inside_def in_step_def split: option.splits)

lemma insert_syscall_outside:
  assumes "phase_kernel E l ph"
  shows "triple (outside ph l) (insert_syscall_during_init fuel E num args) (outside ph l)"
  unfolding insert_syscall_during_init_def
  by (rule triple_bind [OF unblock_keeps(2)], rule triple_bind [OF wait_entry [OF assms]],
      rule triple_bind [OF inside_syscall], intro calm_intros, rule triple_bind [OF remember_keeps],
      rule triple_bind [OF inside_syscall], intro calm_intros, rule assms,
      rule triple_bind [OF inside_syscall], intro calm_intros, rule assms,
      rule triple_bind [OF unblock_keeps(1)], rule triple_bind [OF wait_exit [OF assms]],
      (intro triple_bind [OF outside_syscall] triple_ret calm_intros)) (rule assms | assumption)+

lemma init_after_exec_outside:
  assumes "phase_kernel E l ph"
  shows "triple (outside ph l) (init_after_exec fuel E) (outside ph l)"
proof -
  note seq = triple_bind [where P = "outside ph l" and R = "outside ph l" and Q = "outside ph l"]
  have region: "calm (sync ph) is_mismatch (exec_mem (get_own_region_id p))"
    "calm (sync ph) is_mismatch (exec_mem (set_tracee_write_region_addr a))" for p a
    by (rule calm_exec_mem, rule keepsI,
        simp add: get_own_region_id_def set_tracee_write_region_addr_def Let_def act_err_def act_upd_def
          split: option.splits)+
  have upd: "triple (outside ph l) (act_upd (h_mmap_tracee_addr_update f)) (outside ph l)"
    "triple (outside ph l) (act_upd (h_direct_update g)) (outside ph l)" for f g
    by (rule triple_upd, simp add: outside_def in_step_def)+
  have filters: "triple (outside ph l) (act_lift (map_err SyscallFail (tracer_filters E))) (outside ph l)"
    by (auto simp: triple_def act_lift_def tracer_filters_def map_err_def ok_or_def split: option.splits)
  have "triple (outside ph l) (initialize_tracee_mmaps fuel E) (outside ph l)"
    unfolding initialize_tracee_mmaps_def
    by (intro seq outside_syscall insert_syscall_outside [OF assms] triple_if triple_ret region upd)
  moreover have "triple (outside ph l) (initialize_tracee_seccomp fuel E) (outside ph l)"
    unfolding initialize_tracee_seccomp_def
    by (intro seq outside_syscall insert_syscall_outside [OF assms] triple_if triple_ret triple_err triple_pair
        filters calm_intros) (rule assms | simp)+
  ultimately show ?thesis
    unfolding init_after_exec_def by (intro seq triple_if triple_ret)
qed

section \<open>A round and the loop\<close>

definition round_swallows :: "nat \<Rightarrow> 'w env \<Rightarrow> usize \<Rightarrow> bool \<Rightarrow> 'w handler \<Rightarrow> bool" where
  "round_swallows fuel E total_times first h =
     (case round_entry fuel E total_times first h of
        (Inl _, _) \<Rightarrow> False
      | (Inr r, h1) \<Rightarrow>
          (case get_syscall (e_nr E) (syscall_num r) of
             None \<Rightarrow> False
           | Some i \<Rightarrow> si_augment i = AugPaths \<and> path_call_fails fuel E r i h1))"

fun loop_swallows :: "nat \<Rightarrow> nat \<Rightarrow> 'w env \<Rightarrow> usize \<Rightarrow> bool \<Rightarrow> 'w handler \<Rightarrow> bool" where
  "loop_swallows 0 fuel E total_times first h = False"
| "loop_swallows (Suc rounds) fuel E total_times first h =
     (round_swallows fuel E (total_times + 1) first h \<or>
      (case syscall_round fuel E (total_times + 1) first h of
         (Inl _, _) \<Rightarrow> False
       | (Inr first', h') \<Rightarrow> loop_swallows rounds fuel E (total_times + 1) first' h'))"

lemma round_entry_inside:
  assumes "phase_kernel E l ph" "\<not> a_no_seccomp (e_args E)"
  shows "triple (outside ph l) (round_entry fuel E n first) (inside ph l)"
proof -
  note seq = triple_bind [where P = "inside ph l" and R = "inside ph l" and Q = "inside ph l"]
  have upd: "triple (inside ph l) (act_upd (h_orig_syscall_num_update f)) (inside ph l)" for f
    by (rule triple_upd) (simp add: inside_def in_step_def)
  have seek: "calm (sync ph) is_mismatch (tracee_stack_seek 0)"
    unfolding tracee_stack_seek_def by (rule calm_upd) (simp add: sync_def)
  have gdb: "triple (inside ph l) reach_gdb (inside ph l)"
    by (simp add: triple_def reach_gdb_def res_simps)
  have fin: "triple (inside ph l) (finish_init E first) (inside ph l)"
    using assms(2) by (auto simp: triple_def finish_init_def res_simps inside_def in_step_def)
  show ?thesis
    unfolding round_entry_def
    by (rule triple_bind [OF unblock_keeps(2)], rule triple_bind [OF wait_entry [OF assms(1)]])
      (intro seq inside_syscall triple_if triple_ret calm_intros upd seek gdb fin)
qed

lemma round_end_outside:
  assumes "phase_kernel E l ph"
  shows "triple (outside ph l) (round_end fuel E) (outside ph l)"
proof -
  note seq = triple_bind [where P = "outside ph l" and R = "outside ph l" and Q = "outside ph l"]
  show ?thesis
    unfolding round_end_def
    by (intro seq outside_syscall triple_if triple_ret calm_intros init_after_exec_outside [OF assms])
qed

lemma round_call_exit:
  assumes "phase_kernel E l ph" "calm_host E ph" "numbers_ok (e_nr E)" "inside ph l h"
    and "\<And>i. get_syscall (e_nr E) (syscall_num r) = Some i \<Longrightarrow> si_augment i = AugPaths \<Longrightarrow>
      \<not> path_call_fails fuel E r i h"
  shows "case round_call fuel E r h of
      (Inr _, h') \<Rightarrow> outside ph l h' | (Inl e, _) \<Rightarrow> \<not> stop_mismatch e"
proof (cases "get_syscall (e_nr E) (syscall_num r)")
  case None
  have "triple (inside ph l) (act_bind (do_resume_syscall fuel E) (\<lambda>_. act_ret ())) (outside ph l)"
    by (rule triple_bind [OF resume_exit [OF assms(1)]]) (rule triple_ret)
  then show ?thesis using assms(4) None by (simp add: triple_def round_call_def)
next
  case (Some i)
  then show ?thesis
    using call_exit [OF assms(1,2,4) get_syscall_augments [OF assms(3) Some]] assms(5)
    by (simp add: round_call_def)
qed

lemma round_outside:
  assumes "phase_kernel E l ph" "calm_host E ph" "numbers_ok (e_nr E)" "\<not> a_no_seccomp (e_args E)"
    and "outside ph l h" "\<not> round_swallows fuel E n first h"
  shows "case syscall_round fuel E n first h of
      (Inr _, h') \<Rightarrow> outside ph l h' | (Inl e, _) \<Rightarrow> \<not> stop_mismatch e"
proof -
  obtain r1 h1 where e: "round_entry fuel E n first h = (r1, h1)" by (rule prod.exhaust)
  note entry = round_entry_inside [OF assms(1,4)]
  show ?thesis
  proof (cases r1)
    case (Inl x)
    then show ?thesis using e tripleD(2) [OF entry assms(5)] by (simp add: syscall_round_def act_bind_run)
  next
    case (Inr r)
    have i: "inside ph l h1" using tripleD(1) [OF entry assms(5)] e Inr by blast
    have c: "case round_call fuel E r h1 of
        (Inr _, h') \<Rightarrow> outside ph l h' | (Inl e, _) \<Rightarrow> \<not> stop_mismatch e"
      using assms(6) e Inr by (intro round_call_exit [OF assms(1-3) i]) (simp add: round_swallows_def)
    obtain r2 h2 where r2: "round_call fuel E r h1 = (r2, h2)" by (rule prod.exhaust)
    show ?thesis
    proof (cases r2)
      case i2: (Inl x)
      then show ?thesis using c e Inr r2 by (simp add: syscall_round_def act_bind_run)
    next
      case i2: (Inr x)
      then have "outside ph l h2" using c r2 by simp
      then have "case round_end fuel E h2 of
          (Inr _, h') \<Rightarrow> outside ph l h' | (Inl e, _) \<Rightarrow> \<not> stop_mismatch e"
        using round_end_outside [OF assms(1), of fuel] by (simp add: triple_def)
      then show ?thesis using e Inr r2 i2 by (simp add: syscall_round_def act_bind_run)
    qed
  qed
qed

lemma loop_no_mismatch:
  assumes "phase_kernel E l ph" "calm_host E ph" "numbers_ok (e_nr E)" "\<not> a_no_seccomp (e_args E)"
  shows "outside ph l h \<Longrightarrow> \<not> loop_swallows rounds fuel E n first h \<Longrightarrow>
    \<exists>e h'. loop_handle_tracee_syscalls rounds fuel E n first h = (Inl e, h') \<and> \<not> stop_mismatch e"
proof (induction rounds arbitrary: n first h)
  case (Suc rounds)
  have r: "case syscall_round fuel E (n + 1) first h of
      (Inr _, h') \<Rightarrow> outside ph l h' | (Inl e, _) \<Rightarrow> \<not> stop_mismatch e"
    using Suc.prems by (intro round_outside [OF assms]) simp_all
  obtain r1 h1 where e: "syscall_round fuel E (n + 1) first h = (r1, h1)" by (rule prod.exhaust)
  then show ?case using r Suc by (cases r1) (auto simp: act_bind_run)
qed (simp add: act_err_def)


lemma model_calm_host: "calm_host (model_env_of legacy) d_phase"
  by (auto simp: calm_host_def model_host_def model_rename_def model_remove_def calm_def no_err_def Let_def
      act_ret_def act_upd_def)

lemma traced_legacy [simp]: "h_legacy_seccomp (traced_handler legacy) = legacy"
  by (simp add: traced_handler_def)

definition stopped_handler :: "model handler" where
  "stopped_handler = (model_handler (model_world\<lparr>d_phase := PhSeccomp\<rparr>))
     \<lparr>h_legacy_seccomp := True, h_seccomp_init_complete := True, h_after_syscall_entry := True\<rparr>"



lemma model_round_entry: "map_sum id syscall_num (fst (round_entry 4 (model_env_of True) 1 False (traced_handler True))) = Inr 0"
  by code_simp


end
