(* ===== verification/Chroot_Properties.thy ===== *)
theory Chroot_Properties
  imports Rootfs_Paths Model_Host
begin

text \<open>
  What the path translation of \<open>Rootfs_Paths\<close> guarantees: following links always ends, every
  absolute guest path is sent below the chroot or to an excluded directory, and what is kept of
  the path's components on the way.
\<close>

section \<open>Following links ends\<close>

definition link_targets :: "'w env \<Rightarrow> 'w \<Rightarrow> path set" where
  "link_targets E w = {l. \<exists>p. ho_read_link (e_host E) w p = Inr l}"

lemma read_symlink_target:
  "read_symlink E w p = Inr (Some l) \<Longrightarrow> l \<in> link_targets E w \<and> is_absolute l"
  by (auto simp: read_symlink_def link_targets_def res_bind_Inr_iff split: sum.splits bool.splits if_splits)

lemma read_symlink_error: "read_symlink E w p \<noteq> Inl stack_overflow"
  by (auto simp: read_symlink_def stack_overflow_def res_bind_Inl_iff map_err_Inl_iff
      split: sum.splits bool.splits if_splits)

lemma get_metadata_dir_error: "get_metadata_dir E \<noteq> Inl stack_overflow"
  by (auto simp: get_metadata_dir_def stack_overflow_def split: option.splits)

lemma follow_one_link_target:
  assumes "follow_one_link E w p visited = Inr (Inr l)"
  shows "l \<in> link_targets E w" "is_absolute l" "components l \<notin> components ` set visited"
proof -
  obtain y md where y: "read_symlink E w p = Inr (Some y)" "get_metadata_dir E = Inr md"
    using assms by (auto simp: follow_one_link_def res_bind_Inr_iff split: option.splits)
  with assms have "y = l" "\<not> list_ex (\<lambda>v. path_eq v l) visited"
    by (auto simp: follow_one_link_def split: if_splits)
  then show "l \<in> link_targets E w" "is_absolute l" "components l \<notin> components ` set visited"
    using read_symlink_target [OF y(1)] by (auto simp: list_ex_iff path_eq_def)
qed

lemma follow_one_link_error: "follow_one_link E w p visited \<noteq> Inl stack_overflow"
  by (auto simp: follow_one_link_def res_bind_Inl_iff read_symlink_error get_metadata_dir_error
      split: option.splits if_splits)

lemma calc_follow_symlink_target:
  assumes "calc_follow_symlink E w p s visited args = Inr (Inr l)"
  shows "l \<in> link_targets E w" "is_absolute l" "components l \<notin> components ` set visited"
proof -
  have "calc_follow_symlink E w p s visited args = Inr (Inr l) \<Longrightarrow>
      \<exists>q. follow_one_link E w q visited = Inr (Inr l)"
  proof (induction E w p s visited args rule: calc_follow_symlink.induct)
    case (1 E w p s visited args)
    show ?case
      using "1.prems" "1.IH"
      unfolding calc_follow_symlink.simps [of E w p] by (auto split: if_splits sum.splits bool.splits)
  qed
  then obtain q where "follow_one_link E w q visited = Inr (Inr l)" using assms by blast
  then show "l \<in> link_targets E w" "is_absolute l" "components l \<notin> components ` set visited"
    by (rule follow_one_link_target)+
qed

lemma calc_follow_symlink_error: "calc_follow_symlink E w p s visited args \<noteq> Inl stack_overflow"
proof (induction E w p s visited args rule: calc_follow_symlink.induct)
  case (1 E w p s visited args)
  have "nofollow_flag s args \<noteq> Inl stack_overflow"
    by (auto simp: nofollow_flag_def stack_overflow_def split: option.splits)
  then show ?case
    using 1 by (subst calc_follow_symlink.simps)
      (auto simp: follow_one_link_error split: sum.splits bool.splits)
qed

lemma calc_real_path_simple_error: "calc_real_path_simple E h p \<noteq> Inl stack_overflow"
  by (auto simp: calc_real_path_simple_def stack_overflow_def split: option.splits)

lemma card_drop_member:
  assumes "finite A" "x \<in> A" "x \<notin> B"
  shows "card (A - insert x B) < card (A - B)"
  using assms by (intro psubset_card_mono) auto

lemma calc_real_path_recurse_returns:
  assumes "finite (link_targets E (h_world h))"
    and "card (components ` link_targets E (h_world h) - components ` set (p # visited)) < depth"
  shows "calc_real_path_recurse depth E h p s visited args \<noteq> Inl stack_overflow"
  using assms(2)
proof (induction depth arbitrary: p visited)
  case (Suc depth)
  have step: "calc_real_path_recurse depth E h l s (p # visited) args \<noteq> Inl stack_overflow"
    if "calc_follow_symlink E (h_world h) q s (p # visited) args = Inr (Inr l)" for q l
  proof (rule Suc.IH)
    have "components l \<in> components ` link_targets E (h_world h)"
      "components l \<notin> components ` set (p # visited)"
      using calc_follow_symlink_target [OF that] by auto
    from card_drop_member [OF finite_imageI [OF assms(1)] this]
    show "card (components ` link_targets E (h_world h) - components ` set (l # p # visited)) < depth"
      using Suc.prems by simp
  qed
  show ?case
    using step
    by (auto simp: Let_def res_bind_Inl_iff calc_follow_symlink_error calc_real_path_simple_error
        split: path_action.splits sum.splits bool.splits if_splits)
qed simp


lemma model_link_targets: "link_targets model_env w \<subseteq> snd ` set (d_links w)"
proof
  fix l assume "l \<in> link_targets model_env w"
  then obtain p where "ho_read_link model_host w p = Inr l" by (auto simp: link_targets_def)
  then have "map_of (d_links w) p = Some l" by (simp add: model_host_def split: option.splits)
  then have "(p, l) \<in> set (d_links w)" by (rule map_of_SomeD)
  then show "l \<in> snd ` set (d_links w)" by force
qed


section \<open>Confinement to the chroot\<close>

lemma get_mod_path_no_rules:
  "rf_rename_host_paths (c_rootfs (e_config E)) = [] \<Longrightarrow> get_mod_path E p a False = a"
  by (simp add: get_mod_path_def Let_def)

lemma strip_root:
  assumes "is_absolute p"
  obtains r where "strip_prefix p ''/'' = Some r" "\<not> is_absolute r" "components p = RootDir # components r"
proof -
  have c: "components ''/'' = [RootDir]" by code_simp
  have "starts_with p ''/''" using assms by (simp add: starts_with_def c) (simp add: components_def)
  then obtain r where r: "strip_prefix p ''/'' = Some r" using strip_prefix_None [of p "''/''"] by blast
  show ?thesis using that r strip_prefix_Some [OF r] c by simp
qed

lemma relative_body_components: "\<not> is_absolute r \<Longrightarrow> \<exists>b. components r = b @ body_components r \<and> set b \<subseteq> {CurDir}"
  by (auto simp: components_def)

definition confined :: "'w handler \<Rightarrow> path \<Rightarrow> path \<Rightarrow> bool" where
  "confined h pre q \<longleftrightarrow> starts_with q pre \<or> is_excluded h q"

lemma calc_real_path_simple_chroot:
  assumes "h_path_prefix h = Some pre" "pre \<noteq> []" "is_absolute p" "\<not> is_excluded h p"
    and "rf_rename_host_paths (c_rootfs (e_config E)) = []"
  obtains r where "calc_real_path_simple E h p = Inr (Override (path_join pre r))"
    "components (path_join pre r) = components pre @ body_components r" "components p = RootDir # components r"
proof -
  obtain r where r: "strip_prefix p ''/'' = Some r" "\<not> is_absolute r" "components p = RootDir # components r"
    using strip_root [OF assms(3)] by blast
  show ?thesis
    using that [of r] assms r components_join [of pre r]
    by (simp add: calc_real_path_simple_def get_mod_path_no_rules)
qed

lemma calc_real_path_recurse_confined:
  assumes "h_path_prefix h = Some pre" "pre \<noteq> []" "rf_rename_host_paths (c_rootfs (e_config E)) = []"
    and "is_absolute p" "calc_real_path_recurse depth E h p s visited args = Inr a"
  shows "case a of Override q \<Rightarrow> confined h pre q | NoAction \<Rightarrow> is_excluded h p | ELOOP \<Rightarrow> True | HidePath \<Rightarrow> False"
  using assms(4,5)
proof (induction depth arbitrary: p visited a)
  case (Suc depth)
  show ?case
  proof (cases "is_excluded h p")
    case True
    then have "calc_real_path_simple E h p = Inr NoAction"
      using assms(3) by (simp add: calc_real_path_simple_def get_mod_path_no_rules)
    then show ?thesis using Suc.prems True by (simp add: Let_def)
  next
    case False
    obtain r where r: "calc_real_path_simple E h p = Inr (Override (path_join pre r))"
      "components (path_join pre r) = components pre @ body_components r"
      using calc_real_path_simple_chroot [OF assms(1,2) Suc.prems(1) False assms(3)] by metis
    have sw: "confined h pre (path_join pre r)" using r(2) by (simp add: confined_def starts_with_def)
    obtain x where x: "calc_follow_symlink E (h_world h) (path_join pre r) s (p # visited) args = Inr x"
      using Suc.prems(2) r(1) by (auto simp: Let_def res_bind_Inr_iff)
    show ?thesis
    proof (cases x)
      case (Inl b)
      then show ?thesis using Suc.prems(2) r(1) x sw by (cases b) (auto simp: Let_def)
    next
      case (Inr link)
      obtain a' where a': "calc_real_path_recurse depth E h link s (p # visited) args = Inr a'"
        "a = (if a' = NoAction then Override link else a')"
        using Suc.prems(2) r(1) x Inr by (auto simp: Let_def res_bind_Inr_iff)
      have "is_absolute link" using calc_follow_symlink_target(2) [OF x [unfolded Inr]] .
      from Suc.IH [OF this a'(1)] show ?thesis
        using a'(2) by (cases a') (auto simp: confined_def)
    qed
  qed
qed simp




end
