(* ===== verification/Mem_Access.thy ===== *)
theory Mem_Access
  imports Model_Host
begin

text \<open>
  What the helper a handler uses, slow or direct, does with mapped memory: it reads exactly the
  bytes that are there, and reads and writes inside mapped memory succeed.  \<open>readable\<close> and \<open>writable\<close>
  say that a range of addresses is mapped, \<open>fits\<close> that a buffer lies in it.
\<close>

lemma helper_read_bytes:
  assumes "word_memory (e_kernel E) rd" "full_reads (e_kernel E)" "unat n \<le> length buf"
    and "mh_read_bytes (get_mem_helper E h) a n buf s = (Inr buf', s')"
  shows "tr_world s' = tr_world s" "buf' = mem_slice (rd (tr_world s)) a (unat n) @ drop (unat n) buf"
proof -
  consider (direct) "direct_read_bytes (e_kernel E) a n buf s = (Inr buf', s')"
    | (slow) "on_world (slow_read_bytes (e_kernel E) a n buf) s = (Inr buf', s')"
    using assms(4) by (auto simp: get_mem_helper_def DIRECT_MEM_HELPERS_def SLOW_MEM_HELPERS_def split: if_splits)
  then have "tr_world s' = tr_world s \<and> buf' = mem_slice (rd (tr_world s)) a (unat n) @ drop (unat n) buf"
  proof cases
    case direct
    show ?thesis
      using direct_reader.read_world [OF direct] direct_reader.read_content [OF assms(1-3) direct] by (rule conjI)
  next
    case slow
    show ?thesis
      using slow_reader.read_world [OF slow] slow_reader.read_content [OF assms(1-3) slow] by (rule conjI)
  qed
  then show "tr_world s' = tr_world s" "buf' = mem_slice (rd (tr_world s)) a (unat n) @ drop (unat n) buf"
    by simp_all
qed

lemma mem_slice_put: "length bs \<le> 2 ^ 64 \<Longrightarrow> mem_slice (mem_put f a bs) a (length bs) = bs"
  by (rule nth_equalityI) (auto simp: mem_put_def unat_of_nat_usize)

lemma slow_read_loop_returns:
  assumes "readable K w lo hi" "hi < 2 ^ 64" "unat n < 2 ^ 63"
  shows "lo \<le> unat a \<Longrightarrow> unat a + 8 * ((unat n - unat k + 7) div 8) \<le> hi \<Longrightarrow> \<exists>buf'. slow_read_loop K n a k buf w = (Inr buf', w)"
proof (induction "unat n - unat k" arbitrary: a k buf rule: less_induct)
  case less
  show ?case
  proof (cases "k < n")
    case True
    then have kn: "unat k < unat n" by (simp add: word_less_nat_alt)
    define d where "d = unat n - unat k"
    have "0 < d" using kn by (simp add: d_def)
    have d: "8 * ((d + 7) div 8) \<ge> 8" "8 * ((d - 8 + 7) div 8) + 8 \<le> 8 * ((d + 7) div 8)"
      using \<open>0 < d\<close> by presburger+
    have k': "checked_add k USIZE_SIZE = Inr (k + USIZE_SIZE)" and a': "checked_add a USIZE_SIZE = Inr (a + USIZE_SIZE)"
      using kn assms(2,3) less.prems d(1) by (simp_all add: d_def checked_add_Inr)
    obtain v where v: "k_peek K w a = Inr v" using readable_peek [OF assms(1), of a] less.prems d(1) by (auto simp: d_def)
    have u: "unat (k + USIZE_SIZE) = unat k + 8" "unat (a + USIZE_SIZE) = unat a + 8"
      using checked_add_unat [OF k'] checked_add_unat [OF a'] by simp_all
    show ?thesis
      unfolding slow_read_loop_step [OF True k' v a']
      by (rule less.hyps) (use u kn less.prems d(2) in \<open>auto simp: d_def\<close>)
  qed (subst slow_read_loop.simps, simp)
qed

definition writable :: "'w kernel \<Rightarrow> nat \<Rightarrow> nat \<Rightarrow> bool" where
  "writable K lo hi \<longleftrightarrow> (\<forall>w a v. lo \<le> unat a \<longrightarrow> unat a + 8 \<le> hi \<longrightarrow> (\<exists>w'. k_poke K w a v = Inr w'))"

lemma write_words_returns:
  assumes "writable K lo hi" "hi < 2 ^ 64"
  shows "lo \<le> unat a \<Longrightarrow> unat a + 8 * length ws \<le> hi \<Longrightarrow> \<exists>a' w'. write_words K ws a w = (Inr a', w')"
proof (induction ws arbitrary: a w)
  case (Cons m ms)
  obtain w1 where w1: "k_poke K w a m = Inr w1" using assms(1) Cons.prems unfolding writable_def by fastforce
  have add: "checked_add a USIZE_SIZE = Inr (a + USIZE_SIZE)" using Cons.prems assms(2) by (simp add: checked_add_Inr)
  have "unat (a + USIZE_SIZE) = unat a + 8" using checked_add_unat [OF add] by simp
  then show ?case using Cons.IH [of "a + USIZE_SIZE" w1] Cons.prems w1 add by (simp add: ptrace_write_def res_simps)
qed (simp add: res_simps)


definition fits :: "usize \<Rightarrow> usize \<Rightarrow> nat \<Rightarrow> nat \<Rightarrow> bool" where
  "fits addr n lo hi \<longleftrightarrow> lo \<le> unat addr \<and> unat addr + unat n \<le> hi \<and> hi < 2 ^ 64"

lemma helper_read_bytes_returns:
  assumes "readable (e_kernel E) (tr_world s) lo hi" "fits a n lo hi" "unat n mod 8 = 0" "unat n \<le> length buf"
    "unat n < 2 ^ 63"
  shows "\<exists>buf' s'. mh_read_bytes (get_mem_helper E h) a n buf s = (Inr buf', s')"
proof (cases "h_direct h")
  case True
  then show ?thesis
    using direct_read_bytes_returns [OF assms(1) _ _ assms(4)] assms(2)
    by (simp add: get_mem_helper_def DIRECT_MEM_HELPERS_def fits_def)
next
  case False
  have "8 * ((unat n + 7) div 8) = unat n" using assms(3) by presburger
  then obtain buf' where "slow_read_loop (e_kernel E) n a 0 buf (tr_world s) = (Inr buf', tr_world s)"
    using slow_read_loop_returns [OF assms(1) _ assms(5), of a 0 buf] assms(2) by (auto simp: fits_def)
  with False show ?thesis
    by (simp add: get_mem_helper_def SLOW_MEM_HELPERS_def on_world_def slow_read_bytes_def)
qed

lemma helper_reads:
  assumes "word_memory (e_kernel E) rd" "full_reads (e_kernel E)"
    and "readable (e_kernel E) (tr_world s) lo hi" "fits a n lo hi" "unat n mod 8 = 0" "unat n \<le> length buf"
    and "unat n < 2 ^ 63"
  obtains s' where "tr_world s' = tr_world s"
    "mh_read_bytes (get_mem_helper E h) a n buf s = (Inr (mem_slice (rd (tr_world s)) a (unat n) @ drop (unat n) buf), s')"
proof -
  obtain buf' s' where run: "mh_read_bytes (get_mem_helper E h) a n buf s = (Inr buf', s')"
    using helper_read_bytes_returns [OF assms(3-7)] by metis
  from helper_read_bytes [OF assms(1,2,6) run] run show thesis by (intro that) simp_all
qed

lemma model_writable: "writable model_kernel lo hi"
  by (simp add: writable_def model_kernel_def)

end
