(* ===== verification/Stat_Fields.thy ===== *)
theory Stat_Fields
  imports Aug_Stat Mem_Access
begin

text \<open>
  What the augment of the \<open>stat\<close> family changes in the tracee's buffer.  The locale
  \<open>stat_struct\<close> states what the code relies on of a layout: the four fields lie inside the object
  and do not overlap, and the object is a whole number of words.  It is interpreted on both
  layouts of x86_64.  \<open>replace_statbuf_memory\<close> lifts the result from the object to the memory of
  the tracee, with either memory helper.
\<close>

section \<open>Fields of an object\<close>

lemma bytes_word_bytes: "n \<le> 8 \<Longrightarrow> bytes_word (word_bytes n v) = take_bit (8 * n) v"
proof (rule bit_word_eqI)
  fix i assume n: "n \<le> 8" and "i < LENGTH(64)"
  have "i div 8 < n \<longleftrightarrow> i < 8 * n" by linarith
  moreover have "8 * (i div 8) + i mod 8 = i" by simp
  ultimately show "bit (bytes_word (word_bytes n v)) i = bit (take_bit (8 * n) v) i"
    using n \<open>i < LENGTH(64)\<close>
    by (auto simp: bit_bytes_word nth_word_bytes bit_simps bit_drop_bit_eq add.commute)
qed

abbreviation field_end :: "nat \<times> nat \<Rightarrow> nat" where "field_end f \<equiv> fst f + snd f"

definition apart :: "nat \<times> nat \<Rightarrow> nat \<times> nat \<Rightarrow> bool" where
  "apart f g \<longleftrightarrow> field_end f \<le> fst g \<or> field_end g \<le> fst f"

lemma apart_sym: "apart f g \<longleftrightarrow> apart g f"
  by (auto simp: apart_def)

lemma length_set_field [simp]: "field_end f \<le> length x \<Longrightarrow> length (set_field f v x) = length x"
  by (simp add: set_field_def)

lemma nth_set_field:
  "field_end f \<le> length x \<Longrightarrow> i < length x \<Longrightarrow>
   set_field f v x ! i = (if fst f \<le> i \<and> i < field_end f then word_bytes (snd f) v ! (i - fst f) else x ! i)"
  by (auto simp: set_field_def nth_append)

lemma get_set_field:
  "field_end f \<le> length x \<Longrightarrow> snd f \<le> 8 \<Longrightarrow> get_field f (set_field f v x) = take_bit (8 * snd f) v"
  by (simp add: get_field_def set_field_def bytes_word_bytes)

lemma get_field_cong:
  assumes "field_end f \<le> length x" "length y = length x"
    and "\<And>i. fst f \<le> i \<Longrightarrow> i < field_end f \<Longrightarrow> y ! i = x ! i"
  shows "get_field f y = get_field f x"
proof -
  have "take (snd f) (drop (fst f) y) = take (snd f) (drop (fst f) x)"
    using assms by (intro nth_equalityI) auto
  then show ?thesis by (simp add: get_field_def)
qed

lemma get_set_apart:
  assumes "apart f g" "field_end f \<le> length x" "field_end g \<le> length x"
  shows "get_field f (set_field g v x) = get_field f x"
  using assms by (intro get_field_cong) (auto simp: apart_def nth_set_field)

lemma set_opt_simps [simp]:
  "set_opt f None x = x" "set_opt f (Some v) x = set_field f v x"
  by (simp_all add: set_opt_def)

lemma length_set_opt [simp]: "field_end f \<le> length x \<Longrightarrow> length (set_opt f v x) = length x"
  by (cases v) simp_all

lemma get_set_opt:
  "field_end f \<le> length x \<Longrightarrow> snd f \<le> 8 \<Longrightarrow>
   get_field f (set_opt f v x) = (case v of Some val \<Rightarrow> take_bit (8 * snd f) val | None \<Rightarrow> get_field f x)"
  by (cases v) (simp_all add: get_set_field)

lemma get_set_opt_apart:
  assumes "apart f g" "field_end f \<le> length x" "field_end g \<le> length x"
  shows "get_field f (set_opt g v x) = get_field f x"
  using assms by (cases v) (simp_all add: get_set_apart)

lemma nth_set_opt:
  "field_end f \<le> length x \<Longrightarrow> i < length x \<Longrightarrow> i < fst f \<or> field_end f \<le> i \<Longrightarrow> set_opt f v x ! i = x ! i"
  by (cases v) (auto simp: nth_set_field)

section \<open>Layouts\<close>

definition fake_mode :: "usize \<Rightarrow> usize \<Rightarrow> usize" where
  "fake_mode chmod old_mode = (old_mode AND NOT FILE_PERMS_MASK) OR (chmod AND FILE_PERMS_MASK)"

lemma FILE_PERMS_MASK_mask: "FILE_PERMS_MASK = mask 12"
  by (simp add: FILE_PERMS_MASK_def mask_eq_exp_minus_1)

lemma bit_FILE_PERMS_MASK: "bit FILE_PERMS_MASK i \<longleftrightarrow> i < 12"
  unfolding FILE_PERMS_MASK_mask by (auto simp: bit_simps)

lemma fake_mode_take_bit:
  "12 \<le> n \<Longrightarrow> take_bit n (fake_mode chmod (take_bit n old)) = fake_mode chmod (take_bit n old)"
  by (rule bit_word_eqI) (auto simp: fake_mode_def bit_simps bit_FILE_PERMS_MASK bit_take_bit_iff)

definition fields :: "istat \<Rightarrow> (nat \<times> nat) list" where
  "fields T = [is_nlink T, is_mode T, is_uid T, is_gid T]"

definition faked :: "istat \<Rightarrow> rootfs_metadata \<Rightarrow> u8 list \<Rightarrow> u8 list" where
  "faked T meta x = set_opt (is_gid T) (m_chown_group meta) (set_opt (is_uid T) (m_chown_owner meta)
     (set_opt (is_mode T) (map_option (\<lambda>c. fake_mode c (get_field (is_mode T) x)) (m_chmod meta))
     (set_opt (is_nlink T) (m_hardlink_counter meta) x)))"

locale stat_struct =
  fixes T :: istat
  assumes size_words: "unat (is_size T) mod 8 = 0"
    and size_pos: "0 < is_size T"
    and size_bounded: "is_size T \<le> MAX_STRUCT_SIZE"
    and field_inside: "f \<in> set (fields T) \<Longrightarrow> field_end f \<le> unat (is_size T) \<and> snd f \<le> 8"
    and mode_wide: "2 \<le> snd (is_mode T)"
    and fields_apart: "sorted_wrt apart (fields T)"
begin

lemma inside:
  "field_end (is_nlink T) \<le> unat (is_size T)" "field_end (is_mode T) \<le> unat (is_size T)"
  "field_end (is_uid T) \<le> unat (is_size T)" "field_end (is_gid T) \<le> unat (is_size T)"
  "snd (is_nlink T) \<le> 8" "snd (is_mode T) \<le> 8" "snd (is_uid T) \<le> 8" "snd (is_gid T) \<le> 8"
  using field_inside by (simp_all add: fields_def)

lemma pairwise:
  "apart (is_nlink T) (is_mode T)" "apart (is_nlink T) (is_uid T)" "apart (is_nlink T) (is_gid T)"
  "apart (is_mode T) (is_uid T)" "apart (is_mode T) (is_gid T)" "apart (is_uid T) (is_gid T)"
  "apart (is_mode T) (is_nlink T)" "apart (is_uid T) (is_nlink T)" "apart (is_gid T) (is_nlink T)"
  "apart (is_uid T) (is_mode T)" "apart (is_gid T) (is_mode T)" "apart (is_gid T) (is_uid T)"
  using fields_apart by (simp_all add: fields_def apart_sym)

lemma fake_stat_faked:
  assumes "length x = unat (is_size T)"
  shows "fake_stat T meta x = faked T meta x"
  using assms inside pairwise
  by (cases "m_chmod meta") (simp_all add: fake_stat_def faked_def Let_def get_set_opt_apart fake_mode_def)

lemma fake_stat_fields:
  assumes l: "length x = unat (is_size T)"
  shows "length (fake_stat T meta x) = length x"
    and "get_field (is_mode T) (fake_stat T meta x) =
      (case m_chmod meta of Some c \<Rightarrow> fake_mode c (get_field (is_mode T) x) | None \<Rightarrow> get_field (is_mode T) x)"
    and "get_field (is_uid T) (fake_stat T meta x) =
      (case m_chown_owner meta of Some u \<Rightarrow> take_bit (8 * snd (is_uid T)) u | None \<Rightarrow> get_field (is_uid T) x)"
    and "get_field (is_gid T) (fake_stat T meta x) =
      (case m_chown_group meta of Some g \<Rightarrow> take_bit (8 * snd (is_gid T)) g | None \<Rightarrow> get_field (is_gid T) x)"
    and "get_field (is_nlink T) (fake_stat T meta x) =
      (case m_hardlink_counter meta of Some n \<Rightarrow> take_bit (8 * snd (is_nlink T)) n | None \<Rightarrow> get_field (is_nlink T) x)"
    and "i < length x \<Longrightarrow> (\<And>f. f \<in> set (fields T) \<Longrightarrow> i < fst f \<or> field_end f \<le> i) \<Longrightarrow>
      fake_stat T meta x ! i = x ! i"
proof -
  note F = fake_stat_faked [OF l] faked_def
  show "length (fake_stat T meta x) = length x" using l inside by (simp add: F)
  have "get_field (is_mode T) x = take_bit (8 * snd (is_mode T)) (get_field (is_mode T) x)"
    using l inside
    by (intro bit_word_eqI) (auto simp: get_field_def bit_bytes_word bit_take_bit_iff)
  moreover have "12 \<le> 8 * snd (is_mode T)" using mode_wide by linarith
  ultimately have "take_bit (8 * snd (is_mode T)) (fake_mode c (get_field (is_mode T) x)) =
      fake_mode c (get_field (is_mode T) x)" for c by (metis fake_mode_take_bit)
  then show "get_field (is_mode T) (fake_stat T meta x) =
      (case m_chmod meta of Some c \<Rightarrow> fake_mode c (get_field (is_mode T) x) | None \<Rightarrow> get_field (is_mode T) x)"
    using l inside pairwise
    by (simp add: F get_set_opt_apart get_set_opt split: option.split)
  show "get_field (is_uid T) (fake_stat T meta x) =
      (case m_chown_owner meta of Some u \<Rightarrow> take_bit (8 * snd (is_uid T)) u | None \<Rightarrow> get_field (is_uid T) x)"
    "get_field (is_gid T) (fake_stat T meta x) =
      (case m_chown_group meta of Some g \<Rightarrow> take_bit (8 * snd (is_gid T)) g | None \<Rightarrow> get_field (is_gid T) x)"
    "get_field (is_nlink T) (fake_stat T meta x) =
      (case m_hardlink_counter meta of Some n \<Rightarrow> take_bit (8 * snd (is_nlink T)) n | None \<Rightarrow> get_field (is_nlink T) x)"
    using l inside pairwise by (simp_all add: F get_set_opt_apart get_set_opt split: option.split)
  show "fake_stat T meta x ! i = x ! i"
    if "i < length x" "\<And>f. f \<in> set (fields T) \<Longrightarrow> i < fst f \<or> field_end f \<le> i"
    using l inside that by (simp add: F nth_set_opt fields_def)
qed

end

interpretation stat: stat_struct libc_stat
  by unfold_locales (auto simp: libc_stat_def fields_def apart_def MAX_STRUCT_SIZE_def)

interpretation statx: stat_struct libc_statx
  by unfold_locales (auto simp: libc_statx_def fields_def apart_def MAX_STRUCT_SIZE_def)

section \<open>The buffer of the tracee\<close>

lemma read_one_obj:
  assumes mem: "word_memory (e_kernel E) rd" "full_reads (e_kernel E)"
    and n: "0 < n" "n \<le> MAX_STRUCT_SIZE"
    and run: "read_bytes_to_fixed_sized_objs (get_mem_helper E h) n addr 1 s = Some (Inr objs, s')"
  shows "tr_world s' = tr_world s" "objs = [mem_slice (rd (tr_world s)) addr (unat n)]"
proof -
  have mul: "checked_mul n 1 = Inr n" by (simp add: checked_mul_def)
  obtain final_addr where add: "checked_add addr n = Inr final_addr"
    using run by (cases "checked_add addr n") (simp_all add: read_bytes_to_fixed_sized_objs_def mul)
  then have loop: "read_objs_loop (Suc (Suc 0)) (get_mem_helper E h) n final_addr addr [] s = Some (Inr objs, s')"
    using run by (simp add: read_bytes_to_fixed_sized_objs_def mul split: if_splits)
  have "addr < final_addr" using checked_add_unat [OF add] n(1) by (simp add: word_less_nat_alt)
  moreover obtain r s1 where read: "mh_read_bytes (get_mem_helper E h) addr n (replicate (unat MAX_STRUCT_SIZE) 0) s = (r, s1)"
    by (rule prod.exhaust)
  ultimately obtain buf where buf: "r = Inr buf" "s1 = s'" and objs: "objs = [take (unat n) buf]"
    using loop add by (cases r) (simp_all add: res_simps)
  note read = read [unfolded buf]
  have l: "unat n \<le> length (replicate (unat MAX_STRUCT_SIZE) (0 :: u8))" using n(2) by (simp add: word_le_nat_alt)
  show "tr_world s' = tr_world s" by (rule helper_read_bytes(1) [OF mem l read])
  show "objs = [mem_slice (rd (tr_world s)) addr (unat n)]"
    using helper_read_bytes(2) [OF mem l read] objs by simp
qed

lemma write_one_obj:
  assumes "word_memory K rd" "length x = unat n" "8 dvd length x"
    and run: "write_fixed_sized_objs_to_tracee K n addr m [x] w = (Inr r, w')"
  shows "rd w' = mem_put (rd w) addr x"
proof -
  obtain a' where "write_words K (struct_words x) addr w = (Inr a', w')"
    using run
    by (auto simp: write_fixed_sized_objs_to_tracee_def Let_def act_bind_def act_lift_def act_err_def act_ret_def
        split: sum.splits prod.splits if_splits)
  then show ?thesis
    using write_words_put [OF assms(1)] words_image_struct_words [OF assms(3)] by fastforce
qed

text \<open>A successful replacement puts the changed object where the kernel put its own, and changes
  nothing else of the tracee's memory.\<close>

context stat_struct
begin

lemma replace_statbuf_memory:
  assumes mem: "word_memory (e_kernel E) rd" "full_reads (e_kernel E)"
    and meta: "read_metadata_for_file E (h_world h) path = Inr (Some meta)"
    and run: "replace_statbuf_result E T addr path h = (Inr (), h')"
  shows "rd (h_world h') = mem_put (rd (h_world h)) addr
    (fake_stat T meta (mem_slice (rd (h_world h)) addr (unat (is_size T))))"
proof -
  let ?x = "mem_slice (rd (h_world h)) addr (unat (is_size T))"
  obtain r s1 where read: "read_bytes_to_fixed_sized_objs (get_mem_helper E h) (is_size T) addr 1 (h_tracer h) = Some (r, s1)"
    using read_objs_total by fastforce
  then obtain objs where r: "r = Inr objs"
    using run meta
    by (cases r) (simp_all add: replace_statbuf_result_def act_look_def with_mem_def exec_mem_def on_tracer_def res_simps)
  have one: "tr_world s1 = h_world h" "objs = [?x]"
    using read_one_obj [OF mem size_pos size_bounded read [unfolded r]] by simp_all
  obtain r2 w2 where wr: "write_fixed_sized_objs_to_tracee (e_kernel E) (is_size T) addr (is_size T)
      [fake_stat T meta ?x] (h_world h) = (r2, w2)" by (rule prod.exhaust)
  obtain n where r2: "r2 = Inr n" and h': "h_world h' = w2"
    using run meta read wr
    by (cases r2) (auto simp: r one replace_statbuf_result_def act_look_def with_mem_def exec_mem_def exec_def
        on_tracer_def on_world_def res_simps Let_def)
  have "length (fake_stat T meta ?x) = unat (is_size T)" by (simp add: fake_stat_fields(1))
  then show ?thesis
    using write_one_obj [OF mem(1) _ _ wr [unfolded r2]] size_words h' by (simp add: dvd_eq_mod_eq_0)
qed

text \<open>What the tracee finds in its buffer afterwards, field by field.\<close>

lemma replace_statbuf_fields:
  assumes mem: "word_memory (e_kernel E) rd" "full_reads (e_kernel E)"
    and meta: "read_metadata_for_file E (h_world h) path = Inr (Some meta)"
    and run: "replace_statbuf_result E T addr path h = (Inr (), h')"
  defines "old \<equiv> mem_slice (rd (h_world h)) addr (unat (is_size T))"
    and "new \<equiv> mem_slice (rd (h_world h')) addr (unat (is_size T))"
  shows "new = fake_stat T meta old"
    and "unat (b - addr) \<ge> unat (is_size T) \<Longrightarrow> rd (h_world h') b = rd (h_world h) b"
proof -
  have l: "length (fake_stat T meta old) = unat (is_size T)" by (simp add: old_def fake_stat_fields(1))
  have m: "rd (h_world h') = mem_put (rd (h_world h)) addr (fake_stat T meta old)"
    unfolding old_def by (rule replace_statbuf_memory [OF mem meta run])
  have "length (fake_stat T meta old) \<le> 2 ^ 64" using l unat_lt_2p64 [of "is_size T"] by linarith
  from mem_slice_put [OF this, of "rd (h_world h)" addr] show "new = fake_stat T meta old"
    by (simp add: new_def m l)
  show "rd (h_world h') b = rd (h_world h) b" if "unat (b - addr) \<ge> unat (is_size T)"
    using that l by (simp add: m mem_put_def)
qed

end

section \<open>When the replacement succeeds\<close>

lemma stat_struct_size: "stat_struct T \<Longrightarrow> unat (is_size T) \<le> 2048 \<and> unat (is_size T) mod 8 = 0 \<and> 0 < is_size T \<and> is_size T \<le> MAX_STRUCT_SIZE"
  using stat_struct.size_bounded [of T] stat_struct.size_words [of T] stat_struct.size_pos [of T]
  by (auto simp: MAX_STRUCT_SIZE_def word_le_nat_alt)

lemma read_one_obj_returns:
  assumes "readable (e_kernel E) (tr_world s) lo hi" "fits addr (is_size T) lo hi" "stat_struct T"
  shows "\<exists>objs s'. read_bytes_to_fixed_sized_objs (get_mem_helper E h) (is_size T) addr 1 s = Some (Inr objs, s')"
proof -
  let ?n = "is_size T"
  note sz = stat_struct_size [OF assms(3)]
  have add: "checked_add addr ?n = Inr (addr + ?n)" using assms(2) by (simp add: checked_add_Inr fits_def)
  have "addr < addr + ?n" using checked_add_unat [OF add] sz by (simp add: word_less_nat_alt)
  moreover obtain buf s' where "mh_read_bytes (get_mem_helper E h) addr ?n (replicate (unat MAX_STRUCT_SIZE) 0) s = (Inr buf, s')"
    using helper_read_bytes_returns [OF assms(1,2), of "replicate (unat MAX_STRUCT_SIZE) 0" h] sz
    by (auto simp: MAX_STRUCT_SIZE_def)
  moreover have "?n mod USIZE_SIZE = 0" using sz by (simp add: word_arith_nat_mod USIZE_SIZE_def unat_of_nat)
  ultimately show ?thesis using sz add
    by (simp add: read_bytes_to_fixed_sized_objs_def checked_mul_def res_simps not_less)
qed

text \<open>The replacement succeeds whenever the buffer is mapped for reading and writing.\<close>

lemma replace_statbuf_returns:
  assumes mem: "readable (e_kernel E) (h_world h) lo hi" "writable (e_kernel E) lo hi" "fits addr (is_size T) lo hi"
    and T: "stat_struct T" and meta: "read_metadata_for_file E (h_world h) path = Inr (Some meta)"
    and full: "word_memory (e_kernel E) rd" "full_reads (e_kernel E)"
  shows "\<exists>h'. replace_statbuf_result E T addr path h = (Inr (), h')"
proof -
  let ?n = "is_size T"
  let ?x = "fake_stat T meta (mem_slice (rd (h_world h)) addr (unat ?n))"
  note sz = stat_struct_size [OF T]
  obtain objs s1 where read: "read_bytes_to_fixed_sized_objs (get_mem_helper E h) ?n addr 1 (h_tracer h) = Some (Inr objs, s1)"
    using read_one_obj_returns [OF mem(1,3) T] by metis
  have one: "tr_world s1 = h_world h" "objs = [mem_slice (rd (h_world h)) addr (unat ?n)]"
    using read_one_obj [OF full _ _ read] sz by auto
  have add: "checked_add addr ?n = Inr (addr + ?n)" using mem(3) by (simp add: checked_add_Inr fits_def)
  have x: "length ?x = unat ?n" by (simp add: stat_struct.fake_stat_fields(1) [OF T])
  moreover have "8 * (unat ?n div 8) = unat ?n" using sz by auto
  ultimately obtain a' w' where "write_words (e_kernel E) (struct_words ?x) addr (h_world h) = (Inr a', w')"
    using write_words_returns [OF mem(2), of addr "struct_words ?x" "h_world h"] mem(3) by (auto simp: fits_def)
  moreover have "?n mod USIZE_SIZE = 0" using sz by (simp add: word_arith_nat_mod USIZE_SIZE_def unat_of_nat)
  ultimately have "write_fixed_sized_objs_to_tracee (e_kernel E) ?n addr ?n [?x] (h_world h) = (Inr (a' - addr), w')"
    using add sz by (simp add: write_fixed_sized_objs_to_tracee_def res_simps not_less)
  then show ?thesis
    using read meta one
    by (simp add: replace_statbuf_result_def act_look_def with_mem_def exec_mem_def exec_def on_tracer_def on_world_def
        res_simps Let_def)
qed

end
