(* ===== verification/Metadata_Properties.thy ===== *)
theory Metadata_Properties
  imports Aug_Paths Stat_Fields Model_Host
begin

text \<open>
  Metadata is a store: what a \<open>chmod\<close> or \<open>chown\<close> of the guest saves, a later \<open>stat\<close> of the same
  file reports, although the host's file keeps the tracer's own permissions and owner.  Of the host
  \<open>json_files\<close> is assumed: a document that was written is read back, and the operations that
  create directories and files, lock, truncate and write leave alone what existing paths lead to.
\<close>

definition creates_only :: "'w host \<Rightarrow> ('w, 'e, 'a) act \<Rightarrow> bool" where
  "creates_only H m \<longleftrightarrow> (\<forall>w p. ho_exists H w p = Inr True \<longrightarrow>
     ho_exists H (snd (m w)) p = Inr True \<and> ho_canonicalize H (snd (m w)) p = ho_canonicalize H w p \<and>
     ho_is_symlink H (snd (m w)) p = ho_is_symlink H w p \<and> ho_read_link H (snd (m w)) p = ho_read_link H w p)"

definition keeps_documents :: "'w host \<Rightarrow> ('w, 'e, 'a) act \<Rightarrow> bool" where
  "keeps_documents H m \<longleftrightarrow> (\<forall>w p. ho_exists H w p = Inr True \<longrightarrow> ho_from_json H (snd (m w)) p = ho_from_json H w p)"

definition json_files :: "'w host \<Rightarrow> bool" where
  "json_files H \<longleftrightarrow>
     (\<forall>p. creates_only H (ho_create_dir_all H p) \<and> creates_only H (ho_open_create H p) \<and>
          creates_only H (ho_flock H p) \<and> creates_only H (ho_truncate H p)) \<and>
     (\<forall>p. keeps_documents H (ho_create_dir_all H p) \<and> keeps_documents H (ho_open_create H p) \<and>
          keeps_documents H (ho_flock H p)) \<and>
     (\<forall>p m. creates_only H (ho_to_json H p m)) \<and>
     (\<forall>p m w w'. ho_to_json H p m w = (Inr (), w') \<longrightarrow>
        ho_exists H w' p = Inr True \<and> ho_open_read H w' p = Inr () \<and> ho_from_json H w' p = Inr m)"

named_theorems creates_intros \<open>actions that leave existing paths alone\<close>

lemma creates_only_ret [creates_intros]: "creates_only H (act_ret x)"
  and creates_only_err [creates_intros]: "creates_only H (act_err e)"
  and creates_only_look [creates_intros]: "creates_only H (act_look f)"
  by (simp_all add: creates_only_def act_look_def res_simps)

lemma creates_only_bind [creates_intros]:
  assumes "creates_only H m" "\<And>x. creates_only H (f x)"
  shows "creates_only H (act_bind m f)"
  unfolding creates_only_def
proof (intro allI impI)
  fix w p assume p: "ho_exists H w p = Inr True"
  obtain r w1 where m: "m w = (r, w1)" by (rule prod.exhaust)
  show "ho_exists H (snd (act_bind m f w)) p = Inr True \<and>
      ho_canonicalize H (snd (act_bind m f w)) p = ho_canonicalize H w p \<and>
      ho_is_symlink H (snd (act_bind m f w)) p = ho_is_symlink H w p \<and>
      ho_read_link H (snd (act_bind m f w)) p = ho_read_link H w p"
    using assms(1) assms(2) [unfolded creates_only_def, rule_format, of w1 p] p m
    by (cases r) (auto simp: creates_only_def res_simps dest: spec [of _ w])
qed

lemma creates_only_ignore [creates_intros]: "creates_only H m \<Longrightarrow> creates_only H (act_ignore m)"
  and creates_only_map_err [creates_intros]: "creates_only H m \<Longrightarrow> creates_only H (act_map_err g m)"
  by (simp_all add: creates_only_def act_ignore_def act_map_err_def split_beta)

lemma save_metadata_creates_only:
  assumes "json_files (e_host E)"
  shows "creates_only (e_host E) (save_metadata_for_file E path f)"
  unfolding save_metadata_for_file_def
  using assms
  by (auto simp: json_files_def intro!: creates_intros split: option.split prod.split)

text \<open>The metadata path of an existing file does not move.\<close>

lemma creates_only_metadata_path:
  assumes "creates_only (e_host E) m" "get_metadata_path E w path = Inr (Some mp)"
  shows "get_metadata_path E (snd (m w)) path = Inr (Some mp)"
proof -
  have "ho_exists (e_host E) w path = Inr True"
    using assms(2)
    by (auto simp: get_metadata_path_def resolve_metadata_path_def path_exists_def res_bind_Inr_iff
        split: if_splits option.splits)
  with assms(1) have same: "ho_exists (e_host E) (snd (m w)) path = Inr True"
    "ho_canonicalize (e_host E) (snd (m w)) path = ho_canonicalize (e_host E) w path"
    "ho_is_symlink (e_host E) (snd (m w)) path = ho_is_symlink (e_host E) w path"
    "ho_read_link (e_host E) (snd (m w)) path = ho_read_link (e_host E) w path"
    by (auto simp: creates_only_def)
  have "path_exists (e_host E) (snd (m w)) path = path_exists (e_host E) w path"
    "read_symlink E (snd (m w)) path = read_symlink E w path"
    by (simp_all only: path_exists_def read_symlink_def same \<open>ho_exists (e_host E) w path = Inr True\<close>)
  with same(2) have "resolve_metadata_path E (snd (m w)) path = resolve_metadata_path E w path"
    by (simp only: resolve_metadata_path_def)
  then show ?thesis using assms(2) by (simp add: get_metadata_path_def split: if_splits)
qed

text \<open>The document at a metadata path, or the default when there is none.\<close>

definition stored_metadata :: "'w host \<Rightarrow> 'w \<Rightarrow> path \<Rightarrow> string + rootfs_metadata" where
  "stored_metadata H w mp = (if ho_exists H w mp = Inr True then ho_from_json H w mp else Inr rootfs_metadata_default)"

lemma act_bind_InrE:
  assumes "act_bind m f s = (Inr r, s')"
  obtains x s1 where "m s = (Inr x, s1)" "f x s1 = (Inr r, s')"
  using assms by (auto simp: act_bind_Inr_iff)

lemma act_map_err_InrE:
  assumes "act_map_err g m s = (Inr r, s')"
  obtains "m s = (Inr r, s')"
  using assms by (auto simp: act_map_err_def split: prod.splits)

lemma save_metadata_run:
  assumes mp: "get_metadata_path E w path = Inr (Some mp)"
    and run: "save_metadata_for_file E path f w = (Inr r, w')"
  obtains ex metadir old w1 w2 w3 w4 where "ho_exists (e_host E) w mp = Inr ex"
    "act_ignore (ho_create_dir_all (e_host E) metadir) w = (Inr () :: unit + unit, w1)"
    "ho_open_create (e_host E) mp w1 = (Inr (), w2)" "ho_flock (e_host E) mp w2 = (Inr (), w3)"
    "(if ex then ho_from_json (e_host E) w3 mp else Inr rootfs_metadata_default) = Inr old"
    "ho_to_json (e_host E) mp (snd (f old)) w4 = (Inr (), w')" "r = Some (fst (f old))"
proof -
  have rootfs: "a_rootfs (e_args E) \<noteq> None" using mp by (auto simp: get_metadata_path_def split: if_splits)
  obtain ex where ex: "ho_exists (e_host E) w mp = Inr ex"
    using run rootfs mp
    by (cases "ho_exists (e_host E) w mp") (simp_all add: save_metadata_for_file_def act_look_def res_simps)
  obtain metadir where metadir: "path_parent mp = Some metadir"
    using run rootfs mp ex
    by (cases "path_parent mp") (simp_all add: save_metadata_for_file_def act_look_def res_simps)
  obtain w1 where w1: "act_ignore (ho_create_dir_all (e_host E) metadir) w = (Inr () :: unit + unit, w1)"
      "act_ignore (ho_create_dir_all (e_host E) metadir) w = (Inr () :: sysaug_error + unit, w1)"
    by (cases "ho_create_dir_all (e_host E) metadir w") (simp add: act_ignore_def)
  have tail: "act_bind (act_map_err WriteMetadata (ho_open_create (e_host E) mp)) (\<lambda>_.
     act_bind (act_map_err (\<lambda>_. LockRootFsMetadata) (ho_flock (e_host E) mp)) (\<lambda>_.
     act_bind (if \<not> ex then act_ret rootfs_metadata_default
               else act_look (\<lambda>w. map_err ParseRootFsMetadata (ho_from_json (e_host E) w mp)))
       (\<lambda>curr_data. case f curr_data of (t, new_data) \<Rightarrow>
     act_bind (if ex then act_map_err WriteRootFsMetadata (ho_truncate (e_host E) mp) else act_ret ()) (\<lambda>_.
     act_bind (act_map_err WriteRootFsMetadata2 (ho_to_json (e_host E) mp new_data)) (\<lambda>_.
     act_ret (Some t)))))) w1 = (Inr r, w')"
    using run rootfs mp ex metadir w1(2)
    by (simp add: save_metadata_for_file_def act_look_def act_bind_run)
  then obtain w2 w3 old s3 where w3: "ho_open_create (e_host E) mp w1 = (Inr (), w2)"
      "ho_flock (e_host E) mp w2 = (Inr (), w3)"
      "(if \<not> ex then act_ret rootfs_metadata_default
        else act_look (\<lambda>w. map_err ParseRootFsMetadata (ho_from_json (e_host E) w mp))) w3 = (Inr old, s3)"
      "(case f old of (t, new_data) \<Rightarrow>
        act_bind (if ex then act_map_err WriteRootFsMetadata (ho_truncate (e_host E) mp) else act_ret ()) (\<lambda>_.
        act_bind (act_map_err WriteRootFsMetadata2 (ho_to_json (e_host E) mp new_data)) (\<lambda>_.
        act_ret (Some t)))) s3 = (Inr r, w')"
    by (elim act_bind_InrE act_map_err_InrE) simp
  have "(if ex then ho_from_json (e_host E) w3 mp else Inr rootfs_metadata_default) = Inr old"
    using w3(3) by (auto simp: act_look_def act_ret_def split: if_splits)
  moreover obtain w4 where "ho_to_json (e_host E) mp (snd (f old)) w4 = (Inr (), w')" "r = Some (fst (f old))"
    using w3(4) unfolding split_beta
    by (elim act_bind_InrE act_map_err_InrE) (simp add: act_ret_def)
  ultimately show thesis using ex w1(1) w3(1,2) by (intro that)
qed

lemma creates_only_exists:
  "creates_only H m \<Longrightarrow> m w = (r, w') \<Longrightarrow> ho_exists H w p = Inr True \<Longrightarrow> ho_exists H w' p = Inr True"
  unfolding creates_only_def by (metis snd_conv)

lemma keeps_documents_run:
  "keeps_documents H m \<Longrightarrow> m w = (r, w') \<Longrightarrow> ho_exists H w p = Inr True \<Longrightarrow>
   ho_from_json H w' p = ho_from_json H w p"
  unfolding keeps_documents_def by (metis snd_conv)

lemma json_files_written:
  "json_files H \<Longrightarrow> ho_to_json H p m w = (Inr (), w') \<Longrightarrow>
   ho_exists H w' p = Inr True \<and> ho_open_read H w' p = Inr () \<and> ho_from_json H w' p = Inr m"
  by (simp add: json_files_def)

text \<open>A successful update applies the function to the stored document, and the next read finds its
  result.\<close>

lemma save_metadata_reads_back:
  assumes host: "json_files (e_host E)" and mp: "get_metadata_path E w path = Inr (Some mp)"
    and run: "save_metadata_for_file E path f w = (Inr r, w')"
  obtains old where "stored_metadata (e_host E) w mp = Inr old" "r = Some (fst (f old))"
    "read_metadata_for_file E w' path = Inr (Some (snd (f old)))"
proof -
  let ?H = "e_host E"
  obtain ex metadir old w1 w2 w3 w4 where ex: "ho_exists ?H w mp = Inr ex"
    and w1: "act_ignore (ho_create_dir_all ?H metadir) w = (Inr () :: unit + unit, w1)"
    and w2: "ho_open_create ?H mp w1 = (Inr (), w2)" and w3: "ho_flock ?H mp w2 = (Inr (), w3)"
    and old: "(if ex then ho_from_json ?H w3 mp else Inr rootfs_metadata_default) = Inr old"
    and out: "ho_to_json ?H mp (snd (f old)) w4 = (Inr (), w')" and r: "r = Some (fst (f old))"
    using save_metadata_run [OF mp run] by metis
  obtain r1 where r1: "ho_create_dir_all ?H metadir w = (r1, w1)"
    using w1 by (auto simp: act_ignore_def split: prod.splits)
  have ops: "creates_only ?H (ho_create_dir_all ?H metadir)" "creates_only ?H (ho_open_create ?H mp)"
    "keeps_documents ?H (ho_create_dir_all ?H metadir)" "keeps_documents ?H (ho_open_create ?H mp)"
    "keeps_documents ?H (ho_flock ?H mp)"
    using host by (simp_all add: json_files_def)
  have "ho_from_json ?H w3 mp = ho_from_json ?H w mp" if "ho_exists ?H w mp = Inr True"
    using that creates_only_exists [OF ops(1) r1] creates_only_exists [OF ops(2) w2]
      keeps_documents_run [OF ops(3) r1] keeps_documents_run [OF ops(4) w2] keeps_documents_run [OF ops(5) w3]
    by metis
  then have stored: "stored_metadata ?H w mp = Inr old"
    using old ex by (auto simp: stored_metadata_def split: if_splits)
  have "get_metadata_path E w' path = Inr (Some mp)"
    using creates_only_metadata_path [OF save_metadata_creates_only [OF host] mp, of path f] run by simp
  moreover have "a_rootfs (e_args E) \<noteq> None" using mp by (auto simp: get_metadata_path_def split: if_splits)
  ultimately have "read_metadata_for_file E w' path = Inr (Some (snd (f old)))"
    using json_files_written [OF host out] by (simp add: read_metadata_for_file_def)
  with stored r show thesis by (rule that)
qed

section \<open>Augments that save metadata\<close>

text \<open>A call with a single saved path, as \<open>chmod\<close> and \<open>chown\<close> have.\<close>

definition only_path :: "path \<Rightarrow> augment_state \<Rightarrow> bool" where
  "only_path p st \<longleftrightarrow> filter (\<lambda>x. x \<noteq> None) (as_save_paths st) = [Some p]"

lemma each_path_single: "filter (\<lambda>x. x \<noteq> None) ps = [Some p] \<Longrightarrow> each_path f ps = each_path f [Some p]"
proof (induction ps)
  case (Cons a ps)
  have none: "filter (\<lambda>x. x \<noteq> None) qs = [] \<Longrightarrow> each_path f qs = act_ret ()" for qs
    by (induction qs) (auto split: if_splits)
  show ?case
  proof (cases a)
    case None
    then show ?thesis using Cons by simp
  next
    case (Some q)
    then show ?thesis using Cons.prems none [of ps] by simp
  qed
qed simp

lemma save_each_reads_back:
  assumes host: "json_files (e_host E)" and p: "only_path p st"
    and mp: "get_metadata_path E (h_world h) p = Inr (Some mp)"
    and run: "save_each E f (h, st) = (Inr (), (h', st'))"
  obtains old where "stored_metadata (e_host E) (h_world h) mp = Inr old"
    "read_metadata_for_file E (h_world h') p = Inr (Some (f old))"
proof -
  let ?save = "save_metadata_for_file E p (\<lambda>x. ((), f x))"
  obtain r w' where r: "?save (h_world h) = (r, w')" by (rule prod.exhaust)
  then obtain u where u: "r = Inr u" and h': "h_world h' = w'"
    using run p
    by (cases r) (auto simp: save_each_def for_saved_path_def only_path_def each_path_single on_file_def on_handler_def
        on_host_def on_tracer_def on_world_def act_bind_run act_get_def act_ret_def)
  from save_metadata_reads_back [OF host mp r [unfolded u]] h' show thesis by (auto intro: that)
qed

section \<open>From one system call to the next\<close>

definition stat_buffer :: "('w \<Rightarrow> usize \<Rightarrow> u8) \<Rightarrow> istat \<Rightarrow> usize \<Rightarrow> 'w handler \<Rightarrow> u8 list" where
  "stat_buffer rd T addr h = mem_slice (rd (h_world h)) addr (unat (is_size T))"

lemma x86_64_layouts: "T = libc_stat \<or> T = libc_statx \<Longrightarrow> stat_struct T"
  using stat.stat_struct_axioms statx.stat_struct_axioms by auto

lemma stat_buffer_faked:
  assumes "word_memory (e_kernel E) rd" "full_reads (e_kernel E)" "stat_struct T"
    and "read_metadata_for_file E (h_world h) path = Inr (Some meta)"
    and "replace_statbuf_result E T addr path h = (Inr (), h')"
  shows "stat_buffer rd T addr h' = fake_stat T meta (stat_buffer rd T addr h)"
  unfolding stat_buffer_def by (rule stat_struct.replace_statbuf_fields(1) [OF assms(3,1,2,4,5)])

lemma length_stat_buffer [simp]: "length (stat_buffer rd T addr h) = unat (is_size T)"
  by (simp add: stat_buffer_def)

section \<open>Runs of the concrete host\<close>

lemma model_json_files: "json_files model_host"
  by (auto simp: json_files_def creates_only_def keeps_documents_def model_host_def model_exists_def res_simps
      split: if_splits)

definition one_file_state :: augment_state where
  "one_file_state = \<lparr>as_entry_regs = zero_regs, as_orig_args = [4096, 493, 7, 0, 0],
     as_save_paths = [Some ''/r/fs/a'', None, None, None, None], as_need_write_regs = False,
     as_need_write_paths = 0, as_need_skip_syscall = None\<rparr>"

definition perms_info :: syscall_info where
  "perms_info = default_syscall_info\<lparr>si_file_perms_position := Some 1\<rparr>"

definition chmod_run :: "model handler \<times> augment_state" where
  "chmod_run = snd (chmod_after model_env perms_info (Inr (zero_regs, 0)) (model_handler model_world, one_file_state))"

definition chown_run :: "model handler \<times> augment_state" where
  "chown_run = snd (chown_after model_env perms_info (Inr (zero_regs, 0)) (model_handler model_world, one_file_state))"

lemma one_file_path:
  "get_metadata_path model_env (h_world (model_handler model_world)) ''/r/fs/a'' =
     Inr (Some ''/r/fs.metadata/rootfs/chld/a/meta'')"
  by code_simp

lemma chmod_runs: "fst (chmod_after model_env perms_info (Inr (zero_regs, 0)) (model_handler model_world, one_file_state)) = Inr ()"
  by code_simp
lemma chown_runs: "fst (chown_after model_env perms_info (Inr (zero_regs, 0)) (model_handler model_world, one_file_state)) = Inr ()"
  by code_simp

lemma model_stat_runs:
  assumes "stat_struct T" "unat addr + unat (is_size T) < 2 ^ 64"
    and "read_metadata_for_file model_env (h_world h) p = Inr (Some meta)"
  shows "\<exists>h'. replace_statbuf_result model_env T addr p h = (Inr (), h')"
  using assms model_writable model_readable model_word_memory model_full_reads
  by (intro replace_statbuf_returns [where lo = 0 and hi = "unat addr + unat (is_size T)" and rd = d_mem])
    (simp_all add: fits_def)

lemma chmod_stat_runs:
  "\<exists>h3. replace_statbuf_result model_env libc_stat 8192 ''/r/fs/a'' (fst chmod_run) = (Inr (), h3)"
proof -
  have "read_metadata_for_file model_env (h_world (fst chmod_run)) ''/r/fs/a'' =
      Inr (Some (rootfs_metadata_default\<lparr>m_chmod := Some 493\<rparr>))" by code_simp
  from model_stat_runs [OF stat.stat_struct_axioms _ this, of 8192] show ?thesis by (simp add: libc_stat_def)
qed

lemma chown_stat_runs:
  "\<exists>h3. replace_statbuf_result model_env libc_statx 8192 ''/r/fs/a'' (fst chown_run) = (Inr (), h3)"
proof -
  have "read_metadata_for_file model_env (h_world (fst chown_run)) ''/r/fs/a'' =
      Inr (Some (rootfs_metadata_default\<lparr>m_chown_owner := Some 493, m_chown_group := Some 7\<rparr>))" by code_simp
  from model_stat_runs [OF statx.stat_struct_axioms _ this, of 8192] show ?thesis by (simp add: libc_statx_def)
qed





text \<open>C24: a \<open>stat\<close> result keeps everything but the four emulated fields.  When the replacement of a
  result succeeds, every byte of the tracee's memory that is not part of the mode, the owner, the
  group or the link count of the buffer is what it was.\<close>

theorem stat_keeps_other_bytes:
  assumes "word_memory (e_kernel E) rd" "full_reads (e_kernel E)" "T = libc_stat \<or> T = libc_statx"
    and "replace_statbuf_result E T addr p h = (Inr (), h')"
    and "\<And>f. f \<in> {is_mode T, is_uid T, is_gid T, is_nlink T} \<Longrightarrow>
      unat (b - addr) < fst f \<or> fst f + snd f \<le> unat (b - addr)"
  shows "rd (h_world h') b = rd (h_world h) b"
proof (cases "read_metadata_for_file E (h_world h) p")
  case (Inl e)
  then show ?thesis using assms(4) by (simp add: replace_statbuf_result_def act_look_def act_bind_run)
next
  case (Inr meta)
  note T = x86_64_layouts [OF assms(3)]
  show ?thesis
  proof (cases meta)
    case None
    then show ?thesis using assms(4) Inr by (simp add: replace_statbuf_result_def act_look_def act_bind_run act_ret_def)
  next
    case (Some m)
    let ?old = "stat_buffer rd T addr h"
    have m: "read_metadata_for_file E (h_world h) p = Inr (Some m)" using Inr Some by simp
    have eq: "rd (h_world h') = mem_put (rd (h_world h)) addr (fake_stat T m ?old)"
      unfolding stat_buffer_def by (rule stat_struct.replace_statbuf_memory [OF T assms(1,2) m assms(4)])
    have "fake_stat T m ?old ! unat (b - addr) = ?old ! unat (b - addr)" if "unat (b - addr) < unat (is_size T)"
      using that assms(5)
      by (intro stat_struct.fake_stat_fields(6) [OF T]) (auto simp: fields_def)
    then show ?thesis
      using stat_struct.fake_stat_fields(1) [OF T, of ?old m]
      by (auto simp: eq mem_put_def stat_buffer_def)
  qed
qed

theorem stat_keeps_other_bytes_witness:
  "\<exists>h3. replace_statbuf_result model_env libc_stat 8192 ''/r/fs/a'' (fst chmod_run) = (Inr (), h3) \<and>
     d_mem (h_world h3) 8193 = d_mem (h_world (fst chmod_run)) 8193"
proof -
  obtain h3 where h3: "replace_statbuf_result model_env libc_stat 8192 ''/r/fs/a'' (fst chmod_run) = (Inr (), h3)"
    using chmod_stat_runs by (rule exE)
  have "d_mem (h_world h3) 8193 = d_mem (h_world (fst chmod_run)) 8193"
    by (rule stat_keeps_other_bytes [OF _ _ _ h3])
      (auto simp: model_word_memory model_full_reads libc_stat_def)
  with h3 show ?thesis by blast
qed

end
