(* ===== verification/Struct_Roundtrip.thy ===== *)
theory Struct_Roundtrip
  imports Mem_Access
begin

text \<open>
  What \<open>write_structs_to_tracee\<close> writes, \<open>read_bytes_to_structs\<close> reads back.  The writer leaves out
  words of a long run of zeroes and stores the shorter size in the header; the reader fills the
  rest with zeroes again.  The two agree on structures whose zero words come last (\<open>tidy\<close>): each is
  read back with its new size in the header and otherwise unchanged.
\<close>

definition header_len :: "cstruct \<Rightarrow> nat" where
  "header_len cs = (unat (cs_header_size cs) + 7) div 8"

abbreviation body_words :: "cstruct \<Rightarrow> u8 list \<Rightarrow> usize list" where
  "body_words cs item \<equiv> drop (header_len cs) (struct_words item)"

definition tidy :: "cstruct \<Rightarrow> nat \<Rightarrow> u8 list \<Rightarrow> bool" where
  "tidy cs c item \<longleftrightarrow> length item = unat (cs_size cs) \<and>
     c < length (takeWhile (\<lambda>m. m = 0) (rev (body_words cs item))) \<and>
     0 \<notin> set (dropWhile (\<lambda>m. m = 0) (rev (body_words cs item)))"

definition stored_size :: "cstruct \<Rightarrow> nat \<Rightarrow> u8 list \<Rightarrow> nat" where
  "stored_size cs c item = 8 * length (struct_image cs c (header_len cs) item)"

definition stored_item :: "cstruct \<Rightarrow> nat \<Rightarrow> u8 list \<Rightarrow> u8 list" where
  "stored_item cs c item = cs_item_size_updater cs item (of_nat (stored_size cs c item))"

lemma shrink_nonzero:
  "0 \<notin> set xs \<Longrightarrow> shrink_words c k (xs @ replicate z 0) =
     xs @ shrink_words c (if xs = [] then k else 0) (replicate z 0)"
  by (induction xs arbitrary: k) auto

lemma shrink_zeroes: "shrink_words c k (replicate z 0) = replicate (min z (c - k)) 0"
proof (induction z arbitrary: k)
  case (Suc z)
  show ?case
  proof (cases "c - k")
    case (Suc d)
    then have "Suc k \<le> c" "c - Suc k = d" by auto
    then show ?thesis using Suc.IH [of "Suc k"] \<open>c - k = Suc d\<close> by simp
  qed (use Suc.IH [of "Suc k"] in simp)
qed simp

lemma tidy_words:
  assumes "tidy cs c item"
  obtains xs z where "body_words cs item = xs @ replicate z 0" "0 \<notin> set xs" "c < z"
    "shrink_words c 0 (body_words cs item) = xs @ replicate c 0"
proof -
  let ?r = "rev (body_words cs item)"
  define xs z where "xs = rev (dropWhile (\<lambda>m. m = 0) ?r)" and "z = length (takeWhile (\<lambda>m. m = 0) ?r)"
  have "takeWhile (\<lambda>m. m = 0) ?r = replicate z 0"
    unfolding z_def by (intro replicate_length_same [symmetric]) (auto dest: set_takeWhileD)
  then have "?r = replicate z 0 @ rev xs" using takeWhile_dropWhile_id [of "\<lambda>m. m = 0" ?r] by (simp add: xs_def)
  then have b: "body_words cs item = xs @ replicate z 0" by (metis rev_append rev_replicate rev_rev_ident)
  have nz: "0 \<notin> set xs" and z: "c < z" using assms by (auto simp: tidy_def xs_def z_def)
  have "shrink_words c 0 (body_words cs item) = xs @ replicate c 0"
    unfolding b shrink_nonzero [OF nz] using z by (simp add: shrink_zeroes)
  with b nz z show thesis by (rule that)
qed

context c_struct
begin

lemma header_len_bytes: "8 * header_len cs = unat (cs_header_size cs)"
  using header_words by (auto simp: header_len_def elim!: dvdE simp flip: dvd_eq_mod_eq_0)

lemma size_small: "unat (cs_size cs) \<le> 2048" "unat (cs_header_size cs) \<le> unat (cs_size cs)"
  using size_bounded header_fits by (simp_all add: MAX_STRUCT_SIZE_def word_le_nat_alt)

text \<open>The image of a tidy structure: the header with the new size, then the words that remain.\<close>

lemma tidy_image:
  assumes "tidy cs c item"
  obtains xs z where "body_words cs item = xs @ replicate z 0" "c < z"
    "struct_image cs c (header_len cs) item = take (header_len cs) (struct_words (stored_item cs c item)) @ xs @ replicate c 0"
    "stored_size cs c item = unat (cs_header_size cs) + 8 * (length xs + c)"
    "stored_size cs c item < unat (cs_size cs)"
proof -
  obtain xs z where b: "body_words cs item = xs @ replicate z 0" and z: "c < z"
    and s: "shrink_words c 0 (body_words cs item) = xs @ replicate c 0"
    using tidy_words [OF assms] by metis
  have len: "length item = unat (cs_size cs)" using assms by (simp add: tidy_def)
  have lw: "length (struct_words item) = unat (cs_size cs) div 8" by (simp add: len)
  have tot: "unat (cs_size cs) = unat (cs_header_size cs) + 8 * (length xs + z)"
  proof -
    define q where "q = unat (cs_size cs) div 8"
    have "q - header_len cs = length xs + z" using arg_cong [OF b, of length] lw by (simp add: q_def)
    with z have "q = header_len cs + (length xs + z)" by simp
    moreover have "8 * q = unat (cs_size cs)" using size_words by (auto simp: q_def)
    ultimately show ?thesis using header_len_bytes by simp
  qed
  let ?n = "cs_size cs - of_nat ((z - c) * 8)"
  have n: "?n = of_nat (unat (cs_header_size cs) + 8 * (length xs + c))"
  proof -
    have "of_nat (unat (cs_size cs)) = cs_size cs" by simp
    moreover have "unat (cs_size cs) = (unat (cs_header_size cs) + 8 * (length xs + c)) + (z - c) * 8"
      using tot z by simp
    ultimately have "of_nat (unat (cs_header_size cs) + 8 * (length xs + c)) + of_nat ((z - c) * 8) = cs_size cs"
      by (simp only: of_nat_add)
    then show ?thesis by (simp only: diff_eq_eq)
  qed
  have img: "struct_image cs c (header_len cs) item =
      take (header_len cs) (struct_words (cs_item_size_updater cs item ?n)) @ xs @ replicate c 0"
  proof -
    have "length (body_words cs item) - length (xs @ replicate c (0 :: usize)) = z - c" unfolding b by simp
    moreover have "0 < z - c" using z by simp
    ultimately show ?thesis by (simp only: struct_image_def Let_def s if_True)
  qed
  have hl: "header_len cs \<le> unat (cs_size cs) div 8" using div_le_mono [OF size_small(2), of 8] header_len_bytes by simp
  have sz: "stored_size cs c item = unat (cs_header_size cs) + 8 * (length xs + c)"
    unfolding stored_size_def img using hl header_len_bytes
    by (simp add: updater_length len min_def)
  show thesis
  proof (rule that [OF b z _ sz])
    show "struct_image cs c (header_len cs) item =
        take (header_len cs) (struct_words (stored_item cs c item)) @ xs @ replicate c 0"
      unfolding stored_item_def sz img n ..
    show "stored_size cs c item < unat (cs_size cs)" unfolding sz tot using z by simp
  qed
qed

lemma stored_item_facts:
  assumes "tidy cs c item"
  shows "length (stored_item cs c item) = unat (cs_size cs)"
    "drop (unat (cs_header_size cs)) (stored_item cs c item) = drop (unat (cs_header_size cs)) item"
    "cs_item_size_deducer cs (stored_item cs c item) = of_nat (stored_size cs c item)"
proof -
  have len: "length item = unat (cs_size cs)" using assms by (simp add: tidy_def)
  then show "length (stored_item cs c item) = unat (cs_size cs)"
    "drop (unat (cs_header_size cs)) (stored_item cs c item) = drop (unat (cs_header_size cs)) item"
    by (simp_all add: stored_item_def updater_length updater_body)
  have "stored_size cs c item < 2048" using tidy_image [OF assms] size_small by (metis le_trans less_le_trans)
  then have "of_nat (stored_size cs c item) \<le> MAX_STRUCT_SIZE"
    by (simp add: MAX_STRUCT_SIZE_def word_le_nat_alt unat_of_nat_usize)
  then show "cs_item_size_deducer cs (stored_item cs c item) = of_nat (stored_size cs c item)"
    unfolding stored_item_def using len size_small by (intro deducer_updater) simp
qed

text \<open>The bytes of the image, with zeroes for the words left out, are the stored structure.\<close>

lemma image_bytes:
  assumes "tidy cs c item"
  shows "words_image (struct_image cs c (header_len cs) item) @
      replicate (unat (cs_size cs) - stored_size cs c item) 0 = stored_item cs c item"
    and "take (unat (cs_header_size cs)) (words_image (struct_image cs c (header_len cs) item)) =
      take (unat (cs_header_size cs)) (stored_item cs c item)"
proof -
  obtain xs z where b: "body_words cs item = xs @ replicate z 0" and z: "c < z"
    and img: "struct_image cs c (header_len cs) item = take (header_len cs) (struct_words (stored_item cs c item)) @ xs @ replicate c 0"
    and sz: "stored_size cs c item = unat (cs_header_size cs) + 8 * (length xs + c)"
    using tidy_image [OF assms] by metis
  let ?it = "stored_item cs c item" and ?hs = "unat (cs_header_size cs)"
  note F = stored_item_facts [OF assms]
  have d: "8 dvd length ?it" "8 dvd length item" using F(1) size_words assms by (auto simp: tidy_def)
  have w: "words_image (take (header_len cs) (struct_words y)) = take ?hs y \<and>
      words_image (drop (header_len cs) (struct_words y)) = drop ?hs y" if "8 dvd length y" "?hs \<le> length y" for y
  proof -
    have "header_len cs \<le> length y div 8" using div_le_mono [OF that(2), of 8] header_len_bytes by simp
    then have l: "length (words_image (take (header_len cs) (struct_words y))) = ?hs"
      using header_len_bytes by simp
    have "words_image (take (header_len cs) (struct_words y)) @ words_image (drop (header_len cs) (struct_words y)) = y"
      using words_image_struct_words [OF that(1)]
      by (simp only: append_take_drop_id concat_append [symmetric] map_append [symmetric])
    with l show ?thesis by (simp add: append_eq_conv_conj)
  qed
  have zeroes: "concat (replicate n (replicate 8 (0 :: u8))) = replicate (8 * n) 0" for n
    by (induction n) (simp_all add: replicate_add [symmetric])
  have body: "words_image xs @ replicate (8 * z) 0 = drop ?hs ?it"
    using w [OF d(2)] b size_small assms zeroes F(2) by (simp add: tidy_def)
  have "words_image (struct_image cs c (header_len cs) item) = take ?hs ?it @ words_image xs @ replicate (8 * c) 0"
    using w [OF d(1)] F(1) size_small by (simp add: img zeroes)
  moreover have "unat (cs_size cs) - stored_size cs c item = 8 * (z - c)"
    using arg_cong [OF body, of length] F(1) size_small(2) sz by simp
  moreover have "replicate (8 * c) 0 @ replicate (8 * (z - c)) 0 = replicate (8 * z) (0 :: u8)"
    using z by (simp add: replicate_add [symmetric])
  ultimately show "words_image (struct_image cs c (header_len cs) item) @
      replicate (unat (cs_size cs) - stored_size cs c item) 0 = ?it"
    and "take ?hs (words_image (struct_image cs c (header_len cs) item)) = take ?hs ?it"
    using body F(1) size_small(2) by (simp_all add: min_def)
qed

lemma stored_size_bounds:
  assumes "tidy cs c item"
  shows "unat (cs_header_size cs) \<le> stored_size cs c item" "stored_size cs c item < unat (cs_size cs)"
    "stored_size cs c item mod 8 = 0" "unat (of_nat (stored_size cs c item) :: usize) = stored_size cs c item"
proof -
  obtain n where n: "stored_size cs c item = unat (cs_header_size cs) + 8 * n" "stored_size cs c item < unat (cs_size cs)"
    using tidy_image [OF assms] by metis
  then show "unat (cs_header_size cs) \<le> stored_size cs c item" "stored_size cs c item < unat (cs_size cs)" by simp_all
  show "stored_size cs c item mod 8 = 0" by (simp add: stored_size_def)
  show "unat (of_nat (stored_size cs c item) :: usize) = stored_size cs c item"
    using n(2) unat_lt_2p64 [of "cs_size cs"] by (intro unat_of_nat_usize) linarith
qed

lemma read_struct_back:
  assumes mem: "word_memory (e_kernel E) rd" "full_reads (e_kernel E)"
    and rdb: "readable (e_kernel E) (tr_world s) lo hi" "lo \<le> unat cur" "unat final \<le> hi" "hi < 2 ^ 64"
    and item: "tidy cs c item" and fin: "unat cur + stored_size cs c item \<le> unat final"
    and bytes: "mem_slice (rd (tr_world s)) cur (stored_size cs c item) =
      words_image (struct_image cs c (header_len cs) item)"
  obtains s' where "tr_world s' = tr_world s"
    "read_struct (get_mem_helper E h) cs final cur s =
      (Inr (stored_item cs c item, cur + of_nat (stored_size cs c item)), s')"
proof -
  let ?hs = "cs_header_size cs" and ?n = "stored_size cs c item" and ?zs = "replicate (unat MAX_STRUCT_SIZE) (0 :: u8)"
  let ?w = "tr_world s" and ?it = "stored_item cs c item"
  note B = stored_size_bounds [OF item]
  have lz: "length ?zs = 2048" by (simp add: MAX_STRUCT_SIZE_def)
  have h1: "checked_add cur ?hs = Inr (cur + ?hs)" using B(1) fin rdb by (simp add: checked_add_Inr)
  have uh: "unat (cur + ?hs) = unat cur + unat ?hs" by (rule checked_add_unat [OF h1])
  define r where "r = (of_nat ?n :: usize) - ?hs"
  have ur: "unat r = ?n - unat ?hs" unfolding r_def using B by (simp add: unat_sub word_le_nat_alt)
  have h2: "checked_add (cur + ?hs) r = Inr (cur + ?hs + r)" using B(1) fin rdb uh ur by (simp add: checked_add_Inr)
  have ue: "unat (cur + ?hs + r) = unat cur + ?n" using checked_add_unat [OF h2] uh ur B(1) by simp
  have "fits cur ?hs lo hi" using B(1) fin rdb by (simp add: fits_def)
  then obtain s1 where s1: "tr_world s1 = ?w"
    "mh_read_bytes (get_mem_helper E h) cur ?hs ?zs s = (Inr (mem_slice (rd ?w) cur (unat ?hs) @ drop (unat ?hs) ?zs), s1)"
    using helper_reads [OF mem rdb(1), of cur ?hs ?zs h] header_words size_small lz by auto
  have hd: "mem_slice (rd ?w) cur (unat ?hs) = take (unat ?hs) ?it"
    using image_bytes(2) [OF item] bytes take_mem_slice [OF B(1), of "rd ?w" cur] by simp
  have ded: "cs_item_size_deducer cs (take (unat ?hs) ?it) = of_nat ?n"
    using deducer_prefix [of ?it] stored_item_facts(3) [OF item] by simp
  have "fits (cur + ?hs) r lo hi" using B(1) fin rdb uh ur by (simp add: fits_def)
  moreover have "unat r mod 8 = 0" using ur B(1,3) header_words by (metis mod_0_imp_dvd dvd_diff_nat mod_eq_0_iff_dvd)
  moreover have "unat r \<le> length (drop (unat ?hs) ?zs)" using ur B size_small lz by simp
  moreover have "unat r < 2 ^ 63" using ur B size_small by simp
  ultimately obtain s2 where s2: "tr_world s2 = ?w"
    "mh_read_bytes (get_mem_helper E h) (cur + ?hs) r (drop (unat ?hs) ?zs) s1 =
      (Inr (mem_slice (rd ?w) (cur + ?hs) (unat r) @ drop (unat r) (drop (unat ?hs) ?zs)), s2)"
    using helper_reads [OF mem, of s1 lo hi "cur + ?hs" r "drop (unat ?hs) ?zs" h] rdb(1) s1(1) by auto
  have "take (unat ?hs) ?it @ mem_slice (rd ?w) (cur + ?hs) (unat r) = mem_slice (rd ?w) cur ?n"
    using mem_slice_add [of "rd ?w" cur "unat ?hs" "unat r"] hd ur B(1) by simp
  moreover have "drop (unat r) (drop (unat ?hs) ?zs) = replicate (2048 - ?n) 0"
    using ur B(1) by (simp add: MAX_STRUCT_SIZE_def)
  ultimately have "take (unat ?hs) ?it @ mem_slice (rd ?w) (cur + ?hs) (unat r) @ drop (unat r) (drop (unat ?hs) ?zs) =
      words_image (struct_image cs c (header_len cs) item) @ replicate (2048 - ?n) 0"
    using bytes by (metis append.assoc)
  moreover have "length (words_image (struct_image cs c (header_len cs) item)) = ?n" by (simp add: stored_size_def)
  moreover have "take (unat (cs_size cs) - ?n) (replicate (2048 - ?n) (0 :: u8)) = replicate (unat (cs_size cs) - ?n) 0"
    using size_small by simp
  ultimately have it: "take (unat (cs_size cs)) (take (unat ?hs) ?it @
      mem_slice (rd ?w) (cur + ?hs) (unat r) @ drop (unat r) (drop (unat ?hs) ?zs)) = ?it"
    using image_bytes(1) [OF item] B(2) by simp
  have tk: "take (unat ?hs) (mem_slice (rd ?w) cur (unat ?hs) @ drop (unat ?hs) ?zs) = take (unat ?hs) ?it"
    "drop (unat ?hs) (mem_slice (rd ?w) cur (unat ?hs) @ drop (unat ?hs) ?zs) = drop (unat ?hs) ?zs"
    using length_mem_slice [of "rd ?w" cur "unat ?hs"] by (simp_all add: hd [symmetric] del: length_mem_slice)
  have guards: "\<not> cur + ?hs > final" "\<not> (of_nat ?n :: usize) < ?hs" "\<not> (of_nat ?n :: usize) > cs_size cs"
    "\<not> cur + ?hs + r > final"
    using uh ue fin B by (simp_all add: not_less word_le_nat_alt)
  have "read_struct (get_mem_helper E h) cs final cur s = (Inr (?it, cur + ?hs + r), s2)"
    unfolding read_struct_def Let_def act_bind_run act_lift_def h1 s1(2) sum.case prod.case
    by (simp only: guards if_False tk ded r_def [symmetric] act_bind_run act_lift_def h1 h2 s1(2) s2(2) sum.case prod.case
        act_ret_def it)
  moreover have "cur + ?hs + r = cur + of_nat ?n" by (simp add: r_def)
  ultimately show thesis using s2(1) by (intro that [of s2]) simp_all
qed

lemma read_structs_back:
  assumes mem: "word_memory (e_kernel E) rd" "full_reads (e_kernel E)"
    and rdb: "readable (e_kernel E) w lo hi" "unat final \<le> hi" "hi < 2 ^ 64"
  shows "(\<And>item. item \<in> set xs \<Longrightarrow> tidy cs c item) \<Longrightarrow> tr_world s = w \<Longrightarrow> lo \<le> unat cur \<Longrightarrow>
    unat final = unat cur + 8 * length (concat (map (struct_image cs c (header_len cs)) xs)) \<Longrightarrow>
    mem_slice (rd w) cur (unat final - unat cur) = words_image (concat (map (struct_image cs c (header_len cs)) xs)) \<Longrightarrow>
    length xs < fuel \<Longrightarrow>
    \<exists>s'. read_structs_loop fuel (get_mem_helper E h) cs final cur acc s =
      Some (Inr (acc @ map (stored_item cs c) xs), s') \<and> tr_world s' = w"
proof (induction xs arbitrary: cur acc s fuel)
  case Nil
  then show ?case by (cases fuel) (auto simp: word_less_nat_alt)
next
  case (Cons item xs)
  let ?img = "struct_image cs c (header_len cs) item" and ?n = "stored_size cs c item"
  let ?rest = "concat (map (struct_image cs c (header_len cs)) xs)"
  obtain f where f: "fuel = Suc f" using Cons.prems(6) by (cases fuel) auto
  have item: "tidy cs c item" using Cons.prems(1) by simp
  note B = stored_size_bounds [OF item]
  have n: "8 * length ?img = ?n" by (simp add: stored_size_def)
  have fin: "unat final = unat cur + ?n + 8 * length ?rest" using Cons.prems(4) n by simp
  have pos: "0 < ?n" using B(1) header_nonempty by (simp add: word_less_nat_alt)
  have "mem_slice (rd w) cur (?n + 8 * length ?rest) = words_image ?img @ words_image ?rest"
    using Cons.prems(5) fin by simp
  moreover have "length (words_image ?img) = ?n" using n by simp
  ultimately have "mem_slice (rd w) cur ?n = words_image ?img \<and>
      mem_slice (rd w) (cur + of_nat ?n) (8 * length ?rest) = words_image ?rest"
    unfolding mem_slice_add by (subst (asm) append_eq_append_conv) simp_all
  then have bytes: "mem_slice (rd w) cur ?n = words_image ?img"
    "mem_slice (rd w) (cur + of_nat ?n) (8 * length ?rest) = words_image ?rest" by blast+
  obtain s1 where s1: "tr_world s1 = w"
    "read_struct (get_mem_helper E h) cs final cur s = (Inr (stored_item cs c item, cur + of_nat ?n), s1)"
    using read_struct_back [OF mem, of s lo hi cur final c item h] rdb Cons.prems(2,3) item fin bytes(1) by auto
  have ucur: "unat (cur + of_nat ?n) = unat cur + ?n" using fin rdb by (intro unat_add_of_nat) linarith
  have "cur < final" using fin pos by (simp add: word_less_nat_alt)
  moreover have "\<exists>s'. read_structs_loop f (get_mem_helper E h) cs final (cur + of_nat ?n) (acc @ [stored_item cs c item]) s1 =
      Some (Inr ((acc @ [stored_item cs c item]) @ map (stored_item cs c) xs), s') \<and> tr_world s' = w"
    by (rule Cons.IH) (use Cons.prems s1(1) ucur fin bytes(2) f in auto)
  ultimately show ?case using s1(2) by (simp add: f)
qed

end

lemma image_count:
  assumes "c_struct cs" "\<And>item. item \<in> set xs \<Longrightarrow> tidy cs c item"
  shows "length xs \<le> length (concat (map (struct_image cs c (header_len cs)) xs))"
  using assms(2)
proof (induction xs)
  case (Cons item xs)
  have "0 < stored_size cs c item"
    using c_struct.stored_size_bounds(1) [OF assms(1), of c item] Cons.prems c_struct.header_nonempty [OF assms(1)]
    by (simp add: word_less_nat_alt)
  then have "1 \<le> length (struct_image cs c (header_len cs) item)" by (simp add: stored_size_def Suc_le_eq)
  moreover have "length xs \<le> length (concat (map (struct_image cs c (header_len cs)) xs))"
    using Cons.IH Cons.prems by simp
  ultimately show ?case by simp
qed simp

lemma write_then_read:
  assumes cs: "c_struct cs" and mem: "word_memory (e_kernel E) rd" "full_reads (e_kernel E)"
    and tidy: "\<And>item. item \<in> set xs \<Longrightarrow> tidy cs (unat c) item"
    and run: "write_structs_to_tracee (e_kernel E) cs addr buffer_size xs c w = (Inr n, w')"
    and same: "rd (tr_world s) = rd w'"
    and rdb: "readable (e_kernel E) (tr_world s) (unat addr) (unat addr + unat n)"
  shows "\<exists>s'. read_bytes_to_structs (get_mem_helper E h) cs addr n s = Some (Inr (map (stored_item cs (unat c)) xs), s')"
proof -
  let ?ws = "concat (map (struct_image cs (unat c) (header_len cs)) xs)"
  note B = c_struct.size_small [OF cs] c_struct.header_len_bytes [OF cs]
  have "header_len cs * 8 \<le> length item \<and> (\<forall>n. length (cs_item_size_updater cs item n) = length item)"
    if "item \<in> set xs" for item
    using tidy [OF that] B by (simp add: tidy_def c_struct.updater_length [OF cs])
  note put = write_structs_put [OF mem(1) this [unfolded header_len_def] run, folded header_len_def]
  have add: "checked_add addr n = Inr (addr + n)" using put(1,3) by (simp add: checked_add_Inr)
  have fin: "unat (addr + n) = unat addr + 8 * length ?ws" using checked_add_unat [OF add] put(1) by simp
  have "length (words_image ?ws) \<le> 2 ^ 64" unfolding length_words_image using put(3) by linarith
  from mem_slice_put [OF this, of "rd w" addr]
  have bytes: "mem_slice (rd (tr_world s)) addr (unat (addr + n) - unat addr) = words_image ?ws"
    using put(2) same by (simp add: fin)
  have "length xs < Suc (unat n)" using image_count [OF cs tidy, of xs] put(1) by simp
  moreover have "unat (addr + n) \<le> unat addr + unat n" "unat addr + unat n < 2 ^ 64" using put(1,3) fin by simp_all
  ultimately have "\<exists>s'. read_structs_loop (Suc (unat n)) (get_mem_helper E h) cs (addr + n) addr [] s =
      Some (Inr ([] @ map (stored_item cs (unat c)) xs), s') \<and> tr_world s' = tr_world s"
    using tidy fin bytes by (intro c_struct.read_structs_back [OF cs mem rdb]) simp_all
  moreover have "cs_size cs mod USIZE_SIZE = 0"
    using c_struct.size_words [OF cs] by (simp add: word_arith_nat_mod USIZE_SIZE_def unat_of_nat)
  ultimately show ?thesis
    using add c_struct.size_bounded [OF cs] c_struct.header_fits [OF cs]
    by (simp add: read_bytes_to_structs_def Let_def not_less del: read_structs_loop.simps) blast
qed


end
