(* ===== verification/Getdents_Properties.thy ===== *)
theory Getdents_Properties
  imports Getdents Struct_Roundtrip
begin

text \<open>
  What the guest finds in a directory listing: the entries the kernel returned, without those
  that a rule hides and with the names that a rule replaces, in the same order, as a list of
  entries that can be walked by their sizes, of the length the call now returns.
\<close>

definition hidden :: "'w env \<Rightarrow> idirent \<Rightarrow> u8 list \<Rightarrow> bool" where
  "hidden E T entry \<longleftrightarrow>
     get_mod_path E (path_from_bytes (get_name T (id_normalize_type T entry))) NoAction True = HidePath"

definition shown :: "'w env \<Rightarrow> idirent \<Rightarrow> u8 list \<Rightarrow> u8 list" where
  "shown E T entry = (case modify_entry E T entry of Inr (e, _) \<Rightarrow> e | Inl _ \<Rightarrow> entry)"

lemma modify_entry_verdict:
  "modify_entry E T entry = Inr (e, del) \<Longrightarrow> del = hidden E T entry \<and> e = shown E T entry"
  by (auto simp: modify_entry_def hidden_def shown_def Let_def split: path_action.splits if_splits)

lemma retained_shown:
  "modify_entries E T ds = Inr es \<Longrightarrow> retained es = map (shown E T) (filter (\<lambda>d. \<not> hidden E T d) ds)"
proof (induction ds arbitrary: es)
  case (Cons d ds)
  obtain e del es' where "modify_entry E T d = Inr (e, del)" "modify_entries E T ds = Inr es'" "es = (e, del) # es'"
    using Cons.prems by (auto simp: res_bind_Inr_iff)
  then show ?case using Cons.IH [of es'] modify_entry_verdict [of E T d e del] by (simp add: retained_def)
qed (simp add: retained_def)

text \<open>An entry with a name that ends early enough is tidy, so the writer keeps it readable.\<close>

lemma x86_64_entries: "T = IDirent64 \<or> T = IDirent32 \<Longrightarrow> c_struct (id_struct T)"
  using dirent64.c_struct_axioms dirent32.c_struct_axioms by (auto simp: IDirent64_def IDirent32_def)

lemma replace_getdents_run:
  assumes "read_dirents E T (arg1 r) (syscall_retval r) h = (Inr ds, h1)"
    and "replace_getdents_result E T r h = (Inr (), h')"
  obtains n w2 w3 where
    "write_structs_to_tracee (e_kernel E) (id_struct T) (arg1 r) (arg2 r * 2)
       (map (shown E T) (filter (\<lambda>d. \<not> hidden E T d) ds)) 2 (h_world h1) = (Inr n, w2)"
    "k_setregs (e_kernel E) w2 (set_syscall_retval (r\<lparr>arg2 := arg2 r * 2\<rparr>) n) = Inr w3" "h_world h' = w3"
proof -
  obtain es where es: "modify_entries E T ds = Inr es"
    and run: "act_bind (exec (write_structs_to_tracee (e_kernel E) (id_struct T) (arg1 r) (arg2 r * 2) (retained es) 2))
       (\<lambda>num_bytes. exec (setregs (e_kernel E) (set_syscall_retval (r\<lparr>arg2 := arg2 r * 2\<rparr>) num_bytes))) h1 = (Inr (), h')"
    using assms by (auto simp: replace_getdents_result_def Let_def act_bind_Inr_iff act_lift_def)
  then obtain n h2 where n: "exec (write_structs_to_tracee (e_kernel E) (id_struct T) (arg1 r) (arg2 r * 2) (retained es) 2) h1 = (Inr n, h2)"
    "exec (setregs (e_kernel E) (set_syscall_retval (r\<lparr>arg2 := arg2 r * 2\<rparr>) n)) h2 = (Inr (), h')"
    by (auto simp: act_bind_Inr_iff)
  have "write_structs_to_tracee (e_kernel E) (id_struct T) (arg1 r) (arg2 r * 2) (retained es) 2 (h_world h1) = (Inr n, h_world h2)"
    using n(1) by (auto simp: exec_def on_tracer_def on_world_def res_simps split: prod.splits)
  moreover have "k_setregs (e_kernel E) (h_world h2) (set_syscall_retval (r\<lparr>arg2 := arg2 r * 2\<rparr>) n) = Inr (h_world h')"
    using n(2) by (auto simp: exec_def on_tracer_def on_world_def res_simps setregs_def split: prod.splits sum.splits)
  ultimately show thesis using retained_shown [OF es] by (intro that) simp_all
qed

text \<open>C10: a directory listing shows exactly the entries that are not hidden.  After a listing was
  replaced, the guest's registers hold the number of bytes of the new listing and the buffer size
  it passed, and that many bytes of its buffer parse as the entries the kernel returned, without
  the hidden ones, renamed by the rules, in the same order, each with the size that leads to the
  next.  The register request keeps the memory; entries whose names end well before the end of
  the structure are \<open>tidy\<close>.\<close>

theorem getdents_listing:
  assumes "word_memory (e_kernel E) rd" "full_reads (e_kernel E)" "regs_stored (e_kernel E)"
    and "\<And>w v w'. k_setregs (e_kernel E) w v = Inr w' \<Longrightarrow> rd w' = rd w"
    and "T = IDirent64 \<or> T = IDirent32"
    and "read_dirents E T (arg1 r) (syscall_retval r) h = (Inr ds, h1)"
    and "replace_getdents_result E T r h = (Inr (), h')"
    and "\<And>d. d \<in> set ds \<Longrightarrow> \<not> hidden E T d \<Longrightarrow> tidy (id_struct T) 2 (shown E T d)"
  shows "\<exists>n. k_getregs (e_kernel E) (h_world h') = Inr (set_syscall_retval (r\<lparr>arg2 := arg2 r * 2\<rparr>) n) \<and>
    (readable (e_kernel E) (h_world h') (unat (arg1 r)) (unat (arg1 r) + unat n) \<longrightarrow>
      (\<exists>s'. read_bytes_to_structs (get_mem_helper E h') (id_struct T) (arg1 r) n (h_tracer h') =
        Some (Inr (map (\<lambda>d. stored_item (id_struct T) 2 (shown E T d)) (filter (\<lambda>d. \<not> hidden E T d) ds)), s')))"
proof -
  let ?xs = "map (shown E T) (filter (\<lambda>d. \<not> hidden E T d) ds)"
  obtain n w2 where w2: "write_structs_to_tracee (e_kernel E) (id_struct T) (arg1 r) (arg2 r * 2) ?xs 2 (h_world h1) = (Inr n, w2)"
    and set: "k_setregs (e_kernel E) w2 (set_syscall_retval (r\<lparr>arg2 := arg2 r * 2\<rparr>) n) = Inr (h_world h')"
    using replace_getdents_run [OF assms(6,7)] by metis
  have "k_getregs (e_kernel E) (h_world h') = Inr (set_syscall_retval (r\<lparr>arg2 := arg2 r * 2\<rparr>) n)"
    using assms(3) set by (auto simp: regs_stored_def)
  moreover have "\<exists>s'. read_bytes_to_structs (get_mem_helper E h') (id_struct T) (arg1 r) n (h_tracer h') =
      Some (Inr (map (stored_item (id_struct T) (unat (2 :: usize))) ?xs), s')"
    if "readable (e_kernel E) (h_world h') (unat (arg1 r)) (unat (arg1 r) + unat n)"
    using assms(8) assms(4) [OF set] that
    by (intro write_then_read [OF x86_64_entries [OF assms(5)] assms(1,2) _ w2]) auto
  ultimately show ?thesis by (intro exI [of _ n]) (simp add: comp_def)
qed

section \<open>A listing of the concrete host\<close>


text \<open>An entry with a name of at most four bytes: everything after the header is zero.\<close>

definition short_entry :: "u8 list \<Rightarrow> u8 list" where
  "short_entry hdr = hdr @ replicate 512 0"

definition sample_header :: "u8 list" where
  "sample_header = [1,0,0,0,0,0,0,0, 1,0,0,0,0,0,0,0, 24,0, 8, 97, 0,0,0,0]"

lemma length_sample_header [simp]: "length sample_header = 24"
  by (simp add: sample_header_def)

lemma struct_words_append: "8 dvd length xs \<Longrightarrow> struct_words (xs @ ys) = struct_words xs @ struct_words ys"
proof -
  assume "8 dvd length xs"
  then obtain n where "length xs = 8 * n" by (auto elim: dvdE)
  then show ?thesis
  proof (induction n arbitrary: xs)
    case (Suc n)
    then have "xs = take 8 xs @ drop 8 xs" "length (take 8 xs) = 8" "length (drop 8 xs) = 8 * n" by simp_all
    then obtain as bs where xs: "xs = as @ bs" "length as = 8" "length bs = 8 * n" by metis
    show ?case using Suc.IH [OF xs(3)] xs by (simp add: struct_words_def)
  qed (simp add: struct_words_def)
qed

lemma struct_words_zeroes: "struct_words (replicate (8 * n) 0) = replicate n 0"
proof (induction n)
  case (Suc n)
  have "replicate (8 * Suc n) (0 :: u8) = replicate 8 0 @ replicate (8 * n) 0" by (simp add: replicate_add [symmetric])
  then show ?case using Suc to_ne_bytes_zero from_to_ne_bytes [of 0] by (simp add: struct_words_def)
qed (simp add: struct_words_def)

lemma short_words:
  "length hdr = 24 \<Longrightarrow> drop 3 (struct_words (short_entry hdr)) = replicate 64 0"
  "length hdr = 24 \<Longrightarrow> length (short_entry hdr) = 536"
  using struct_words_zeroes [of 64] by (simp_all add: short_entry_def struct_words_append)

lemma short_tidy: "length hdr = 24 \<Longrightarrow> tidy Dirent64 2 (short_entry hdr)"
proof -
  assume l: "length hdr = 24"
  have "header_len Dirent64 = 3" by (simp add: header_len_def Dirent64_def)
  then show ?thesis using l short_words [OF l]
    by (simp add: tidy_def takeWhile_replicate dropWhile_replicate) (simp add: Dirent64_def)
qed

lemma write_shrunk_zeroes:
  "unat c \<le> unat count \<Longrightarrow> unat count + z < 2 ^ 64 \<Longrightarrow> unat sk + z < 2 ^ 64 \<Longrightarrow>
   write_shrunk_words K c max_addr (replicate z 0) count sk addr w = (Inr (sk + of_nat z, addr), w)"
proof (induction z arbitrary: count sk)
  case (Suc z)
  have "checked_add count 1 = Inr (count + 1)" "checked_add sk 1 = Inr (sk + 1)"
    using Suc.prems by (simp_all add: checked_add_Inr)
  moreover from this have "unat (count + 1) = unat count + 1" "unat (sk + 1) = unat sk + 1"
    by (auto dest!: checked_add_unat)
  ultimately show ?case using Suc.IH [of "count + 1" "sk + 1"] Suc.prems
    by (simp add: res_simps word_less_nat_alt algebra_simps)
qed (simp add: res_simps)

lemma sample_numbers:
  "checked_add 0 1 = Inr (1 :: usize)" "checked_add 1 1 = Inr (2 :: usize)"
  "checked_add 4120 USIZE_SIZE = Inr 4128" "checked_add 4128 USIZE_SIZE = Inr 4136"
  "checked_add 4096 (3 * USIZE_SIZE) = Inr 4120" "checked_add 4096 1024 = Inr 5120"
  "checked_mul 3 USIZE_SIZE = Inr 24" "checked_div 24 USIZE_SIZE = Inr 3"
  "checked_sub 536 (62 * USIZE_SIZE) = Inr 40" "aligned 24 = Inr 24"
  by (simp_all add: checked_Inr aligned_Inr USIZE_SIZE_def)

lemma short_shrunk:
  assumes "length hdr = 24"
  shows "\<exists>w2. write_shrunk_words model_kernel 2 5120 (drop 3 (struct_words (short_entry hdr))) 0 0 4120 w = (Inr (62, 4136), w2)"
proof -
  have wr: "\<exists>w1. checked_write model_kernel a 5120 0 w = (Inr (), w1)" if "a < 5120" for a and w :: model
    using that by (simp add: checked_write_def ptrace_write_def model_kernel_def res_simps)
  obtain w1 where w1: "checked_write model_kernel 4120 5120 0 w = (Inr (), w1)" using wr [of 4120] by auto
  obtain w2 where w2: "checked_write model_kernel 4128 5120 0 w1 = (Inr (), w2)" using wr [of 4128] by auto
  have z: "replicate 64 (0 :: usize) = 0 # 0 # replicate 62 0" by (simp add: numeral_eq_Suc)
  have sk: "write_shrunk_words model_kernel 2 5120 (replicate 62 0) 2 0 4136 w2 = (Inr (62, 4136), w2)"
    using write_shrunk_zeroes [of 2 2 62 0 model_kernel 5120 4136 w2] by simp
  show ?thesis
    unfolding short_words(1) [OF assms] z
    by (rule exI [of _ w2]) (simp add: res_simps sample_numbers w1 w2 sk)
qed

lemma short_write:
  assumes l: "length hdr = 24"
  shows "\<exists>w'. write_structs_to_tracee model_kernel Dirent64 4096 1024 [short_entry hdr] 2 w = (Inr 40, w')"
proof -
  obtain w2 where w2: "write_shrunk_words model_kernel 2 5120 (drop 3 (struct_words (short_entry hdr))) 0 0 4120 w = (Inr (62, 4136), w2)"
    using short_shrunk [OF l] by blast
  let ?ws = "take 3 (struct_words (set_reclen (short_entry hdr) 40))"
  have "length ?ws = 3" using short_words(2) [OF l] by simp
  then obtain a w3 where w3: "write_words model_kernel ?ws 4096 w2 = (Inr a, w3)"
    using write_words_returns [OF model_writable, where lo = 0 and hi = 5120 and a = 4096 and w = w2 and ws = ?ws] by auto
  have D: "cs_size Dirent64 = 536" "cs_header_size Dirent64 = 24" "cs_item_size_updater Dirent64 = set_reclen"
    by (simp_all add: Dirent64_def)
  have "write_struct model_kernel Dirent64 2 5120 3 (short_entry hdr) 4096 w = (Inr 4136, w3)"
    unfolding write_struct_def Let_def by (simp add: res_simps sample_numbers w2 D w3)
  then show ?thesis
    unfolding write_structs_to_tracee_def Let_def D
    by (simp add: res_simps sample_numbers USIZE_SIZE_def [THEN arg_cong [of _ _ "\<lambda>x. 536 mod x"]] MAX_STRUCT_SIZE_def)
qed

lemma short_stored: "length hdr = 24 \<Longrightarrow> stored_item Dirent64 2 (short_entry hdr) = short_entry (set_reclen hdr 40)"
proof -
  assume l: "length hdr = 24"
  have "header_len Dirent64 = 3" by (simp add: header_len_def Dirent64_def)
  moreover have "replicate 64 (0 :: usize) = replicate 62 0 @ [0, 0]" by (simp add: numeral_eq_Suc)
  ultimately have "stored_size Dirent64 2 (short_entry hdr) = 40"
    using l short_words [OF l] shrink_zeroes [of 2 0 64]
    by (simp add: stored_size_def struct_image_def Let_def) (simp add: Dirent64_def)
  then show ?thesis using l
    by (simp add: stored_item_def Dirent64_def short_entry_def set_reclen_def list_update_append)
qed

lemma model_setregs_memory: "k_setregs model_kernel w v = Inr w' \<Longrightarrow> d_mem w' = d_mem w"
  by (auto simp: model_kernel_def)


definition listing_regs :: regs where
  "listing_regs = set_syscall_retval (zero_regs\<lparr>arg1 := 4096, arg2 := 512\<rparr>) 40"

text \<open>A handler at the exit of \<open>getdents64\<close>, whose buffer holds one entry.\<close>

lemma listing_exists:
  "\<exists>w h1. read_dirents model_env IDirent64 4096 40 (model_handler w) = (Inr [short_entry (set_reclen sample_header 40)], h1)"
proof -
  obtain w' where w': "write_structs_to_tracee model_kernel Dirent64 4096 1024 [short_entry sample_header] 2 model_world = (Inr 40, w')"
    using short_write [OF length_sample_header] by blast
  have "\<exists>s'. read_bytes_to_structs (get_mem_helper model_env (model_handler w')) Dirent64 4096 40 (model_tracer w') =
      Some (Inr (map (stored_item Dirent64 (unat (2 :: usize))) [short_entry sample_header]), s')"
    by (rule write_then_read [OF dirent64.c_struct_axioms, where rd = d_mem and w = model_world and buffer_size = 1024
        and w' = w'])
      (simp_all add: model_word_memory model_full_reads model_readable short_tidy w' model_tracer_def)
  then obtain s' where "read_bytes_to_structs (get_mem_helper model_env (model_handler w')) Dirent64 4096 40 (model_tracer w') =
      Some (Inr [short_entry (set_reclen sample_header 40)], s')" by (auto simp: short_stored)
  moreover have "h_tracer (model_handler w') = model_tracer w'"
    by (simp add: model_handler_def handler_init_def handler_new_def Let_def)
  ultimately have "read_dirents model_env IDirent64 4096 40 (model_handler w') =
      (Inr [short_entry (set_reclen sample_header 40)], (model_handler w')\<lparr>h_tracer := s'\<rparr>)"
    by (simp add: read_dirents_def with_mem_def exec_mem_def on_tracer_def res_simps IDirent64_def)
  then show ?thesis by blast
qed

lemma listing_shown:
  "\<not> hidden model_env T d" "id_normalize_type T d = d \<Longrightarrow> modify_entry model_env T d = Inr (d, False)"
  by (simp_all add: hidden_def modify_entry_def get_mod_path_def sysaug_config_default_def rootfs_config_default_def Let_def)

lemma listing_entry:
  "id_normalize_type IDirent64 (short_entry (set_reclen sample_header 40)) = short_entry (set_reclen sample_header 40)"
  by (simp add: IDirent64_def normalize_type64_def short_entry_def nth_append set_reclen_def sample_header_def DT_LNK_def)

theorem getdents_listing_witness:
  "\<exists>w h' n. replace_getdents_result model_env IDirent64 listing_regs (model_handler w) = (Inr (), h') \<and>
     k_getregs model_kernel (h_world h') = Inr (set_syscall_retval (listing_regs\<lparr>arg2 := 1024\<rparr>) n) \<and>
     (\<exists>s'. read_bytes_to_structs (get_mem_helper model_env h') Dirent64 4096 n (h_tracer h') =
       Some (Inr [stored_item Dirent64 2 (short_entry (set_reclen sample_header 40))], s'))"
proof -
  let ?d = "short_entry (set_reclen sample_header 40)"
  obtain w h1 where read: "read_dirents model_env IDirent64 4096 40 (model_handler w) = (Inr [?d], h1)"
    using listing_exists by blast
  obtain w2 where w2: "write_structs_to_tracee model_kernel Dirent64 4096 1024 [?d] 2 (h_world h1) = (Inr 40, w2)"
    using short_write [of "set_reclen sample_header 40"] by fastforce
  have r: "arg1 listing_regs = 4096" "arg2 listing_regs = 512" "syscall_retval listing_regs = 40"
    by (simp_all add: listing_regs_def regs_ops)
  have T: "id_struct IDirent64 = Dirent64" by (simp add: IDirent64_def)
  have "modify_entries model_env IDirent64 [?d] = Inr [(?d, False)]"
    by (simp add: listing_shown listing_entry)
  then have "\<exists>h'. replace_getdents_result model_env IDirent64 listing_regs (model_handler w) = (Inr (), h')"
    using read w2
    by (simp add: replace_getdents_result_def r T Let_def act_bind_run act_lift_def retained_def exec_def on_tracer_def
        on_world_def act_map_err_run setregs_def)
       (simp add: model_kernel_def)
  then obtain h' where run: "replace_getdents_result model_env IDirent64 listing_regs (model_handler w) = (Inr (), h')"
    by blast
  have sh: "shown model_env IDirent64 ?d = ?d" by (simp add: shown_def listing_shown listing_entry)
  have "\<exists>n. k_getregs (e_kernel model_env) (h_world h') =
        Inr (set_syscall_retval (listing_regs\<lparr>arg2 := arg2 listing_regs * 2\<rparr>) n) \<and>
      (readable (e_kernel model_env) (h_world h') (unat (arg1 listing_regs)) (unat (arg1 listing_regs) + unat n) \<longrightarrow>
        (\<exists>s'. read_bytes_to_structs (get_mem_helper model_env h') (id_struct IDirent64) (arg1 listing_regs) n (h_tracer h') =
          Some (Inr (map (\<lambda>d. stored_item (id_struct IDirent64) 2 (shown model_env IDirent64 d))
            (filter (\<lambda>d. \<not> hidden model_env IDirent64 d) [?d])), s')))"
    by (rule getdents_listing [where rd = d_mem and h = "model_handler w" and ?h1.0 = h1])
      (simp_all add: model_word_memory model_full_reads model_regs_stored model_setregs_memory run r read sh T short_tidy)
  then show ?thesis using run by (auto simp: r T sh listing_shown model_readable)
qed

end
