(* ===== verification/Executor.thy ===== *)
theory Executor
  imports Sysaug_Types
begin

text \<open>
  The executors that run ptrace requests (\<open>src/executor/src/lib.rs\<close>).  \<open>LocalPtraceClient\<close> calls a
  request on the caller's thread.  \<open>MainThreadClient\<close> sends it through a channel of capacity one to
  the main thread, where \<open>MainThreadServer::serve\<close> runs it, and waits for the answer on a channel of
  its own.  Threads interleave: each step of a client, of the server or of the traced world is
  one rule of \<open>ex_step\<close>, and a run is a list of events, the latest first.  \<open>ptrace_client\<close> states what
  the trait \<open>PtraceClient\<close> promises about \<open>execute\<close>, in terms of the events of a caller; both clients
  keep it.
\<close>

section \<open>State\<close>

type_synonym ('w, 'r) closure = "'w \<Rightarrow> 'r \<times> 'w"

text \<open>Where a calling thread is in \<open>execute\<close>: sending its request, waiting for the answer, with the
  answer in its channel, or with the sending end of its channel dropped.\<close>

datatype ('w, 'r) client =
    ClIdle
  | ClSending "('w, 'r) closure"
  | ClWaiting "('w, 'r) closure"
  | ClAnswered 'r
  | ClDropped

text \<open>Where the main thread is: before \<open>serve\<close>, at the test of its loop, in \<open>recv_timeout\<close>, with a request
  or with a closed channel, after \<open>serve\<close> returned, and after the receiver was dropped.\<close>

datatype ('w, 'r) server =
    SvCreated
  | SvHead
  | SvRecv
  | SvGot nat "('w, 'r) closure"
  | SvClosed
  | SvReturned "executor_error + unit"
  | SvGone

record ('w, 'r) executor =
  ex_queue :: "(nat \<times> ('w, 'r) closure) list"
  ex_should_serve :: bool
  ex_server :: "('w, 'r) server"
  ex_clients :: "nat \<Rightarrow> ('w, 'r) client"
  ex_handles :: "nat set"
  ex_world :: 'w

datatype ('w, 'r) event =
    Call nat "('w, 'r) closure"
  | Ran nat 'w 'r 'w
  | Ret nat "executor_error + 'r"

definition new_main_thread_executor :: "nat \<Rightarrow> 'w \<Rightarrow> ('w, 'r) executor" where
  "new_main_thread_executor c w = \<lparr>ex_queue = [], ex_should_serve = False, ex_server = SvCreated,
     ex_clients = (\<lambda>_. ClIdle), ex_handles = {c}, ex_world = w\<rparr>"

section \<open>The server (\<open>serve\<close>)\<close>

definition set_server :: "('w, 'r) server \<Rightarrow> ('w, 'r) executor \<Rightarrow> ('w, 'r) executor" where
  "set_server sv s = s\<lparr>ex_server := sv\<rparr>"

definition set_client :: "nat \<Rightarrow> ('w, 'r) client \<Rightarrow> ('w, 'r) executor \<Rightarrow> ('w, 'r) executor" where
  "set_client c cl s = s\<lparr>ex_clients := (ex_clients s)(c := cl)\<rparr>"

text \<open>Running a request: the closure, then sending its result, which fails when the caller no longer
  listens.\<close>

definition run_request :: "nat \<Rightarrow> ('w, 'r) closure \<Rightarrow> ('w, 'r) executor \<Rightarrow> ('w, 'r) event list \<times> ('w, 'r) executor" where
  "run_request c f s =
     (case f (ex_world s) of (r, w') \<Rightarrow>
        let s' = s\<lparr>ex_world := w'\<rparr>
        in ([Ran c (ex_world s) r w'],
            case ex_clients s c of
              ClWaiting _ \<Rightarrow> set_server SvHead (set_client c (ClAnswered r) s')
            | _ \<Rightarrow> set_server (SvReturned (Inl (ResultEnqueue ''sending on a closed channel''))) s'))"

definition serve_step :: "('w, 'r) executor \<Rightarrow> ('w, 'r) event list \<times> ('w, 'r) executor" where
  "serve_step s =
     (case ex_server s of
        SvCreated \<Rightarrow> ([], set_server SvHead (s\<lparr>ex_should_serve := True\<rparr>))
      | SvHead \<Rightarrow> ([], set_server (if ex_should_serve s then SvRecv else SvReturned (Inr ())) s)
      | SvRecv \<Rightarrow>
          (case ex_queue s of
             (c, f) # q \<Rightarrow> ([], set_server (SvGot c f) (s\<lparr>ex_queue := q\<rparr>))
           | [] \<Rightarrow> ([], set_server (if ex_handles s = {} then SvClosed else SvHead) s))
      | SvGot c f \<Rightarrow> run_request c f s
      | SvClosed \<Rightarrow>
          ([], set_server (if ex_should_serve s then SvReturned (Inl TaskDequeue) else SvHead) s)
      | SvReturned _ \<Rightarrow> ([], s)
      | SvGone \<Rightarrow> ([], s))"

text \<open>Dropping the receiver drops the requests in the channel, and with each the sending end of its
  caller's channel.\<close>

definition drop_server :: "('w, 'r) executor \<Rightarrow> ('w, 'r) executor" where
  "drop_server s = s\<lparr>ex_server := SvGone, ex_queue := [],
     ex_clients := (\<lambda>c. if c \<in> fst ` set (ex_queue s) then ClDropped else ex_clients s c)\<rparr>"

section \<open>The clients\<close>

definition client_send :: "nat \<Rightarrow> ('w, 'r) closure \<Rightarrow> ('w, 'r) executor \<Rightarrow> ('w, 'r) event list \<times> ('w, 'r) executor" where
  "client_send c f s =
     (if ex_server s = SvGone then ([Ret c (Inl TaskEnqueue)], set_client c ClIdle s)
      else ([], set_client c (ClWaiting f) (s\<lparr>ex_queue := ex_queue s @ [(c, f)]\<rparr>)))"

definition client_stop :: "('w, 'r) executor \<Rightarrow> ('w, 'r) executor" where
  "client_stop s = s\<lparr>ex_should_serve := False\<rparr>"

text \<open>A blocked \<open>send\<close> or \<open>recv\<close> is a step that is not enabled: the channel of requests holds one.\<close>

inductive ex_step :: "('w, 'r) executor \<Rightarrow> ('w, 'r) event list \<Rightarrow> ('w, 'r) executor \<Rightarrow> bool" where
  serve: "serve_step s = (es, s') \<Longrightarrow> ex_step s es s'"
| dropped: "ex_server s = SvReturned r \<Longrightarrow> ex_step s [] (drop_server s)"
| call: "c \<in> ex_handles s \<Longrightarrow> ex_clients s c = ClIdle \<Longrightarrow> ex_step s [Call c f] (set_client c (ClSending f) s)"
| send: "ex_clients s c = ClSending f \<Longrightarrow> ex_queue s = [] \<Longrightarrow> client_send c f s = (es, s') \<Longrightarrow> ex_step s es s'"
| answer: "ex_clients s c = ClAnswered r \<Longrightarrow> ex_step s [Ret c (Inr r)] (set_client c ClIdle s)"
| closed: "ex_clients s c = ClDropped \<Longrightarrow> ex_step s [Ret c (Inl ResultDequeue)] (set_client c ClIdle s)"
| stop: "c \<in> ex_handles s \<Longrightarrow> ex_step s [] (client_stop s)"
| clone: "c \<in> ex_handles s \<Longrightarrow> ex_step s [] (s\<lparr>ex_handles := insert c' (ex_handles s)\<rparr>)"
| drop_handle: "ex_clients s c = ClIdle \<Longrightarrow> ex_step s [] (s\<lparr>ex_handles := ex_handles s - {c}\<rparr>)"
| world: "ex_step s [] (s\<lparr>ex_world := w\<rparr>)"

inductive ex_run :: "nat \<Rightarrow> 'w \<Rightarrow> ('w, 'r) event list \<Rightarrow> ('w, 'r) executor \<Rightarrow> bool" for c0 w0 where
  init: "ex_run c0 w0 [] (new_main_thread_executor c0 w0)"
| step: "ex_run c0 w0 tr s \<Longrightarrow> ex_step s es s' \<Longrightarrow> ex_run c0 w0 (es @ tr) s'"

section \<open>Every request is in one place\<close>

definition pending :: "('w, 'r) executor \<Rightarrow> (nat \<times> ('w, 'r) closure) list" where
  "pending s = (case ex_server s of SvGot c f \<Rightarrow> [(c, f)] | _ \<Rightarrow> []) @ ex_queue s"

definition placed :: "(nat \<times> ('w, 'r) closure) list \<Rightarrow> (nat \<Rightarrow> ('w, 'r) client) \<Rightarrow> bool" where
  "placed reqs cl \<longleftrightarrow> distinct (map fst reqs) \<and> (\<forall>c f. (c, f) \<in> set reqs \<longleftrightarrow> cl c = ClWaiting f)"

definition ex_inv :: "('w, 'r) executor \<Rightarrow> bool" where
  "ex_inv s \<longleftrightarrow> placed (pending s) (ex_clients s) \<and> length (ex_queue s) \<le> 1"

lemma placed_send:
  assumes "placed reqs cl" "cl c = ClSending f"
  shows "placed (reqs @ [(c, f)]) (cl(c := ClWaiting f))"
proof -
  have "c \<notin> fst ` set reqs" using assms by (auto simp: placed_def)
  then show ?thesis using assms by (auto simp: placed_def)
qed

lemma placed_other:
  "placed reqs cl \<Longrightarrow> \<forall>f. cl c \<noteq> ClWaiting f \<Longrightarrow> \<forall>f. x \<noteq> ClWaiting f \<Longrightarrow> placed reqs (cl(c := x))"
  by (auto simp: placed_def)

lemma placed_done: "placed ((c, f) # reqs) cl \<Longrightarrow> \<forall>f. x \<noteq> ClWaiting f \<Longrightarrow> placed reqs (cl(c := x))"
  by (auto simp: placed_def image_iff)

lemmas ex_defs = set_server_def set_client_def pending_def

lemma ex_inv_init: "ex_inv (new_main_thread_executor c w)"
  by (simp add: ex_inv_def placed_def new_main_thread_executor_def pending_def)

lemma ex_inv_waiting: "ex_inv s \<Longrightarrow> ex_server s = SvGot c f \<Longrightarrow> ex_clients s c = ClWaiting f"
  by (auto simp: ex_inv_def placed_def pending_def)

lemma ex_inv_run_request:
  assumes inv: "ex_inv s" and got: "ex_server s = SvGot c f" and run: "run_request c f s = (es, s')"
  shows "ex_inv s'"
proof -
  obtain r w' where fw: "f (ex_world s) = (r, w')" by (rule prod.exhaust)
  have w: "ex_clients s c = ClWaiting f" by (rule ex_inv_waiting [OF inv got])
  have s': "s' = set_server SvHead (set_client c (ClAnswered r) (s\<lparr>ex_world := w'\<rparr>))"
    using run fw w by (simp add: run_request_def Let_def)
  show ?thesis using inv got unfolding s' by (auto simp: ex_inv_def ex_defs intro: placed_done)
qed

lemma ex_inv_serve: "ex_inv s \<Longrightarrow> serve_step s = (es, s') \<Longrightarrow> ex_inv s'"
proof (cases "ex_server s")
  case (SvGot c f)
  assume "ex_inv s" "serve_step s = (es, s')"
  then show ?thesis using SvGot ex_inv_run_request by (auto simp: serve_step_def)
qed (auto simp: serve_step_def ex_inv_def ex_defs split: list.splits)

lemma ex_inv_drop: "ex_inv s \<Longrightarrow> ex_server s = SvReturned r \<Longrightarrow> ex_inv (drop_server s)"
  by (fastforce simp: ex_inv_def placed_def ex_defs drop_server_def image_iff)

lemma ex_inv_client:
  "ex_inv s \<Longrightarrow> \<forall>f. ex_clients s c \<noteq> ClWaiting f \<Longrightarrow> \<forall>f. x \<noteq> ClWaiting f \<Longrightarrow> ex_inv (set_client c x s)"
  by (simp add: ex_inv_def ex_defs placed_other)

lemma ex_inv_send:
  assumes "ex_inv s" "ex_clients s c = ClSending f" "ex_queue s = []" "client_send c f s = (es, s')"
  shows "ex_inv s'"
proof (cases "ex_server s = SvGone")
  case True
  then show ?thesis using assms ex_inv_client [OF assms(1), of c ClIdle] by (auto simp: client_send_def)
next
  case False
  then have s': "s' = set_client c (ClWaiting f) (s\<lparr>ex_queue := ex_queue s @ [(c, f)]\<rparr>)"
    using assms(4) by (simp add: client_send_def)
  then have "pending s' = pending s @ [(c, f)]" by (simp add: ex_defs)
  then show ?thesis using placed_send [of "pending s" "ex_clients s" c f] assms s'
    by (simp add: ex_inv_def set_client_def)
qed

lemma ex_inv_cong:
  "ex_inv s \<Longrightarrow> ex_queue s' = ex_queue s \<Longrightarrow> ex_server s' = ex_server s \<Longrightarrow> ex_clients s' = ex_clients s \<Longrightarrow> ex_inv s'"
  by (simp add: ex_inv_def pending_def)

lemma ex_inv_step: "ex_step s es s' \<Longrightarrow> ex_inv s \<Longrightarrow> ex_inv s'"
proof (induction rule: ex_step.induct)
  case (serve s es s')
  then show ?case by (metis ex_inv_serve)
next
  case (dropped s r)
  then show ?case by (metis ex_inv_drop)
next
  case (send s c f es s')
  then show ?case by (metis ex_inv_send)
qed (auto simp: client_stop_def intro: ex_inv_client elim: ex_inv_cong)

lemma ex_run_inv: "ex_run c0 w0 tr s \<Longrightarrow> ex_inv s"
  by (induction rule: ex_run.induct) (auto simp: ex_inv_init intro: ex_inv_step)

section \<open>The promise of \<open>execute\<close>\<close>

fun of_client :: "nat \<Rightarrow> ('w, 'r) event \<Rightarrow> bool" where
  "of_client c (Call c' f) = (c = c')"
| "of_client c (Ran c' w r w') = (c = c')"
| "of_client c (Ret c' res) = (c = c')"

abbreviation events_of :: "nat \<Rightarrow> ('w, 'r) event list \<Rightarrow> ('w, 'r) event list" where
  "events_of c tr \<equiv> filter (of_client c) tr"

fun is_call :: "('w, 'r) event \<Rightarrow> bool" where
  "is_call (Call c f) = True" | "is_call e = False"

fun is_ran :: "('w, 'r) event \<Rightarrow> bool" where
  "is_ran (Ran c w r w') = True" | "is_ran e = False"

fun is_result :: "('w, 'r) event \<Rightarrow> bool" where
  "is_result (Ret c (Inr r)) = True" | "is_result e = False"

definition count :: "(('w, 'r) event \<Rightarrow> bool) \<Rightarrow> nat \<Rightarrow> ('w, 'r) event list \<Rightarrow> nat" where
  "count P c tr = length (filter P (events_of c tr))"

lemma count_Cons: "count P c (ev # tr) = (if of_client c ev \<and> P ev then Suc (count P c tr) else count P c tr)"
  by (simp add: count_def)

text \<open>A call returns a result only after its closure ran, once and since the call, and the result is
  the closure's; it returns an error only when the closure did not run.\<close>

locale ptrace_client =
  fixes histories :: "('w, 'r) event list set"
  assumes result: "Ret c (Inr r) # tr \<in> histories \<Longrightarrow>
      \<exists>f w w' rest. events_of c tr = Ran c w r w' # Call c f # rest \<and> f w = (r, w')"
    and failure: "Ret c (Inl e) # tr \<in> histories \<Longrightarrow> \<exists>f rest. events_of c tr = Call c f # rest"
    and ran: "Ran c w r w' # tr \<in> histories \<Longrightarrow> \<exists>f rest. events_of c tr = Call c f # rest \<and> f w = (r, w')"
    and called: "Call c f # tr \<in> histories \<Longrightarrow> events_of c tr = [] \<or> (\<exists>res rest. events_of c tr = Ret c res # rest)"
    and past: "ev # tr \<in> histories \<Longrightarrow> tr \<in> histories"
begin

lemma counts:
  "tr \<in> histories \<Longrightarrow>
     (case events_of c tr of
        [] \<Rightarrow> count is_call c tr = 0 \<and> count is_ran c tr = 0 \<and> count is_result c tr = 0
      | ev # _ \<Rightarrow>
          (is_call ev \<longrightarrow> count is_ran c tr < count is_call c tr \<and> count is_result c tr = count is_ran c tr) \<and>
          (is_ran ev \<longrightarrow> count is_ran c tr \<le> count is_call c tr \<and> Suc (count is_result c tr) = count is_ran c tr) \<and>
          (\<not> is_call ev \<and> \<not> is_ran ev \<longrightarrow> count is_ran c tr \<le> count is_call c tr \<and> count is_result c tr = count is_ran c tr))"
proof (induction tr)
  case Nil
  then show ?case by (simp add: count_def)
next
  case (Cons ev tr)
  note IH = Cons.IH [OF past [OF Cons.prems]]
  show ?case
  proof (cases "of_client c ev")
    case False
    then show ?thesis using IH by (simp add: count_Cons split: list.splits)
  next
    case True
    then show ?thesis
    proof (cases ev)
      case (Call c' f)
      with True have [simp]: "c' = c" by simp
      from called Cons.prems Call have "events_of c tr = [] \<or> (\<exists>res rest. events_of c tr = Ret c res # rest)" by simp
      then show ?thesis using IH Call by (auto simp: count_Cons)
    next
      case (Ran c' w r w')
      with True have [simp]: "c' = c" by simp
      from ran Cons.prems Ran obtain f rest where "events_of c tr = Call c f # rest" by fastforce
      then show ?thesis using IH Ran by (auto simp: count_Cons)
    next
      case (Ret c' res)
      with True have [simp]: "c' = c" by simp
      show ?thesis
      proof (cases res)
        case (Inl e)
        from failure Cons.prems Ret Inl obtain f rest where "events_of c tr = Call c f # rest" by fastforce
        then show ?thesis using IH Ret Inl by (auto simp: count_Cons)
      next
        case (Inr r)
        from result Cons.prems Ret Inr obtain w w' rest where "events_of c tr = Ran c w r w' # rest" by fastforce
        then show ?thesis using IH Ret Inr by (auto simp: count_Cons)
      qed
    qed
  qed
qed

lemma at_most_once:
  assumes "tr \<in> histories"
  shows "count is_ran c tr \<le> count is_call c tr" "count is_result c tr \<le> count is_ran c tr"
    "count is_ran c tr \<le> Suc (count is_result c tr)"
  using counts [OF assms, of c] by (auto split: list.splits)

end

section \<open>Both clients keep it\<close>

definition client_trace :: "nat \<Rightarrow> ('w, 'r) client \<Rightarrow> ('w, 'r) event list \<Rightarrow> bool" where
  "client_trace c cl evs =
     (case cl of
        ClIdle \<Rightarrow> evs = [] \<or> (\<exists>res rest. evs = Ret c res # rest)
      | ClSending f \<Rightarrow> (\<exists>rest. evs = Call c f # rest)
      | ClWaiting f \<Rightarrow> (\<exists>rest. evs = Call c f # rest)
      | ClAnswered r \<Rightarrow> (\<exists>f w w' rest. evs = Ran c w r w' # Call c f # rest \<and> f w = (r, w'))
      | ClDropped \<Rightarrow> (\<exists>f rest. evs = Call c f # rest))"

lemma client_trace_simps [simp]:
  "client_trace c ClIdle evs \<longleftrightarrow> evs = [] \<or> (\<exists>res rest. evs = Ret c res # rest)"
  "client_trace c (ClSending f) evs \<longleftrightarrow> (\<exists>rest. evs = Call c f # rest)"
  "client_trace c (ClWaiting f) evs \<longleftrightarrow> (\<exists>rest. evs = Call c f # rest)"
  "client_trace c (ClAnswered r) evs \<longleftrightarrow> (\<exists>f w w' rest. evs = Ran c w r w' # Call c f # rest \<and> f w = (r, w'))"
  "client_trace c ClDropped evs \<longleftrightarrow> (\<exists>f rest. evs = Call c f # rest)"
  by (simp_all add: client_trace_def)

lemma run_request_events:
  assumes "ex_inv s" "ex_server s = SvGot c f" "run_request c f s = (es, s')"
  obtains r w' where "f (ex_world s) = (r, w')" "es = [Ran c (ex_world s) r w']"
    "s' = set_server SvHead (set_client c (ClAnswered r) (s\<lparr>ex_world := w'\<rparr>))"
  using assms ex_inv_waiting [OF assms(1,2)]
  by (cases "f (ex_world s)") (auto simp: run_request_def Let_def)

lemma serve_step_cases:
  assumes "ex_inv s" "serve_step s = (es, s')"
  obtains (quiet) "es = []" "ex_clients s' = ex_clients s"
  | (ran) c f r w' where "ex_clients s c = ClWaiting f" "f (ex_world s) = (r, w')" "es = [Ran c (ex_world s) r w']"
      "ex_clients s' = (ex_clients s)(c := ClAnswered r)"
proof (cases "\<exists>c f. ex_server s = SvGot c f")
  case True
  then obtain c f where SvGot: "ex_server s = SvGot c f" by blast
  then have "run_request c f s = (es, s')" using assms(2) by (simp add: serve_step_def)
  then obtain r w' where "f (ex_world s) = (r, w')" "es = [Ran c (ex_world s) r w']"
    "s' = set_server SvHead (set_client c (ClAnswered r) (s\<lparr>ex_world := w'\<rparr>))"
    by (rule run_request_events [OF assms(1) SvGot])
  then show thesis using ran [OF ex_inv_waiting [OF assms(1) SvGot]] by (simp add: ex_defs)
next
  case False
  then have "es = [] \<and> ex_clients s' = ex_clients s"
    using assms(2) by (cases "ex_server s") (auto simp: serve_step_def ex_defs split: list.splits)
  then show thesis using quiet by blast
qed

lemma ex_step_trace:
  "ex_step s es s' \<Longrightarrow> ex_inv s \<Longrightarrow> (\<And>c. client_trace c (ex_clients s c) (events_of c tr)) \<Longrightarrow>
   client_trace c (ex_clients s' c) (events_of c (es @ tr))"
proof (induction rule: ex_step.induct)
  case (serve s es s')
  from \<open>ex_inv s\<close> \<open>serve_step s = (es, s')\<close> show ?case
  proof (cases rule: serve_step_cases)
    case quiet
    then show ?thesis using serve.prems(2) by simp
  next
    case (ran c' f r w')
    then show ?thesis using serve.prems(2) [of c] by (cases "c = c'") auto
  qed
next
  case (dropped s r)
  show ?case
  proof (cases "c \<in> fst ` set (ex_queue s)")
    case True
    then obtain f where "ex_clients s c = ClWaiting f"
      using \<open>ex_inv s\<close> by (fastforce simp: ex_inv_def placed_def pending_def)
    then show ?thesis using dropped.prems(2) [of c] True by (auto simp add: drop_server_def)
  qed (use dropped.prems(2) [of c] in \<open>simp add: drop_server_def\<close>)
next
  case (send s c' f es s')
  then show ?case using send.prems(2) [of c]
    by (cases "c = c'") (auto simp: client_send_def set_client_def split: if_splits)
next
  case (call c' s f)
  then show ?case using call.prems(2) [of c] by (cases "c = c'") (auto simp: set_client_def)
next
  case (answer s c' r)
  then show ?case using answer.prems(2) [of c] by (cases "c = c'") (auto simp: set_client_def)
next
  case (closed s c')
  then show ?case using closed.prems(2) [of c] by (cases "c = c'") (auto simp: set_client_def)
qed (simp_all add: client_stop_def)

lemma ex_run_trace: "ex_run c0 w0 tr s \<Longrightarrow> client_trace c (ex_clients s c) (events_of c tr)"
proof (induction arbitrary: c rule: ex_run.induct)
  case init
  then show ?case by (simp add: new_main_thread_executor_def)
next
  case (step tr s es s')
  then show ?case by (intro ex_step_trace [OF step.hyps(2)] ex_run_inv [OF step.hyps(1)])
qed

lemma ex_step_single: "ex_step s es s' \<Longrightarrow> es = [] \<or> (\<exists>ev. es = [ev])"
  by (induction rule: ex_step.induct)
    (auto simp: serve_step_def run_request_def client_send_def Let_def split: server.splits list.splits prod.splits if_splits)

lemma ex_run_last:
  assumes "ex_run c0 w0 (ev # tr) s"
  obtains s0 s1 where "ex_run c0 w0 tr s0" "ex_step s0 [ev] s1"
  using assms
proof (induction "ev # tr" s arbitrary: thesis rule: ex_run.induct)
  case (step tr0 s es s')
  from ex_step_single [OF step.hyps(3)] show ?case
  proof
    assume "es = []"
    then show thesis using step.hyps(2) [OF _ step.prems] step.hyps(4) by simp
  next
    assume "\<exists>ev. es = [ev]"
    then show thesis using step by (auto intro: step.prems)
  qed
qed

inductive_cases ran_stepE: "ex_step s [Ran c w r w'] s'"
inductive_cases call_stepE: "ex_step s [Call c f] s'"
inductive_cases ret_stepE: "ex_step s [Ret c res] s'"

definition main_thread_histories :: "nat \<Rightarrow> 'w \<Rightarrow> ('w, 'r) event list set" where
  "main_thread_histories c0 w0 = {tr. \<exists>s. ex_run c0 w0 tr s}"

interpretation main_thread: ptrace_client "main_thread_histories c0 w0"
proof unfold_locales
  fix c r tr
  assume "Ret c (Inr r) # tr \<in> main_thread_histories c0 w0"
  then obtain s0 s1 where run: "ex_run c0 w0 tr s0" and st: "ex_step s0 [Ret c (Inr r)] s1"
    unfolding main_thread_histories_def by (auto elim: ex_run_last)
  have "ex_clients s0 c = ClAnswered r"
    using st by (rule ret_stepE)
      (auto simp: serve_step_def run_request_def client_send_def Let_def split: server.splits list.splits prod.splits if_splits)
  then show "\<exists>f w w' rest. events_of c tr = Ran c w r w' # Call c f # rest \<and> f w = (r, w')"
    using ex_run_trace [OF run, of c] by simp
next
  fix c e tr
  assume "Ret c (Inl e) # tr \<in> main_thread_histories c0 w0"
  then obtain s0 s1 where run: "ex_run c0 w0 tr s0" and st: "ex_step s0 [Ret c (Inl e)] s1"
    unfolding main_thread_histories_def by (auto elim: ex_run_last)
  have "(\<exists>f. ex_clients s0 c = ClSending f) \<or> ex_clients s0 c = ClDropped"
    using st by (rule ret_stepE)
      (auto simp: serve_step_def run_request_def client_send_def Let_def split: server.splits list.splits prod.splits if_splits)
  then show "\<exists>f rest. events_of c tr = Call c f # rest"
    using ex_run_trace [OF run, of c] by auto
next
  fix c w r w' tr
  assume "Ran c w r w' # tr \<in> main_thread_histories c0 w0"
  then obtain s0 s1 where run: "ex_run c0 w0 tr s0" and st: "ex_step s0 [Ran c w r w'] s1"
    unfolding main_thread_histories_def by (auto elim: ex_run_last)
  have "serve_step s0 = ([Ran c w r w'], s1)"
    using st by (rule ran_stepE) (auto simp: client_send_def split: if_splits)
  with ex_run_inv [OF run] obtain f where "ex_clients s0 c = ClWaiting f" "f w = (r, w')"
    by (rule serve_step_cases) auto
  then show "\<exists>f rest. events_of c tr = Call c f # rest \<and> f w = (r, w')"
    using ex_run_trace [OF run, of c] by auto
next
  fix c f tr
  assume "Call c f # tr \<in> main_thread_histories c0 w0"
  then obtain s0 s1 where run: "ex_run c0 w0 tr s0" and st: "ex_step s0 [Call c f] s1"
    unfolding main_thread_histories_def by (auto elim: ex_run_last)
  have "ex_clients s0 c = ClIdle"
    using st by (rule call_stepE)
      (auto simp: serve_step_def run_request_def client_send_def Let_def split: server.splits list.splits prod.splits if_splits)
  then show "events_of c tr = [] \<or> (\<exists>res rest. events_of c tr = Ret c res # rest)"
    using ex_run_trace [OF run, of c] by simp
next
  fix ev tr
  assume "ev # tr \<in> main_thread_histories c0 w0"
  then show "tr \<in> main_thread_histories c0 w0"
    unfolding main_thread_histories_def by (auto elim: ex_run_last)
qed

text \<open>\<open>LocalPtraceClient\<close>: the closure runs on the calling thread.\<close>

definition local_execute :: "('w, 'r) closure \<Rightarrow> 'w \<Rightarrow> (executor_error + 'r) \<times> 'w" where
  "local_execute f w = (case f w of (r, w') \<Rightarrow> (Inr r, w'))"

inductive local_run :: "'w \<Rightarrow> ('w, 'r) event list \<Rightarrow> (nat \<Rightarrow> ('w, 'r) client) \<Rightarrow> 'w \<Rightarrow> bool" for w0 where
  init: "local_run w0 [] (\<lambda>_. ClIdle) w0"
| call: "local_run w0 tr cl w \<Longrightarrow> cl c = ClIdle \<Longrightarrow> local_run w0 (Call c f # tr) (cl(c := ClSending f)) w"
| exec: "local_run w0 tr cl w \<Longrightarrow> cl c = ClSending f \<Longrightarrow> local_execute f w = (Inr r, w') \<Longrightarrow>
    local_run w0 (Ran c w r w' # tr) (cl(c := ClAnswered r)) w'"
| ret: "local_run w0 tr cl w \<Longrightarrow> cl c = ClAnswered r \<Longrightarrow> local_run w0 (Ret c (Inr r) # tr) (cl(c := ClIdle)) w"
| world: "local_run w0 tr cl w \<Longrightarrow> local_run w0 tr cl w'"

definition local_histories :: "'w \<Rightarrow> ('w, 'r) event list set" where
  "local_histories w0 = {tr. \<exists>cl w. local_run w0 tr cl w}"

lemma local_run_trace: "local_run w0 tr cl w \<Longrightarrow> client_trace c (cl c) (events_of c tr)"
proof (induction arbitrary: c rule: local_run.induct)
  case (call tr cl w c' f)
  then show ?case using call.IH [of c] by (cases "c = c'") auto
next
  case (exec tr cl w c' f r w')
  then show ?case using exec.IH [of c] by (cases "c = c'") (auto simp: local_execute_def split: prod.splits)
next
  case (ret tr cl w c' r)
  then show ?case using ret.IH [of c] by (cases "c = c'") auto
qed simp_all

lemma local_run_past: "local_run w0 tr cl w \<Longrightarrow> tr = ev # tr' \<Longrightarrow> \<exists>cl' w'. local_run w0 tr' cl' w' \<and>
    (\<forall>c f. ev = Call c f \<longrightarrow> cl' c = ClIdle) \<and>
    (\<forall>c v r v'. ev = Ran c v r v' \<longrightarrow> (\<exists>f. cl' c = ClSending f \<and> f v = (r, v'))) \<and>
    (\<forall>c res. ev = Ret c res \<longrightarrow> (\<exists>r. res = Inr r \<and> cl' c = ClAnswered r))"
proof (induction rule: local_run.induct)
  case (exec tr cl w c f r w')
  then show ?case by (intro exI [of _ cl] exI [of _ w]) (auto simp: local_execute_def split: prod.splits)
qed blast+

lemma local_historyE:
  assumes "ev # tr \<in> local_histories w0"
  obtains cl w where "local_run w0 tr cl w" "\<And>c. client_trace c (cl c) (events_of c tr)"
    "\<And>c f. ev = Call c f \<Longrightarrow> cl c = ClIdle"
    "\<And>c v r v'. ev = Ran c v r v' \<Longrightarrow> \<exists>f. cl c = ClSending f \<and> f v = (r, v')"
    "\<And>c res. ev = Ret c res \<Longrightarrow> \<exists>r. res = Inr r \<and> cl c = ClAnswered r"
proof -
  from assms obtain cl w where "local_run w0 (ev # tr) cl w" unfolding local_histories_def by blast
  from local_run_past [OF this refl] obtain cl' w' where run: "local_run w0 tr cl' w'"
    and ev: "\<forall>c f. ev = Call c f \<longrightarrow> cl' c = ClIdle"
      "\<forall>c v r v'. ev = Ran c v r v' \<longrightarrow> (\<exists>f. cl' c = ClSending f \<and> f v = (r, v'))"
      "\<forall>c res. ev = Ret c res \<longrightarrow> (\<exists>r. res = Inr r \<and> cl' c = ClAnswered r)" by (elim exE conjE)
  show thesis by (rule that [OF run local_run_trace [OF run]]) (simp_all add: ev)
qed

interpretation local_client: ptrace_client "local_histories w0"
proof unfold_locales
  fix c r tr
  assume "Ret c (Inr r) # tr \<in> local_histories w0"
  then show "\<exists>f w w' rest. events_of c tr = Ran c w r w' # Call c f # rest \<and> f w = (r, w')"
  proof (rule local_historyE, goal_cases)
    case (1 cl w)
    have "cl c = ClAnswered r" using 1(5) [OF refl] by simp
    then show ?case using 1(2) [of c] by simp
  qed
next
  fix c e tr
  assume "Ret c (Inl e) # tr \<in> local_histories w0"
  then show "\<exists>f rest. events_of c tr = Call c f # rest" by (rule local_historyE) simp
next
  fix c w r w' tr
  assume "Ran c w r w' # tr \<in> local_histories w0"
  then show "\<exists>f rest. events_of c tr = Call c f # rest \<and> f w = (r, w')"
  proof (rule local_historyE, goal_cases)
    case (1 cl v)
    from 1(4) [OF refl] obtain f where "cl c = ClSending f" "f w = (r, w')" by (elim exE conjE)
    then show ?case using 1(2) [of c] by auto
  qed
next
  fix c f tr
  assume "Call c f # tr \<in> local_histories w0"
  then show "events_of c tr = [] \<or> (\<exists>res rest. events_of c tr = Ret c res # rest)"
  proof (rule local_historyE, goal_cases)
    case (1 cl w)
    have "cl c = ClIdle" using 1(3) [OF refl] by simp
    then show ?case using 1(2) [of c] by simp
  qed
next
  fix ev tr
  assume "ev # tr \<in> local_histories w0"
  then show "tr \<in> local_histories w0" by (rule local_historyE) (auto simp: local_histories_def)
qed

section \<open>Progress\<close>

fun serve_steps :: "nat \<Rightarrow> ('w, 'r) executor \<Rightarrow> ('w, 'r) executor" where
  "serve_steps 0 s = s"
| "serve_steps (Suc n) s = serve_steps n (snd (serve_step s))"

lemma serve_steps_add: "serve_steps (m + n) s = serve_steps n (serve_steps m s)"
  by (induction m arbitrary: s) simp_all

lemma step_got: "ex_inv s \<Longrightarrow> ex_server s = SvGot c f \<Longrightarrow>
    ex_clients (serve_steps 1 s) c = ClAnswered (fst (f (ex_world s)))"
  using ex_inv_waiting [of s c f]
  by (simp add: serve_step_def run_request_def ex_defs Let_def split: prod.splits)

lemma step_got_other:
  "ex_inv s \<Longrightarrow> ex_server s = SvGot c' f' \<Longrightarrow> ex_queue (serve_steps 1 s) = ex_queue s \<and>
     ex_server (serve_steps 1 s) = SvHead \<and> ex_should_serve (serve_steps 1 s) = ex_should_serve s"
  using ex_inv_waiting [of s c' f']
  by (simp add: serve_step_def run_request_def ex_defs Let_def split: prod.splits)

lemma ex_inv_serve_steps: "ex_inv s \<Longrightarrow> ex_inv (serve_steps n s)"
  by (induction n arbitrary: s) (auto intro: ex_inv_serve [OF _ prod.collapse [symmetric]])

lemma serve_from_recv:
  assumes "ex_inv s" "ex_server s = SvRecv" "ex_queue s = [(c, f)]"
  shows "\<exists>w. ex_clients (serve_steps 2 s) c = ClAnswered (fst (f w))"
proof -
  have "ex_server (serve_steps 1 s) = SvGot c f" using assms by (simp add: serve_step_def ex_defs)
  then have "\<exists>w. ex_clients (serve_steps 1 (serve_steps 1 s)) c = ClAnswered (fst (f w))"
    using step_got [OF ex_inv_serve_steps [OF assms(1)]] by blast
  then show ?thesis by (metis serve_steps_add one_add_one)
qed

lemma serve_from_head:
  assumes "ex_inv s" "ex_server s = SvHead" "ex_should_serve s" "ex_queue s = [(c, f)]"
  shows "\<exists>w. ex_clients (serve_steps 3 s) c = ClAnswered (fst (f w))"
proof -
  have "ex_server (serve_steps 1 s) = SvRecv \<and> ex_queue (serve_steps 1 s) = [(c, f)]"
    using assms by (simp add: serve_step_def ex_defs)
  then have "\<exists>w. ex_clients (serve_steps 2 (serve_steps 1 s)) c = ClAnswered (fst (f w))"
    using serve_from_recv [OF ex_inv_serve_steps [OF assms(1)]] by blast
  moreover have "serve_steps 3 s = serve_steps 2 (serve_steps 1 s)"
    using serve_steps_add [of 1 2 s] by (simp only: one_plus_numeral num.inject BitM.simps semiring_norm)
  ultimately show ?thesis by simp
qed

lemma ex_inv_place:
  assumes "ex_inv s" "ex_clients s c = ClWaiting f"
  shows "ex_server s = SvGot c f \<or> ex_queue s = [(c, f)]"
proof -
  have "(c, f) \<in> set (pending s)" "length (ex_queue s) \<le> 1"
    using assms by (auto simp: ex_inv_def placed_def)
  then show ?thesis
    by (cases "ex_queue s") (auto simp: pending_def split: server.splits)
qed

text \<open>C17: a request that was sent is executed.  Whenever the main thread is serving and some thread
  waits in \<open>execute\<close>, the main thread alone, in at most four steps of its loop, runs that thread's
  closure and puts its result into the thread's channel, whatever other request is in front of
  it and wherever in the loop the main thread is.\<close>

theorem request_is_executed:
  assumes "ex_run c0 w0 tr s" "ex_clients s c = ClWaiting f" "ex_should_serve s"
    and "ex_server s = SvHead \<or> ex_server s = SvRecv \<or> (\<exists>c' f'. ex_server s = SvGot c' f')"
  shows "\<exists>n \<le> 4. \<exists>w. ex_clients (serve_steps n s) c = ClAnswered (fst (f w))"
proof -
  note inv = ex_run_inv [OF assms(1)]
  consider "ex_server s = SvGot c f" | c' f' where "ex_server s = SvGot c' f'" "ex_queue s = [(c, f)]"
    | "ex_server s = SvHead" "ex_queue s = [(c, f)]" | "ex_server s = SvRecv" "ex_queue s = [(c, f)]"
    using ex_inv_place [OF inv assms(2)] assms(4) by auto
  then show ?thesis
  proof cases
    case 1
    then have "\<exists>w. ex_clients (serve_steps 1 s) c = ClAnswered (fst (f w))" using step_got [OF inv] by blast
    then show ?thesis by (intro exI [of _ 1]) simp
  next
    case 2
    then have "\<exists>w. ex_clients (serve_steps 3 (serve_steps 1 s)) c = ClAnswered (fst (f w))"
      using serve_from_head [OF ex_inv_serve_steps [OF inv]] step_got_other [OF inv] assms(3) by metis
    then have "\<exists>w. ex_clients (serve_steps 4 s) c = ClAnswered (fst (f w))"
      using serve_steps_add [of 1 3 s] by (simp only: one_plus_numeral semiring_norm)
    then show ?thesis by (intro exI [of _ 4]) simp
  next
    case 3
    then show ?thesis using serve_from_head [OF inv] assms(3) by (intro exI [of _ 3]) simp
  next
    case 4
    then show ?thesis using serve_from_recv [OF inv] by (intro exI [of _ 2]) simp
  qed
qed

lemma stop_keeps_inv: "ex_inv s \<Longrightarrow> ex_inv (client_stop s)"
  by (rule ex_inv_cong) (simp_all add: client_stop_def)

lemma drop_releases: "ex_inv s \<Longrightarrow> ex_server s = SvReturned r \<Longrightarrow> ex_clients (drop_server s) c \<noteq> ClWaiting f"
  using ex_inv_drop [of s r] by (auto simp: ex_inv_def placed_def pending_def drop_server_def)

lemmas stop_simps = eval_nat_numeral client_stop_def serve_step_def run_request_def ex_defs Let_def


section \<open>Safety and errors\<close>

text \<open>C7: \<open>execute\<close> runs its closure exactly once and returns that very result.  When a call of a
  thread returns a result, the last two events of that thread are the call and one run of its
  closure, on the main thread, that gave this result; when it returns an error, the closure did
  not run.  Over a whole history no thread has more runs than calls, nor more results than runs.\<close>

theorem execute_runs_once:
  assumes "ex_run c0 w0 (Ret c res # tr) s"
  shows "(case res of
            Inr r \<Rightarrow> \<exists>f w w' rest. events_of c tr = Ran c w r w' # Call c f # rest \<and> f w = (r, w')
          | Inl e \<Rightarrow> \<exists>f rest. events_of c tr = Call c f # rest) \<and>
     count is_ran c tr \<le> count is_call c tr \<and> count is_result c tr \<le> count is_ran c tr"
proof -
  have h: "Ret c res # tr \<in> main_thread_histories c0 w0" using assms by (auto simp: main_thread_histories_def)
  show ?thesis
    using main_thread.at_most_once [OF main_thread.past [OF h], of c] main_thread.result [of c _ tr c0 w0]
      main_thread.failure [of c _ tr c0 w0] h
    by (cases res) auto
qed

definition handles_inv :: "('w, 'r) executor \<Rightarrow> bool" where
  "handles_inv s \<longleftrightarrow>
     (\<forall>c. c \<notin> ex_handles s \<longrightarrow> ex_clients s c = ClIdle) \<and>
     (ex_server s = SvClosed \<longrightarrow> ex_handles s = {}) \<and>
     (\<forall>err. ex_server s = SvReturned (Inl err) \<longrightarrow> err = TaskDequeue \<and> ex_handles s = {})"

lemma handles_inv_serve:
  assumes "ex_inv s" "handles_inv s" "serve_step s = (es, s')"
  shows "handles_inv s'"
proof (cases "ex_server s")
  case (SvGot c f)
  then show ?thesis using assms ex_inv_waiting [OF assms(1) SvGot]
    by (auto simp: handles_inv_def serve_step_def run_request_def ex_defs Let_def split: prod.splits)
qed (use assms in \<open>auto simp: handles_inv_def serve_step_def ex_defs split: list.splits if_splits\<close>)

lemma handles_inv_step: "ex_step s es s' \<Longrightarrow> ex_inv s \<Longrightarrow> handles_inv s \<Longrightarrow> handles_inv s'"
proof (induction rule: ex_step.induct)
  case (serve s es s')
  then show ?case by (metis handles_inv_serve)
next
  case (dropped s r)
  have "ex_clients s c = ClWaiting f" if "(c, f) \<in> set (ex_queue s)" for c f
    using dropped.prems(1) that by (auto simp: ex_inv_def placed_def pending_def)
  then show ?case using dropped by (fastforce simp: handles_inv_def drop_server_def)
next
  case (send s c f es s')
  then show ?case by (auto simp: handles_inv_def client_send_def set_client_def split: if_splits)
qed (auto simp: handles_inv_def client_stop_def set_client_def)

lemma ex_run_handles: "ex_run c0 w0 tr s \<Longrightarrow> handles_inv s"
proof (induction rule: ex_run.induct)
  case init
  then show ?case by (simp add: handles_inv_def new_main_thread_executor_def)
next
  case (step tr s es s')
  show ?case by (rule handles_inv_step [OF step.hyps(2) ex_run_inv [OF step.hyps(1)] step.IH])
qed

text \<open>\<open>serve\<close> fails only when it has nobody left to serve.  Its \<open>?\<close> on a request never sees a
  caller that gave up waiting (\<open>ResultEnqueue\<close>): the only error it returns is that of a closed channel,
  after every client was dropped, and then no call of \<open>execute\<close> is unfinished.\<close>

theorem serve_fails_only_unused:
  assumes "ex_run c0 w0 tr s" "ex_server s = SvReturned (Inl err)"
  shows "err = TaskDequeue \<and> ex_handles s = {} \<and> (\<forall>c. ex_clients s c = ClIdle)"
  using ex_run_handles [OF assms(1)] assms(2) by (auto simp: handles_inv_def)

section \<open>Witnesses\<close>

definition example_closure :: "(nat, nat) closure" where
  "example_closure w = (w, w + 1)"

definition example_state :: "(nat \<times> (nat, nat) closure) list \<Rightarrow> (nat, nat) server \<Rightarrow> (nat, nat) client \<Rightarrow> nat \<Rightarrow> (nat, nat) executor" where
  "example_state q sv cl w = \<lparr>ex_queue = q, ex_should_serve = True, ex_server = sv,
     ex_clients = (\<lambda>_. ClIdle)(0 := cl), ex_handles = {0}, ex_world = w\<rparr>"

lemma run_serve: "ex_run c0 w0 tr s \<Longrightarrow> serve_step s = (es, s') \<Longrightarrow> ex_run c0 w0 (es @ tr) s'"
  by (blast intro: ex_run.step ex_step.serve)

lemma example_sent:
  "ex_run 0 5 [Call 0 example_closure] (example_state [(0, example_closure)] SvHead (ClWaiting example_closure) 5)"
proof -
  have "ex_run 0 5 [] (example_state [] SvHead ClIdle 5)"
    using run_serve [OF ex_run.init, of 0 5 "[]" "example_state [] SvHead ClIdle 5"]
    by (simp add: serve_step_def new_main_thread_executor_def example_state_def ex_defs fun_upd_idem)
  from ex_run.step [OF this ex_step.call [of 0 _ example_closure]]
  have "ex_run 0 5 [Call 0 example_closure] (example_state [] SvHead (ClSending example_closure) 5)"
    by (simp add: example_state_def ex_defs)
  from ex_run.step [OF this ex_step.send [of _ 0 example_closure "[]"]]
  show ?thesis by (simp add: example_state_def ex_defs client_send_def)
qed

lemma example_answered:
  "ex_run 0 5 [Ran 0 5 5 6, Call 0 example_closure] (example_state [] SvHead (ClAnswered 5) 6)"
proof -
  have "ex_run 0 5 [Call 0 example_closure] (example_state [(0, example_closure)] SvRecv (ClWaiting example_closure) 5)"
    using run_serve [OF example_sent, of "[]"] by (simp add: serve_step_def example_state_def ex_defs)
  from run_serve [OF this, of "[]" "example_state [] (SvGot 0 example_closure) (ClWaiting example_closure) 5"]
  have "ex_run 0 5 [Call 0 example_closure] (example_state [] (SvGot 0 example_closure) (ClWaiting example_closure) 5)"
    by (simp add: serve_step_def example_state_def ex_defs)
  from run_serve [OF this, of "[Ran 0 5 5 6]" "example_state [] SvHead (ClAnswered 5) 6"]
  show ?thesis by (simp add: serve_step_def run_request_def example_closure_def example_state_def ex_defs)
qed

lemma example_returned:
  "ex_run 0 5 [Ret 0 (Inr 5), Ran 0 5 5 6, Call 0 example_closure] (example_state [] SvHead ClIdle 6)"
  using ex_run.step [OF example_answered ex_step.answer [of _ 0 5]]
  by (simp add: example_state_def ex_defs)

theorem request_is_executed_witness:
  "\<exists>n \<le> 4. \<exists>w. ex_clients (serve_steps n (example_state [(0, example_closure)] SvHead (ClWaiting example_closure) 5)) 0 =
     ClAnswered (fst (example_closure w))"
  by (rule request_is_executed [OF example_sent]) (simp_all add: example_state_def)


theorem execute_runs_once_witness:
  "count is_ran 0 [Ran 0 5 5 6, Call 0 example_closure] \<le> count is_call 0 [Ran 0 5 5 6, Call 0 example_closure] \<and>
   (\<exists>f w w' rest. [Ran 0 5 5 6, Call 0 example_closure] = Ran 0 w 5 w' # Call 0 f # rest \<and> f w = (5, w'))"
  using execute_runs_once [OF example_returned] by simp

lemma example_unused:
  "ex_run 0 (5 :: nat) ([] :: (nat, nat) event list)
     ((example_state [] (SvReturned (Inl TaskDequeue)) ClIdle 5)\<lparr>ex_handles := {}\<rparr>)"
proof -
  have "ex_run 0 5 [] (example_state [] SvHead ClIdle 5)"
    using run_serve [OF ex_run.init, of 0 5 "[]" "example_state [] SvHead ClIdle 5"]
    by (simp add: serve_step_def new_main_thread_executor_def example_state_def ex_defs fun_upd_idem)
  from ex_run.step [OF this ex_step.drop_handle [of _ 0]]
  have "ex_run 0 5 [] ((example_state [] SvHead ClIdle 5)\<lparr>ex_handles := {}\<rparr>)" by (simp add: example_state_def)
  from run_serve [OF this, of "[]" "(example_state [] SvRecv ClIdle 5)\<lparr>ex_handles := {}\<rparr>"]
  have "ex_run 0 5 [] ((example_state [] SvRecv ClIdle 5)\<lparr>ex_handles := {}\<rparr>)"
    by (simp add: serve_step_def example_state_def ex_defs)
  from run_serve [OF this, of "[]" "(example_state [] SvClosed ClIdle 5)\<lparr>ex_handles := {}\<rparr>"]
  have "ex_run 0 5 [] ((example_state [] SvClosed ClIdle 5)\<lparr>ex_handles := {}\<rparr>)"
    by (simp add: serve_step_def example_state_def ex_defs)
  from run_serve [OF this, of "[]" "(example_state [] (SvReturned (Inl TaskDequeue)) ClIdle 5)\<lparr>ex_handles := {}\<rparr>"]
  show ?thesis by (simp add: serve_step_def example_state_def ex_defs)
qed

theorem serve_fails_only_unused_witness:
  "\<forall>c. ex_clients ((example_state [] (SvReturned (Inl TaskDequeue)) ClIdle 5)\<lparr>ex_handles := {}\<rparr>) c = ClIdle"
  using serve_fails_only_unused [OF example_unused] by (simp add: example_state_def)

end
