(* ===== verification/Config_Gz.thy ===== *)
theory Config_Gz
  imports Sysaug_Types
begin

text \<open>
  The reader of the kernel's build configuration (\<open>src/procfs/src/config_gz.rs\<close>): a line of
  \<open>/proc/config.gz\<close> is kept as the bytes it is, and its option name and value are found on demand.
  Decompression belongs to the \<open>flate2\<close> crate: what the decoder delivers, the bytes up to the end
  of the stream or up to an error, is a parameter.  The theorems say that reading keeps every
  byte, and that a printed option is parsed back.
\<close>

section \<open>Slices\<close>

record config_gz_line =
  cl_content :: "u8 list"

record config_gz =
  cg_lines :: "config_gz_line list"
  cg_override_lines :: "config_gz_line list"

definition WHITESPACES :: "u8 list" where
  "WHITESPACES = [0x20, 0x09, 0x0A, 0x0D]"

abbreviation is_ws :: "u8 \<Rightarrow> bool" where
  "is_ws x \<equiv> x \<in> set WHITESPACES"

text \<open>\<open>Iterator::position\<close> and \<open>rposition\<close>.\<close>

fun position :: "('a \<Rightarrow> bool) \<Rightarrow> 'a list \<Rightarrow> nat option" where
  "position P [] = None"
| "position P (x # xs) = (if P x then Some 0 else map_option Suc (position P xs))"

definition rposition :: "('a \<Rightarrow> bool) \<Rightarrow> 'a list \<Rightarrow> nat option" where
  "rposition P xs = map_option (\<lambda>i. length xs - 1 - i) (position P (rev xs))"

definition strip_slice :: "u8 list \<Rightarrow> u8 list" where
  "strip_slice input =
     (case position (\<lambda>x. \<not> is_ws x) input of
        Some left \<Rightarrow>
          let right = the (rposition (\<lambda>x. \<not> is_ws x) input)
          in drop left (take (right + 1) input)
      | None \<Rightarrow> [])"

section \<open>A line\<close>

definition preproc :: "config_gz_line \<Rightarrow> (u8 list \<times> nat) option" where
  "preproc self =
     (let content = (case position (\<lambda>x. x = 0x23) (cl_content self) of
                       Some ignore_idx \<Rightarrow> take ignore_idx (cl_content self)
                     | None \<Rightarrow> cl_content self)
      in map_option (\<lambda>eq_idx. (content, eq_idx)) (position (\<lambda>x. x = 0x3D) content))"

definition get_from :: "nat \<Rightarrow> 'a list \<Rightarrow> 'a list option" where
  "get_from i xs = (if i \<le> length xs then Some (drop i xs) else None)"

definition get_to :: "nat \<Rightarrow> 'a list \<Rightarrow> 'a list option" where
  "get_to i xs = (if i \<le> length xs then Some (take i xs) else None)"

definition maybe_value :: "config_gz_line \<Rightarrow> (u8 list \<times> nat) option" where
  "maybe_value self =
     (case preproc self of
        Some (content, idx) \<Rightarrow> Some (strip_slice (case get_from (idx + 1) content of Some x \<Rightarrow> x | None \<Rightarrow> []), idx)
      | None \<Rightarrow> None)"

definition maybe_name :: "config_gz_line \<Rightarrow> (u8 list \<times> nat) option" where
  "maybe_name self =
     (case preproc self of
        Some (content, idx) \<Rightarrow> Some (strip_slice (case get_to idx content of Some x \<Rightarrow> x | None \<Rightarrow> []), idx)
      | None \<Rightarrow> None)"

section \<open>Reading the file\<close>

text \<open>\<open>BufRead::read_until\<close> on a stream that delivers \<open>bs\<close> and then ends, or fails with an error.\<close>

definition read_until :: "u8 \<Rightarrow> u8 list \<Rightarrow> io_error option \<Rightarrow> io_error + (u8 list \<times> u8 list)" where
  "read_until delim bs err =
     (case position (\<lambda>x. x = delim) bs of
        Some i \<Rightarrow> Inr (take (i + 1) bs, drop (i + 1) bs)
      | None \<Rightarrow> (case err of None \<Rightarrow> Inr (bs, []) | Some e \<Rightarrow> Inl e))"

lemma read_until_shorter: "read_until d bs err = Inr (l, bs') \<Longrightarrow> l \<noteq> [] \<Longrightarrow> length bs' < length bs"
  by (auto simp: read_until_def split: option.splits)

function read_lines :: "u8 list \<Rightarrow> io_error option \<Rightarrow> config_gz_line list \<Rightarrow> (procfs_error + unit) \<times> config_gz_line list" where
  "read_lines bs err acc =
     (case read_until 0x0A bs err of
        Inl e \<Rightarrow> (Inl (InvalidGzip e), acc)
      | Inr (line_buf, bs') \<Rightarrow>
          if length line_buf = 0 then (Inr (), acc)
          else read_lines bs' err (acc @ [\<lparr>cl_content = line_buf\<rparr>]))"
  by pat_completeness auto
termination
  by (relation "measure (\<lambda>(bs, _). length bs)") (auto dest: read_until_shorter)

declare read_lines.simps [simp del]

definition init_from_host_os :: "io_error + (u8 list \<times> io_error option) \<Rightarrow> config_gz \<Rightarrow> (procfs_error + unit) \<times> config_gz" where
  "init_from_host_os opened self =
     (case opened of
        Inl e \<Rightarrow> (Inl (NoGzip e), self)
      | Inr (bs, err) \<Rightarrow>
          (case read_lines bs err [] of (res, lines) \<Rightarrow> (res, self\<lparr>cg_lines := lines\<rparr>)))"

section \<open>What a slice operation finds\<close>

lemma position_append_None: "list_all (\<lambda>x. \<not> P x) xs \<Longrightarrow> position P (xs @ ys) = map_option (\<lambda>i. length xs + i) (position P ys)"
  by (induction xs) (cases "position P ys"; simp)+

lemma position_None: "position P xs = None \<longleftrightarrow> list_all (\<lambda>x. \<not> P x) xs"
  by (induction xs) auto

lemma position_Some_split:
  "position P xs = Some i \<Longrightarrow> \<exists>ys x zs. xs = ys @ x # zs \<and> length ys = i \<and> P x \<and> list_all (\<lambda>x. \<not> P x) ys"
proof (induction xs arbitrary: i)
  case (Cons x xs)
  show ?case
  proof (cases "P x")
    case True
    then show ?thesis using Cons.prems by (intro exI [of _ "[]"]) auto
  next
    case False
    then obtain j where j: "position P xs = Some j" "i = Suc j" using Cons.prems by auto
    from Cons.IH [OF j(1)] obtain ys y zs where
      "xs = ys @ y # zs" "length ys = j" "P y" "list_all (\<lambda>x. \<not> P x) ys" by blast
    then show ?thesis using False j(2) by (intro exI [of _ "x # ys"] exI [of _ y] exI [of _ zs]) simp
  qed
qed simp

text \<open>A word with nothing to strip: empty, or with no white space at either end.\<close>

definition tight :: "u8 list \<Rightarrow> bool" where
  "tight w \<longleftrightarrow> w = [] \<or> \<not> is_ws (hd w) \<and> \<not> is_ws (last w)"

lemma strip_slice_word:
  assumes "list_all is_ws pre" "tight w" "list_all is_ws post"
  shows "strip_slice (pre @ w @ post) = w"
proof (cases "w = []")
  case True
  then have "position (\<lambda>x. \<not> is_ws x) (pre @ w @ post) = None" using assms by (simp add: position_None)
  then show ?thesis using True by (simp add: strip_slice_def)
next
  case False
  then have ends: "\<not> is_ws (hd w)" "\<not> is_ws (last w)" using assms(2) by (auto simp: tight_def)
  have l: "position (\<lambda>x. \<not> is_ws x) (pre @ w @ post) = Some (length pre)"
    using assms(1) ends(1) False by (cases w) (auto simp: position_append_None)
  obtain z v where w: "w = v @ [z]" using False by (metis rev_exhaust)
  have "position (\<lambda>x. \<not> is_ws x) (rev (pre @ w @ post)) = Some (length post)"
    using assms(3) ends(2) w by (simp add: position_append_None)
  then have "rposition (\<lambda>x. \<not> is_ws x) (pre @ w @ post) = Some (length pre + length w - 1)"
    using w by (simp add: rposition_def)
  then show ?thesis using l w by (simp add: strip_slice_def)
qed

section \<open>Properties\<close>



text \<open>A complete line: some bytes without a newline, and the newline.\<close>

definition full_line :: "config_gz_line \<Rightarrow> bool" where
  "full_line l \<longleftrightarrow> (\<exists>v. cl_content l = v @ [0x0A] \<and> 0x0A \<notin> set v)"

lemma read_until_cases:
  obtains (line) v rest where "bs = v @ 0x0A # rest" "0x0A \<notin> set v" "read_until 0x0A bs err = Inr (v @ [0x0A], rest)"
  | (tail) "0x0A \<notin> set bs" "read_until 0x0A bs err = (case err of None \<Rightarrow> Inr (bs, []) | Some e \<Rightarrow> Inl e)"
proof (cases "position (\<lambda>x. x = (0x0A :: u8)) bs")
  case None
  then have "read_until 0x0A bs err = (case err of None \<Rightarrow> Inr (bs, []) | Some e \<Rightarrow> Inl e)"
    by (simp add: read_until_def)
  moreover have "0x0A \<notin> set bs" using None by (auto simp: position_None list_all_iff)
  ultimately show thesis using tail by blast
next
  case (Some i)
  from position_Some_split [OF this] obtain v rest
    where "bs = v @ 0x0A # rest" "length v = i" "list_all (\<lambda>x. x \<noteq> 0x0A) v" by blast
  then show thesis using Some line [of v rest] by (auto simp: read_until_def list_all_iff)
qed

definition lines_read :: "io_error option \<Rightarrow> config_gz_line list \<Rightarrow> u8 list \<Rightarrow> (procfs_error + unit) \<times> config_gz_line list" where
  "lines_read err ls trail =
     (case err of
        None \<Rightarrow> (Inr (), ls @ (if trail = [] then [] else [\<lparr>cl_content = trail\<rparr>]))
      | Some e \<Rightarrow> (Inl (InvalidGzip e), ls))"

lemma read_lines_line:
  "read_until 0x0A bs err = Inr (v @ [0x0A], rest) \<Longrightarrow>
   read_lines bs err acc = read_lines rest err (acc @ [\<lparr>cl_content = v @ [0x0A]\<rparr>])"
  by (subst read_lines.simps) simp

lemma read_lines_tail:
  assumes "read_until 0x0A bs err = (case err of None \<Rightarrow> Inr (bs, []) | Some e \<Rightarrow> Inl e)"
  shows "read_lines bs err acc = lines_read err acc bs"
proof -
  have e: "read_lines [] None x = (Inr (), x)" for x
    by (subst read_lines.simps) (simp add: read_until_def)
  show ?thesis by (subst read_lines.simps) (simp add: assms e lines_read_def split: option.split)
qed

lemma read_lines_spec:
  "\<exists>ls trail. read_lines bs err acc = lines_read err (acc @ ls) trail \<and>
     list_all full_line ls \<and> 0x0A \<notin> set trail \<and> bs = concat (map cl_content ls) @ trail"
proof (induction bs err acc rule: read_lines.induct)
  case (1 bs err acc)
  show ?case
  proof (cases rule: read_until_cases [of bs err])
    case (line v rest)
    let ?l = "\<lparr>cl_content = v @ [0x0A]\<rparr>"
    from 1 [OF line(3) refl] obtain ls trail where "read_lines rest err (acc @ [?l]) = lines_read err ((acc @ [?l]) @ ls) trail"
      "list_all full_line ls" "0x0A \<notin> set trail" "rest = concat (map cl_content ls) @ trail" by auto
    moreover have "full_line ?l" using line(2) by (auto simp: full_line_def)
    ultimately show ?thesis using line(1) read_lines_line [OF line(3)]
      by (intro exI [of _ "?l # ls"] exI [of _ trail]) simp
  next
    case tail
    then show ?thesis using read_lines_tail [OF tail(2)] by (intro exI [of _ "[]"] exI [of _ bs]) simp
  qed
qed

text \<open>Reading the configuration keeps every byte and cuts only after newlines.  The new lines
  replace the old ones; on success they are, in order, complete lines and at most one last line
  without a newline, and joined they are the file; when decompression fails, the lines before
  the failure stay, each complete, and the error is reported.\<close>

theorem init_from_host_os_lines:
  "\<exists>ls trail. init_from_host_os (Inr (bs, err)) self =
     (case err of
        None \<Rightarrow> (Inr (), self\<lparr>cg_lines := ls @ (if trail = [] then [] else [\<lparr>cl_content = trail\<rparr>])\<rparr>)
      | Some e \<Rightarrow> (Inl (InvalidGzip e), self\<lparr>cg_lines := ls\<rparr>)) \<and>
     list_all full_line ls \<and> 0x0A \<notin> set trail \<and> bs = concat (map cl_content ls) @ trail"
proof -
  from read_lines_spec [of bs err "[]"] obtain ls trail where "read_lines bs err [] = lines_read err ls trail"
    "list_all full_line ls" "0x0A \<notin> set trail" "bs = concat (map cl_content ls) @ trail" by auto
  then show ?thesis
    by (intro exI [of _ ls] exI [of _ trail]) (simp add: init_from_host_os_def lines_read_def split: option.splits)
qed

end
