(* ===== verification/Launch.thy ===== *)
theory Launch
  imports Handler_Loop
begin

text \<open>
  Starting a tracee and its handler (\<open>src/main/src/lib.rs\<close>, \<open>start\<close> and \<open>setup_shared_memory\<close> of
  \<open>src/ptrace/src/lib.rs\<close>, \<open>new\<close>, \<open>fork\<close> and \<open>start\<close> of \<open>src/sysaug/src/handler_sync.rs\<close>).  The handler's
  thread runs \<open>event_loop\<close>; its caller waits for it, so that the two are modelled one after the
  other.  What the operating system does is the record \<open>process\<close>: forking, the memory file of the
  shared regions, the requests to a tracee by its pid, and the outcome of \<open>serve\<close> on the main
  thread, which is the subject of the theory of the executor.
\<close>

section \<open>The operating system\<close>

record command =
  cmd_program :: string
  cmd_args :: "string list"

text \<open>What a forked child does before it executes the command.\<close>

datatype child_prelude = Traceme | RaiseSigstop

record 'w process =
  po_fork :: "child_prelude \<Rightarrow> command \<Rightarrow> ('w, nix_error, pid) act"
  po_memfd_create :: "string \<Rightarrow> ('w, nix_error, usize) act"
  po_close :: "usize \<Rightarrow> 'w \<Rightarrow> 'w"
  po_ftruncate :: "usize \<Rightarrow> usize \<Rightarrow> ('w, nix_error, unit) act"
  po_mmap :: "usize \<Rightarrow> usize \<Rightarrow> ('w, nix_error, usize) act"
  po_kill :: "pid \<Rightarrow> ('w, nix_error, unit) act"
  po_uname :: "nix_error + string"
  po_uid :: usize
  po_gid :: usize
  po_nr :: "string \<Rightarrow> usize"
  po_stack_depth :: nat
  po_kernel :: "pid \<Rightarrow> 'w kernel"
  po_events :: "pid \<Rightarrow> 'w events"
  po_host :: "'w host"
  po_ignored_sigstops :: "pid \<Rightarrow> 'w \<Rightarrow> pid set"
  po_serve :: "'w \<Rightarrow> executor_error + unit"

section \<open>Errors (\<open>CLIError\<close>)\<close>

text \<open>\<open>NotReturned\<close> is no variant of the source: the handler runs for more rounds than the model's fuel.\<close>

datatype cli_error =
    CliInternalExecutor executor_error
  | CliPtrace ptrace_error
  | CliSysAugErr sysaug_error
  | ParseArgs string
  | UnableToComplete
  | PathCanonicalization path io_error
  | OciPull string
  | OciImageFormat string
  | NotReturned

section \<open>Shared memory\<close>

fun empty_fds :: "'w process \<Rightarrow> nat \<Rightarrow> usize list \<Rightarrow> ('w, nix_error, usize list) act" where
  "empty_fds P 0 acc = act_ret acc"
| "empty_fds P (Suc n) acc =
     (\<lambda>w. case po_memfd_create P ''empty'' w of
        (Inr fd, w) \<Rightarrow> empty_fds P n (acc @ [fd]) w
      | (Inl e, w) \<Rightarrow> (Inl e, fold (po_close P) acc w))"

definition high_fd :: "'w process \<Rightarrow> ('w, nix_error, usize) act" where
  "high_fd P = act_bind (empty_fds P 27 []) (\<lambda>fds w.
     case po_memfd_create P ''shared_from_tracer'' w of (r, w) \<Rightarrow> (r, fold (po_close P) fds w))"

text \<open>The region of tracee \<open>i\<close> is the part of the mapping from \<open>i * STACK_SAFE_ZONE_SIZE\<close> on; a new
  memory file is zero.\<close>

definition setup_shared_memory :: "'w process \<Rightarrow> ('w tracer, ptrace_error, usize \<times> usize) act" where
  "setup_shared_memory P =
     act_bind (act_map_err CreateMemoryFile (on_world (high_fd P))) (\<lambda>shared_fd.
     act_bind (act_map_err CreateMemoryFile (on_world (po_ftruncate P shared_fd SHARED_MMAP_SIZE))) (\<lambda>_.
     act_bind (act_map_err CreateMemoryFile (on_world (po_mmap P shared_fd SHARED_MMAP_SIZE))) (\<lambda>mmap_addr.
     act_bind (act_upd (\<lambda>t. t\<lparr>SHARED_REGIONS :=
        map (\<lambda>i. Some (replicate (unat STACK_SAFE_ZONE_SIZE) 0)) [0..<unat MAX_NUM_TRACEES]\<rparr>)) (\<lambda>_.
     act_ret (shared_fd, mmap_addr)))))"

section \<open>The handler of a tracee\<close>

record tracee_handler_consts =
  thc_args :: sysaug_args
  thc_config :: sysaug_config
  thc_root_pid :: pid

definition tracee_handler_consts_default :: "'w process \<Rightarrow> tracee_handler_consts" where
  "tracee_handler_consts_default P =
     \<lparr>thc_args = sysaug_args_default, thc_config = sysaug_config_default (po_uid P) (po_gid P), thc_root_pid = 0\<rparr>"

record tracee_handler =
  th_pid :: pid
  th_local_client :: bool
  th_shared_fd :: usize
  th_mmap_tracer_addr :: usize
  th_consts :: tracee_handler_consts
  th_parent :: "pid option"
  th_failed :: bool
  th_ignore_sigstops :: "pid set"

definition tracee_handler_new ::
  "'w process \<Rightarrow> pid \<Rightarrow> bool \<Rightarrow> tracee_handler_consts option \<Rightarrow> pid option \<Rightarrow> usize \<Rightarrow> usize \<Rightarrow> tracee_handler" where
  "tracee_handler_new P pid client consts parent shared_fd mmap_addr =
     \<lparr>th_pid = pid, th_local_client = client, th_shared_fd = shared_fd, th_mmap_tracer_addr = mmap_addr,
      th_consts = (case consts of Some c \<Rightarrow> c | None \<Rightarrow> tracee_handler_consts_default P),
      th_parent = parent, th_failed = False, th_ignore_sigstops = {}\<rparr>"

definition tracee_handler_fork :: "'w process \<Rightarrow> tracee_handler \<Rightarrow> pid \<Rightarrow> tracee_handler" where
  "tracee_handler_fork P self child_pid =
     tracee_handler_new P child_pid (th_local_client self) (Some (th_consts self)) (Some (th_pid self))
       (th_shared_fd self) (th_mmap_tracer_addr self)"

text \<open>What \<open>event_loop\<close> copies from the handler into the \<open>AsyncTraceeHandler\<close>.\<close>

definition handler_env :: "'w process \<Rightarrow> tracee_handler \<Rightarrow> 'w env" where
  "handler_env P self =
     \<lparr>e_pid = th_pid self, e_root_pid = thc_root_pid (th_consts self), e_local_client = th_local_client self,
      e_stack_depth = po_stack_depth P, e_args = thc_args (th_consts self), e_config = thc_config (th_consts self),
      e_shared_fd = th_shared_fd self, e_parent = map_option (po_ignored_sigstops P) (th_parent self),
      e_nr = po_nr P, e_kernel = po_kernel P (th_pid self), e_events = po_events P (th_pid self),
      e_host = po_host P\<rparr>"

text \<open>How the thread of a handler ends: it panics, or it returns the exit code or nothing after an
  error, which kills the tracee.\<close>

datatype thread_end = Endless | Panicked | Finished "u8 option"

definition handler_start :: "nat \<Rightarrow> nat \<Rightarrow> 'w process \<Rightarrow> tracee_handler \<Rightarrow> 'w tracer \<Rightarrow> thread_end \<times> tracee_handler \<times> 'w tracer" where
  "handler_start rounds fuel P self t =
     (case event_loop rounds fuel (handler_env P self) (po_uname P) t of
        (None, t) \<Rightarrow> (Endless, self, t)
      | (Some (Inr code), t) \<Rightarrow> (Finished (Some code), self, t)
      | (Some (Inl e), t) \<Rightarrow>
          (case e of
             SysaugPanic _ \<Rightarrow> (Panicked, self, t)
           | _ \<Rightarrow> (Finished None, self\<lparr>th_failed := True\<rparr>, snd (on_world (po_kill P (th_pid self)) t))))"

section \<open>Starting the first tracee\<close>

definition start :: "'w process \<Rightarrow> command \<Rightarrow> bool \<Rightarrow> ('w tracer, ptrace_error, pid) act" where
  "start P cmd no_attach =
     act_map_err StartInitCmd (on_world (po_fork P (if no_attach then Traceme else RaiseSigstop) cmd))"

definition launch_ptrace_with ::
  "nat \<Rightarrow> nat \<Rightarrow> 'w process \<Rightarrow> sysaug_args \<Rightarrow> command \<Rightarrow> bool \<Rightarrow> bool \<Rightarrow> usize \<Rightarrow> usize \<Rightarrow> ('w tracer, cli_error, thread_end) act" where
  "launch_ptrace_with rounds fuel P args cmd fix_attach client shared_fd mmap_addr =
     act_bind (act_map_err CliPtrace (start P cmd fix_attach)) (\<lambda>pid1.
     let states = (tracee_handler_consts_default P)\<lparr>thc_args := args, thc_root_pid := pid1\<rparr>;
         new_tracee_handler = tracee_handler_new P pid1 client (Some states) None shared_fd mmap_addr
     in (\<lambda>t. case handler_start rounds fuel P new_tracee_handler t of (end, _, t) \<Rightarrow> (Inr end, t)))"

definition join :: "thread_end \<Rightarrow> cli_error + u8 option" where
  "join end = (case end of Endless \<Rightarrow> Inl NotReturned | Panicked \<Rightarrow> Inl UnableToComplete | Finished r \<Rightarrow> Inr r)"

definition launch_ptrace ::
  "nat \<Rightarrow> nat \<Rightarrow> 'w process \<Rightarrow> sysaug_args \<Rightarrow> command \<Rightarrow> bool \<Rightarrow> usize \<Rightarrow> usize \<Rightarrow> ('w tracer, cli_error, u8 option) act" where
  "launch_ptrace rounds fuel P args cmd fix_attach shared_fd mmap_addr =
     (if fix_attach
      then act_bind (launch_ptrace_with rounds fuel P args cmd fix_attach False shared_fd mmap_addr) (\<lambda>end.
           act_bind (act_get (\<lambda>t. po_serve P (tr_world t))) (\<lambda>served.
           act_bind (act_lift (map_err CliInternalExecutor served)) (\<lambda>_.
           act_lift (join end))))
      else act_bind (launch_ptrace_with rounds fuel P args cmd fix_attach True shared_fd mmap_addr) (\<lambda>end.
           act_lift (join end)))"

definition canonicalize_clone :: "'w process \<Rightarrow> 'w \<Rightarrow> path option \<Rightarrow> cli_error + path option" where
  "canonicalize_clone P w maybe_path =
     (case maybe_path of
        Some path \<Rightarrow>
          (case ho_canonicalize (po_host P) w path of
             Inr new_path \<Rightarrow> Inr (Some new_path)
           | Inl e \<Rightarrow> Inl (PathCanonicalization path e))
      | None \<Rightarrow> Inr None)"

section \<open>What a failed tracee looks like to the caller\<close>

text \<open>The shared regions that \<open>setup_shared_memory\<close> installs are those the pool of regions starts from.\<close>

lemma setup_shared_memory_pool:
  "setup_shared_memory P t = (Inr r, t') \<Longrightarrow> SHARED_REGIONS t' = SHARED_REGIONS (fst (pool_init w))"
  by (auto simp: setup_shared_memory_def act_bind_Inr_iff act_ret_def act_upd_def pool_init_def map_replicate_const)

lemma fork_keeps_consts:
  "th_consts (tracee_handler_fork P self child) = th_consts self"
  "th_local_client (tracee_handler_fork P self child) = th_local_client self"
  "th_shared_fd (tracee_handler_fork P self child) = th_shared_fd self"
  by (simp_all add: tracee_handler_fork_def tracee_handler_new_def)

end
