(* ===== verification/Pocker_Cli.thy ===== *)
theory Pocker_Cli
  imports Launch Rootfs_Paths
begin

text \<open>
  The two programs: \<open>pocker-runtime\<close> (\<open>src/main/src/runtime.rs\<close>), which runs one command in a given root
  file system, and \<open>pocker\<close> (\<open>src/main/src/pocker.rs\<close>), which downloads an image, unpacks its layers
  with itself as the tracee, and runs an instance.  The parsed command line is a record, as \<open>clap\<close>
  delivers it.  The registry client, the archive reader, and what they and \<open>std::fs\<close> do to the
  host are the parameters of the record \<open>cli\<close>; strings are the bytes they are, and \<open>trim\<close> removes
  the ASCII white space.
\<close>

section \<open>Options and parameters\<close>

record launch_options =
  lo_fix_attach :: bool
  lo_fix_sigsys :: bool
  lo_fix_mmap :: bool
  lo_no_seccomp :: bool
  lo_fail_fast :: bool
  lo_gdb :: bool
  lo_gdb_at :: "usize option"
  lo_use_native_loader :: bool

record image_download_args =
  id_storage_path :: "path option"
  id_registry_host :: string
  id_registry_namespace :: string
  id_redownload :: bool

record layer =
  la_media_type :: string
  la_digest :: string
  la_data :: string

record 'w cli =
  cl_process :: "'w process"
  cl_home_dir :: "path option"
  cl_current_exe :: "io_error + path"
  cl_read_to_string :: "'w \<Rightarrow> path \<Rightarrow> io_error + string"
  cl_create_file :: "path \<Rightarrow> ('w, io_error, unit) act"
  cl_write_file :: "path \<Rightarrow> string \<Rightarrow> ('w, io_error, unit) act"
  cl_unpack :: "path \<Rightarrow> path \<Rightarrow> ('w, io_error, unit) act"
  cl_parse_reference :: "string \<Rightarrow> string + string"
  cl_pull_image_manifest :: "string \<Rightarrow> 'w \<Rightarrow> string + string list"
  cl_pull :: "string \<Rightarrow> string list \<Rightarrow> 'w \<Rightarrow> string + (string \<times> layer list)"
  cl_remove_var :: "string \<Rightarrow> 'w \<Rightarrow> 'w"
  cl_set_var :: "string \<Rightarrow> string \<Rightarrow> 'w \<Rightarrow> 'w"

text \<open>\<open>File::create\<close> and then a write, as \<open>std::fs::write\<close> does it too.\<close>

definition save_file :: "'w cli \<Rightarrow> path \<Rightarrow> string \<Rightarrow> ('w, io_error, unit) act" where
  "save_file C path data = act_bind (cl_create_file C path) (\<lambda>_. cl_write_file C path data)"

abbreviation cl_host :: "'w cli \<Rightarrow> 'w host" where "cl_host C \<equiv> po_host (cl_process C)"

datatype cli_failure =
    IoFail io_error
  | Context string cli_failure
  | Bail string
  | BailLaunch cli_error
  | OciFail string
  | PtraceFail ptrace_error
  | CliPanic string

abbreviation io :: "('w, io_error, 'a) act \<Rightarrow> ('w, cli_failure, 'a) act" where
  "io m \<equiv> act_map_err IoFail m"

abbreviation io_context :: "string \<Rightarrow> ('w, io_error, 'a) act \<Rightarrow> ('w, cli_failure, 'a) act" where
  "io_context msg m \<equiv> act_map_err (\<lambda>e. Context msg (IoFail e)) m"

section \<open>The arguments of the tracer\<close>

definition launch_args :: "launch_options \<Rightarrow> path option \<Rightarrow> path option \<Rightarrow> perms_mode \<Rightarrow> bool \<Rightarrow> sysaug_args" where
  "launch_args launch chroot rootfs mode native =
     \<lparr>a_chroot = chroot, a_rootfs = rootfs, a_perms_mode = mode, a_fail_fast = lo_fail_fast launch,
      a_fix_sigsys = lo_fix_sigsys launch, a_fix_mmap = (lo_fix_mmap launch \<or> lo_fix_attach launch),
      a_no_seccomp = lo_no_seccomp launch, a_gdb = lo_gdb launch, a_gdb_at = lo_gdb_at launch,
      a_use_native_loader = native\<rparr>"

section \<open>\<open>pocker-runtime\<close>\<close>

record runtime_args =
  ra_strace :: bool
  ra_chroot :: "path option"
  ra_root :: bool
  ra_rootfs :: "path option"
  ra_sudo :: bool
  ra_show_syscalls :: bool
  ra_cmd :: string
  ra_launch :: launch_options

datatype main_end =
    ShowSyscalls
  | Refused string
  | Exit int
  | MainPanic string

definition runtime_sysaug_args :: "'w process \<Rightarrow> 'w \<Rightarrow> runtime_args \<Rightarrow> cli_error + sysaug_args" where
  "runtime_sysaug_args P w args =
     res_bind (canonicalize_clone P w (ra_chroot args)) (\<lambda>chroot_copy.
     res_bind (canonicalize_clone P w (ra_chroot args)) (\<lambda>chroot.
     res_bind (canonicalize_clone P w (ra_rootfs args)) (\<lambda>rootfs.
     Inr (launch_args (ra_launch args) chroot (case rootfs of Some r \<Rightarrow> Some r | None \<Rightarrow> chroot_copy)
       (if ra_root args then RootOnly else if ra_sudo args then SudoOnly else Passthrough)
       (lo_use_native_loader (ra_launch args))))))"

definition exit_code :: "u8 option \<Rightarrow> main_end" where
  "exit_code retcode = (case retcode of Some code \<Rightarrow> Exit (uint code) | None \<Rightarrow> MainPanic ''unwrap on None'')"

definition actual_main :: "nat \<Rightarrow> nat \<Rightarrow> 'w process \<Rightarrow> runtime_args \<Rightarrow> ('w tracer, cli_error, main_end) act" where
  "actual_main rounds fuel P args =
     (if ra_show_syscalls args then act_ret ShowSyscalls
      else if ra_root args \<and> ra_sudo args then act_ret (Refused ''You cannot use both --root and --sudo'')
      else if ra_chroot args \<noteq> None \<and> ra_rootfs args \<noteq> None
      then act_ret (Refused ''You cannot use both --chroot and --rootfs'')
      else act_bind (act_look (\<lambda>t. runtime_sysaug_args P (tr_world t) args)) (\<lambda>args2 t.
           case setup_shared_memory P t of
             (Inl e, t) \<Rightarrow> (Inr (MainPanic ''Preparing ptrace''), t)
           | (Inr (shared_fd, mmap_addr), t) \<Rightarrow>
               act_bind (launch_ptrace rounds fuel P args2 \<lparr>cmd_program = ra_cmd args, cmd_args = []\<rparr>
                 (lo_fix_attach (ra_launch args)) shared_fd mmap_addr) (\<lambda>retcode. act_ret (exit_code retcode)) t))"

section \<open>\<open>pocker\<close>: names and the download cache\<close>

definition LAYER_TYPE_TAR_GZ :: string where
  "LAYER_TYPE_TAR_GZ = ''application/vnd.oci.image.layer.v1.tar+gzip''"

definition LOCKFILE_RUNNING :: string where "LOCKFILE_RUNNING = ''.pocker-running''"

definition push_os_strings :: "image_download_args \<Rightarrow> string list \<Rightarrow> string list" where
  "push_os_strings self ans =
     ans @ (case id_storage_path self of Some path \<Rightarrow> [''--storage-path'', path] | None \<Rightarrow> [])
         @ [''--registry-host'', id_registry_host self]
         @ [''--registry-namespace'', id_registry_namespace self]"

record platform =
  pl_os :: string
  pl_architecture :: string

record image_index_entry =
  ie_platform :: "platform option"
  ie_digest :: string

definition resolver_for_linux :: "string \<Rightarrow> image_index_entry list \<Rightarrow> string option" where
  "resolver_for_linux arch manifests =
     map_option ie_digest
       (List.find (\<lambda>entry. case ie_platform entry of
                       Some platform \<Rightarrow> pl_os platform = ''linux'' \<and> pl_architecture platform = arch
                     | None \<Rightarrow> False) manifests)"

definition get_storage_dir :: "'w cli \<Rightarrow> image_download_args \<Rightarrow> ('w, cli_failure, path) act" where
  "get_storage_dir C args =
     (let default_dir = map_option (\<lambda>p. path_join (path_join p ''.pocker'') ''storage'') (cl_home_dir C)
      in case (case id_storage_path args of Some p \<Rightarrow> Some p | None \<Rightarrow> default_dir) of
           None \<Rightarrow> act_err (Bail ''Cannot establish default pocker storage at ~/.pocker/storage'')
         | Some storage_dir \<Rightarrow> act_bind (io (ho_create_dir_all (cl_host C) storage_dir)) (\<lambda>_. act_ret storage_dir))"

definition reference_str :: "image_download_args \<Rightarrow> string \<Rightarrow> string" where
  "reference_str args image_name =
     (if CHR ''/'' \<in> set image_name then id_registry_host args @ ''/'' @ image_name
      else id_registry_host args @ ''/'' @ id_registry_namespace args @ ''/'' @ image_name)"

definition cache_name :: "image_download_args \<Rightarrow> string \<Rightarrow> string" where
  "cache_name args image_name =
     str_replace ''/'' ''_'' (str_replace ''_'' ''__''
       (drop (length (id_registry_host args)) (reference_str args image_name)))"

definition is_space :: "char \<Rightarrow> bool" where
  "is_space c \<longleftrightarrow> of_char c \<in> {9, 10, 11, 12, 13, 32 :: nat}"

definition trim :: "string \<Rightarrow> string" where
  "trim s = rev (dropWhile is_space (rev (dropWhile is_space s)))"

fun split_on :: "char \<Rightarrow> string \<Rightarrow> string list" where
  "split_on d [] = [[]]"
| "split_on d (c # cs) = (if c = d then [] # split_on d cs
     else case split_on d cs of [] \<Rightarrow> [[c]] | p # ps \<Rightarrow> (c # p) # ps)"

fun join_with :: "string \<Rightarrow> string list \<Rightarrow> string" where
  "join_with d [] = []"
| "join_with d [x] = x"
| "join_with d (x # y # ys) = x @ d @ join_with d (y # ys)"

definition cached_digests :: "'w cli \<Rightarrow> image_download_args \<Rightarrow> string \<Rightarrow> path \<Rightarrow> ('w, cli_failure, string list option) act" where
  "cached_digests C args ref cache_path = (\<lambda>w.
     if \<not> path_exists (cl_host C) w cache_path then (Inr None, w)
     else (res_bind (map_err (\<lambda>e. Context ''Checking cached image digests'' (IoFail e)) (cl_read_to_string C w cache_path)) (\<lambda>cached_image.
           let hashes = split_on CHR '','' (trim cached_image)
           in res_bind (map_err OciFail (cl_parse_reference C ref)) (\<lambda>reference.
              res_bind (map_err OciFail (cl_pull_image_manifest C reference w)) (\<lambda>expected.
              Inr (if length hashes > 0 \<and> length hashes = length expected \<and> hashes = expected \<and> \<not> id_redownload args
                   then Some hashes else None)))), w))"

fun save_layers :: "'w cli \<Rightarrow> path \<Rightarrow> string \<Rightarrow> layer list \<Rightarrow> string list \<Rightarrow> ('w, cli_failure, string list) act" where
  "save_layers C cache_dir media [] hashes = act_ret hashes"
| "save_layers C cache_dir media (l # ls) hashes =
     (if \<not> suffix ''.tar+gzip'' (la_media_type l) then act_err (Bail (''Unknown image format: '' @ media))
      else act_bind (io_context ''Saving layer tarfile''
             (save_file C (path_join cache_dir (la_digest l @ ''.tar.gz'')) (la_data l))) (\<lambda>_.
           save_layers C cache_dir media ls (hashes @ [la_digest l])))"

definition pull_layers :: "'w cli \<Rightarrow> string \<Rightarrow> path \<Rightarrow> path \<Rightarrow> ('w, cli_failure, string list) act" where
  "pull_layers C ref cache_dir cache_path =
     act_bind (act_lift (map_err OciFail (cl_parse_reference C ref))) (\<lambda>reference.
     act_bind (act_look (\<lambda>w. map_err OciFail (cl_pull C reference [LAYER_TYPE_TAR_GZ] w))) (\<lambda>image.
     act_bind (save_layers C cache_dir (fst image) (snd image) []) (\<lambda>hashes.
     act_bind (io_context (''Saving cached image digests: '' @ cache_path)
       (save_file C cache_path (join_with '','' hashes @ [CHR 0x0A]))) (\<lambda>_.
     act_ret hashes))))"

definition download_image :: "'w cli \<Rightarrow> string \<Rightarrow> image_download_args \<Rightarrow> ('w, cli_failure, string list) act" where
  "download_image C image_name args =
     (let ref = reference_str args image_name
      in act_bind (get_storage_dir C args) (\<lambda>storage_dir.
         let layers_dir = path_join storage_dir ''layers''; cache_dir = path_join storage_dir ''cache''
         in act_bind (io_context ''Creating pocker download cache'' (ho_create_dir_all (cl_host C) layers_dir)) (\<lambda>_.
            act_bind (io_context ''Creating pocker download cache'' (ho_create_dir_all (cl_host C) cache_dir)) (\<lambda>_.
            let cache_path = path_join cache_dir (cache_name args image_name)
            in act_bind (cached_digests C args ref cache_path) (\<lambda>cached.
               case cached of
                 Some hashes \<Rightarrow> act_ret hashes
               | None \<Rightarrow> pull_layers C ref cache_dir cache_path)))))"

section \<open>\<open>pocker\<close>: layers and instances\<close>

definition untar_layer_from_tracee :: "'w cli \<Rightarrow> string \<Rightarrow> image_download_args \<Rightarrow> ('w, cli_failure, unit) act" where
  "untar_layer_from_tracee C layer download =
     act_bind (get_storage_dir C download) (\<lambda>storage_dir.
     io (cl_unpack C (path_join (path_join storage_dir ''cache'') (layer @ ''.tar.gz''))
           (path_join (path_join storage_dir ''layers'') layer)))"

definition untar_command :: "path \<Rightarrow> string \<Rightarrow> string \<Rightarrow> image_download_args \<Rightarrow> command" where
  "untar_command self_path image_name digest args =
     \<lparr>cmd_program = self_path,
      cmd_args = push_os_strings args [''pull'', image_name, ''--internal-layer'', digest]\<rparr>"

definition untar_layer ::
  "nat \<Rightarrow> nat \<Rightarrow> 'w cli \<Rightarrow> string \<Rightarrow> launch_options \<Rightarrow> image_download_args \<Rightarrow> usize \<Rightarrow> usize \<Rightarrow> path \<Rightarrow> string
     \<Rightarrow> ('w tracer, cli_failure, unit) act" where
  "untar_layer rounds fuel C image_name launch args shared_fd mmap_addr layer_dir digest =
     act_bind (act_look (\<lambda>t. map_err IoFail (res_bind (cl_current_exe C) (ho_canonicalize (cl_host C) (tr_world t))))) (\<lambda>self_path.
     act_bind (act_map_err BailLaunch (launch_ptrace rounds fuel (cl_process C)
         (launch_args launch None (Some layer_dir) RootOnly (lo_use_native_loader launch))
         (untar_command self_path image_name digest args) (lo_fix_attach launch) shared_fd mmap_addr)) (\<lambda>_.
     act_ret ()))"

fun untar_layers ::
  "nat \<Rightarrow> nat \<Rightarrow> 'w cli \<Rightarrow> string \<Rightarrow> launch_options \<Rightarrow> image_download_args \<Rightarrow> usize \<Rightarrow> usize \<Rightarrow> path \<Rightarrow> string list \<Rightarrow> path list
     \<Rightarrow> ('w tracer, cli_failure, path list) act" where
  "untar_layers rounds fuel C image_name launch args shared_fd mmap_addr layers_dir [] layer_dirs = act_ret layer_dirs"
| "untar_layers rounds fuel C image_name launch args shared_fd mmap_addr layers_dir (digest # layers) layer_dirs =
     (let layer_dir = path_join layers_dir digest; layer_dirs = layer_dirs @ [layer_dir];
          continue = untar_layers rounds fuel C image_name launch args shared_fd mmap_addr layers_dir layers layer_dirs;
          untar = act_bind (untar_layer rounds fuel C image_name launch args shared_fd mmap_addr layer_dir digest) (\<lambda>_. continue)
      in (\<lambda>t.
        if ho_is_dir (cl_host C) (tr_world t) layer_dir
        then if \<not> id_redownload args then continue t
             else act_bind (on_world (io_context (''Redownloading layer '' @ digest)
                    (ho_remove_dir_all (cl_host C) layer_dir))) (\<lambda>_. untar) t
        else untar t))"

definition launch_ptrace_to_untar_layers ::
  "nat \<Rightarrow> nat \<Rightarrow> 'w cli \<Rightarrow> string \<Rightarrow> string list \<Rightarrow> launch_options \<Rightarrow> image_download_args \<Rightarrow> usize \<Rightarrow> usize
     \<Rightarrow> ('w tracer, cli_failure, path list) act" where
  "launch_ptrace_to_untar_layers rounds fuel C image_name layers launch args shared_fd mmap_addr =
     act_bind (on_world (get_storage_dir C args)) (\<lambda>storage_dir.
     let layers_dir = path_join storage_dir ''layers''
     in act_bind (on_world (io_context ''Creating pocker download cache'' (ho_create_dir_all (cl_host C) layers_dir))) (\<lambda>_.
        untar_layers rounds fuel C image_name launch args shared_fd mmap_addr layers_dir layers []))"

definition run_instance ::
  "nat \<Rightarrow> nat \<Rightarrow> 'w cli \<Rightarrow> string \<Rightarrow> launch_options \<Rightarrow> path list \<Rightarrow> usize \<Rightarrow> usize \<Rightarrow> ('w tracer, cli_failure, u8 option) act" where
  "run_instance rounds fuel C cmd args layers shared_fd mmap_addr =
     act_bind (act_lift (if layers = [] then Inl (CliPanic ''attempt to subtract with overflow'') else Inr (last layers))) (\<lambda>last_layer.
     act_bind (act_look (\<lambda>t. map_err IoFail (ho_canonicalize (cl_host C) (tr_world t) last_layer))) (\<lambda>rootfs.
     act_bind (act_upd (\<lambda>t. t\<lparr>tr_world :=
        cl_set_var C ''PATH'' ''/bin:/sbin:/usr/bin:/usr/sbin'' (cl_remove_var C ''LD_PRELOAD'' (tr_world t))\<rparr>)) (\<lambda>_.
     act_map_err BailLaunch (launch_ptrace rounds fuel (cl_process C)
       (launch_args args (Some rootfs) (Some rootfs) RootOnly False) \<lparr>cmd_program = cmd, cmd_args = []\<rparr>
       (lo_fix_attach args) shared_fd mmap_addr))))"

definition lock_instance :: "'w cli \<Rightarrow> path \<Rightarrow> string \<Rightarrow> ('w, cli_failure, path) act" where
  "lock_instance C instances_dir instance_name =
     (let instance = path_join instances_dir instance_name; instance_running = path_join instances_dir LOCKFILE_RUNNING;
          lockfile = path_join instance LOCKFILE_RUNNING
      in (\<lambda>w. if path_exists (cl_host C) w instance_running
          then (Inl (Bail (''Refusing to overwrite an existing, running instance: '' @ instance_name)), w)
          else act_bind (io_context ''Failed to create instance dir'' (ho_create_dir_all (cl_host C) instance)) (\<lambda>_.
               act_bind (io_context ''Failed to lock instance'' (cl_create_file C lockfile)) (\<lambda>_.
               act_bind (io (cl_write_file C lockfile [CHR 0x0A])) (\<lambda>_.
               act_ret lockfile))) w))"

definition command_run ::
  "nat \<Rightarrow> nat \<Rightarrow> 'w cli \<Rightarrow> string \<Rightarrow> string option \<Rightarrow> string option \<Rightarrow> launch_options \<Rightarrow> image_download_args
     \<Rightarrow> ('w tracer, cli_failure, main_end) act" where
  "command_run rounds fuel C image_name cmd name launch download =
     act_bind (act_map_err (\<lambda>e. Context ''Preparing ptrace'' (PtraceFail e)) (setup_shared_memory (cl_process C))) (\<lambda>(shared_fd, mmap_addr).
     act_bind (on_world (get_storage_dir C download)) (\<lambda>storage_dir.
     act_bind (on_world (download_image C image_name download)) (\<lambda>digests.
     act_bind (launch_ptrace_to_untar_layers rounds fuel C image_name digests launch download shared_fd mmap_addr) (\<lambda>layers.
     act_bind (on_world (lock_instance C (path_join storage_dir ''instances'') (case name of Some n \<Rightarrow> n | None \<Rightarrow> image_name))) (\<lambda>lockfile t.
     case run_instance rounds fuel C (case cmd of Some c \<Rightarrow> c | None \<Rightarrow> ''/bin/sh'') launch layers shared_fd mmap_addr t of
       (Inl (CliPanic msg), t) \<Rightarrow> (Inl (CliPanic msg), t)
     | (result, t) \<Rightarrow>
         act_bind (on_world (io_context ''Failed to unlock instance'' (ho_remove_file (cl_host C) lockfile))) (\<lambda>_.
         act_bind (act_lift result) (\<lambda>retcode. act_ret (exit_code retcode))) t)))))"

definition command_pull ::
  "nat \<Rightarrow> nat \<Rightarrow> 'w cli \<Rightarrow> string \<Rightarrow> string option \<Rightarrow> launch_options \<Rightarrow> image_download_args \<Rightarrow> ('w tracer, cli_failure, unit) act" where
  "command_pull rounds fuel C image_name internal_layer launch download =
     (case internal_layer of
        Some layer \<Rightarrow> on_world (untar_layer_from_tracee C layer download)
      | None \<Rightarrow>
          act_bind (act_map_err (\<lambda>e. Context ''Preparing ptrace'' (PtraceFail e)) (setup_shared_memory (cl_process C))) (\<lambda>(shared_fd, mmap_addr).
          act_bind (on_world (download_image C image_name download)) (\<lambda>layers.
          act_bind (launch_ptrace_to_untar_layers rounds fuel C image_name layers launch download shared_fd mmap_addr) (\<lambda>_.
          act_ret ()))))"

end
