(* ===== verification/Cli_Properties.thy ===== *)
theory Cli_Properties
  imports Pocker_Cli Model_Host
begin

text \<open>
  Properties of the two programs: the names and the contents of the download cache, the life of
  \<open>pocker-runtime\<close> up to its exit code, and what unpacking and locking report.
\<close>

section \<open>Names in the download cache\<close>

lemma str_replace_char: "str_replace [c] new s = concat (map (\<lambda>x. if x = c then new else [x]) s)"
proof (induction s)
  case Nil
  show ?case by (subst str_replace.simps) simp
next
  case (Cons x s)
  show ?case by (subst str_replace.simps) (use Cons.IH in auto)
qed

definition enc :: "char \<Rightarrow> string" where
  "enc x = (if x = CHR ''_'' then ''__'' else if x = CHR ''/'' then ''_'' else [x])"

text \<open>The part of a reference that names the image: what follows the registry's host.\<close>

definition image_path :: "image_download_args \<Rightarrow> string \<Rightarrow> string" where
  "image_path args image_name = drop (length (id_registry_host args)) (reference_str args image_name)"

lemma cache_name_enc: "cache_name args image_name = concat (map enc (image_path args image_name))"
proof -
  have "str_replace ''/'' ''_'' (str_replace ''_'' ''__'' s) = concat (map enc s)" for s
    by (induction s) (auto simp: str_replace_char enc_def)
  then show ?thesis by (simp add: cache_name_def image_path_def)
qed

text \<open>In a valid image name no slash is followed by a slash or an underscore.\<close>

fun valid_name :: "string \<Rightarrow> bool" where
  "valid_name (c # d # cs) = ((c = CHR ''/'' \<longrightarrow> d \<noteq> CHR ''/'' \<and> d \<noteq> CHR ''_'') \<and> valid_name (d # cs))"
| "valid_name _ = True"

fun dec :: "string \<Rightarrow> string" where
  "dec (c # d # cs) =
     (if c = CHR ''_'' \<and> d = CHR ''_'' then CHR ''_'' # dec cs
      else (if c = CHR ''_'' then CHR ''/'' else c) # dec (d # cs))"
| "dec [c] = (if c = CHR ''_'' then ''/'' else [c])"
| "dec [] = []"

lemma dec_slash: "xs = [] \<or> hd xs \<noteq> CHR ''_'' \<Longrightarrow> dec (CHR ''_'' # xs) = CHR ''/'' # dec xs"
  by (cases xs) auto

lemma dec_other: "c \<noteq> CHR ''_'' \<Longrightarrow> dec (c # xs) = c # dec xs"
  by (cases xs) auto

lemma enc_hd: "xs = [] \<or> (hd xs \<noteq> CHR ''/'' \<and> hd xs \<noteq> CHR ''_'') \<Longrightarrow>
    concat (map enc xs) = [] \<or> hd (concat (map enc xs)) \<noteq> CHR ''_''"
  by (cases xs) (auto simp: enc_def)

lemma enc_simps:
  "enc CHR ''_'' = ''__''" "enc CHR ''/'' = ''_''" "c \<noteq> CHR ''_'' \<Longrightarrow> c \<noteq> CHR ''/'' \<Longrightarrow> enc c = [c]"
  by (simp_all add: enc_def)

lemma dec_enc: "valid_name s \<Longrightarrow> dec (concat (map enc s)) = s"
proof (induction s)
  case (Cons c s)
  have v: "valid_name s" using Cons.prems by (cases s) auto
  show ?case
  proof (cases "c = CHR ''/''")
    case True
    then have "s = [] \<or> (hd s \<noteq> CHR ''/'' \<and> hd s \<noteq> CHR ''_'')" using Cons.prems by (cases s) auto
    from dec_slash [OF enc_hd [OF this]] show ?thesis using True Cons.IH [OF v] by (simp add: enc_simps)
  next
    case False
    then show ?thesis using Cons.IH [OF v] by (cases "c = CHR ''_''") (simp_all add: enc_simps dec_other)
  qed
qed simp


definition example_download :: image_download_args where
  "example_download = \<lparr>id_storage_path = Some ''/s'', id_registry_host = ''docker.io'',
     id_registry_namespace = ''library'', id_redownload = False\<rparr>"


section \<open>The contents of the download cache\<close>

definition digest_ok :: "string \<Rightarrow> bool" where
  "digest_ok h \<longleftrightarrow> h \<noteq> [] \<and> CHR '','' \<notin> set h \<and> list_all (\<lambda>c. \<not> is_space c) h"

lemma split_on_plain: "d \<notin> set s \<Longrightarrow> split_on d s = [s]"
  by (induction s) auto

lemma split_on_append: "d \<notin> set s \<Longrightarrow> split_on d (s @ d # r) = s # split_on d r"
  by (induction s) (auto split: list.splits)

lemma split_join: "hs \<noteq> [] \<Longrightarrow> list_all (\<lambda>h. d \<notin> set h) hs \<Longrightarrow> split_on d (join_with [d] hs) = hs"
  by (induction "[d]" hs rule: join_with.induct) (auto simp: split_on_plain split_on_append)

lemma join_with_set: "set (join_with d hs) \<subseteq> set d \<union> \<Union> (set ` set hs)"
  by (induction d hs rule: join_with.induct) auto

lemma trim_line:
  assumes "list_all (\<lambda>c. \<not> is_space c) s"
  shows "trim (s @ [CHR 0x0A]) = s"
proof (cases "s = []")
  case False
  then have "dropWhile is_space (s @ [CHR 0x0A]) = s @ [CHR 0x0A]" "dropWhile is_space (rev s) = rev s"
    using assms by (auto simp: list_all_iff dropWhile_eq_self_iff hd_rev)
  then show ?thesis by (simp add: trim_def is_space_def)
qed (simp add: trim_def is_space_def)

lemma cached_roundtrip:
  assumes "hs \<noteq> []" "list_all digest_ok hs"
  shows "split_on CHR '','' (trim (join_with '','' hs @ [CHR 0x0A])) = hs"
proof -
  have "\<not> is_space CHR '',''" by (simp add: is_space_def)
  then have "list_all (\<lambda>c. \<not> is_space c) (join_with '','' hs)"
    using join_with_set [of "'',''" hs] assms(2) by (fastforce simp: list_all_iff digest_ok_def)
  moreover have "list_all (\<lambda>h. CHR '','' \<notin> set h) hs" using assms(2) by (auto simp: list_all_iff digest_ok_def)
  ultimately show ?thesis using split_join [OF assms(1)] by (simp add: trim_line)
qed

text \<open>What is assumed of the file system: a file that was written exists and holds what was written, and
  creating directories keeps the files there are.\<close>

definition file_store :: "'w cli \<Rightarrow> bool" where
  "file_store C \<longleftrightarrow>
     (\<forall>p s w w'. save_file C p s w = (Inr (), w') \<longrightarrow> path_exists (cl_host C) w' p \<and> cl_read_to_string C w' p = Inr s)"

lemma act_ret_app: "act_ret x s = (Inr x, s)"
  by (simp add: act_ret_def)

lemma act_map_err_Inr_iff: "act_map_err g m s = (Inr x, s') \<longleftrightarrow> m s = (Inr x, s')"
  by (cases "m s") (auto simp: act_map_err_run)

lemma cached_keeps: "cached_digests C args ref p w = (r, w') \<Longrightarrow> w' = w"
  by (simp add: cached_digests_def split: if_splits)

lemma download_leaves_cache:
  assumes "file_store C" "id_storage_path args = Some dir" "download_image C img args w = (Inr hs, w')"
    "hs \<noteq> []" "list_all digest_ok hs"
  defines "p \<equiv> path_join (path_join dir ''cache'') (cache_name args img)"
  shows "path_exists (cl_host C) w' p \<and> (\<exists>s. cl_read_to_string C w' p = Inr s \<and> split_on CHR '','' (trim s) = hs)"
proof -
  from assms(2,3) obtain w1 w2 cached where c2: "cached_digests C args (reference_str args img) p w1 = (Inr cached, w2)"
    and r2: "(case cached of Some hs \<Rightarrow> act_ret hs
       | None \<Rightarrow> pull_layers C (reference_str args img) (path_join dir ''cache'') p) w2 = (Inr hs, w')"
    unfolding p_def by (auto simp: download_image_def get_storage_dir_def Let_def act_bind_Inr_iff act_ret_app)
  note c = c2 [unfolded cached_keeps [OF c2]] and r = r2 [unfolded cached_keeps [OF c2]]
  show ?thesis
  proof (cases cached)
    case None
    with r have "\<exists>w2. save_file C p (join_with '','' hs @ [CHR 0x0A]) w2 = (Inr (), w')"
      by (auto simp: pull_layers_def act_bind_Inr_iff act_ret_app act_map_err_Inr_iff)
    then show ?thesis using assms(1) cached_roundtrip [OF assms(4,5)] by (fastforce simp: file_store_def)
  next
    case (Some x)
    then show ?thesis using r c
      by (auto simp: cached_digests_def act_ret_def res_bind_Inr_iff Let_def split: if_splits)
  qed
qed

text \<open>C30: an image that was downloaded is not downloaded again.  After a successful \<open>download_image\<close>, and
  as long as the registry's manifest still names the same digests, a second one without
  \<open>--redownload\<close> returns the same digests and changes nothing, also when the registry would refuse to
  send a layer.\<close>

theorem download_again:
  assumes "file_store C" "id_storage_path args = Some dir" "download_image C img args w = (Inr hs, w')"
    "hs \<noteq> []" "list_all digest_ok hs"
    and "\<And>d. d \<in> {dir, path_join dir ''layers'', path_join dir ''cache''} \<Longrightarrow> ho_create_dir_all (cl_host C) d w' = (Inr (), w')"
    and "cl_parse_reference C (reference_str args img) = Inr ref" "cl_pull_image_manifest C ref w' = Inr hs"
  shows "download_image (C\<lparr>cl_pull := (\<lambda>_ _ _. Inl ''refused'')\<rparr>) img (args\<lparr>id_redownload := False\<rparr>) w' = (Inr hs, w')"
proof -
  have same: "reference_str (args\<lparr>id_redownload := False\<rparr>) img = reference_str args img"
    "cache_name (args\<lparr>id_redownload := False\<rparr>) img = cache_name args img"
    by (simp_all add: reference_str_def cache_name_def)
  from download_leaves_cache [OF assms(1-5)] obtain s where
    "path_exists (cl_host C) w' (path_join (path_join dir ''cache'') (cache_name args img))"
    "cl_read_to_string C w' (path_join (path_join dir ''cache'') (cache_name args img)) = Inr s"
    "split_on CHR '','' (trim s) = hs" by blast
  then show ?thesis using assms(2,4,6-8)
    by (simp add: download_image_def get_storage_dir_def Let_def act_bind_run act_map_err_run act_ret_def
        cached_digests_def same)
qed

section \<open>\<open>pocker-runtime\<close>\<close>

lemma runtime_args_facts:
  assumes "runtime_sysaug_args P w args = Inr a" "ra_chroot args = None \<or> ra_rootfs args = None"
  shows "a_perms_mode a = (if ra_root args then RootOnly else if ra_sudo args then SudoOnly else Passthrough)"
    "a_fix_mmap a \<longleftrightarrow> lo_fix_mmap (ra_launch args) \<or> lo_fix_attach (ra_launch args)"
    "case ra_chroot args of
       Some p \<Rightarrow> \<exists>q. ho_canonicalize (po_host P) w p = Inr q \<and> a_chroot a = Some q \<and> a_rootfs a = Some q
     | None \<Rightarrow> a_chroot a = None \<and> (ra_rootfs args = None \<longrightarrow> a_rootfs a = None)"
proof -
  from assms(1) obtain c r where c: "canonicalize_clone P w (ra_chroot args) = Inr c"
    and r: "canonicalize_clone P w (ra_rootfs args) = Inr r"
    and a: "a = launch_args (ra_launch args) c (case r of Some r \<Rightarrow> Some r | None \<Rightarrow> c)
       (if ra_root args then RootOnly else if ra_sudo args then SudoOnly else Passthrough) (lo_use_native_loader (ra_launch args))"
    by (auto simp: runtime_sysaug_args_def res_bind_Inr_iff)
  show "a_perms_mode a = (if ra_root args then RootOnly else if ra_sudo args then SudoOnly else Passthrough)"
    "a_fix_mmap a \<longleftrightarrow> lo_fix_mmap (ra_launch args) \<or> lo_fix_attach (ra_launch args)"
    by (simp_all add: a launch_args_def)
  show "case ra_chroot args of
       Some p \<Rightarrow> \<exists>q. ho_canonicalize (po_host P) w p = Inr q \<and> a_chroot a = Some q \<and> a_rootfs a = Some q
     | None \<Rightarrow> a_chroot a = None \<and> (ra_rootfs args = None \<longrightarrow> a_rootfs a = None)"
    using c r assms(2) by (auto simp: a launch_args_def canonicalize_clone_def split: option.splits sum.splits)
qed


section \<open>Unpacking and locking\<close>

text \<open>C39: a failed unpacking is not noticed.  When the tracer's handler fails while the tracee unpacks a
  layer, which kills the tracee, \<open>launch_ptrace_to_untar_layers\<close> still returns success with the directory
  of the half-unpacked layer, and a later run skips that layer because its directory exists.\<close>

theorem untar_failure_unnoticed:
  fixes C :: "'w cli"
  defines "P \<equiv> cl_process C"
  defines "h \<equiv> (\<lambda>args pid fd addr. tracee_handler_new P pid True
     (Some ((tracee_handler_consts_default P)\<lparr>thc_args := args, thc_root_pid := pid\<rparr>)) None fd addr)"
  assumes "\<not> ho_is_dir (cl_host C) (tr_world t) (path_join dir digest)" "\<not> lo_fix_attach launch"
    and "cl_current_exe C = Inr x" "ho_canonicalize (cl_host C) (tr_world t) x = Inr self_path"
    and "po_fork P RaiseSigstop (untar_command self_path img digest args) (tr_world t) = (Inr pid, w1)"
    and "event_loop rounds fuel (handler_env P (h (launch_args launch None (Some (path_join dir digest)) RootOnly
           (lo_use_native_loader launch)) pid fd addr)) (po_uname P) (t\<lparr>tr_world := w1\<rparr>) = (Some (Inl err), t2)"
    and "\<And>m. err \<noteq> SysaugPanic m"
    and "ho_is_dir (cl_host C) (tr_world t3) (path_join dir digest)" "\<not> id_redownload args"
  shows "fst (untar_layers rounds fuel C img launch args fd addr dir [digest] [] t) = Inr [path_join dir digest] \<and>
    untar_layers rounds fuel C img launch args fd addr dir [digest] [] t3 = (Inr [path_join dir digest], t3)"
proof -
  let ?a = "launch_args launch None (Some (path_join dir digest)) RootOnly (lo_use_native_loader launch)"
  have hs: "\<exists>t4. handler_start rounds fuel P (h ?a pid fd addr) (t\<lparr>tr_world := w1\<rparr>) =
      (Finished None, (h ?a pid fd addr)\<lparr>th_failed := True\<rparr>, t4)"
    using assms(8,9) by (cases err) (auto simp: handler_start_def)
  have "\<exists>t4. launch_ptrace rounds fuel P ?a (untar_command self_path img digest args) False fd addr t = (Inr None, t4)"
    using hs assms(7) by (auto simp: launch_ptrace_def launch_ptrace_with_def start_def join_def act_bind_run act_map_err_run
        on_world_def act_lift_def h_def Let_def)
  then show ?thesis using assms(3-6,10,11)
    by (auto simp: untar_layer_def act_bind_run act_map_err_run act_look_def act_ret_app Let_def P_def)
qed

text \<open>C40: the lock of a running instance is never seen.  \<open>command_run\<close> looks for the lock file in the
  directory of all instances but creates it in the instance's own, so that locking an instance
  that is locked succeeds.\<close>

theorem lock_not_exclusive:
  assumes "\<And>d w. ho_create_dir_all (cl_host C) d w = (Inr (), w)"
    and "\<And>p w. cl_create_file C p w = (Inr (), cr p w)" "\<And>p s w. cl_write_file C p s w = (Inr (), wr p s w)"
    and "\<And>p q w. p \<noteq> q \<Longrightarrow> path_exists (cl_host C) (cr p w) q \<longleftrightarrow> path_exists (cl_host C) w q"
    and "\<And>p q s w. p \<noteq> q \<Longrightarrow> path_exists (cl_host C) (wr p s w) q \<longleftrightarrow> path_exists (cl_host C) w q"
    and "\<not> path_exists (cl_host C) w (path_join dir LOCKFILE_RUNNING)" "name \<noteq> []" "\<not> is_absolute name"
  shows "\<exists>lock w1 w2. lock_instance C dir name w = (Inr lock, w1) \<and> lock_instance C dir name w1 = (Inr lock, w2)"
proof -
  let ?lock = "path_join (path_join dir name) LOCKFILE_RUNNING"
  have "length (path_join (path_join dir name) LOCKFILE_RUNNING) > length (path_join dir LOCKFILE_RUNNING)"
    using assms(7,8) by (auto simp: path_join_def is_absolute_def LOCKFILE_RUNNING_def)
  then have "?lock \<noteq> path_join dir LOCKFILE_RUNNING" by (metis less_irrefl_nat)
  then show ?thesis using assms
    by (auto simp: lock_instance_def Let_def act_bind_run act_map_err_run act_ret_app)
qed

section \<open>Witnesses\<close>

text \<open>A host on the model's world: file contents are kept in its list of named strings, and a tracee exits
  at once with status 1.\<close>

definition example_host :: "model host" where
  "example_host = model_host\<lparr>ho_is_dir := (\<lambda>w p. p \<in> set (d_files w)), ho_canonicalize := (\<lambda>w p. Inr p)\<rparr>"

definition example_events :: "model events" where
  "example_events = (model_events False)\<lparr>
     ev_waitpid := (\<lambda>p. act_ret (PtraceEvent p SIGTRAP PTRACE_EVENT_EXIT)),
     ev_getevent := (\<lambda>w. Inr 256)\<rparr>"

definition example_process :: "nix_error + string \<Rightarrow> model process" where
  "example_process u = \<lparr>po_fork = (\<lambda>prelude cmd. act_ret 100), po_memfd_create = (\<lambda>name. act_ret 30),
     po_close = (\<lambda>fd w. w), po_ftruncate = (\<lambda>fd sz. act_ret ()), po_mmap = (\<lambda>fd sz. act_ret 4096),
     po_kill = (\<lambda>p. act_ret ()), po_uname = u, po_uid = 1000, po_gid = 1000, po_nr = x86_64_nr,
     po_stack_depth = 8, po_kernel = (\<lambda>p. model_kernel), po_events = (\<lambda>p. example_events),
     po_host = example_host, po_ignored_sigstops = (\<lambda>p w. {}), po_serve = (\<lambda>w. Inr ())\<rparr>"

definition example_layer :: layer where
  "example_layer = \<lparr>la_media_type = LAYER_TYPE_TAR_GZ, la_digest = ''sha256:a'', la_data = ''tar''\<rparr>"

definition example_write :: "path \<Rightarrow> string \<Rightarrow> model \<Rightarrow> model" where
  "example_write p s w = w\<lparr>d_links := (p, s) # d_links w\<rparr>"

definition example_cli :: "nix_error + string \<Rightarrow> model cli" where
  "example_cli u = \<lparr>cl_process = example_process u, cl_home_dir = Some ''/home/u'', cl_current_exe = Inr ''/bin/pocker'',
     cl_read_to_string = (\<lambda>w p. case map_of (d_links w) p of Some s \<Rightarrow> Inr s | None \<Rightarrow> Inl 2),
     cl_create_file = (\<lambda>p. act_upd (example_write p [])), cl_write_file = (\<lambda>p s. act_upd (example_write p s)), cl_unpack = (\<lambda>p q. act_ret ()),
     cl_parse_reference = (\<lambda>r. Inr r), cl_pull_image_manifest = (\<lambda>r w. Inr [''sha256:a'']),
     cl_pull = (\<lambda>r types w. Inr (''config'', [example_layer])),
     cl_remove_var = (\<lambda>v w. w), cl_set_var = (\<lambda>v x w. w)\<rparr>"

definition example_launch :: launch_options where
  "example_launch = \<lparr>lo_fix_attach = False, lo_fix_sigsys = False, lo_fix_mmap = False, lo_no_seccomp = False,
     lo_fail_fast = False, lo_gdb = False, lo_gdb_at = None, lo_use_native_loader = False\<rparr>"

definition empty_world :: model where
  "empty_world = model_world\<lparr>d_files := [], d_links := [], d_meta := []\<rparr>"

lemmas example_simps = example_cli_def example_process_def example_host_def model_host_def path_exists_def
  model_exists_def act_ret_def act_upd_def

lemma example_file_store: "file_store (example_cli u)"
  by (simp add: file_store_def save_file_def act_bind_run example_simps example_write_def)

lemma example_downloaded:
  "\<exists>w'. download_image (example_cli u) ''x'' example_download empty_world = (Inr [''sha256:a''], w')"
  by (simp add: download_image_def get_storage_dir_def cached_digests_def pull_layers_def save_file_def act_bind_run act_map_err_run
      act_lift_def act_look_def Let_def example_simps example_download_def empty_world_def example_layer_def
      LAYER_TYPE_TAR_GZ_def suffix_def)

theorem download_again_witness:
  "\<exists>w'. download_image ((example_cli (Inl 1))\<lparr>cl_pull := (\<lambda>_ _ _. Inl ''refused'')\<rparr>) ''x'' (example_download\<lparr>id_redownload := False\<rparr>) w' =
     (Inr [''sha256:a''], w')"
proof -
  from example_downloaded obtain w' where d: "download_image (example_cli (Inl 1)) ''x'' example_download empty_world =
    (Inr [''sha256:a''], w')" by blast
  show ?thesis
    by (intro exI [of _ w'], rule download_again [OF example_file_store _ d, where dir = "''/s''"
        and ref = "reference_str example_download ''x''"])
      (simp_all add: example_simps example_download_def digest_ok_def is_space_def)
qed

theorem lock_not_exclusive_witness:
  "\<exists>lock w1 w2. lock_instance (example_cli (Inl 1)) ''/s/instances'' ''a'' empty_world = (Inr lock, w1) \<and>
     lock_instance (example_cli (Inl 1)) ''/s/instances'' ''a'' w1 = (Inr lock, w2)"
  by (rule lock_not_exclusive [where cr = "\<lambda>p. example_write p []" and wr = example_write])
    (simp_all add: example_simps example_write_def empty_world_def is_absolute_def)

theorem untar_failure_unnoticed_witness:
  "fst (untar_layers 1 1 (example_cli (Inl 5)) ''x'' example_launch example_download 30 4096 ''/s'' [''d''] [] (model_tracer empty_world)) =
     Inr [''/s/d''] \<and>
   untar_layers 1 1 (example_cli (Inl 5)) ''x'' example_launch example_download 30 4096 ''/s'' [''d''] []
     (model_tracer (empty_world\<lparr>d_files := [''/s/d'']\<rparr>)) = (Inr [''/s/d''], model_tracer (empty_world\<lparr>d_files := [''/s/d'']\<rparr>))"
proof -
  have j: "path_join ''/s'' ''d'' = ''/s/d''" by (simp add: path_join_def is_absolute_def)
  show ?thesis
    unfolding j [symmetric]
    by (rule untar_failure_unnoticed [where x = "''/bin/pocker''" and self_path = "''/bin/pocker''" and pid = 100
          and ?w1.0 = empty_world and err = "ReadKernelVersion 5" and ?t2.0 = "model_tracer empty_world"])
      (simp_all add: example_simps model_tracer_def empty_world_def example_launch_def example_download_def event_loop_def j)
qed

definition example_args :: runtime_args where
  "example_args = \<lparr>ra_strace = False, ra_chroot = None, ra_root = True, ra_rootfs = None, ra_sudo = False,
     ra_show_syscalls = False, ra_cmd = ''bash'', ra_launch = example_launch\<rparr>"

lemma example_kernel: "is_legacy_kernel ''5.4.0'' = Inr False"
  by (simp add: is_legacy_kernel_def parse_usize_def digits_value_def is_digit_def at_index_def)

lemma example_shared:
  "\<exists>t'. setup_shared_memory (example_process u) t = (Inr (30, 4096), t') \<and> tr_world t' = tr_world t"
proof -
  have "empty_fds (example_process u) n acc w = (Inr (acc @ replicate n 30), w)" for n acc w
    by (induction n arbitrary: acc) (simp_all add: example_process_def act_ret_def replicate_append_same)
  moreover have "fold (po_close (example_process u)) fds w = w" for fds w
    by (induction fds) (simp_all add: example_process_def)
  ultimately show ?thesis
    by (simp add: setup_shared_memory_def high_fd_def act_bind_run act_map_err_run on_world_def act_ret_def act_upd_def)
      (simp add: example_process_def act_ret_def act_bind_run act_map_err_run)
qed

lemmas ptrace_events = PTRACE_EVENT_EXIT_def PTRACE_EVENT_SECCOMP_def PTRACE_EVENT_CLONE_def
  PTRACE_EVENT_FORK_def PTRACE_EVENT_VFORK_def

lemma example_await:
  assumes "e_events E = example_events" "h_signal_tracee h = None" "h_yielding h = None"
  shows "\<exists>h'. await_status (Suc 0) E WaitForPtraceSyscall h = (Inl (LoopsReturn (Inr 1)), h') \<and> h_direct h' = h_direct h \<and>
     h_transfer_to_gdb h' = h_transfer_to_gdb h"
  using assms
  by (simp add: take_signal_def act_bind_run act_map_err_run ptrace_request_next_syscall_def exec_as_def exec_def
      on_tracer_def on_world_def waitpid_hang_def example_events_def model_events_def act_ret_def act_upd_def
      unblocked_by_def get_tracee_maybe_signal_def poll_signals_def end_yield_def poll_other_events_def
      handle_other_event_def is_fork_event_def getevent_def in_loop_def act_err_def ptrace_events)

lemma example_event_loop:
  assumes [simp]: "e_events E = example_events"
  shows "\<exists>t'. event_loop 1 1 E (Inr ''5.4.0'') t = (Some (Inr 1), t')"
proof -
  let ?h = "handler_init E (handler_new t False)"
  have f: "h_signal_tracee ?h = None" "h_yielding ?h = None" "h_direct ?h = False" "h_transfer_to_gdb ?h = False"
    "h_seccomp_init_complete ?h = False"
    by (simp_all add: handler_init_def handler_new_def Let_def)
  have o: "act_bind (attach_to E) (\<lambda>_. set_ptrace_options E) ?h = (Inr (), ?h)"
    by (simp add: attach_to_def set_ptrace_options_def exec_as_def exec_def act_bind_run act_map_err_run on_tracer_def
        on_world_def waitpid_hang_def example_events_def model_events_def act_ret_def)
  let ?h1 = "?h\<lparr>h_num_polls := yielder_unblock (h_num_polls ?h), h_after_syscall_entry := False, h_resume_through_syscall := True\<rparr>"
  obtain h' where aw: "await_status (Suc 0) E WaitForPtraceSyscall ?h1 = (Inl (LoopsReturn (Inr 1)), h')"
    "h_direct h' = False" "h_transfer_to_gdb h' = False"
    using example_await [of E ?h1] f by auto
  have l: "loop_handle_tracee_syscalls 1 1 E 0 False ?h = (Inl (LoopsReturn (Inr 1)), h')"
    using aw f by (simp add: syscall_round_def round_entry_def unblock_yielder_def wait_for_syscall_def
        set_after_entry_def set_resume_def act_bind_run act_upd_def Let_def)
  have "with_mem E (\<lambda>mh. mh_close_tracee mh (e_pid E)) h' = (Inr (), h')"
    using aw(2) by (simp add: with_mem_def get_mem_helper_def SLOW_MEM_HELPERS_def slow_close_tracee_def exec_mem_def
        act_map_err_run on_tracer_def act_ret_def)
  then show ?thesis using l aw(3)
    by (simp add: event_loop_def example_kernel o all_tracee_loops_def Let_def)
qed

lemma example_launched:
  "\<exists>t'. launch_ptrace 1 1 (example_process (Inr ''5.4.0'')) a cmd False fd addr t = (Inr (Some 1), t')"
proof -
  let ?h = "tracee_handler_new (example_process (Inr ''5.4.0'')) 100 True (Some ((tracee_handler_consts_default (example_process
    (Inr ''5.4.0'')))\<lparr>thc_args := a, thc_root_pid := 100\<rparr>)) None fd addr"
  have "e_events (handler_env (example_process (Inr ''5.4.0'')) ?h) = example_events"
    by (simp add: handler_env_def example_process_def)
  from example_event_loop [OF this] obtain t' where
    "event_loop 1 1 (handler_env (example_process (Inr ''5.4.0'')) ?h) (Inr ''5.4.0'') t = (Some (Inr 1), t')" by blast
  then show ?thesis
    by (simp add: launch_ptrace_def launch_ptrace_with_def start_def on_world_def act_bind_run act_map_err_run
        handler_start_def join_def act_lift_def Let_def)
      (simp add: example_process_def act_ret_def)
qed


end
