(* ===== verification/Skip_Properties.thy ===== *)
theory Skip_Properties
  imports Syscall_Phases
begin

text \<open>
  Skipping a system call (\<open>do_skip_syscall\<close> of \<open>src/sysaug/src/handler_async.rs\<close>): the emulated id calls, the
  refused \<open>seccomp\<close> calls and the calls on emulated links rest on it.
\<close>

lemma exec_Inr_iff: "exec m h = (Inr x, h') \<longleftrightarrow>
    (\<exists>w'. m (h_world h) = (Inr x, w') \<and> h' = h\<lparr>h_tracer := (h_tracer h)\<lparr>tr_world := w'\<rparr>\<rparr>)"
  by (auto simp: exec_def act_map_err_run on_tracer_def on_world_def split: prod.splits)

lemma in_syscall_Inr_iff: "in_syscall m h = (Inr x, h') \<longleftrightarrow> m h = (Inr x, h')"
  by (cases "m h") (auto simp: in_syscall_def act_map_err_run)

lemma setregs_Inr_iff: "setregs K r w = (Inr (), w') \<longleftrightarrow> k_setregs K w r = Inr w'"
  by (auto simp: setregs_def res_simps split: sum.splits)

text \<open>C16: a skipped call is never performed.  When \<open>do_skip_syscall\<close> succeeds, the number of the pending
  call had been replaced by that of a harmless one before the tracee was resumed, nothing else
  of the handler having changed, and the tracee then finds the given value as the result of its call.\<close>

theorem skipped_call_not_performed:
  assumes "regs_stored (e_kernel E)" "do_skip_syscall fuel E retval h = (Inr (), h')"
  shows "(\<exists>w1 r1 r2 h2. set_syscall_num (e_kernel E) (NO_MOD_SYSCALL (e_nr E)) (h_world h) = (Inr (), w1) \<and>
      k_getregs (e_kernel E) w1 = Inr r1 \<and>
      syscall_num r1 = NO_MOD_SYSCALL (e_nr E) \<and> next_syscall r1 = NO_MOD_SYSCALL (e_nr E) \<and>
      do_resume_syscall fuel E (h\<lparr>h_tracer := (h_tracer h)\<lparr>tr_world := w1\<rparr>\<rparr>) = (Inr r2, h2)) \<and>
    (\<exists>r. k_getregs (e_kernel E) (h_world h') = Inr r \<and> syscall_retval r = retval)"
proof -
  from assms(2) obtain w1 r2 h2 w3 where
    n: "set_syscall_num (e_kernel E) (NO_MOD_SYSCALL (e_nr E)) (h_world h) = (Inr (), w1)"
    and r: "do_resume_syscall fuel E (h\<lparr>h_tracer := (h_tracer h)\<lparr>tr_world := w1\<rparr>\<rparr>) = (Inr r2, h2)"
    and s: "k_setregs (e_kernel E) (h_world h2) (set_syscall_retval r2 retval) = Inr w3" "h_world h' = w3"
    by (auto simp: do_skip_syscall_def act_bind_Inr_iff in_syscall_Inr_iff exec_Inr_iff setregs_Inr_iff)
  have "\<exists>r1. k_getregs (e_kernel E) w1 = Inr r1 \<and> syscall_num r1 = NO_MOD_SYSCALL (e_nr E) \<and>
      next_syscall r1 = NO_MOD_SYSCALL (e_nr E)"
    using n assms(1)
    by (auto simp: set_syscall_num_def res_simps getregs_def setregs_def regs_stored_def set_next_syscall_def
        syscall_num_def next_syscall_def split: sum.splits)
  moreover have "k_getregs (e_kernel E) (h_world h') = Inr (set_syscall_retval r2 retval)"
    using s assms(1) by (auto simp: regs_stored_def)
  ultimately show ?thesis using n r by (auto simp: set_syscall_retval_def syscall_retval_def)
qed

definition stopped_handler :: "model handler" where
  "stopped_handler = snd (wait_for_syscall 5 model_env (traced_handler False))"

theorem skipped_call_not_performed_witness:
  "\<exists>h' r. do_skip_syscall 5 model_env 7 stopped_handler = (Inr (), h') \<and>
     k_getregs model_kernel (h_world h') = Inr r \<and> syscall_retval r = 7"
proof -
  have "fst (do_skip_syscall 5 model_env 7 stopped_handler) = Inr ()" by code_simp
  then obtain h' where h': "do_skip_syscall 5 model_env 7 stopped_handler = (Inr (), h')" by (metis prod.collapse)
  moreover have "regs_stored (e_kernel model_env)" by (simp add: model_regs_stored)
  ultimately show ?thesis using skipped_call_not_performed [of model_env 5 7 stopped_handler h'] by auto
qed

end
