(* ===== verification/Perms_Config.thy ===== *)
theory Perms_Config
  imports Aug_Perms
begin

text \<open>
  The configured ids (\<open>ResfUgType\<close> of \<open>src/sysaug/src/config.rs\<close>) against the slots that the table of system
  calls (\<open>src/sysaug/src/syscalls.rs\<close>) gives to the id calls: the two do not agree.
\<close>

abbreviation getuid_info :: "(string \<Rightarrow> usize) \<Rightarrow> syscall_info" where
  "getuid_info nr \<equiv> define_perms_syscall nr ''getuid'' False 0 (Some 4)"

abbreviation getgid_info :: "(string \<Rightarrow> usize) \<Rightarrow> syscall_info" where
  "getgid_info nr \<equiv> define_perms_syscall nr ''getgid'' False 0 (Some 0)"

lemma getter_reads_slot:
  assumes "h_perms_ids h ! b = Some v" "b < length (h_perms_ids h)" "a_perms_mode (e_args E) \<noteq> Passthrough"
    and "regs_stored (e_kernel E)" "\<And>w q. \<exists>w'. k_setregs (e_kernel E) w q = Inr w'"
  shows "\<exists>h'. do_sysexit_perms E r (define_perms_syscall nr name False 0 (Some b)) h = (Inr (), h') \<and>
     k_getregs (e_kernel E) (h_world h') = Inr (set_syscall_retval r v)"
proof -
  obtain w' where w': "k_setregs (e_kernel E) (h_world h) (set_syscall_retval r v) = Inr w'" using assms(5) by blast
  then have "k_getregs (e_kernel E) w' = Inr (set_syscall_retval r v)" using assms(4) by (simp add: regs_stored_def)
  then show ?thesis using assms(1-3) w'
    by (simp add: do_sysexit_perms_def define_perms_syscall_def default_syscall_info_def Let_def write_retval_def exec_def
        on_tracer_def on_world_def setregs_def res_simps)
qed

lemma configured_slots:
  assumes "c_perms (e_config E) = [(RealUid, u), (RealGid, g)]"
  shows "h_perms_ids (handler_init E (handler_new t legacy)) = [Some u, None, None, None, Some g, None, None, None]"
  using assms
  by (simp add: handler_init_def handler_new_def Let_def init_perms_ids_from_config_def PERMS_IDS_SIZE_def
      PERMS_IDBIT_UG_def replicate_8)

text \<open>C36: a configured user id is reported as the group id.  The configuration keeps the real user id in
  slot 0 and the real group id in slot 4, but the table of system calls lets \<open>getuid\<close> read slot 4 and
  \<open>getgid\<close> slot 0: a guest that is configured with different ids sees them exchanged.\<close>

theorem configured_ids_exchanged:
  fixes t :: "'w tracer" and legacy :: bool
  assumes "c_perms (e_config E) = [(RealUid, u), (RealGid, g)]" "a_perms_mode (e_args E) \<noteq> Passthrough"
    and "regs_stored (e_kernel E)" "\<And>w q. \<exists>w'. k_setregs (e_kernel E) w q = Inr w'"
  defines "h \<equiv> handler_init E (handler_new t legacy)"
  shows "getuid_info nr \<in> set (raw_entries nr) \<and> getgid_info nr \<in> set (raw_entries nr) \<and>
    (\<exists>h'. do_sysexit_perms E r (getuid_info nr) h = (Inr (), h') \<and>
       k_getregs (e_kernel E) (h_world h') = Inr (set_syscall_retval r g)) \<and>
    (\<exists>h'. do_sysexit_perms E r (getgid_info nr) h = (Inr (), h') \<and>
       k_getregs (e_kernel E) (h_world h') = Inr (set_syscall_retval r u))"
proof -
  have ids: "h_perms_ids h = [Some u, None, None, None, Some g, None, None, None]"
    unfolding h_def by (rule configured_slots [OF assms(1)])
  have "\<exists>h'. do_sysexit_perms E r (getuid_info nr) h = (Inr (), h') \<and>
       k_getregs (e_kernel E) (h_world h') = Inr (set_syscall_retval r g)"
    by (rule getter_reads_slot) (simp_all add: ids assms(2-4))
  moreover have "\<exists>h'. do_sysexit_perms E r (getgid_info nr) h = (Inr (), h') \<and>
       k_getregs (e_kernel E) (h_world h') = Inr (set_syscall_retval r u)"
    by (rule getter_reads_slot) (simp_all add: ids assms(2-4))
  ultimately show ?thesis by (simp add: raw_entries_def raw_perms_def)
qed

definition two_ids_env :: "model env" where
  "two_ids_env = model_env\<lparr>e_config := (sysaug_config_default 1000 1000)\<lparr>c_perms := [(RealUid, 1), (RealGid, 2)]\<rparr>\<rparr>"

theorem configured_ids_exchanged_witness:
  "\<exists>h'. do_sysexit_perms two_ids_env zero_regs (getuid_info x86_64_nr)
       (handler_init two_ids_env (handler_new (model_tracer model_world) False)) = (Inr (), h') \<and>
     k_getregs model_kernel (h_world h') = Inr (set_syscall_retval zero_regs 2)"
proof -
  have e: "e_kernel two_ids_env = model_kernel" "a_perms_mode (e_args two_ids_env) \<noteq> Passthrough"
    "c_perms (e_config two_ids_env) = [(RealUid, 1), (RealGid, 2)]"
    by (simp_all add: two_ids_env_def model_args_def)
  have "\<exists>w'. k_setregs (e_kernel two_ids_env) w q = Inr w'" for w q by (simp add: e model_kernel_def)
  from configured_ids_exchanged [OF e(3,2) _ this, where t = "model_tracer model_world" and legacy = False
      and nr = x86_64_nr and r = zero_regs]
  show ?thesis by (simp add: e(1) model_regs_stored)
qed

end
