(* ===== verification/Async_Programs.thy ===== *)
theory Async_Programs
  imports Async_Runtime "HOL-Library.Multiset"
begin

text \<open>
  Asynchronous functions over the runtime of \<open>src/krsm\<close>.  An \<open>async fn\<close> is a tree of the awaits it
  performs, with the synchronous code between two awaits as a function of the state the function
  borrows; \<open>poll_prog\<close> polls such a tree and \<open>drop_prog\<close> drops it, the way the compiler's state machines
  do.  \<open>Or\<close> and \<open>Zip\<close> stand for an awaited \<open>futures_lite::future::or\<close> and \<open>zip\<close>: at the end of the \<open>await\<close> the
  combinator is dropped with its two futures.  The tree of a function that recurses or loops is unfolded
  a bounded number of times: \<open>Fuel\<close> marks the cut, and running into it is an outcome of its own.

  The programs run over any provider of pending futures.  Two are given: the runtime itself, and a
  specification that knows nothing but a multiset of reasons; the first refines the second.
\<close>

section \<open>Programs\<close>

datatype prog_stop = Panicked | OutOfFuel

datatype ('s, 'r, 'p, 'o) async_prog =
    Finished
  | Return 'o
  | Panic
  | Fuel
  | Act "'s \<Rightarrow> 's" "'s \<Rightarrow> ('s, 'r, 'p, 'o) async_prog"
  | Await "'r npf" "async_runtime_error + 'p \<Rightarrow> ('s, 'r, 'p, 'o) async_prog"
  | Bind "('s, 'r, 'p, 'o) async_prog" "'o \<Rightarrow> ('s, 'r, 'p, 'o) async_prog"
  | Or "('s, 'r, 'p, 'o) async_prog" "('s, 'r, 'p, 'o) async_prog"
  | Zip "('s, 'r, 'p, 'o) async_prog" "'o option" "('s, 'r, 'p, 'o) async_prog" "'o option"
      "'o \<Rightarrow> 'o \<Rightarrow> ('s, 'r, 'p, 'o) async_prog"

text \<open>
  \<open>futures_lite::future::or\<close> and \<open>zip\<close> belong to another crate and are a parameter.  Given the polls of their two
  futures and the futures themselves (\<open>zip\<close> also keeps the value of one that is done), they answer the
  result and what is left of the futures.
\<close>

type_synonym ('f, 's, 'o, 'w) polled = "'s \<Rightarrow> 'w \<Rightarrow> prog_stop + ('o poll \<times> 'f \<times> 's \<times> 'w)"

record ('f, 's, 'o, 'w) futures_lite =
  fl_or :: "('f, 's, 'o, 'w) polled \<Rightarrow> ('f, 's, 'o, 'w) polled \<Rightarrow> 'f \<times> 'f \<Rightarrow> ('f \<times> 'f, 's, 'o, 'w) polled"
  fl_zip :: "('f, 's, 'o, 'w) polled \<Rightarrow> ('f, 's, 'o, 'w) polled \<Rightarrow> 'f \<times> 'o option \<times> 'f \<times> 'o option \<Rightarrow>
    ('f \<times> 'o option \<times> 'f \<times> 'o option, 's, 'o \<times> 'o, 'w) polled"

text \<open>
  What the crate documents, and what the tests of \<open>src/krsm/src/runtime.rs\<close> rely on: \<open>or\<close> returns the result of
  the future that completes first, preferring the first if both are ready; \<open>zip\<close> waits for both.  Every
  poll polls the futures that are not done once, in order.
\<close>

definition or_law :: "('f, 's, 'o, 'w) futures_lite \<Rightarrow> bool" where
  "or_law lib \<longleftrightarrow> (\<forall>p1 p2 f g s w.
     fl_or lib p1 p2 (f, g) s w =
       res_bind (p1 s w) (\<lambda>(res, f', s', w').
         case res of
           Ready v \<Rightarrow> Inr (Ready v, (f', g), s', w')
         | Pending \<Rightarrow> res_bind (p2 s' w') (\<lambda>(res, g', s', w'). Inr (res, (f', g'), s', w'))))"

definition zip_law :: "('f, 's, 'o, 'w) futures_lite \<Rightarrow> bool" where
  "zip_law lib \<longleftrightarrow> (\<forall>p1 p2 f r1 g r2 s w.
     fl_zip lib p1 p2 (f, r1, g, r2) s w =
       res_bind (case r1 of Some v \<Rightarrow> Inr (Ready v, f, s, w) | None \<Rightarrow> p1 s w) (\<lambda>(res1, f', s', w').
       res_bind (case r2 of Some v \<Rightarrow> Inr (Ready v, g, s', w') | None \<Rightarrow> p2 s' w') (\<lambda>(res2, g', s', w').
         case (res1, res2) of
           (Ready v1, Ready v2) \<Rightarrow> Inr (Ready (v1, v2), (f', Some v1, g', Some v2), s', w')
         | (Ready v1, Pending) \<Rightarrow> Inr (Pending, (f', Some v1, g', None), s', w')
         | (Pending, Ready v2) \<Rightarrow> Inr (Pending, (f', None, g', Some v2), s', w')
         | (Pending, Pending) \<Rightarrow> Inr (Pending, (f', None, g', None), s', w'))))"

definition documented :: "('f, 's, 'o, 'w) futures_lite \<Rightarrow> bool" where
  "documented lib \<longleftrightarrow> or_law lib \<and> zip_law lib"

text \<open>A concrete instance.\<close>

fun poll_or :: "('f, 's, 'o, 'w) polled \<Rightarrow> ('f, 's, 'o, 'w) polled \<Rightarrow> 'f \<times> 'f \<Rightarrow> ('f \<times> 'f, 's, 'o, 'w) polled" where
  "poll_or p1 p2 (f, g) s w =
     res_bind (p1 s w) (\<lambda>(res, f', s', w').
       case res of
         Ready v \<Rightarrow> Inr (Ready v, (f', g), s', w')
       | Pending \<Rightarrow> res_bind (p2 s' w') (\<lambda>(res, g', s', w'). Inr (res, (f', g'), s', w')))"

fun poll_zip ::
  "('f, 's, 'o, 'w) polled \<Rightarrow> ('f, 's, 'o, 'w) polled \<Rightarrow> 'f \<times> 'o option \<times> 'f \<times> 'o option \<Rightarrow>
   ('f \<times> 'o option \<times> 'f \<times> 'o option, 's, 'o \<times> 'o, 'w) polled" where
  "poll_zip p1 p2 (f, r1, g, r2) s w =
     res_bind (case r1 of Some v \<Rightarrow> Inr (Ready v, f, s, w) | None \<Rightarrow> p1 s w) (\<lambda>(res1, f', s', w').
     res_bind (case r2 of Some v \<Rightarrow> Inr (Ready v, g, s', w') | None \<Rightarrow> p2 s' w') (\<lambda>(res2, g', s', w').
       case (res1, res2) of
         (Ready v1, Ready v2) \<Rightarrow> Inr (Ready (v1, v2), (f', Some v1, g', Some v2), s', w')
       | (Ready v1, Pending) \<Rightarrow> Inr (Pending, (f', Some v1, g', None), s', w')
       | (Pending, Ready v2) \<Rightarrow> Inr (Pending, (f', None, g', Some v2), s', w')
       | (Pending, Pending) \<Rightarrow> Inr (Pending, (f', None, g', None), s', w')))"

definition in_order :: "('f, 's, 'o, 'w) futures_lite" where
  "in_order = \<lparr>fl_or = poll_or, fl_zip = poll_zip\<rparr>"

lemma documented_in_order [simp]: "documented in_order"
  by (simp add: documented_def or_law_def zip_law_def in_order_def)

text \<open>What a program needs of the runtime it runs on, and what its driver needs.\<close>

record ('s, 'r, 'p, 'o, 'w) async_ops =
  op_lib :: "(('s, 'r, 'p, 'o) async_prog, 's, 'o, 'w) futures_lite"
  op_poll :: "('r npf, 'w, async_runtime_error + 'p) poll_fn"
  op_drop :: "'r npf \<Rightarrow> 'w \<Rightarrow> 'w option"
  op_begin :: "'w \<Rightarrow> 'w"
  op_finish :: "'w \<Rightarrow> 'w"
  op_check :: "('r \<Rightarrow> bool) \<Rightarrow> 'w \<Rightarrow> 'r option option"
  op_unblock :: "'r \<Rightarrow> 'p \<Rightarrow> 'w \<Rightarrow> 'w option"

primrec drop_prog ::
  "('s, 'r, 'p, 'o) async_prog \<Rightarrow> ('s, 'r, 'p, 'o, 'w) async_ops \<Rightarrow> 'w \<Rightarrow> 'w option" where
  "drop_prog Finished ops w = Some w"
| "drop_prog (Return out) ops w = Some w"
| "drop_prog Panic ops w = Some w"
| "drop_prog Fuel ops w = Some w"
| "drop_prog (Act f k) ops w = Some w"
| "drop_prog (Await f k) ops w = op_drop ops f w"
| "drop_prog (Bind f k) ops w = drop_prog f ops w"
| "drop_prog (Or f g) ops w = Option.bind (drop_prog f ops w) (drop_prog g ops)"
| "drop_prog (Zip f r1 g r2 k) ops w =
     Option.bind (if r1 = None then drop_prog f ops w else Some w)
       (\<lambda>w. if r2 = None then drop_prog g ops w else Some w)"

primrec poll_prog ::
  "('s, 'r, 'p, 'o) async_prog \<Rightarrow> ('s, 'r, 'p, 'o, 'w) async_ops \<Rightarrow> 's \<Rightarrow> 'w \<Rightarrow>
   prog_stop + ('o poll \<times> ('s, 'r, 'p, 'o) async_prog \<times> 's \<times> 'w)" where
  "poll_prog Finished ops s w = Inl Panicked"
| "poll_prog (Return out) ops s w = Inr (Ready out, Finished, s, w)"
| "poll_prog Panic ops s w = Inl Panicked"
| "poll_prog Fuel ops s w = Inl OutOfFuel"
| "poll_prog (Act f k) ops s w = poll_prog (k s) ops (f s) w"
| "poll_prog (Await f k) ops s w =
     (case op_poll ops f w of
        None \<Rightarrow> Inl Panicked
      | Some (Pending, f', w') \<Rightarrow> Inr (Pending, Await f' k, s, w')
      | Some (Ready v, f', w') \<Rightarrow> poll_prog (k v) ops s w')"
| "poll_prog (Bind f k) ops s w =
     res_bind (poll_prog f ops s w) (\<lambda>(res, f', s', w').
       case res of Pending \<Rightarrow> Inr (Pending, Bind f' k, s', w') | Ready v \<Rightarrow> poll_prog (k v) ops s' w')"
| "poll_prog (Or f g) ops s w =
     res_bind (fl_or (op_lib ops) (poll_prog f ops) (poll_prog g ops) (f, g) s w) (\<lambda>(res, (f', g'), s', w').
       case res of
         Pending \<Rightarrow> Inr (Pending, Or f' g', s', w')
       | Ready v \<Rightarrow>
           map_sum id (\<lambda>w''. (Ready v, Finished, s', w''))
             (ok_or Panicked (Option.bind (drop_prog f' ops w') (drop_prog g' ops))))"
| "poll_prog (Zip f r1 g r2 k) ops s w =
     res_bind (fl_zip (op_lib ops) (poll_prog f ops) (poll_prog g ops) (f, r1, g, r2) s w)
       (\<lambda>(res, (f', r1', g', r2'), s', w').
       case res of
         Pending \<Rightarrow> Inr (Pending, Zip f' r1' g' r2' k, s', w')
       | Ready (v1, v2) \<Rightarrow> poll_prog (k v1 v2) ops s' w')"

text \<open>\<open>f.await?\<close>, \<open>new_pending_future(reason).await\<close> and the driver's \<open>run_async_step\<close>.\<close>

definition Try :: "('s, 'r, 'p, 'e + 'v) async_prog \<Rightarrow> ('v \<Rightarrow> ('s, 'r, 'p, 'e + 'v) async_prog) \<Rightarrow>
    ('s, 'r, 'p, 'e + 'v) async_prog" where
  "Try f k = Bind f (\<lambda>r. case r of Inl e \<Rightarrow> Return (Inl e) | Inr v \<Rightarrow> k v)"

definition prog_step ::
  "('s, 'r, 'p, 'o, 'w) async_ops \<Rightarrow> ('s, 'r, 'p, 'o) async_prog \<Rightarrow> 's \<Rightarrow> 'w \<Rightarrow>
   prog_stop + ('o option \<times> ('s, 'r, 'p, 'o) async_prog \<times> 's \<times> 'w)" where
  "prog_step ops f s w =
     res_bind (poll_prog f ops s (op_begin ops w)) (\<lambda>(res, f', s', w').
       Inr (case res of Ready v \<Rightarrow> Some v | Pending \<Rightarrow> None, f', s', op_finish ops w'))"

text \<open>Polling \<open>or\<close> and \<open>zip\<close> with a library that keeps its word.  A program that returned is finished, so the
  drop at the end of an awaited \<open>or\<close> only releases the loser.\<close>

lemma poll_ready_finished:
  "poll_prog f ops s w = Inr (Ready v, f', s', w') \<Longrightarrow> f' = Finished"
proof (induction f arbitrary: s w f' s' w' v)
  case (Act h k)
  from Act.IH [OF rangeI] Act.prems show ?case by simp
next
  case (Await f k)
  from Await.IH [OF rangeI] Await.prems show ?case by (auto split: option.splits poll.splits)
next
  case (Bind f k)
  then obtain v1 s1 w1 where "poll_prog (k v1) ops s1 w1 = Inr (Ready v, f', s', w')"
    by (auto simp: res_bind_Inr_iff split: poll.splits) (metis poll.exhaust)
  then show ?case by (rule Bind.IH(2) [OF rangeI])
next
  case (Or f g)
  then obtain x v1 s1 where "map_sum id (\<lambda>w1. (Ready v1, Finished, s1, w1)) x = (Inr (Ready v, f', s', w') :: prog_stop + _)"
    by (auto simp: res_bind_Inr_iff split: poll.splits) (metis poll.exhaust)
  then show ?case by (cases x) auto
next
  case (Zip f r1 g r2 k)
  from Zip.prems obtain v1 v2 s1 w1 where "poll_prog (k v1 v2) ops s1 w1 = Inr (Ready v, f', s', w')"
    by (auto simp: res_bind_Inr_iff split: poll.splits) (metis poll.exhaust surj_pair)
  then show ?case by (rule Zip.IH(3) [OF rangeI rangeI])
qed auto

lemma poll_or_documented:
  assumes "documented (op_lib ops)"
  shows "poll_prog (Or f g) ops s w =
     res_bind (poll_prog f ops s w) (\<lambda>(res, f', s', w').
       case res of
         Ready v \<Rightarrow> map_sum id (\<lambda>w''. (Ready v, Finished, s', w'')) (ok_or Panicked (drop_prog g ops w'))
       | Pending \<Rightarrow>
           res_bind (poll_prog g ops s' w') (\<lambda>(res, g', s', w').
             case res of
               Ready v \<Rightarrow> map_sum id (\<lambda>w''. (Ready v, Finished, s', w'')) (ok_or Panicked (drop_prog f' ops w'))
             | Pending \<Rightarrow> Inr (Pending, Or f' g', s', w')))"
proof -
  have l: "fl_or (op_lib ops) p1 p2 (f, g) s w =
      res_bind (p1 s w) (\<lambda>(res, f', s', w').
        case res of
          Ready v \<Rightarrow> Inr (Ready v, (f', g), s', w')
        | Pending \<Rightarrow> res_bind (p2 s' w') (\<lambda>(res, g', s', w'). Inr (res, (f', g'), s', w')))" for p1 p2
    using assms by (simp add: documented_def or_law_def)
  have d: "drop_prog Finished ops = Some" by (simp add: fun_eq_iff)
  show ?thesis unfolding poll_prog.simps l
    by (auto split: sum.split poll.split simp: res_bind_def d dest!: poll_ready_finished)
qed

lemma poll_zip_documented:
  assumes "documented (op_lib ops)"
  shows "poll_prog (Zip f r1 g r2 k) ops s w =
     res_bind (case r1 of Some v \<Rightarrow> Inr (Ready v, f, s, w) | None \<Rightarrow> poll_prog f ops s w) (\<lambda>(res1, f', s', w').
       res_bind (case r2 of Some v \<Rightarrow> Inr (Ready v, g, s', w') | None \<Rightarrow> poll_prog g ops s' w') (\<lambda>(res2, g', s', w').
         case (res1, res2) of
           (Ready v1, Ready v2) \<Rightarrow> poll_prog (k v1 v2) ops s' w'
         | (Ready v1, Pending) \<Rightarrow> Inr (Pending, Zip f' (Some v1) g' None k, s', w')
         | (Pending, Ready v2) \<Rightarrow> Inr (Pending, Zip f' None g' (Some v2) k, s', w')
         | (Pending, Pending) \<Rightarrow> Inr (Pending, Zip f' None g' None k, s', w')))"
proof -
  have l: "fl_zip (op_lib ops) p1 p2 (f, r1, g, r2) s w =
      res_bind (case r1 of Some v \<Rightarrow> Inr (Ready v, f, s, w) | None \<Rightarrow> p1 s w) (\<lambda>(res1, f', s', w').
      res_bind (case r2 of Some v \<Rightarrow> Inr (Ready v, g, s', w') | None \<Rightarrow> p2 s' w') (\<lambda>(res2, g', s', w').
        case (res1, res2) of
          (Ready v1, Ready v2) \<Rightarrow> Inr (Ready (v1, v2), (f', Some v1, g', Some v2), s', w')
        | (Ready v1, Pending) \<Rightarrow> Inr (Pending, (f', Some v1, g', None), s', w')
        | (Pending, Ready v2) \<Rightarrow> Inr (Pending, (f', None, g', Some v2), s', w')
        | (Pending, Pending) \<Rightarrow> Inr (Pending, (f', None, g', None), s', w')))" for p1 p2
    using assms by (simp add: documented_def zip_law_def)
  show ?thesis unfolding poll_prog.simps l
    by (auto split: sum.split poll.split simp: res_bind_def)
qed

declare poll_prog.simps(8,9) [simp del]

section \<open>The runtime as a provider\<close>

definition runtime_ops ::
  "(('s, 'r, 'p, 'o) async_prog, 's, 'o, ('r, 'p) runtime) futures_lite \<Rightarrow>
   ('s, 'r :: linorder, 'p, 'o, ('r, 'p) runtime) async_ops" where
  "runtime_ops lib =
     \<lparr>op_lib = lib, op_poll = new_pending_future, op_drop = npf_drop,
      op_begin = (\<lambda>rt. rt\<lparr>has_new_future := False\<rparr>), op_finish = (\<lambda>rt. rt\<lparr>has_unblock := None\<rparr>),
      op_check = (\<lambda>P rt. map_option fst (check_pending_reasons rt (\<lambda>u r. (P r, u)) ())),
      op_unblock = unblock_futures\<rparr>"

text \<open>A step over the runtime is \<open>run_async_step\<close> on a future that owns the borrowed state.\<close>

lemma prog_step_runtime:
  "(case prog_step (runtime_ops lib) f s rt of Inl _ \<Rightarrow> None | Inr (res, f', s', rt') \<Rightarrow> Some (res, (f', s'), rt')) =
   run_async_step (\<lambda>(f, s) rt. case poll_prog f (runtime_ops lib) s rt of
       Inl _ \<Rightarrow> None | Inr (res, f', s', rt') \<Rightarrow> Some (res, (f', s'), rt')) (f, s) rt"
  by (auto simp: prog_step_def run_async_step_def runtime_ops_def split: sum.split)

section \<open>The specification: a multiset of reasons\<close>

type_synonym ('r, 'p) pending = "('r \<times> 'p) option \<times> 'r multiset"

fun spec_wait :: "'r \<Rightarrow> ('r, 'p) pending \<Rightarrow> (async_runtime_error + 'p) poll \<times> 'r npf \<times> ('r, 'p) pending" where
  "spec_wait r (None, M) = (Pending, NpfWait r, None, M)"
| "spec_wait r (Some (q, v), M) =
     (if q = r then (Ready (Inr v), NpfDone, None, M - {#r#}) else (Pending, NpfWait r, Some (q, v), M))"

fun spec_poll :: "nat \<Rightarrow> ('r npf, ('r, 'p) pending, async_runtime_error + 'p) poll_fn" where
  "spec_poll n (NpfStart r) (u, M) =
     (if r \<in># M \<or> card (set_mset M) < n then Some (spec_wait r (u, add_mset r M))
      else Some (Ready (Inl TooManyPending), NpfDone, u, M))"
| "spec_poll n (NpfWait r) w = Some (spec_wait r w)"
| "spec_poll n NpfDone w = None"

fun spec_drop :: "'r npf \<Rightarrow> ('r, 'p) pending \<Rightarrow> ('r, 'p) pending option" where
  "spec_drop (NpfWait r) (u, M) = Some (u, M - {#r#})"
| "spec_drop f w = Some w"

definition spec_ops :: "nat \<Rightarrow> ('s, 'r :: linorder, 'p, 'o, ('r, 'p) pending) async_ops" where
  "spec_ops n =
     \<lparr>op_lib = in_order, op_poll = spec_poll n, op_drop = spec_drop, op_begin = id, op_finish = (\<lambda>(u, M). (None, M)),
      op_check = (\<lambda>P (u, M). Some (List.find P (sorted_list_of_set (set_mset M)))),
      op_unblock = (\<lambda>r v (u, M). if u = None then Some (Some (r, v), M) else None)\<rparr>"

section \<open>Refinement between providers\<close>

abbreviation rel_step :: "('w \<Rightarrow> 'v \<Rightarrow> bool) \<Rightarrow> prog_stop + ('a \<times> 'f \<times> 's \<times> 'w) \<Rightarrow> prog_stop + ('a \<times> 'f \<times> 's \<times> 'v) \<Rightarrow> bool" where
  "rel_step R \<equiv> rel_sum (=) (rel_prod (=) (rel_prod (=) (rel_prod (=) R)))"

lemma res_bind_rel:
  assumes "rel_step R a b" "\<And>x f s w v. R w v \<Longrightarrow> rel_step R (h (x, f, s, w)) (h' (x, f, s, v))"
  shows "rel_step R (res_bind a h) (res_bind b h')"
  using assms by (auto elim!: rel_sum.cases)

lemma ok_or_rel:
  "rel_option R a b \<Longrightarrow>
   rel_step R (map_sum id (\<lambda>w. (x, f, s, w)) (ok_or e a)) (map_sum id (\<lambda>w. (x, f, s, w)) (ok_or e b))"
  by (auto elim!: option.rel_cases)

locale async_refinement =
  fixes ops :: "('s, 'r, 'p, 'o, 'w) async_ops" and ops' :: "('s, 'r, 'p, 'o, 'v) async_ops" and R :: "'w \<Rightarrow> 'v \<Rightarrow> bool"
  assumes poll: "R w v \<Longrightarrow> rel_option (rel_prod (=) (rel_prod (=) R)) (op_poll ops f w) (op_poll ops' f v)"
    and drop: "R w v \<Longrightarrow> rel_option R (op_drop ops f w) (op_drop ops' f v)"
    and begin_step: "R w v \<Longrightarrow> R (op_begin ops w) (op_begin ops' v)"
    and finish_step: "R w v \<Longrightarrow> R (op_finish ops w) (op_finish ops' v)"
    and check: "R w v \<Longrightarrow> op_check ops P w = op_check ops' P v"
    and unblock: "R w v \<Longrightarrow> rel_option R (op_unblock ops r p w) (op_unblock ops' r p v)"
begin

lemma drop_refines: "R w v \<Longrightarrow> rel_option R (drop_prog f ops w) (drop_prog f ops' v)"
proof (induction f arbitrary: w v)
  case (Or f g)
  from Or.IH(1) [OF Or.prems] show ?case by (auto elim!: option.rel_cases dest: Or.IH(2))
next
  case (Zip f r1 g r2 k)
  from Zip.IH(1) [OF Zip.prems] show ?case using Zip.prems
    by (auto elim!: option.rel_cases dest: Zip.IH(2))
qed (auto simp: drop)

lemma poll_refines:
  assumes lib: "documented (op_lib ops)" "documented (op_lib ops')"
  shows "R w v \<Longrightarrow> rel_step R (poll_prog f ops s w) (poll_prog f ops' s v)"
proof (induction f arbitrary: s w v)
  case (Await f k)
  from poll [OF Await.prems, of f] show ?case
    by (auto elim!: option.rel_cases simp: Await.IH split: poll.split)
next
  case (Bind f k)
  show ?case unfolding poll_prog.simps
    by (rule res_bind_rel [OF Bind.IH(1) [OF Bind.prems]]) (auto simp: Bind.IH(2) split: poll.split)
next
  case (Or f g)
  show ?case unfolding poll_or_documented [OF lib(1)] poll_or_documented [OF lib(2)]
    by (rule res_bind_rel [OF Or.IH(1) [OF Or.prems]])
      (auto intro!: ok_or_rel drop_refines res_bind_rel [OF Or.IH(2)] split: poll.split)
next
  case (Zip f r1 g r2 k)
  have "rel_step R (case r1 of Some v \<Rightarrow> Inr (Ready v, f, s, w) | None \<Rightarrow> poll_prog f ops s w)
      (case r1 of Some v \<Rightarrow> Inr (Ready v, f, s, v') | None \<Rightarrow> poll_prog f ops' s v')" if "R w v'" for s w v'
    using that by (auto simp: Zip.IH(1) split: option.split)
  moreover have "rel_step R (case r2 of Some v \<Rightarrow> Inr (Ready v, g, s, w) | None \<Rightarrow> poll_prog g ops s w)
      (case r2 of Some v \<Rightarrow> Inr (Ready v, g, s, v') | None \<Rightarrow> poll_prog g ops' s v')" if "R w v'" for s w v'
    using that by (auto simp: Zip.IH(2) split: option.split)
  ultimately show ?case using Zip.prems unfolding poll_zip_documented [OF lib(1)] poll_zip_documented [OF lib(2)]
    by (auto intro!: res_bind_rel Zip.IH(3) [OF rangeI rangeI] split: poll.split)
qed (auto simp: drop)

lemma step_refines:
  assumes "documented (op_lib ops)" "documented (op_lib ops')" "R w v"
  shows "rel_step R (prog_step ops f s w) (prog_step ops' f s v)"
  unfolding prog_step_def
  by (rule res_bind_rel [OF poll_refines [OF assms(1,2) begin_step [OF assms(3)]]]) (auto simp: finish_step)

end

section \<open>The runtime refines the multiset\<close>

definition table_rel :: "nat \<Rightarrow> ('r :: linorder, 'p) runtime \<Rightarrow> ('r, 'p) pending \<Rightarrow> bool" where
  "table_rel n rt w \<longleftrightarrow> counts_ok n rt (count (snd w)) \<and> has_unblock rt = fst w"

lemma guard_drop_rel:
  assumes "table_rel n rt (u, M)"
  shows "\<exists>rt'. guard_drop r rt = Some rt' \<and> table_rel n rt' (u, M - {#r#})"
proof -
  have "(count M)(r := count M r - 1) = count (M - {#r#})" by (auto simp: fun_eq_iff)
  then show ?thesis using guard_drop_counts [of n rt "count M" r] assms by (auto simp: table_rel_def)
qed

lemma table_rel_parts [simp]:
  "table_rel n (rt\<lparr>has_new_future := b\<rparr>) w \<longleftrightarrow> table_rel n rt w"
  "table_rel n (rt\<lparr>has_unblock := x\<rparr>) (y, M) \<longleftrightarrow> table_rel n rt (has_unblock rt, M) \<and> x = y"
  by (auto simp: table_rel_def counts_ok_def)

lemma wait_poll_rel:
  assumes "table_rel n rt w"
  shows "rel_option (rel_prod (=) (rel_prod (=) (table_rel n))) (wait_poll r rt) (Some (spec_wait r w))"
proof (cases rule: spec_wait.cases [of "(r, w)"])
  case (1 r' M)
  then show ?thesis using assms by (simp add: table_rel_def wait_poll_def basic_poll_def)
next
  case (2 r' q v M)
  then have w: "w = (Some (q, v), M)" by simp
  have "table_rel n (rt\<lparr>has_unblock := None\<rparr>) (None, M)"
    using assms unfolding w by (simp add: table_rel_def counts_ok_def)
  from guard_drop_rel [OF this, of r] show ?thesis
    using assms 2 by (auto simp: table_rel_def wait_poll_def basic_poll_def)
qed

lemma dom_counts: "counts_ok n rt (count M) \<Longrightarrow> dom (fsm_abs (pending_futures rt)) = set_mset M"
  by (auto simp: counts_ok_def dom_def)

lemma start_poll_rel:
  assumes "table_rel n rt (u, M)"
  shows "rel_option (rel_prod (=) (rel_prod (=) (table_rel n)))
    (new_pending_future (NpfStart r) rt) (spec_poll n (NpfStart r) (u, M))"
proof -
  let ?m = "pending_futures rt"
  have c: "counts_ok n rt (count M)" and u: "has_unblock rt = u" using assms by (auto simp: table_rel_def)
  then have i: "fsm_inv n ?m" and a: "fsm_abs ?m = (\<lambda>r. if count M r = 0 then None else Some (count M r))"
    by (auto simp: counts_ok_def)
  have room: "fsm_abs ?m r \<noteq> None \<or> card (dom (fsm_abs ?m)) < n \<longleftrightarrow> r \<in># M \<or> card (set_mset M) < n"
    using dom_counts [OF c] by auto
  show ?thesis
  proof (cases "r \<in># M \<or> card (set_mset M) < n")
    case True
    obtain b m1 m2 where t: "set_default ?m r 0 = Some (Inr b, m1)"
      "fsm_edit m1 r (\<lambda>v. v + 1) = Some (True, m2)" "fsm_inv n m2"
      "fsm_abs m2 = (fsm_abs ?m)(r \<mapsto> (case fsm_abs ?m r of None \<Rightarrow> 0 | Some v \<Rightarrow> v) + 1)"
      using fsm.tally [OF i room [THEN iffD2, OF True], of 0 "\<lambda>v. v + 1"] by blast
    have "table_rel n (rt\<lparr>has_new_future := True, pending_futures := m2\<rparr>) (u, add_mset r M)"
      using t(3,4) a u by (auto simp: table_rel_def counts_ok_def fun_eq_iff count_eq_zero_iff)
    from wait_poll_rel [OF this, of r] show ?thesis using t(1,2) True by (simp add: Let_def)
  next
    case False
    then obtain m1 where t: "set_default ?m r 0 = Some (Inl TooManyPending, m1)" "fsm_inv n m1"
      "fsm_abs m1 = fsm_abs ?m" using fsm.full [OF i] room by blast
    have "table_rel n (rt\<lparr>has_new_future := True, pending_futures := m1\<rparr>) (u, M)"
      using t(2,3) a u by (simp add: table_rel_def counts_ok_def)
    from guard_drop_rel [OF this, of r] show ?thesis
      using t(1) False by (auto simp: Let_def diff_single_trivial)
  qed
qed

lemma find_fst: "map_option fst (List.find (\<lambda>kv. P (fst kv)) kvs) = List.find P (map fst kvs)"
  by (induction kvs) auto

lemma fsm_find_sorted:
  assumes "fsm_inv n m"
  shows "fsm_find m (\<lambda>s x. case x of None \<Rightarrow> (False, s) | Some v \<Rightarrow> (P (fst v), s)) fst s =
    Some (List.find P (sorted_list_of_set (dom (fsm_abs m))), s)"
proof -
  obtain kvs where r: "fsm_repr n kvs m" using assms by (rule fsm_inv_repr)
  have "sorted_wrt (<) (map fst kvs)" "set (map fst kvs) = dom (fsm_abs m)"
    using r fsm_repr_facts(2) [OF r] by (simp_all add: fsm_repr_def dom_map_of_conv_image_fst)
  then have keys: "map fst kvs = sorted_list_of_set (dom (fsm_abs m))"
    by (metis sorted_list_of_set.idem_if_sorted_distinct strict_sorted_iff)
  let ?Q = "\<lambda>x :: ('a \<times> 'b) option. case x of None \<Rightarrow> False | Some v \<Rightarrow> P (fst v)"
  have f: "(\<lambda>s x. case x of None \<Rightarrow> (False, s) | Some v \<Rightarrow> (P (fst v), s)) = (\<lambda>s x. (?Q x, s :: 'c))"
    by (auto simp: fun_eq_iff split: option.splits)
  have find: "List.find ?Q (map Some kvs) = map_option Some (List.find (\<lambda>kv. P (fst kv)) kvs)"
    by (induction kvs) auto
  have "take (fsm_len m) (items m) = map Some kvs" "fsm_len m \<le> length (items m)"
    using r by (auto simp: fsm_repr_def fsm_len_def)
  then show ?thesis
    by (auto simp: fsm_find_def f find_loop_pure find keys [symmetric] find_fst [symmetric] split: option.split)
qed

lemma check_pending_sorted:
  assumes "table_rel n rt (u, M)"
  shows "check_pending_reasons rt (\<lambda>s r. (P r, s)) s = Some (List.find P (sorted_list_of_set (set_mset M)), s)"
proof -
  have c: "counts_ok n rt (count M)" using assms by (simp add: table_rel_def)
  then have "fsm_inv n (pending_futures rt)" by (simp add: counts_ok_def)
  from fsm_find_sorted [OF this, of P s] show ?thesis
    by (simp add: check_pending_reasons_def dom_counts [OF c])
qed

interpretation table: async_refinement "runtime_ops lib" "spec_ops n" "table_rel n" for lib n
proof
  fix w :: "('b, 'c) runtime" and v f P r p
  assume w: "table_rel n w v"
  obtain u M where v: "v = (u, M)" by (cases v)
  have poll: "rel_option (rel_prod (=) (rel_prod (=) (table_rel n))) (new_pending_future f w) (spec_poll n f v)"
    by (cases f) (use w start_poll_rel [of n w u M] wait_poll_rel [OF w] v in \<open>simp_all del: new_pending_future.simps(1) spec_poll.simps(1)\<close>)
  show "rel_option (rel_prod (=) (rel_prod (=) (table_rel n))) (op_poll (runtime_ops lib) f w) (op_poll (spec_ops n) f v)"
    using poll by (simp add: runtime_ops_def spec_ops_def)
  show "rel_option (table_rel n) (op_drop (runtime_ops lib) f w) (op_drop (spec_ops n) f v)"
  proof (cases f)
    case (NpfWait q)
    from guard_drop_rel [of n w u M q] show ?thesis
      using w v NpfWait by (auto simp: runtime_ops_def spec_ops_def)
  qed (use w v in \<open>simp_all add: runtime_ops_def spec_ops_def\<close>)
  show "table_rel n (op_begin (runtime_ops lib) w) (op_begin (spec_ops n) v)"
    using w by (simp add: runtime_ops_def spec_ops_def)
  show "table_rel n (op_finish (runtime_ops lib) w) (op_finish (spec_ops n) v)"
    using w v by (simp add: runtime_ops_def spec_ops_def table_rel_def counts_ok_def)
  show "op_check (runtime_ops lib) P w = op_check (spec_ops n) P v"
    using check_pending_sorted [of n w u M P "()"] w v by (simp add: runtime_ops_def spec_ops_def)
  show "rel_option (table_rel n) (op_unblock (runtime_ops lib) r p w) (op_unblock (spec_ops n) r p v)"
    using w v by (auto simp: runtime_ops_def spec_ops_def unblock_futures_def table_rel_def counts_ok_def)
qed

lemma table_rel_new [simp]: "table_rel n (runtime_new n) (None, {#})"
  by (simp add: table_rel_def counts_ok_def runtime_new_def fsm_new_spec)

section \<open>The reasons a program waits for\<close>

primrec waits :: "('s, 'r, 'p, 'o) async_prog \<Rightarrow> 'r multiset" where
  "waits Finished = {#}"
| "waits (Return out) = {#}"
| "waits Panic = {#}"
| "waits Fuel = {#}"
| "waits (Act f k) = {#}"
| "waits (Await f k) = (case f of NpfWait r \<Rightarrow> {#r#} | _ \<Rightarrow> {#})"
| "waits (Bind f k) = waits f"
| "waits (Or f g) = waits f + waits g"
| "waits (Zip f r1 g r2 k) = (if r1 = None then waits f else {#}) + (if r2 = None then waits g else {#})"

text \<open>A function body that has not been polled, and a program in execution: only what has been reached
  may be waiting.\<close>

primrec fresh :: "('s, 'r, 'p, 'o) async_prog \<Rightarrow> bool" where
  "fresh Finished = True"
| "fresh (Return out) = True"
| "fresh Panic = True"
| "fresh Fuel = True"
| "fresh (Act f k) = (\<forall>s. fresh (k s))"
| "fresh (Await f k) = ((\<exists>r. f = NpfStart r) \<and> (\<forall>v. fresh (k v)))"
| "fresh (Bind f k) = (fresh f \<and> (\<forall>v. fresh (k v)))"
| "fresh (Or f g) = (fresh f \<and> fresh g)"
| "fresh (Zip f r1 g r2 k) = (fresh f \<and> fresh g \<and> r1 = None \<and> r2 = None \<and> (\<forall>v w. fresh (k v w)))"

primrec in_run :: "('s, 'r, 'p, 'o) async_prog \<Rightarrow> bool" where
  "in_run Finished = True"
| "in_run (Return out) = True"
| "in_run Panic = True"
| "in_run Fuel = True"
| "in_run (Act f k) = (\<forall>s. fresh (k s))"
| "in_run (Await f k) = (\<forall>v. fresh (k v))"
| "in_run (Bind f k) = (in_run f \<and> (\<forall>v. fresh (k v)))"
| "in_run (Or f g) = (in_run f \<and> in_run g)"
| "in_run (Zip f r1 g r2 k) = (in_run f \<and> in_run g \<and> (\<forall>v w. fresh (k v w)))"

lemma fresh_in_run: "fresh f \<Longrightarrow> in_run f"
  by (induction f) auto

lemma fresh_waits: "fresh f \<Longrightarrow> waits f = {#}"
  by (induction f) auto

lemma runtime_ops_lib [simp]: "op_lib (runtime_ops lib) = lib"
  by (simp add: runtime_ops_def)

lemma spec_ops_simps [simp]:
  "op_lib (spec_ops n) = in_order"
  "op_poll (spec_ops n) = spec_poll n" "op_drop (spec_ops n) = spec_drop" "op_begin (spec_ops n) w = w"
  "op_finish (spec_ops n) (u, M) = (None, M)"
  "op_check (spec_ops n) P (u, M) = Some (List.find P (sorted_list_of_set (set_mset M)))"
  "op_unblock (spec_ops n) r v (None, M) = Some (Some (r, v), M)"
  by (simp_all add: spec_ops_def)

lemmas poll_spec [simp] =
  poll_or_documented [of "spec_ops n" for n, unfolded spec_ops_simps(1), OF documented_in_order]
  poll_zip_documented [of "spec_ops n" for n, unfolded spec_ops_simps(1), OF documented_in_order]

lemma drop_waits: "drop_prog f (spec_ops n) (u, waits f + K) = Some (u, K)"
proof (induction f arbitrary: K)
  case (Or f g)
  from Or.IH(1) [of "waits g + K"] Or.IH(2) [of K] show ?case by (simp add: add.assoc)
next
  case (Zip f r1 g r2 k)
  from Zip.IH(1) [of "(if r2 = None then waits g else {#}) + K"] Zip.IH(2) [of K] show ?case
    by (auto simp: add.assoc)
qed (auto split: npf.splits)

text \<open>A poll accounts for every reason: what the rest of the world waits for (\<open>K\<close>) is untouched, and a
  finished program waits for nothing.\<close>

definition accounts :: "'r multiset \<Rightarrow> 'o poll \<Rightarrow> ('s, 'r, 'p, 'o) async_prog \<Rightarrow> 'r multiset \<Rightarrow> bool" where
  "accounts K res f M \<longleftrightarrow> M = waits f + K \<and> in_run f \<and> ((\<exists>v. res = Ready v) \<longrightarrow> f = Finished)"

lemma spec_wait_waits:
  assumes "spec_wait r (u, add_mset r K) = (res, f, u', M)"
  shows "M = waits (Await f k) + K \<and> (\<forall>v. res = Ready v \<longrightarrow> M = K)"
  using assms by (cases "(r, (u, K))" rule: spec_wait.cases; auto split: if_splits)

lemma poll_fresh:
  assumes "\<And>s u K res f' s' u' M. in_run g \<Longrightarrow> poll_prog g (spec_ops n) s (u, waits g + K) = Inr (res, f', s', u', M) \<Longrightarrow>
      accounts K res f' M"
    and "fresh g" "poll_prog g (spec_ops n) s (u, K) = Inr (res, f', s', u', M)"
  shows "accounts K res f' M"
  using assms(1) [of s u K res f' s' u' M] assms(2,3) by (simp add: fresh_in_run fresh_waits)

lemma poll_waits:
  "in_run f \<Longrightarrow> poll_prog f (spec_ops n) s (u, waits f + K) = Inr (res, f', s', u', M) \<Longrightarrow> accounts K res f' M"
proof (induction f arbitrary: s u K res f' s' u' M)
  case (Act h k)
  then show ?case by (auto intro: poll_fresh [OF Act.IH [OF rangeI]])
next
  case (Await f k)
  obtain res1 f1 u1 M1 where p: "spec_poll n f (u, waits (Await f k) + K) = Some (res1, f1, u1, M1)"
    using Await.prems by (auto split: option.splits)
  have "M1 = waits (Await f1 k) + K \<and> (\<forall>v. res1 = Ready v \<longrightarrow> M1 = K)"
  proof (cases f)
    case (NpfStart r)
    with p spec_wait_waits [of r u K res1 f1 u1 M1 k] show ?thesis by (auto split: if_splits)
  next
    case (NpfWait r)
    with p spec_wait_waits [of r u K res1 f1 u1 M1 k] show ?thesis by auto
  qed (use p in simp)
  with Await.prems p show ?case
    by (cases res1) (auto simp: accounts_def [where res = Pending] intro: poll_fresh [OF Await.IH [OF rangeI]])
next
  case (Bind f k)
  then obtain r1 f1 s1 u1 M1 where p: "poll_prog f (spec_ops n) s (u, waits f + K) = Inr (r1, f1, s1, u1, M1)"
    by (auto simp: res_bind_Inr_iff)
  then have "accounts K r1 f1 M1" using Bind.IH(1) Bind.prems(1) by simp
  with Bind.prems p show ?case
    by (cases r1) (auto simp: accounts_def [where res = Pending] accounts_def [where f = f1]
        intro: poll_fresh [OF Bind.IH(2) [OF rangeI]])
next
  case (Or f g)
  let ?K = "waits g + K"
  obtain r1 f1 s1 u1 M1 where p: "poll_prog f (spec_ops n) s (u, waits f + ?K) = Inr (r1, f1, s1, u1, M1)"
    using Or.prems by (auto simp: res_bind_Inr_iff add.assoc)
  have a: "accounts ?K r1 f1 M1" using Or.IH(1) p Or.prems(1) by simp
  show ?case
  proof (cases r1)
    case (Ready v)
    with a Or.prems p drop_waits [of g n u1 K] show ?thesis by (auto simp: accounts_def add.assoc)
  next
    case Pending
    then have M1: "M1 = waits g + (waits f1 + K)" using a by (simp add: accounts_def ac_simps)
    obtain r2 g2 s2 u2 M2 where q: "poll_prog g (spec_ops n) s1 (u1, M1) = Inr (r2, g2, s2, u2, M2)"
      using Or.prems p Pending by (auto simp: res_bind_Inr_iff add.assoc)
    have "accounts (waits f1 + K) r2 g2 M2" using Or.IH(2) q Or.prems(1) unfolding M1 by simp
    then show ?thesis using a Or.prems p q Pending drop_waits [of f1 n u2 K]
      by (cases r2) (auto simp: accounts_def ac_simps)
  qed
next
  case (Zip f x1 g x2 k)
  let ?w = "\<lambda>x f. if x = None then waits f else {#}"
  let ?p = "\<lambda>x f s w. case x of Some v \<Rightarrow> Inr (Ready v, f, s, w) | None \<Rightarrow> poll_prog f (spec_ops n) s w"
  obtain r1 f1 s1 u1 M1 where p: "?p x1 f s (u, ?w x1 f + (?w x2 g + K)) = Inr (r1, f1, s1, u1, M1)"
    using Zip.prems by (auto simp: res_bind_Inr_iff add.assoc)
  let ?x1 = "case r1 of Ready v \<Rightarrow> Some v | Pending \<Rightarrow> None"
  have M1: "M1 = ?w x2 g + (?w ?x1 f1 + K) \<and> in_run f1"
    using p Zip.prems(1) Zip.IH(1) [of s u "?w x2 g + K"]
    by (cases x1; cases r1) (auto simp: accounts_def ac_simps)
  obtain r2 g2 s2 u2 M2 where q: "?p x2 g s1 (u1, M1) = Inr (r2, g2, s2, u2, M2)"
    using Zip.prems p by (auto simp: res_bind_Inr_iff add.assoc)
  let ?x2 = "case r2 of Ready v \<Rightarrow> Some v | Pending \<Rightarrow> None"
  have M2: "M2 = ?w ?x1 f1 + (?w ?x2 g2 + K) \<and> in_run g2"
    using q Zip.prems(1) Zip.IH(2) [of s1 u1 "?w ?x1 f1 + K"] M1
    by (cases x2; cases r2) (auto simp: accounts_def ac_simps)
  have "poll_prog (Zip f x1 g x2 k) (spec_ops n) s (u, waits (Zip f x1 g x2 k) + K) =
      (case (r1, r2) of
         (Ready v1, Ready v2) \<Rightarrow> poll_prog (k v1 v2) (spec_ops n) s2 (u2, M2)
       | _ \<Rightarrow> Inr (Pending, Zip f1 ?x1 g2 ?x2 k, s2, u2, M2))"
    using p q by (cases r1; cases r2) (simp_all add: add.assoc)
  then show ?case using Zip.prems M1 M2
    by (cases r1; cases r2) (auto simp: accounts_def [where res = Pending] ac_simps
        simp del: poll_prog.simps poll_spec intro: poll_fresh [OF Zip.IH(3) [OF rangeI rangeI]])
qed (auto simp: accounts_def)

section \<open>Runs of a program over the runtime\<close>

text \<open>Between two steps the driver may unblock a reason and change the state the program borrows.\<close>

inductive prog_reach ::
  "(('s, 'r, 'p, 'o) async_prog, 's, 'o, ('r, 'p) runtime) futures_lite \<Rightarrow> nat \<Rightarrow>
   ('s, 'r :: linorder, 'p, 'o) async_prog \<Rightarrow> 's \<Rightarrow> ('r, 'p) runtime \<Rightarrow> bool" for lib n where
  start: "fresh f \<Longrightarrow> prog_reach lib n f s (runtime_new n)"
| unblock: "prog_reach lib n f s rt \<Longrightarrow> unblock_futures r v rt = Some rt' \<Longrightarrow> prog_reach lib n f s rt'"
| outside: "prog_reach lib n f s rt \<Longrightarrow> prog_reach lib n f s' rt"
| step: "prog_reach lib n f s rt \<Longrightarrow> prog_step (runtime_ops lib) f s rt = Inr (res, f', s', rt') \<Longrightarrow> prog_reach lib n f' s' rt'"

lemma step_table:
  assumes "documented lib" "in_run f" "table_rel n rt (u, waits f)" "prog_step (runtime_ops lib) f s rt = Inr (res, f', s', rt')"
  shows "in_run f' \<and> table_rel n rt' (None, waits f') \<and> (res \<noteq> None \<longrightarrow> f' = Finished)"
proof -
  obtain w where sp: "prog_step (spec_ops n) f s (u, waits f) = Inr (res, f', s', w)" "table_rel n rt' w"
    using table.step_refines [of lib n rt "(u, waits f)" f s] assms(1,3) unfolding assms(4)
    by (cases "prog_step (spec_ops n) f s (u, waits f)") auto
  then obtain r u1 M where p: "poll_prog f (spec_ops n) s (u, waits f + {#}) = Inr (r, f', s', u1, M)"
    and r: "res = (case r of Ready v \<Rightarrow> Some v | Pending \<Rightarrow> None)" "w = (None, M)"
    by (cases "poll_prog f (spec_ops n) s (u, waits f)") (auto simp: prog_step_def)
  from poll_waits [OF assms(2) p] sp(2) r show ?thesis by (cases r) (auto simp: accounts_def)
qed

lemma reach_table:
  assumes lib: "documented lib"
  shows "prog_reach lib n f s rt \<Longrightarrow> in_run f \<and> (\<exists>u. table_rel n rt (u, waits f))"
proof (induction rule: prog_reach.induct)
  case (start f s)
  then show ?case by (auto simp: fresh_in_run fresh_waits intro: exI [of _ None])
next
  case (unblock f s rt r v rt')
  then show ?case by (auto simp: unblock_futures_def table_rel_def counts_ok_def split: if_splits)
next
  case (step f s rt res f' s' rt')
  then obtain u where "in_run f" "table_rel n rt (u, waits f)" by blast
  from step_table [OF lib this step.hyps(2)] show ?case by blast
qed

text \<open>C15: an asynchronous program leaks no reason.  However a program built of awaits, \<open>or\<close> and \<open>zip\<close> is
  driven, with a library that polls as documented, the table of pending reasons holds after each step
  exactly the reasons the program still waits for, each with the number of its futures that do; and
  when the program has returned, the table is empty.\<close>

theorem program_table_exact:
  assumes "documented lib" "prog_reach lib n f s rt" "prog_step (runtime_ops lib) f s rt = Inr (res, f', s', rt')"
  shows "fsm_abs (pending_futures rt') r = (if count (waits f') r = 0 then None else Some (count (waits f') r)) \<and>
    (res \<noteq> None \<longrightarrow> fsm_is_empty (pending_futures rt'))"
proof -
  obtain u where "in_run f" "table_rel n rt (u, waits f)" using reach_table [OF assms(1,2)] by blast
  from step_table [OF assms(1) this assms(3)] have t: "table_rel n rt' (None, waits f')" "res \<noteq> None \<longrightarrow> f' = Finished"
    by auto
  then have c: "counts_ok n rt' (count (waits f'))" by (simp add: table_rel_def)
  then have "res \<noteq> None \<longrightarrow> fsm_abs (pending_futures rt') = Map.empty" using t(2) by (auto simp: counts_ok_def)
  then show ?thesis using c fsm_is_empty_abs [of n "pending_futures rt'"] by (auto simp: counts_ok_def)
qed

text \<open>Waiting for the first of two reasons: the response to the first ends the program, and the reason
  of the loser is gone with it.\<close>

definition either_prog :: "(unit, nat, bool, bool) async_prog" where
  "either_prog = Or (Await (NpfStart 1) (\<lambda>r. Return (r = Inr True))) (Await (NpfStart 2) (\<lambda>_. Return False))"

theorem program_table_exact_witness:
  "\<exists>(f :: (unit, nat, bool, bool) async_prog) rt rt'. prog_reach in_order 4 f () rt \<and> waits f = {#1, 2#} \<and>
     prog_step (runtime_ops in_order) f () rt = Inr (Some True, Finished, (), rt') \<and> fsm_is_empty (pending_futures rt')"
proof -
  let ?f = "Or (Await (NpfWait 1) (\<lambda>r. Return (r = Inr True))) (Await (NpfWait 2) (\<lambda>_. Return False))
    :: (unit, nat, bool, bool) async_prog"
  have r0: "prog_reach in_order 4 either_prog () (runtime_new 4)" by (rule prog_reach.start) (simp add: either_prog_def)
  have "prog_step (spec_ops 4) either_prog () (None, {#}) = Inr (None, ?f, (), None, {#1, 2#})"
    by (simp add: prog_step_def either_prog_def)
  with table.step_refines [OF _ _ table_rel_new [of 4], of in_order either_prog "()"] obtain rt1 where
    rt1: "prog_step (runtime_ops in_order) either_prog () (runtime_new 4) = Inr (None, ?f, (), rt1)"
    "table_rel 4 rt1 (None, {#1, 2#})"
    by (auto elim!: rel_sum.cases)
  then obtain rt2 where rt2: "unblock_futures 1 True rt1 = Some rt2" "table_rel 4 rt2 (Some (1, True), {#1, 2#})"
    by (auto simp: table_rel_def counts_ok_def unblock_futures_def)
  have r2: "prog_reach in_order 4 ?f () rt2"
    by (rule prog_reach.unblock [OF prog_reach.step [OF r0 rt1(1)] rt2(1)])
  have "prog_step (spec_ops 4) ?f () (Some (1, True), {#1, 2#}) = Inr (Some True, Finished, (), None, {#})"
    by (simp add: prog_step_def)
  with table.step_refines [OF _ _ rt2(2), of in_order ?f "()"] obtain rt3 where
    rt3: "prog_step (runtime_ops in_order) ?f () rt2 = Inr (Some True, Finished, (), rt3)"
    by (auto elim!: rel_sum.cases)
  have "waits ?f = {#1, 2#}" by simp
  with program_table_exact [OF documented_in_order r2 rt3] r2 rt3 show ?thesis by blast
qed

end
