(* ===== verification/Json_Parser.thy ===== *)
theory Json_Parser
  imports Async_Programs "HOL-Library.Char_ord" "HOL-Library.List_Lexorder"
begin

text \<open>
  The JSON parser of \<open>src/krsm/examples/monadic_parser.rs\<close>.  Every \<open>parse_*\<close> function is an
  asynchronous program that reads the offset cell and waits for the literals and character classes of
  its grammar rule; \<open>run_parser\<close> drives it over the input.  A recursive call, always a \<open>Box::pin\<close> in the
  code, costs one unit of the parser's fuel.  Strings are UTF-8 bytes, a Rust \<open>char\<close> is its UTF-8 encoding.
\<close>

section \<open>Reasons\<close>

datatype json_parser_yield_reason =
    LiteralArrayStart nat
  | LiteralArrayEnd nat
  | LiteralObjectStart nat
  | LiteralObjectEnd nat
  | LiteralStringStart nat
  | LiteralStringEnd nat
  | LiteralColon nat
  | LiteralComma nat
  | LiteralPeriod nat
  | LiteralTrue nat
  | LiteralFalse nat
  | LiteralNull nat
  | LiteralSlash nat
  | LiteralHexEscapeChar nat
  | RegexCharAnyExceptQuoteOrSlash nat
  | RegexEscapedCharAfterSlash nat
  | RegexCharExponent nat
  | RegexCharInHex nat
  | RegexCharInDigit nat
  | RegexCharNumberSign nat
  | RegexCharWhitespace nat
  | EmptyString

text \<open>The derived order: the variant first, then the offset.\<close>

fun reason_key :: "json_parser_yield_reason \<Rightarrow> nat \<times> nat" where
  "reason_key (LiteralArrayStart j) = (0, j)"
| "reason_key (LiteralArrayEnd j) = (1, j)"
| "reason_key (LiteralObjectStart j) = (2, j)"
| "reason_key (LiteralObjectEnd j) = (3, j)"
| "reason_key (LiteralStringStart j) = (4, j)"
| "reason_key (LiteralStringEnd j) = (5, j)"
| "reason_key (LiteralColon j) = (6, j)"
| "reason_key (LiteralComma j) = (7, j)"
| "reason_key (LiteralPeriod j) = (8, j)"
| "reason_key (LiteralTrue j) = (9, j)"
| "reason_key (LiteralFalse j) = (10, j)"
| "reason_key (LiteralNull j) = (11, j)"
| "reason_key (LiteralSlash j) = (12, j)"
| "reason_key (LiteralHexEscapeChar j) = (13, j)"
| "reason_key (RegexCharAnyExceptQuoteOrSlash j) = (14, j)"
| "reason_key (RegexEscapedCharAfterSlash j) = (15, j)"
| "reason_key (RegexCharExponent j) = (16, j)"
| "reason_key (RegexCharInHex j) = (17, j)"
| "reason_key (RegexCharInDigit j) = (18, j)"
| "reason_key (RegexCharNumberSign j) = (19, j)"
| "reason_key (RegexCharWhitespace j) = (20, j)"
| "reason_key EmptyString = (21, 0)"

lemma reason_key_inject: "reason_key a = reason_key b \<longleftrightarrow> a = b"
  by (cases a; cases b) simp_all

instantiation json_parser_yield_reason :: linorder
begin

definition less_eq_json_parser_yield_reason :: "json_parser_yield_reason \<Rightarrow> json_parser_yield_reason \<Rightarrow> bool" where
  "less_eq_json_parser_yield_reason a b \<longleftrightarrow> fst (reason_key a) < fst (reason_key b) \<or>
     fst (reason_key a) = fst (reason_key b) \<and> snd (reason_key a) \<le> snd (reason_key b)"

definition less_json_parser_yield_reason :: "json_parser_yield_reason \<Rightarrow> json_parser_yield_reason \<Rightarrow> bool" where
  "less_json_parser_yield_reason a b \<longleftrightarrow> fst (reason_key a) < fst (reason_key b) \<or>
     fst (reason_key a) = fst (reason_key b) \<and> snd (reason_key a) < snd (reason_key b)"

instance
  by standard
    (auto simp: less_eq_json_parser_yield_reason_def less_json_parser_yield_reason_def
      simp flip: reason_key_inject intro: prod_eqI)

end

section \<open>Values\<close>

datatype json =
    Object "(string \<times> json) list"
  | Array "json list"
  | Number string
  | String string
  | Boolean bool
  | Null

text \<open>A \<open>BTreeMap\<close> is the list of its entries in the order of the keys.\<close>

fun btree_insert :: "'k :: linorder \<Rightarrow> 'v \<Rightarrow> ('k \<times> 'v) list \<Rightarrow> ('k \<times> 'v) list" where
  "btree_insert k v [] = [(k, v)]"
| "btree_insert k v ((q, w) # m) =
     (if k < q then (k, v) # (q, w) # m
      else if k = q then (k, v) # m
      else (q, w) # btree_insert k v m)"

text \<open>The results of the parser's functions, whose Rust types differ.\<close>

datatype parsed =
    VUnit
  | VString string
  | VChar string
  | VChars "string list"
  | VJson json
  | VMap "(string \<times> json) list"
  | VMember string json
  | VVec "json list"

type_synonym parser = "(nat, json_parser_yield_reason, string, async_runtime_error + parsed) async_prog"

definition ok :: "parsed \<Rightarrow> parser" where
  "ok v = Return (Inr v)"

text \<open>\<open>self.new_future(reason).await?\<close>, the future itself, and \<open>.await?\<close> on a future of a known type.\<close>

definition new_future :: "json_parser_yield_reason \<Rightarrow> (string \<Rightarrow> parser) \<Rightarrow> parser" where
  "new_future reason k = Await (NpfStart reason) (\<lambda>r. case r of Inl e \<Rightarrow> Return (Inl e) | Inr str \<Rightarrow> k str)"

definition the_future :: "json_parser_yield_reason \<Rightarrow> parser" where
  "the_future reason = Await (NpfStart reason) (\<lambda>r. Return (map_sum id VString r))"

definition at_offset :: "(nat \<Rightarrow> parser) \<Rightarrow> parser" where
  "at_offset k = Act id k"

definition try_string :: "parser \<Rightarrow> (string \<Rightarrow> parser) \<Rightarrow> parser" where
  "try_string f k = Try f (\<lambda>v. case v of VString x \<Rightarrow> k x | _ \<Rightarrow> Panic)"

definition try_char :: "parser \<Rightarrow> (string \<Rightarrow> parser) \<Rightarrow> parser" where
  "try_char f k = Try f (\<lambda>v. case v of VChar x \<Rightarrow> k x | _ \<Rightarrow> Panic)"

definition try_chars :: "parser \<Rightarrow> (string list \<Rightarrow> parser) \<Rightarrow> parser" where
  "try_chars f k = Try f (\<lambda>v. case v of VChars x \<Rightarrow> k x | _ \<Rightarrow> Panic)"

definition try_json :: "parser \<Rightarrow> (json \<Rightarrow> parser) \<Rightarrow> parser" where
  "try_json f k = Try f (\<lambda>v. case v of VJson x \<Rightarrow> k x | _ \<Rightarrow> Panic)"

definition try_map :: "parser \<Rightarrow> ((string \<times> json) list \<Rightarrow> parser) \<Rightarrow> parser" where
  "try_map f k = Try f (\<lambda>v. case v of VMap x \<Rightarrow> k x | _ \<Rightarrow> Panic)"

definition try_member :: "parser \<Rightarrow> (string \<Rightarrow> json \<Rightarrow> parser) \<Rightarrow> parser" where
  "try_member f k = Try f (\<lambda>v. case v of VMember x y \<Rightarrow> k x y | _ \<Rightarrow> Panic)"

definition try_vec :: "parser \<Rightarrow> (json list \<Rightarrow> parser) \<Rightarrow> parser" where
  "try_vec f k = Try f (\<lambda>v. case v of VVec x \<Rightarrow> k x | _ \<Rightarrow> Panic)"

definition try_unit :: "parser \<Rightarrow> parser \<Rightarrow> parser" where
  "try_unit f k = Try f (\<lambda>_. k)"

section \<open>Characters\<close>

definition str_to_char :: "string \<Rightarrow> string option" where
  "str_to_char str = (case str of [] \<Rightarrow> None | c # _ \<Rightarrow> Some [c])"

definition hex_digit :: "char \<Rightarrow> nat option" where
  "hex_digit c =
     (let x = of_char c :: nat in
      if 48 \<le> x \<and> x \<le> 57 then Some (x - 48)
      else if 97 \<le> x \<and> x \<le> 102 then Some (x - 87)
      else if 65 \<le> x \<and> x \<le> 70 then Some (x - 55)
      else None)"

fun hex_digits :: "nat \<Rightarrow> string \<Rightarrow> nat option" where
  "hex_digits acc [] = Some acc"
| "hex_digits acc (c # cs) =
     (case hex_digit c of
        None \<Rightarrow> None
      | Some d \<Rightarrow> (if 16 * acc + d < 2 ^ 32 then hex_digits (16 * acc + d) cs else None))"

text \<open>\<open>u32::from_str_radix(_, 16)\<close>: a sign may precede the digits, a prefix \<open>0x\<close> may not.\<close>

definition u32_from_hex :: "string \<Rightarrow> nat option" where
  "u32_from_hex str =
     (case str of
        [] \<Rightarrow> None
      | c # cs \<Rightarrow> (if c = CHR ''+'' then if cs = [] then None else hex_digits 0 cs
                 else hex_digits 0 (c # cs)))"

definition char_from_u32 :: "nat \<Rightarrow> string option" where
  "char_from_u32 x =
     (if x < 128 then Some [char_of x]
      else if x < 2048 then Some [char_of (192 + x div 64), char_of (128 + x mod 64)]
      else if 55296 \<le> x \<and> x \<le> 57343 then None
      else if x < 65536
        then Some [char_of (224 + x div 4096), char_of (128 + x div 64 mod 64), char_of (128 + x mod 64)]
      else if x < 1114112
        then Some [char_of (240 + x div 262144), char_of (128 + x div 4096 mod 64),
                   char_of (128 + x div 64 mod 64), char_of (128 + x mod 64)]
      else None)"

definition escaped :: "string \<Rightarrow> string" where
  "escaped str =
     (if str = ''b'' then [CHR 0x08]
      else if str = ''f'' then [CHR 0x0C]
      else if str = ''n'' then [CHR 0x0A]
      else if str = ''r'' then [CHR 0x0D]
      else if str = ''t'' then ''t''
      else str)"

definition ok_char :: "string option \<Rightarrow> parser" where
  "ok_char c = (case c of Some x \<Rightarrow> ok (VChar x) | None \<Rightarrow> Panic)"

definition parse_character :: parser where
  "parse_character = at_offset (\<lambda>curr_offset.
     Or (new_future (RegexCharAnyExceptQuoteOrSlash curr_offset) (\<lambda>str. ok_char (str_to_char str)))
        (Or (new_future (LiteralSlash curr_offset) (\<lambda>_.
               new_future (RegexEscapedCharAfterSlash (curr_offset + 1)) (\<lambda>str.
                 ok_char (str_to_char (escaped str)))))
            (new_future (LiteralSlash curr_offset) (\<lambda>_.
               new_future (LiteralHexEscapeChar (curr_offset + 1)) (\<lambda>_.
               new_future (RegexCharInHex (curr_offset + 2)) (\<lambda>hex1.
               new_future (RegexCharInHex (curr_offset + 3)) (\<lambda>hex2.
               new_future (RegexCharInHex (curr_offset + 4)) (\<lambda>hex3.
               new_future (RegexCharInHex (curr_offset + 5)) (\<lambda>hex4.
                 let hex_str = ''0x'' @ hex1 @ hex2 @ hex3 @ hex4
                 in case u32_from_hex hex_str of
                      None \<Rightarrow> Panic
                    | Some hex_val \<Rightarrow> ok_char (char_from_u32 hex_val))))))))))"

primrec parse_characters_reversed :: "nat \<Rightarrow> parser" where
  "parse_characters_reversed 0 = Fuel"
| "parse_characters_reversed (Suc n) =
     Or (try_char parse_character (\<lambda>char.
           try_chars (parse_characters_reversed n) (\<lambda>list. ok (VChars (list @ [char])))))
        (new_future EmptyString (\<lambda>_. ok (VChars [])))"

definition parse_string :: "nat \<Rightarrow> parser" where
  "parse_string n = at_offset (\<lambda>curr_offset.
     new_future (LiteralStringStart curr_offset) (\<lambda>_.
       try_chars (parse_characters_reversed n) (\<lambda>reversed.
         let result = concat (rev reversed)
         in at_offset (\<lambda>curr_offset2.
              new_future (LiteralStringEnd curr_offset2) (\<lambda>_. ok (VString result))))))"

definition parse_string_value :: "nat \<Rightarrow> parser" where
  "parse_string_value n = try_string (parse_string n) (\<lambda>str. ok (VJson (String str)))"

section \<open>Numbers, whitespace and constants\<close>

primrec parse_digits :: "nat \<Rightarrow> parser" where
  "parse_digits 0 = Fuel"
| "parse_digits (Suc n) = at_offset (\<lambda>curr_offset.
     new_future (RegexCharInDigit curr_offset) (\<lambda>digit.
       Or (try_string (parse_digits n) (\<lambda>digits. ok (VString (digit @ digits))))
          (new_future EmptyString (\<lambda>_. ok (VString digit)))))"

definition parse_integer :: "nat \<Rightarrow> parser" where
  "parse_integer n = at_offset (\<lambda>curr_offset.
     try_string (Or (the_future (RegexCharNumberSign curr_offset)) (the_future EmptyString)) (\<lambda>sign.
       try_string (parse_digits n) (\<lambda>digits. ok (VString (sign @ digits)))))"

definition parse_fraction :: "nat \<Rightarrow> parser" where
  "parse_fraction n = at_offset (\<lambda>curr_offset.
     Or (new_future (LiteralPeriod curr_offset) (\<lambda>_.
           try_string (parse_digits n) (\<lambda>digits. ok (VString (''.'' @ digits)))))
        (the_future EmptyString))"

definition parse_exponent :: "nat \<Rightarrow> parser" where
  "parse_exponent n = at_offset (\<lambda>curr_offset.
     Or (new_future (RegexCharExponent curr_offset) (\<lambda>exponent.
           try_string (parse_digits n) (\<lambda>digits. ok (VString (exponent @ digits)))))
        (the_future EmptyString))"

definition parse_number :: "nat \<Rightarrow> parser" where
  "parse_number n =
     try_string (parse_integer n) (\<lambda>integer.
       try_string (parse_fraction n) (\<lambda>fraction.
         try_string (parse_exponent n) (\<lambda>exponent.
           ok (VJson (Number (integer @ fraction @ exponent))))))"

primrec parse_whitespaces :: "nat \<Rightarrow> parser" where
  "parse_whitespaces 0 = Fuel"
| "parse_whitespaces (Suc n) = at_offset (\<lambda>curr_offset.
     Or (new_future (RegexCharWhitespace curr_offset) (\<lambda>_. try_unit (parse_whitespaces n) (ok VUnit)))
        (new_future EmptyString (\<lambda>_. ok VUnit)))"

definition parse_boolean :: parser where
  "parse_boolean = at_offset (\<lambda>curr_offset.
     Or (new_future (LiteralTrue curr_offset) (\<lambda>_. ok (VJson (Boolean True))))
        (new_future (LiteralFalse curr_offset) (\<lambda>_. ok (VJson (Boolean False)))))"

definition parse_null :: parser where
  "parse_null = at_offset (\<lambda>curr_offset. new_future (LiteralNull curr_offset) (\<lambda>_. ok (VJson Null)))"

section \<open>Values, members and elements\<close>

text \<open>A \<open>Box::pin(self.parse_value())\<close> is an argument of the rules that contain values; it is unfolded one
  level deeper for each value inside a value.\<close>

definition parse_element :: "parser \<Rightarrow> nat \<Rightarrow> parser" where
  "parse_element boxed_value n =
     try_unit (parse_whitespaces n)
       (try_json boxed_value (\<lambda>v.
          try_unit (parse_whitespaces n) (ok (VJson v))))"

definition parse_member :: "parser \<Rightarrow> nat \<Rightarrow> parser" where
  "parse_member boxed_value n =
     try_unit (parse_whitespaces n)
       (try_string (parse_string n) (\<lambda>key.
          try_unit (parse_whitespaces n)
            (at_offset (\<lambda>curr_offset.
               new_future (LiteralColon curr_offset) (\<lambda>_.
                 try_json (parse_element boxed_value n) (\<lambda>entry. ok (VMember key entry)))))))"

primrec parse_members :: "parser \<Rightarrow> nat \<Rightarrow> parser" where
  "parse_members boxed_value 0 = Fuel"
| "parse_members boxed_value (Suc n) =
     try_member (parse_member boxed_value (Suc n)) (\<lambda>key entry.
       try_map
         (Or (at_offset (\<lambda>curr_offset.
                new_future (LiteralComma curr_offset) (\<lambda>_. parse_members boxed_value n)))
             (new_future EmptyString (\<lambda>_. ok (VMap []))))
         (\<lambda>map. ok (VMap (btree_insert key entry map))))"

definition parse_object :: "parser \<Rightarrow> nat \<Rightarrow> parser" where
  "parse_object boxed_value n = at_offset (\<lambda>curr_offset.
     new_future (LiteralObjectStart curr_offset) (\<lambda>_.
       try_json
         (Or (try_map (parse_members boxed_value n) (\<lambda>members. ok (VJson (Object members))))
             (try_unit (parse_whitespaces n) (ok (VJson (Object [])))))
         (\<lambda>result. at_offset (\<lambda>curr_offset2.
            new_future (LiteralObjectEnd curr_offset2) (\<lambda>_. ok (VJson result))))))"

primrec parse_elements_reversed :: "parser \<Rightarrow> nat \<Rightarrow> parser" where
  "parse_elements_reversed boxed_value 0 = Fuel"
| "parse_elements_reversed boxed_value (Suc n) =
     try_json (parse_element boxed_value (Suc n)) (\<lambda>item.
       try_vec
         (Or (at_offset (\<lambda>curr_offset.
                new_future (LiteralComma curr_offset) (\<lambda>_. parse_elements_reversed boxed_value n)))
             (new_future EmptyString (\<lambda>_. ok (VVec []))))
         (\<lambda>list. ok (VVec (list @ [item]))))"

definition parse_elements :: "parser \<Rightarrow> nat \<Rightarrow> parser" where
  "parse_elements boxed_value n =
     try_vec (parse_elements_reversed boxed_value n) (\<lambda>list. ok (VVec (rev list)))"

definition parse_array :: "parser \<Rightarrow> nat \<Rightarrow> parser" where
  "parse_array boxed_value n = at_offset (\<lambda>curr_offset.
     new_future (LiteralArrayStart curr_offset) (\<lambda>_.
       try_json
         (Or (try_vec (parse_elements boxed_value n) (\<lambda>list. ok (VJson (Array list))))
             (try_unit (parse_whitespaces n) (ok (VJson (Array [])))))
         (\<lambda>result. at_offset (\<lambda>curr_offset2.
            new_future (LiteralArrayEnd curr_offset2) (\<lambda>_. ok (VJson result))))))"

primrec parse_value :: "nat \<Rightarrow> parser" where
  "parse_value 0 = Fuel"
| "parse_value (Suc n) =
     Or (Or (parse_object (parse_value n) n) (Or (parse_array (parse_value n) n) (parse_string_value n)))
        (Or (parse_number n) (Or parse_boolean parse_null))"

definition parse :: "nat \<Rightarrow> parser" where
  "parse n = parse_element (parse_value n) n"

section \<open>The driver\<close>

text \<open>\<open>&full_str[index..index + 1]\<close> panics inside a character of several bytes.\<close>

definition single_char :: "string \<Rightarrow> nat \<Rightarrow> string option" where
  "single_char full_str index =
     (if (of_char (full_str ! index) :: nat) < 128 then Some [full_str ! index] else None)"

definition starts_with :: "string \<Rightarrow> string \<Rightarrow> bool" where
  "starts_with str prefix \<longleftrightarrow> take (length prefix) str = prefix"

fun reason_matches :: "string \<Rightarrow> nat \<Rightarrow> json_parser_yield_reason \<Rightarrow> bool" where
  "reason_matches str i (LiteralArrayStart j) = (str ! i = CHR ''['' \<and> i = j)"
| "reason_matches str i (LiteralArrayEnd j) = (str ! i = CHR '']'' \<and> i = j)"
| "reason_matches str i (LiteralObjectStart j) = (str ! i = CHR ''{'' \<and> i = j)"
| "reason_matches str i (LiteralObjectEnd j) = (str ! i = CHR ''}'' \<and> i = j)"
| "reason_matches str i (LiteralStringStart j) = (str ! i = CHR 0x22 \<and> i = j)"
| "reason_matches str i (LiteralStringEnd j) = (str ! i = CHR 0x22 \<and> i = j)"
| "reason_matches str i (LiteralColon j) = (str ! i = CHR '':'' \<and> i = j)"
| "reason_matches str i (LiteralComma j) = (str ! i = CHR '','' \<and> i = j)"
| "reason_matches str i (LiteralPeriod j) = (str ! i = CHR ''.'' \<and> i = j)"
| "reason_matches str i (LiteralTrue j) = (starts_with (drop i str) ''true'' \<and> i = j)"
| "reason_matches str i (LiteralFalse j) = (starts_with (drop i str) ''false'' \<and> i = j)"
| "reason_matches str i (LiteralNull j) = (starts_with (drop i str) ''null'' \<and> i = j)"
| "reason_matches str i (LiteralSlash j) = (str ! i = CHR 0x5C \<and> i = j)"
| "reason_matches str i (LiteralHexEscapeChar j) = (str ! i = CHR ''u'' \<and> i = j)"
| "reason_matches str i (RegexCharAnyExceptQuoteOrSlash j) = (str ! i \<noteq> CHR 0x22 \<and> str ! i \<noteq> CHR 0x5C \<and> i = j)"
| "reason_matches str i (RegexEscapedCharAfterSlash j) = (str ! i \<in> set (CHR 0x22 # CHR 0x5C # ''/bfnrt'') \<and> i = j)"
| "reason_matches str i (RegexCharExponent j) = ((str ! i = CHR ''e'' \<or> str ! i = CHR ''E'') \<and> i = j)"
| "reason_matches str i (RegexCharInHex j) = (str ! i \<in> set ''0123456789abcdefABCDEF'' \<and> i = j)"
| "reason_matches str i (RegexCharInDigit j) = (str ! i \<in> set ''0123456789'' \<and> i = j)"
| "reason_matches str i (RegexCharNumberSign j) = (str ! i \<in> set ''+-'' \<and> i = j)"
| "reason_matches str i (RegexCharWhitespace j) = (str ! i \<in> set [CHR '' '', CHR 0x09, CHR 0x0A, CHR 0x0D] \<and> i = j)"
| "reason_matches str i EmptyString = False"

definition low_priority :: "json_parser_yield_reason \<Rightarrow> bool" where
  "low_priority reason \<longleftrightarrow> reason = EmptyString"

fun debug_error :: "async_runtime_error \<Rightarrow> string" where
  "debug_error TooManyPending = ''TooManyPending''"

definition finished :: "async_runtime_error + parsed \<Rightarrow> string + parsed" where
  "finished result = map_err (\<lambda>e. ''Internal error: '' @ debug_error e) result"

text \<open>The answer to an unblocked reason and the index after it.\<close>

definition response_for :: "json_parser_yield_reason \<Rightarrow> string \<Rightarrow> nat \<Rightarrow> string \<times> nat" where
  "response_for reason c index =
     (if reason = LiteralTrue index then (''true'', index + 4)
      else if reason = LiteralFalse index then (''false'', index + 5)
      else if reason = LiteralNull index then (''null'', index + 4)
      else if reason \<noteq> EmptyString then (c, index + 1)
      else ([], index))"

type_synonym 'w parser_ops = "(nat, json_parser_yield_reason, string, async_runtime_error + parsed, 'w) async_ops"

type_synonym parser_lib =
  "(parser, nat, async_runtime_error + parsed, (json_parser_yield_reason, string) runtime) futures_lite"

fun exit_loop :: "'w parser_ops \<Rightarrow> nat \<Rightarrow> nat \<Rightarrow> parser \<Rightarrow> 'w \<Rightarrow> prog_stop + (string + parsed)" where
  "exit_loop ops 0 index future w = Inl OutOfFuel"
| "exit_loop ops (Suc k) index future w =
     (case op_check ops low_priority w of
        None \<Rightarrow> Inl Panicked
      | Some None \<Rightarrow> Inr (Inl ''Unexpected end of input'')
      | Some (Some _) \<Rightarrow>
          res_bind (ok_or Panicked (op_unblock ops EmptyString [] w)) (\<lambda>w.
          res_bind (prog_step ops future index w) (\<lambda>(result, future, _, w).
            case result of
              Some result \<Rightarrow> Inr (finished result)
            | None \<Rightarrow> exit_loop ops k index future w)))"

fun run_parser :: "'w parser_ops \<Rightarrow> nat \<Rightarrow> string \<Rightarrow> nat \<Rightarrow> parser \<Rightarrow> 'w \<Rightarrow> prog_stop + (string + parsed)" where
  "run_parser ops 0 full_str index future w = Inl OutOfFuel"
| "run_parser ops (Suc k) full_str index future w =
     res_bind (prog_step ops future index w) (\<lambda>(result, future, _, w).
       case result of
         Some result \<Rightarrow> Inr (finished result)
       | None \<Rightarrow>
           (if length full_str \<le> index then exit_loop ops k index future w
            else
              res_bind (ok_or Panicked (single_char full_str index)) (\<lambda>c.
              res_bind (ok_or Panicked (op_check ops (reason_matches full_str index) w)) (\<lambda>normal.
              res_bind (ok_or Panicked (op_check ops low_priority w)) (\<lambda>lowpri.
                case (case normal of Some reason \<Rightarrow> Some reason | None \<Rightarrow> lowpri) of
                  None \<Rightarrow> Inr (Inl (''Unexpected character: '' @ c))
                | Some reason \<Rightarrow>
                    (let (response, index') = response_for reason c index
                     in res_bind (ok_or Panicked (op_unblock ops reason response w)) (\<lambda>w.
                          run_parser ops k full_str index' future w)))))))"

text \<open>The parser of \<open>main\<close> and of the tests: a new runtime with the default number of slots.\<close>

definition parse_input :: "parser_lib \<Rightarrow> nat \<Rightarrow> string \<Rightarrow> parser \<Rightarrow> prog_stop + (string + parsed)" where
  "parse_input lib k input future = run_parser (runtime_ops lib) k input 0 future (runtime_new 1024)"

text \<open>\<open>main\<close> unwraps the result of \<open>parse\<close>.\<close>

definition parser_main :: "parser_lib \<Rightarrow> nat \<Rightarrow> nat \<Rightarrow> string \<Rightarrow> prog_stop + parsed" where
  "parser_main lib k n input = res_bind (parse_input lib k input (parse n)) (\<lambda>r. map_err (\<lambda>_. Panicked) r)"

end
