(* ===== verification/Prog_Rules.thy ===== *)
theory Prog_Rules
  imports Async_Programs
begin

text \<open>
  Rules for polling asynchronous programs over the specification of the runtime, one per construct and
  outcome.  \<open>polls n s u f K res f' u'\<close>: polled with the response \<open>u\<close> (if any) under way, while the rest of the
  world waits for \<open>K\<close>, \<open>f\<close> answers \<open>res\<close>, becomes \<open>f'\<close> and leaves the response \<open>u'\<close>.
\<close>

definition polls ::
  "nat \<Rightarrow> 's \<Rightarrow> ('r :: linorder \<times> 'p) option \<Rightarrow> ('s, 'r, 'p, 'o) async_prog \<Rightarrow> 'r multiset \<Rightarrow>
   'o poll \<Rightarrow> ('s, 'r, 'p, 'o) async_prog \<Rightarrow> ('r \<times> 'p) option \<Rightarrow> bool" where
  "polls n s u f K res f' u' \<longleftrightarrow>
     poll_prog f (spec_ops n) s (u, waits f + K) = Inr (res, f', s, u', waits f' + K)"

lemma polls_return: "polls n s u (Return v) K (Ready v) Finished u"
  by (simp add: polls_def)

lemma polls_act: "polls n s u (k s) K res f' u' \<Longrightarrow> fresh (k s) \<Longrightarrow> polls n s u (Act id k) K res f' u'"
  by (simp add: polls_def fresh_waits)

lemma polls_start:
  assumes "r \<in># K \<or> card (set_mset K) < n" "\<And>v. u \<noteq> Some (r, v)"
  shows "polls n s u (Await (NpfStart r) k) K Pending (Await (NpfWait r) k) u"
  using assms by (cases "(r, (u, K))" rule: spec_wait.cases) (auto simp: polls_def)

lemma polls_wait:
  assumes "\<And>v. u \<noteq> Some (r, v)"
  shows "polls n s u (Await (NpfWait r) k) K Pending (Await (NpfWait r) k) u"
  using assms by (cases "(r, (u, K))" rule: spec_wait.cases) (auto simp: polls_def)

lemma polls_hit:
  "polls n s None (k (Inr v)) K res f' u' \<Longrightarrow> fresh (k (Inr v)) \<Longrightarrow>
   polls n s (Some (r, v)) (Await (NpfWait r) k) K res f' u'"
  by (simp add: polls_def fresh_waits)

lemma polls_bind_pending:
  "polls n s u f K Pending f' u' \<Longrightarrow> polls n s u (Bind f k) K Pending (Bind f' k) u'"
  by (simp add: polls_def)

lemma polls_bind_ready:
  "polls n s u f K (Ready v) Finished u1 \<Longrightarrow> polls n s u1 (k v) K res f' u' \<Longrightarrow> fresh (k v) \<Longrightarrow>
   polls n s u (Bind f k) K res f' u'"
  by (simp add: polls_def fresh_waits)

lemma polls_or_first:
  assumes "polls n s u f (waits g + K) (Ready v) Finished u'"
  shows "polls n s u (Or f g) K (Ready v) Finished u'"
  using assms drop_waits [of g n u' K] by (simp add: polls_def add.assoc)

lemma polls_or_second:
  assumes "polls n s u f (waits g + K) Pending f' u1" "polls n s u1 g (waits f' + K) (Ready v) Finished u'"
  shows "polls n s u (Or f g) K (Ready v) Finished u'"
  using assms drop_waits [of f' n u' K] by (simp add: polls_def ac_simps)

lemma polls_or_pending:
  assumes "polls n s u f (waits g + K) Pending f' u1" "polls n s u1 g (waits f' + K) Pending g' u'"
  shows "polls n s u (Or f g) K Pending (Or f' g') u'"
  using assms by (simp add: polls_def ac_simps)

text \<open>A program that is waiting stays as it is when nothing it waits for is answered.\<close>

primrec blocked :: "('s, 'r, 'p, 'o) async_prog \<Rightarrow> bool" where
  "blocked Finished = False"
| "blocked (Return out) = False"
| "blocked Panic = False"
| "blocked Fuel = False"
| "blocked (Act f k) = False"
| "blocked (Await f k) = (case f of NpfWait r \<Rightarrow> True | _ \<Rightarrow> False)"
| "blocked (Bind f k) = blocked f"
| "blocked (Or f g) = (blocked f \<and> blocked g)"
| "blocked (Zip f r1 g r2 k) =
     ((if r1 = None then blocked f else True) \<and> (if r2 = None then blocked g else True) \<and> (r1 = None \<or> r2 = None))"

lemma polls_blocked:
  assumes "blocked f" "\<And>r v. u = Some (r, v) \<Longrightarrow> r \<notin># waits f"
  shows "polls n s u f K Pending f u"
  using assms
proof (induction f arbitrary: K)
  case (Await f k)
  then show ?case by (auto intro!: polls_wait split: npf.splits)
next
  case (Bind f k)
  then show ?case by (auto intro!: polls_bind_pending)
next
  case (Or f g)
  then show ?case by (intro polls_or_pending) auto
next
  case (Zip f r1 g r2 k)
  let ?w = "\<lambda>x f. if x = None then waits f else {#}"
  have "polls n s u f (?w r2 g + K) Pending f u" if "r1 = None" using Zip that by auto
  moreover have "polls n s u g (?w r1 f + K) Pending g u" if "r2 = None" using Zip that by auto
  ultimately show ?case using Zip.prems(1) by (cases r1; cases r2) (auto simp: polls_def ac_simps)
qed auto

section \<open>Steps of a driver\<close>

lemma step_pending:
  "polls n s u f {#} Pending f' u' \<Longrightarrow>
   prog_step (spec_ops n) f s (u, waits f) = Inr (None, f', s, None, waits f')"
  by (simp add: polls_def prog_step_def)

lemma step_ready:
  "polls n s u f {#} (Ready v) Finished u' \<Longrightarrow>
   prog_step (spec_ops n) f s (u, waits f) = Inr (Some v, Finished, s, None, {#})"
  by (simp add: polls_def prog_step_def)

text \<open>What the driver finds in the table.\<close>

lemma find_unique:
  assumes "finite A" "r \<in> A" "P r" "\<And>q. q \<in> A \<Longrightarrow> P q \<Longrightarrow> q = r"
  shows "List.find P (sorted_list_of_set A) = Some (r :: 'a :: linorder)"
proof (cases "List.find P (sorted_list_of_set A)")
  case None
  then show ?thesis using assms(1-3) by (simp add: find_None_iff)
next
  case (Some q)
  then obtain i where "i < length (sorted_list_of_set A)" "P q" "q = sorted_list_of_set A ! i"
    by (auto simp: find_Some_iff)
  then have "P q" "q \<in> A" using assms(1) nth_mem [of i "sorted_list_of_set A"] by simp_all
  then show ?thesis using assms(4) Some by simp
qed

lemma find_none:
  "finite A \<Longrightarrow> (\<And>q. q \<in> A \<Longrightarrow> \<not> P q) \<Longrightarrow> List.find P (sorted_list_of_set (A :: 'a :: linorder set)) = None"
  by (simp add: find_None_iff)

end
