(* ===== verification/Json_Properties.thy ===== *)
theory Json_Properties
  imports Json_Parser Prog_Rules
begin

text \<open>
  What the JSON parser of \<open>src/krsm/examples/monadic_parser.rs\<close> accepts and returns.  The driver over the
  runtime computes what it computes over the multiset of reasons; there the loops are followed
  character by character.
\<close>

section \<open>The driver over the specification\<close>

lemma exit_loop_refines:
  assumes "async_refinement ops ops' R" and lib: "documented (op_lib ops)" "documented (op_lib ops')"
  shows "R w v \<Longrightarrow> exit_loop ops k i f w = exit_loop ops' k i f v"
proof (induction k arbitrary: f w v)
  case (Suc k)
  note R = async_refinement.check [OF assms(1) Suc.prems]
  have u: "rel_option R (op_unblock ops EmptyString [] w) (op_unblock ops' EmptyString [] v)"
    by (rule async_refinement.unblock [OF assms(1) Suc.prems])
  have s: "rel_step R (prog_step ops f i w') (prog_step ops' f i v')" if "R w' v'" for w' v'
    by (rule async_refinement.step_refines [OF assms that])
  have "res_bind (prog_step ops f i w') (\<lambda>(result, future, _, w). case result of
          Some result \<Rightarrow> Inr (finished result) | None \<Rightarrow> exit_loop ops k i future w) =
      res_bind (prog_step ops' f i v') (\<lambda>(result, future, _, w). case result of
          Some result \<Rightarrow> Inr (finished result) | None \<Rightarrow> exit_loop ops' k i future w)" if "R w' v'" for w' v'
    using s [OF that] Suc.IH by (auto elim!: rel_sum.cases split: option.split)
  then show ?case using u by (auto simp: R elim!: option.rel_cases split: option.split)
qed simp

text \<open>One round of the driver, after the step.\<close>

definition after_step ::
  "'w parser_ops \<Rightarrow> nat \<Rightarrow> string \<Rightarrow> nat \<Rightarrow> (async_runtime_error + parsed) option \<times> parser \<times> nat \<times> 'w \<Rightarrow>
   prog_stop + (string + parsed)" where
  "after_step ops k full_str index = (\<lambda>(result, future, _, w).
       case result of
         Some result \<Rightarrow> Inr (finished result)
       | None \<Rightarrow>
           (if length full_str \<le> index then exit_loop ops k index future w
            else
              res_bind (ok_or Panicked (single_char full_str index)) (\<lambda>c.
              res_bind (ok_or Panicked (op_check ops (reason_matches full_str index) w)) (\<lambda>normal.
              res_bind (ok_or Panicked (op_check ops low_priority w)) (\<lambda>lowpri.
                case (case normal of Some reason \<Rightarrow> Some reason | None \<Rightarrow> lowpri) of
                  None \<Rightarrow> Inr (Inl (''Unexpected character: '' @ c))
                | Some reason \<Rightarrow>
                    (let (response, index') = response_for reason c index
                     in res_bind (ok_or Panicked (op_unblock ops reason response w))
                          (run_parser ops k full_str index' future)))))))"

lemma run_parser_Suc:
  "run_parser ops (Suc k) str i f w = res_bind (prog_step ops f i w) (after_step ops k str i)"
  by (simp add: after_step_def)

lemma run_parser_refines:
  assumes "async_refinement ops ops' R" and lib: "documented (op_lib ops)" "documented (op_lib ops')"
  shows "R w v \<Longrightarrow> run_parser ops k str i f w = run_parser ops' k str i f v"
proof (induction k arbitrary: i f w v)
  case (Suc k)
  have u: "res_bind (ok_or Panicked (op_unblock ops r p w')) (run_parser ops k str i' f') =
      res_bind (ok_or Panicked (op_unblock ops' r p v')) (run_parser ops' k str i' f')"
    if "R w' v'" for w' v' r p i' f'
    using async_refinement.unblock [OF assms(1) that, of r p] Suc.IH by (auto elim!: option.rel_cases)
  have "after_step ops k str i (res, f, s, w') = after_step ops' k str i (res, f, s, v')"
    if "R w' v'" for res f s w' v'
    unfolding after_step_def prod.case
    by (simp only: exit_loop_refines [OF assms that] async_refinement.check [OF assms(1) that] u [OF that])
  then show ?case using async_refinement.step_refines [OF assms Suc.prems, of f i]
    unfolding run_parser_Suc by (auto elim!: rel_sum.cases)
qed simp

lemma parse_input_spec:
  "documented lib \<Longrightarrow> parse_input lib k str f = run_parser (spec_ops 1024) k str 0 f (None, {#})"
  unfolding parse_input_def
  by (rule run_parser_refines [OF table.async_refinement_axioms _ _ table_rel_new]) simp_all

text \<open>What a round does, by what it finds.\<close>

lemma run_ready:
  "polls n i u f {#} (Ready v) Finished u' \<Longrightarrow> run_parser (spec_ops n) (Suc k) str i f (u, waits f) = Inr (finished v)"
  by (simp add: step_ready)

lemma run_normal:
  assumes "polls n i u f {#} Pending f' u'" "i < length str" "of_char (str ! i) < (128 :: nat)"
    and "r \<in># waits f'" "reason_matches str i r" "\<And>q. q \<in># waits f' \<Longrightarrow> reason_matches str i q \<Longrightarrow> q = r"
    and "response_for r [str ! i] i = (p, i')"
  shows "run_parser (spec_ops n) (Suc k) str i f (u, waits f) =
    run_parser (spec_ops n) k str i' f' (Some (r, p), waits f')"
proof -
  have "List.find (reason_matches str i) (sorted_list_of_set (set_mset (waits f'))) = Some r"
    by (rule find_unique) (fact finite_set_mset assms(4,5,6))+
  then show ?thesis using assms(2,3,7) by (simp add: step_pending [OF assms(1)] single_char_def)
qed

lemma find_empty:
  assumes "EmptyString \<in># M"
  shows "List.find low_priority (sorted_list_of_set (set_mset M)) = Some EmptyString"
  by (rule find_unique) (use assms in \<open>auto simp: low_priority_def\<close>)

lemma run_empty:
  assumes "polls n i u f {#} Pending f' u'" "i < length str" "of_char (str ! i) < (128 :: nat)"
    and "EmptyString \<in># waits f'" "\<And>q. q \<in># waits f' \<Longrightarrow> \<not> reason_matches str i q"
  shows "run_parser (spec_ops n) (Suc k) str i f (u, waits f) =
    run_parser (spec_ops n) k str i f' (Some (EmptyString, []), waits f')"
proof -
  have "List.find (reason_matches str i) (sorted_list_of_set (set_mset (waits f'))) = None"
    by (rule find_none [OF finite_set_mset assms(5)])
  then show ?thesis using assms(2,3) find_empty [OF assms(4)]
    by (simp add: step_pending [OF assms(1)] single_char_def response_for_def)
qed

lemma run_stuck:
  assumes "polls n i u f {#} Pending f' u'" "i < length str" "of_char (str ! i) < (128 :: nat)"
    and "\<And>q. q \<in># waits f' \<Longrightarrow> \<not> reason_matches str i q \<and> q \<noteq> EmptyString"
  shows "run_parser (spec_ops n) (Suc k) str i f (u, waits f) = Inr (Inl (''Unexpected character: '' @ [str ! i]))"
proof -
  have "List.find (reason_matches str i) (sorted_list_of_set (set_mset (waits f'))) = None"
    "List.find low_priority (sorted_list_of_set (set_mset (waits f'))) = None"
    by (rule find_none; use assms(4) in \<open>auto simp: low_priority_def\<close>)+
  then show ?thesis using assms(2,3) by (simp add: step_pending [OF assms(1)] single_char_def)
qed

lemma run_at_end:
  assumes "polls n i u f {#} Pending f' u'" "length str \<le> i"
    and "EmptyString \<in># waits f'" "polls n i (Some (EmptyString, [])) f' {#} (Ready v) Finished u''"
  shows "run_parser (spec_ops n) (Suc (Suc k)) str i f (u, waits f) = Inr (finished v)"
  using assms(2) find_empty [OF assms(3)]
  by (simp add: step_pending [OF assms(1)] step_ready [OF assms(4)])

declare run_parser.simps(2) [simp del]

section \<open>Right-recursive rules\<close>

text \<open>After each item of a right-recursive rule the parser waits inside one more \<open>or\<close> with the empty
  string; the outermost item comes first.\<close>

primrec nest ::
  "('i \<Rightarrow> async_runtime_error + parsed \<Rightarrow> parser) \<Rightarrow> ('i \<Rightarrow> async_runtime_error + string \<Rightarrow> parser) \<Rightarrow>
   parser \<Rightarrow> 'i list \<Rightarrow> parser" where
  "nest K E f [] = f"
| "nest K E f (x # xs) = Or (Bind (nest K E f xs) (K x)) (Await (NpfWait EmptyString) (E x))"

lemma nest_append: "nest K E (nest K E f ys) xs = nest K E f (xs @ ys)"
  by (induction xs) auto

lemma waits_nest: "waits (nest K E f xs) = waits f + replicate_mset (length xs) EmptyString"
  by (induction xs) auto

lemma nest_pending:
  "polls n s u f (replicate_mset (length xs) EmptyString + M) Pending f' None \<Longrightarrow>
   polls n s u (nest K E f xs) M Pending (nest K E f' xs) None"
proof (induction xs arbitrary: M)
  case (Cons x xs)
  have "polls n s u (nest K E f xs) ({#EmptyString#} + M) Pending (nest K E f' xs) None"
    by (rule Cons.IH) (use Cons.prems in \<open>simp add: ac_simps\<close>)
  then show ?case by (auto intro!: polls_or_pending polls_bind_pending polls_wait)
qed simp

lemma nest_ready:
  assumes step: "\<And>x v. K x (h v) = Return (h (g x v))"
  shows "polls n s u f (replicate_mset (length xs) EmptyString + M) (Ready (h v)) Finished None \<Longrightarrow>
   polls n s u (nest K E f xs) M (Ready (h (foldr g xs v))) Finished None"
proof (induction xs arbitrary: M)
  case (Cons x xs)
  have "polls n s u (nest K E f xs) ({#EmptyString#} + M) (Ready (h (foldr g xs v))) Finished None"
    by (rule Cons.IH) (use Cons.prems in \<open>simp add: ac_simps\<close>)
  then have "polls n s u (Bind (nest K E f xs) (K x)) ({#EmptyString#} + M) (Ready (h (g x (foldr g xs v)))) Finished None"
    by (rule polls_bind_ready) (auto simp: step intro: polls_return)
  then show ?case by (auto intro!: polls_or_first)
qed simp

section \<open>Digits\<close>

definition dig_K :: "string \<Rightarrow> async_runtime_error + parsed \<Rightarrow> parser" where
  "dig_K d = (\<lambda>r. case r of Inl e \<Rightarrow> Return (Inl e)
     | Inr v \<Rightarrow> (case v of VString x \<Rightarrow> ok (VString (d @ x)) | _ \<Rightarrow> Panic))"

definition dig_E :: "string \<Rightarrow> async_runtime_error + string \<Rightarrow> parser" where
  "dig_E d = (\<lambda>r. case r of Inl e \<Rightarrow> Return (Inl e) | Inr _ \<Rightarrow> ok (VString d))"

definition dig_cont :: "nat \<Rightarrow> async_runtime_error + string \<Rightarrow> parser" where
  "dig_cont m = (\<lambda>r. case r of Inl e \<Rightarrow> Return (Inl e)
     | Inr digit \<Rightarrow> Or (Bind (parse_digits m) (dig_K digit)) (Await (NpfStart EmptyString) (dig_E digit)))"

lemma parse_digits_Suc:
  "parse_digits (Suc m) = Act id (\<lambda>i. Await (NpfStart (RegexCharInDigit i)) (dig_cont m))"
  unfolding parse_digits.simps at_offset_def new_future_def try_string_def Try_def dig_cont_def dig_K_def dig_E_def ..

declare parse_digits.simps(2) [simp del]

lemma fresh_dig_K [simp]: "fresh (dig_K d r)"
  by (auto simp: dig_K_def ok_def split: sum.split parsed.split)

lemma fresh_dig_E [simp]: "fresh (dig_E d r)"
  by (auto simp: dig_E_def ok_def split: sum.split)

lemma fresh_dig_cont: "fresh (parse_digits m) \<Longrightarrow> fresh (dig_cont m r)"
  by (auto simp: dig_cont_def split: sum.split)

lemma fresh_parse_digits [simp]: "fresh (parse_digits m)"
  by (induction m) (simp_all add: parse_digits_Suc fresh_dig_cont)

lemma digits_start:
  assumes "card (set_mset M) < n"
  shows "polls n i None (parse_digits (Suc m)) M Pending (Await (NpfWait (RegexCharInDigit i)) (dig_cont m)) None"
  unfolding parse_digits_Suc using assms by (intro polls_act polls_start) (auto simp: fresh_dig_cont)

lemma digits_next:
  assumes "card (set_mset M) + 1 < n"
  shows "polls n i (Some (RegexCharInDigit j, d)) (Await (NpfWait (RegexCharInDigit j)) (dig_cont (Suc m))) M Pending
    (nest dig_K dig_E (Await (NpfWait (RegexCharInDigit i)) (dig_cont m)) [d]) None"
proof (rule polls_hit)
  let ?f = "Bind (Await (NpfWait (RegexCharInDigit i)) (dig_cont m)) (dig_K d)"
  have "card (set_mset (add_mset (RegexCharInDigit i) M)) < n"
    using assms by (auto simp: card_insert_if)
  then have "polls n i None (Or (Bind (parse_digits (Suc m)) (dig_K d)) (Await (NpfStart EmptyString) (dig_E d))) M Pending
      (Or ?f (Await (NpfWait EmptyString) (dig_E d))) None"
    using assms by (intro polls_or_pending [where ?u1.0 = None] polls_bind_pending digits_start polls_start) auto
  then show "polls n i None (dig_cont (Suc m) (Inr d)) M Pending
    (nest dig_K dig_E (Await (NpfWait (RegexCharInDigit i)) (dig_cont m)) [d]) None"
    by (simp add: dig_cont_def)
qed (simp add: fresh_dig_cont)

lemma digits_last:
  "polls n s (Some (EmptyString, [])) (nest dig_K dig_E (Await (NpfWait (RegexCharInDigit i)) (dig_cont m)) [d]) M
     (Ready (Inr (VString d))) Finished None"
proof -
  have "polls n s None (dig_E d (Inr [])) K (Ready (Inr (VString d))) Finished None" for K
    by (auto simp: dig_E_def ok_def intro: polls_return)
  then show ?thesis by (auto intro!: polls_or_second polls_bind_pending polls_wait polls_hit)
qed

abbreviation digits_at :: "nat \<Rightarrow> nat \<Rightarrow> string \<Rightarrow> parser" where
  "digits_at m i ds \<equiv> nest dig_K dig_E (Await (NpfWait (RegexCharInDigit i)) (dig_cont m)) (map (\<lambda>c. [c]) ds)"

lemma digits_at_next:
  assumes "2 < n"
  shows "polls n i (Some (RegexCharInDigit j, [c])) (digits_at (Suc m) j ds) {#} Pending (digits_at m i (ds @ [c])) None"
proof -
  have "card (set_mset (replicate_mset (length ds) EmptyString)) \<le> 1"
    by (simp add: set_mset_replicate_mset_subset)
  then have "polls n i (Some (RegexCharInDigit j, [c])) (digits_at (Suc m) j ds) {#} Pending
      (nest dig_K dig_E (nest dig_K dig_E (Await (NpfWait (RegexCharInDigit i)) (dig_cont m)) [[c]]) (map (\<lambda>c. [c]) ds)) None"
    using assms by (intro nest_pending digits_next) simp
  then show ?thesis unfolding nest_append by simp
qed

lemma digits_at_last:
  "polls n s (Some (EmptyString, [])) (digits_at m i (ds @ [c])) {#} (Ready (Inr (VString (ds @ [c])))) Finished None"
proof -
  have "dig_K d (Inr (VString x)) = Return (Inr (VString (d @ x)))" for d x by (simp add: dig_K_def ok_def)
  from nest_ready [where h = "\<lambda>x. Inr (VString x)" and g = "(@)", OF this digits_last]
  have "polls n s (Some (EmptyString, [])) (nest dig_K dig_E
      (nest dig_K dig_E (Await (NpfWait (RegexCharInDigit i)) (dig_cont m)) [[c]]) (map (\<lambda>c. [c]) ds)) {#}
      (Ready (Inr (VString (foldr (@) (map (\<lambda>c. [c]) ds) [c])))) Finished None" .
  moreover have "foldr (@) (map (\<lambda>c. [c]) ds) [c] = ds @ [c]" by (induction ds) auto
  ultimately show ?thesis unfolding nest_append by simp
qed

lemma digit_ascii: "c \<in> set ''0123456789'' \<Longrightarrow> of_char c < (128 :: nat)"
  by auto

lemma waits_digits_at: "q \<in># waits (digits_at m i ds) \<Longrightarrow> q = RegexCharInDigit i \<or> q = EmptyString"
  by (auto simp: waits_nest split: if_splits)

lemma digits_loop:
  assumes "\<forall>c \<in> set rest. c \<in> set ''0123456789''" "2 < n" "length rest < m"
    and "tail = [] \<or> of_char (hd tail) < (128 :: nat) \<and> hd tail \<notin> set ''0123456789''"
  shows "run_parser (spec_ops n) (length rest + 3 + k) (pre @ c # rest @ tail) (length pre + 1)
      (digits_at m (length pre) pre) (Some (RegexCharInDigit (length pre), [c]), waits (digits_at m (length pre) pre)) =
    Inr (Inr (VString (pre @ c # rest)))"
  using assms(1,3)
proof (induction rest arbitrary: pre c m)
  case Nil
  let ?i = "length pre + 1" and ?str = "pre @ c # [] @ tail"
  obtain m' where m: "m = Suc m'" using Nil.prems by (cases m) auto
  note nx = digits_at_next [OF assms(2), of ?i "length pre" c m' pre]
  note last = digits_at_last [where n = n and s = ?i and m = m' and i = ?i and ds = pre and c = c]
  have e: "EmptyString \<in># waits (digits_at m' ?i (pre @ [c]))" by (simp add: waits_nest)
  show ?case
  proof (cases tail)
    case Nil
    from run_at_end [OF nx _ e last, of ?str "Suc k"] Nil m show ?thesis
      by (simp add: finished_def numeral_3_eq_3)
  next
    case (Cons t ts)
    then have t: "?str ! ?i = t" "?i < length ?str" by (simp_all add: nth_append)
    have "\<not> reason_matches ?str ?i q" if "q \<in># waits (digits_at m' ?i (pre @ [c]))" for q
      using waits_digits_at [OF that] assms(4) Cons t(1) by auto
    from run_empty [OF nx t(2) _ e this, of "Suc (Suc k)"] t(1) Cons assms(4)
    have "run_parser (spec_ops n) (Suc (Suc (Suc k))) ?str ?i (digits_at m (length pre) pre)
        (Some (RegexCharInDigit (length pre), [c]), waits (digits_at m (length pre) pre)) =
      run_parser (spec_ops n) (Suc (Suc k)) ?str ?i (digits_at m' ?i (pre @ [c]))
        (Some (EmptyString, []), waits (digits_at m' ?i (pre @ [c])))"
      unfolding m by simp
    also have "\<dots> = Inr (finished (Inr (VString (pre @ [c]))))" by (rule run_ready [OF last])
    finally show ?thesis by (simp add: finished_def numeral_3_eq_3)
  qed
next
  case (Cons d rest)
  let ?i = "length pre + 1" and ?str = "pre @ c # (d # rest) @ tail"
  obtain m' where m: "m = Suc m'" using Cons.prems by (cases m) auto
  note nx = digits_at_next [OF assms(2), of ?i "length pre" c m' pre]
  have t: "?str ! ?i = d" "?i < length ?str" by (simp_all add: nth_append)
  have d: "d \<in> set ''0123456789''" using Cons.prems by simp
  have w: "RegexCharInDigit ?i \<in># waits (digits_at m' ?i (pre @ [c]))" by (simp add: waits_nest)
  have a: "of_char (?str ! ?i) < (128 :: nat)" using digit_ascii [OF d] t(1) by simp
  have mt: "reason_matches ?str ?i (RegexCharInDigit ?i)" using d t(1) by simp
  have un: "q = RegexCharInDigit ?i" if "q \<in># waits (digits_at m' ?i (pre @ [c]))" "reason_matches ?str ?i q" for q
    using waits_digits_at [OF that(1)] that(2) by auto
  have rs: "response_for (RegexCharInDigit ?i) [?str ! ?i] ?i = ([d], ?i + 1)"
    using t(1) by (simp add: response_for_def)
  have "run_parser (spec_ops n) (Suc (length rest + 3 + k)) ?str ?i (digits_at m (length pre) pre)
        (Some (RegexCharInDigit (length pre), [c]), waits (digits_at m (length pre) pre)) =
      run_parser (spec_ops n) (length rest + 3 + k) ?str (?i + 1) (digits_at m' ?i (pre @ [c]))
        (Some (RegexCharInDigit ?i, [d]), waits (digits_at m' ?i (pre @ [c])))"
    unfolding m by (rule run_normal [OF nx t(2) a w mt un rs])
  also have "\<dots> = Inr (Inr (VString ((pre @ [c]) @ d # rest)))"
    using Cons.IH [of m' "pre @ [c]" d] Cons.prems m by simp
  finally show ?case by (simp add: ac_simps)
qed

text \<open>A number's digits are parsed completely.  On a non-empty run of digits that ends the input or
  is followed by any other ASCII character, \<open>parse_digits\<close> under \<open>run_parser\<close> returns exactly these digits; fuel
  that grows with their number suffices, so the parser returns.\<close>

theorem digits_parsed:
  assumes lib: "documented lib" and "ds \<noteq> []" "\<forall>c \<in> set ds. c \<in> set ''0123456789''" "length ds < m" "length ds + 3 \<le> k"
    and "tail = [] \<or> of_char (hd tail) < (128 :: nat) \<and> hd tail \<notin> set ''0123456789''"
  shows "parse_input lib k (ds @ tail) (parse_digits m) = Inr (Inr (VString ds))"
proof -
  obtain c rest where ds: "ds = c # rest" using assms(2) by (cases ds) auto
  obtain m' where m: "m = Suc m'" "length rest < m'" using assms(4) ds by (cases m) auto
  obtain k' where k: "k = Suc (length rest + 3 + k')" using assms(5) ds by (auto simp: le_iff_add)
  let ?str = "[] @ c # rest @ tail" and ?f = "digits_at m' 0 []"
  have st: "polls 1024 0 None (parse_digits m) {#} Pending ?f None"
    unfolding m(1) using digits_start [of "{#}" 1024 0 m'] by simp
  have d: "c \<in> set ''0123456789''" using assms(3) ds by simp
  have "run_parser (spec_ops 1024) k ?str 0 (parse_digits m) (None, waits (parse_digits m)) =
      run_parser (spec_ops 1024) (length rest + 3 + k') ?str 1 ?f (Some (RegexCharInDigit 0, [c]), waits ?f)"
    unfolding k by (rule run_normal [OF st]) (use d digit_ascii [OF d] in \<open>auto simp: response_for_def\<close>)
  also have "\<dots> = Inr (Inr (VString ([] @ c # rest)))"
    using digits_loop [of rest 1024 m' tail k' "[]" c] assms(3,6) ds m(2) by simp
  finally show ?thesis by (simp add: parse_input_spec [OF lib] ds fresh_waits)
qed

theorem digits_parsed_witness:
  "parse_input in_order 20 ''123.5'' (parse_digits 9) = Inr (Inr (VString ''123''))"
  using digits_parsed [of in_order "''123''" 9 20 "''.5''"] by simp

end
