(* ===== verification/Json_Strings.thy ===== *)
theory Json_Strings
  imports Json_Properties
begin

text \<open>
  The strings of the JSON parser: a quoted string of plain and escaped characters is parsed to the
  characters it stands for, and a \<open>\u\<close> escape is rejected.
\<close>

section \<open>The parser inside a string\<close>

definition any_k :: "async_runtime_error + string \<Rightarrow> parser" where
  "any_k = (\<lambda>r. case r of Inl e \<Rightarrow> Return (Inl e) | Inr str \<Rightarrow> ok_char (str_to_char str))"

definition esc_k :: "async_runtime_error + string \<Rightarrow> parser" where
  "esc_k = (\<lambda>r. case r of Inl e \<Rightarrow> Return (Inl e) | Inr str \<Rightarrow> ok_char (str_to_char (escaped str)))"

definition slash_k :: "nat \<Rightarrow> async_runtime_error + string \<Rightarrow> parser" where
  "slash_k i = (\<lambda>r. case r of Inl e \<Rightarrow> Return (Inl e)
     | Inr _ \<Rightarrow> Await (NpfStart (RegexEscapedCharAfterSlash (i + 1))) esc_k)"

definition hex_k :: "nat \<Rightarrow> async_runtime_error + string \<Rightarrow> parser" where
  "hex_k i = (\<lambda>r. case r of Inl e \<Rightarrow> Return (Inl e) | Inr _ \<Rightarrow>
     new_future (LiteralHexEscapeChar (i + 1)) (\<lambda>_.
     new_future (RegexCharInHex (i + 2)) (\<lambda>hex1.
     new_future (RegexCharInHex (i + 3)) (\<lambda>hex2.
     new_future (RegexCharInHex (i + 4)) (\<lambda>hex3.
     new_future (RegexCharInHex (i + 5)) (\<lambda>hex4.
       let hex_str = ''0x'' @ hex1 @ hex2 @ hex3 @ hex4
       in case u32_from_hex hex_str of
            None \<Rightarrow> Panic
          | Some hex_val \<Rightarrow> ok_char (char_from_u32 hex_val)))))))"

definition chr_K :: "string \<Rightarrow> async_runtime_error + parsed \<Rightarrow> parser" where
  "chr_K c = (\<lambda>r. case r of Inl e \<Rightarrow> Return (Inl e)
     | Inr v \<Rightarrow> (case v of VChars l \<Rightarrow> ok (VChars (l @ [c])) | _ \<Rightarrow> Panic))"

definition chr_E :: "async_runtime_error + string \<Rightarrow> parser" where
  "chr_E = (\<lambda>r. case r of Inl e \<Rightarrow> Return (Inl e) | Inr _ \<Rightarrow> ok (VChars []))"

definition chr_next :: "nat \<Rightarrow> async_runtime_error + parsed \<Rightarrow> parser" where
  "chr_next m = (\<lambda>r. case r of Inl e \<Rightarrow> Return (Inl e)
     | Inr v \<Rightarrow> (case v of VChar c \<Rightarrow> Bind (parse_characters_reversed m) (chr_K c) | _ \<Rightarrow> Panic))"

definition end_k :: "string \<Rightarrow> async_runtime_error + string \<Rightarrow> parser" where
  "end_k str = (\<lambda>r. case r of Inl e \<Rightarrow> Return (Inl e) | Inr _ \<Rightarrow> ok (VString str))"

definition str_end :: "async_runtime_error + parsed \<Rightarrow> parser" where
  "str_end = (\<lambda>r. case r of Inl e \<Rightarrow> Return (Inl e)
     | Inr v \<Rightarrow> (case v of
         VChars l \<Rightarrow> Act id (\<lambda>i. Await (NpfStart (LiteralStringEnd i)) (end_k (concat (rev l))))
       | _ \<Rightarrow> Panic))"

definition str_begin :: "nat \<Rightarrow> async_runtime_error + string \<Rightarrow> parser" where
  "str_begin m = (\<lambda>r. case r of Inl e \<Rightarrow> Return (Inl e) | Inr _ \<Rightarrow> Bind (parse_characters_reversed m) str_end)"

lemma parse_character_form:
  "parse_character = Act id (\<lambda>i. Or (Await (NpfStart (RegexCharAnyExceptQuoteOrSlash i)) any_k)
     (Or (Await (NpfStart (LiteralSlash i)) (slash_k i)) (Await (NpfStart (LiteralSlash i)) (hex_k i))))"
  unfolding parse_character_def at_offset_def new_future_def any_k_def esc_k_def slash_k_def hex_k_def ..

lemma parse_characters_Suc:
  "parse_characters_reversed (Suc m) =
     Or (Bind parse_character (chr_next m)) (Await (NpfStart EmptyString) chr_E)"
  unfolding parse_characters_reversed.simps new_future_def try_char_def try_chars_def Try_def
    chr_next_def chr_K_def chr_E_def ..

lemma parse_string_form:
  "parse_string m = Act id (\<lambda>i. Await (NpfStart (LiteralStringStart i)) (str_begin m))"
  unfolding parse_string_def at_offset_def new_future_def try_chars_def Try_def str_begin_def str_end_def
    end_k_def Let_def ..

declare parse_characters_reversed.simps(2) [simp del]

lemma fresh_ok_char: "fresh (ok_char c)"
  by (simp add: ok_char_def ok_def split: option.split)

lemma fresh_conts [simp]:
  "fresh (any_k r)" "fresh (esc_k r)" "fresh (slash_k i r)" "fresh (chr_K c p)" "fresh (chr_E r)"
  "fresh (end_k str r)" "fresh (str_end p)"
  by (auto simp: any_k_def esc_k_def slash_k_def chr_K_def chr_E_def end_k_def str_end_def ok_def
      fresh_ok_char split: sum.split parsed.split)

lemma fresh_hex_k [simp]: "fresh (hex_k i r)"
  by (auto simp: hex_k_def new_future_def Let_def fresh_ok_char split: sum.split option.split)

lemma fresh_chr_next: "fresh (parse_characters_reversed m) \<Longrightarrow> fresh (chr_next m p)"
  by (auto simp: chr_next_def split: sum.split parsed.split)

lemma fresh_characters [simp]: "fresh (parse_characters_reversed m)"
  by (induction m) (simp_all add: parse_characters_Suc parse_character_form fresh_chr_next)

lemma fresh_str_begin [simp]: "fresh (str_begin m r)"
  by (auto simp: str_begin_def split: sum.split)

section \<open>Waiting for a character\<close>

definition char_wait :: "nat \<Rightarrow> parser" where
  "char_wait i = Or (Await (NpfWait (RegexCharAnyExceptQuoteOrSlash i)) any_k)
     (Or (Await (NpfWait (LiteralSlash i)) (slash_k i)) (Await (NpfWait (LiteralSlash i)) (hex_k i)))"

definition esc_wait :: "nat \<Rightarrow> parser" where
  "esc_wait i = Or (Await (NpfWait (RegexCharAnyExceptQuoteOrSlash i)) any_k)
     (Or (Await (NpfWait (RegexEscapedCharAfterSlash (i + 1))) esc_k) (Await (NpfWait (LiteralSlash i)) (hex_k i)))"

definition chars_wait :: "nat \<Rightarrow> parser \<Rightarrow> parser" where
  "chars_wait m f = Or (Bind f (chr_next m)) (Await (NpfWait EmptyString) chr_E)"

definition in_str :: "nat \<Rightarrow> parser \<Rightarrow> string list \<Rightarrow> parser" where
  "in_str m f cs = Bind (nest chr_K (\<lambda>_. chr_E) (chars_wait m f) cs) str_end"

lemma room:
  assumes "set_mset M \<subseteq> set xs" "length xs < n"
  shows "card (set_mset M) < n"
  using card_mono [OF _ assms(1)] card_length [of xs] assms(2) by simp

lemma char_wait_start:
  assumes "set_mset M \<subseteq> {EmptyString}" "8 < n"
  shows "polls n i None parse_character M Pending (char_wait i) None"
proof -
  have r: "card (set_mset M') < n" if "set_mset M' \<subseteq> set [EmptyString, RegexCharAnyExceptQuoteOrSlash i, LiteralSlash i]" for M'
    by (rule room [OF that]) (use assms in simp)
  have "polls n i None (Or (Await (NpfStart (LiteralSlash i)) (slash_k i)) (Await (NpfStart (LiteralSlash i)) (hex_k i)))
      ({#RegexCharAnyExceptQuoteOrSlash i#} + M) Pending
      (Or (Await (NpfWait (LiteralSlash i)) (slash_k i)) (Await (NpfWait (LiteralSlash i)) (hex_k i))) None"
    by (rule polls_or_pending [where ?u1.0 = None]; rule polls_start [OF disjI2]; (rule r)?)
      (use assms(1) in auto)
  then have "polls n i None (Or (Await (NpfStart (RegexCharAnyExceptQuoteOrSlash i)) any_k)
     (Or (Await (NpfStart (LiteralSlash i)) (slash_k i)) (Await (NpfStart (LiteralSlash i)) (hex_k i)))) M Pending
     (char_wait i) None"
    unfolding char_wait_def
    by (intro polls_or_pending [where ?u1.0 = None] polls_start [OF disjI2] r) (use assms(1) in auto)
  then show ?thesis unfolding parse_character_form by (intro polls_act) auto
qed

lemma chars_wait_start:
  assumes "set_mset M \<subseteq> {EmptyString}" "8 < n"
  shows "polls n i None (parse_characters_reversed (Suc m)) M Pending (chars_wait m (char_wait i)) None"
proof -
  have "set_mset (waits (char_wait i) + M) \<subseteq> set [EmptyString, RegexCharAnyExceptQuoteOrSlash i, LiteralSlash i]"
    using assms(1) by (auto simp: char_wait_def)
  then have "card (set_mset (waits (char_wait i) + M)) < n" by (rule room) (use assms(2) in simp)
  then show ?thesis unfolding parse_characters_Suc chars_wait_def using char_wait_start [OF assms, of i]
    by (intro polls_or_pending [where ?u1.0 = None] polls_bind_pending polls_start) auto
qed

lemma char_plain: "polls n s (Some (RegexCharAnyExceptQuoteOrSlash i, [c])) (char_wait i) M (Ready (Inr (VChar [c]))) Finished None"
  unfolding char_wait_def
  by (intro polls_or_first polls_hit) (auto simp: any_k_def ok_char_def ok_def str_to_char_def intro: polls_return)

lemma char_slash:
  assumes "set_mset M \<subseteq> {EmptyString}" "8 < n"
  shows "polls n s (Some (LiteralSlash i, v)) (char_wait i) M Pending (esc_wait i) None"
proof -
  have "set_mset ({#LiteralSlash i#} + ({#RegexCharAnyExceptQuoteOrSlash i#} + M)) \<subseteq>
      set [EmptyString, RegexCharAnyExceptQuoteOrSlash i, LiteralSlash i]" using assms(1) by auto
  then have "card (set_mset ({#LiteralSlash i#} + ({#RegexCharAnyExceptQuoteOrSlash i#} + M))) < n"
    by (rule room) (use assms(2) in simp)
  then have "polls n s (Some (LiteralSlash i, v)) (Await (NpfWait (LiteralSlash i)) (slash_k i))
      ({#LiteralSlash i#} + ({#RegexCharAnyExceptQuoteOrSlash i#} + M)) Pending
      (Await (NpfWait (RegexEscapedCharAfterSlash (i + 1))) esc_k) None"
    by (intro polls_hit) (auto simp: slash_k_def intro!: polls_start)
  then show ?thesis unfolding char_wait_def esc_wait_def
    by (intro polls_or_pending [where ?u1.0 = "Some (LiteralSlash i, v)"] polls_or_pending [where ?u1.0 = None] polls_wait) auto
qed

lemma escaped_single: "str_to_char (escaped [c]) = Some (escaped [c])"
  by (simp add: escaped_def str_to_char_def)

lemma char_escape:
  "polls n s (Some (RegexEscapedCharAfterSlash (i + 1), [c])) (esc_wait i) M (Ready (Inr (VChar (escaped [c])))) Finished None"
  unfolding esc_wait_def
  by (rule polls_or_second [OF polls_wait polls_or_first [OF polls_hit]])
    (auto simp: esc_k_def ok_char_def ok_def escaped_single intro: polls_return)

lemma waits_char: "waits (char_wait i) = {#RegexCharAnyExceptQuoteOrSlash i, LiteralSlash i, LiteralSlash i#}"
  "waits (esc_wait i) = {#RegexCharAnyExceptQuoteOrSlash i, RegexEscapedCharAfterSlash (i + 1), LiteralSlash i#}"
  by (simp_all add: char_wait_def esc_wait_def)

lemma blocked_char: "blocked (char_wait i)" "blocked (esc_wait i)"
  by (simp_all add: char_wait_def esc_wait_def)

lemma chars_item:
  assumes "polls n s u f ({#EmptyString#} + M) (Ready (Inr (VChar c))) Finished None"
    and "set_mset M \<subseteq> {EmptyString}" "8 < n"
  shows "polls n s u (chars_wait (Suc m) f) M Pending
    (nest chr_K (\<lambda>_. chr_E) (chars_wait m (char_wait s)) [c]) None"
proof -
  have "polls n s None (chr_next (Suc m) (Inr (VChar c))) ({#EmptyString#} + M) Pending
      (Bind (chars_wait m (char_wait s)) (chr_K c)) None"
    using chars_wait_start [of "{#EmptyString#} + M" n s m] assms(2,3)
    by (simp add: chr_next_def polls_bind_pending)
  then have "polls n s u (Bind f (chr_next (Suc m))) ({#EmptyString#} + M) Pending
      (Bind (chars_wait m (char_wait s)) (chr_K c)) None"
    by (rule polls_bind_ready [OF assms(1)]) (simp add: fresh_chr_next)
  then show ?thesis unfolding chars_wait_def by (auto intro!: polls_or_pending polls_wait)
qed

lemma chars_end:
  assumes "blocked f" "EmptyString \<notin># waits f"
  shows "polls n s (Some (EmptyString, [])) (chars_wait m f) M (Ready (Inr (VChars []))) Finished None"
  unfolding chars_wait_def
  by (rule polls_or_second [OF polls_bind_pending [OF polls_blocked] polls_hit])
    (use assms in \<open>auto simp: chr_E_def ok_def intro: polls_return\<close>)

lemma in_str_item:
  assumes "\<And>M. polls n s u f M (Ready (Inr (VChar c))) Finished None" "8 < n"
  shows "polls n s u (in_str (Suc m) f cs) {#} Pending (in_str m (char_wait s) (cs @ [c])) None"
proof -
  have "polls n s u (nest chr_K (\<lambda>_. chr_E) (chars_wait (Suc m) f) cs) {#} Pending
      (nest chr_K (\<lambda>_. chr_E) (nest chr_K (\<lambda>_. chr_E) (chars_wait m (char_wait s)) [c]) cs) None"
    by (intro nest_pending chars_item assms) simp
  then show ?thesis unfolding in_str_def nest_append by (rule polls_bind_pending)
qed

lemma in_str_slash:
  assumes "8 < n"
  shows "polls n s (Some (LiteralSlash i, v)) (in_str m (char_wait i) cs) {#} Pending (in_str m (esc_wait i) cs) None"
proof -
  have "polls n s (Some (LiteralSlash i, v)) (chars_wait m (char_wait i)) M Pending (chars_wait m (esc_wait i)) None"
    if "set_mset M \<subseteq> {EmptyString}" for M
    unfolding chars_wait_def using char_slash [of "{#EmptyString#} + M" n s i v] that assms
    by (intro polls_or_pending [where ?u1.0 = None] polls_bind_pending polls_wait) auto
  then show ?thesis unfolding in_str_def by (intro polls_bind_pending nest_pending) simp
qed

lemma in_str_end:
  assumes "blocked f" "EmptyString \<notin># waits f" "8 < n"
  shows "polls n s (Some (EmptyString, [])) (in_str m f cs) {#} Pending
    (Await (NpfWait (LiteralStringEnd s)) (end_k (concat cs))) None"
proof -
  have "chr_K c (Inr (VChars l)) = Return (Inr (VChars (l @ [c])))" for c l by (simp add: chr_K_def ok_def)
  from nest_ready [where h = "\<lambda>l. Inr (VChars l)" and g = "\<lambda>c l. l @ [c]" and E = "\<lambda>_. chr_E" and xs = cs
      and M = "{#}", OF this chars_end [OF assms(1,2)]]
  have r: "polls n s (Some (EmptyString, [])) (nest chr_K (\<lambda>_. chr_E) (chars_wait m f) cs) {#}
      (Ready (Inr (VChars (foldr (\<lambda>c l. l @ [c]) cs [])))) Finished None" .
  have "foldr (\<lambda>c l. l @ [c]) cs [] = rev cs" by (induction cs) auto
  then have "polls n s None (str_end (Inr (VChars (foldr (\<lambda>c l. l @ [c]) cs [])))) {#} Pending
      (Await (NpfWait (LiteralStringEnd s)) (end_k (concat cs))) None"
    using assms(3) by (auto simp: str_end_def intro!: polls_act polls_start)
  then show ?thesis unfolding in_str_def by (rule polls_bind_ready [OF r]) simp
qed

lemma waits_in_str:
  "q \<in># waits (in_str m f cs) \<Longrightarrow> q \<in># waits f \<or> q = EmptyString" "EmptyString \<in># waits (in_str m f cs)"
  "q \<in># waits f \<Longrightarrow> q \<in># waits (in_str m f cs)"
  by (auto simp: in_str_def waits_nest chars_wait_def split: if_splits)

section \<open>Quoted strings\<close>

text \<open>A character of a quoted string: itself or an escape.\<close>

datatype str_item = Plain char | Escape char

fun item_ok :: "str_item \<Rightarrow> bool" where
  "item_ok (Plain c) \<longleftrightarrow> of_char c < (128 :: nat) \<and> c \<noteq> CHR 0x22 \<and> c \<noteq> CHR 0x5C"
| "item_ok (Escape c) \<longleftrightarrow> c \<in> set (CHR 0x22 # CHR 0x5C # ''/bfnrt'')"

fun item_text :: "str_item \<Rightarrow> string" where
  "item_text (Plain c) = [c]"
| "item_text (Escape c) = [CHR 0x5C, c]"

fun item_char :: "str_item \<Rightarrow> string" where
  "item_char (Plain c) = [c]"
| "item_char (Escape c) = escaped [c]"

definition at_char :: "nat \<Rightarrow> nat \<Rightarrow> nat \<Rightarrow> string list \<Rightarrow> (json_parser_yield_reason \<times> string) option \<Rightarrow> parser \<Rightarrow> bool" where
  "at_char n m i cs u f \<longleftrightarrow> polls n i u f {#} Pending (in_str m (char_wait i) cs) None"

lemma plain_round:
  assumes "at_char n (Suc m) i cs u f" "8 < n" "drop i str = c # rest" "item_ok (Plain c)"
  shows "\<exists>u' f'. run_parser (spec_ops n) (Suc k) str i f (u, waits f) =
      run_parser (spec_ops n) k str (i + 1) f' (u', waits f') \<and> at_char n m (i + 1) (cs @ [[c]]) u' f'"
proof -
  let ?f = "in_str (Suc m) (char_wait i) cs" and ?r = "RegexCharAnyExceptQuoteOrSlash i"
  have i: "i < length str" "str ! i = c" using assms(3) by (auto simp: nth_via_drop intro: ccontr)
  have "run_parser (spec_ops n) (Suc k) str i f (u, waits f) =
      run_parser (spec_ops n) k str (i + 1) ?f (Some (?r, [c]), waits ?f)"
    by (rule run_normal [OF assms(1) [unfolded at_char_def] i(1), where r = ?r])
      (use i(2) assms(4) in \<open>auto simp: waits_char response_for_def intro!: waits_in_str(3) dest!: waits_in_str(1)\<close>)
  moreover have "at_char n m (i + 1) (cs @ [[c]]) (Some (?r, [c])) ?f"
    unfolding at_char_def by (intro in_str_item char_plain assms(2))
  ultimately show ?thesis by blast
qed

lemma slash_round:
  assumes "at_char n m i cs u f" "8 < n" "drop i str = CHR 0x5C # rest"
  shows "\<exists>u' f'. run_parser (spec_ops n) (Suc k) str i f (u, waits f) =
      run_parser (spec_ops n) k str (i + 1) f' (u', waits f') \<and>
      polls n (i + 1) u' f' {#} Pending (in_str m (esc_wait i) cs) None"
proof -
  let ?f = "in_str m (char_wait i) cs" and ?r = "LiteralSlash i"
  have i: "i < length str" "str ! i = CHR 0x5C" using assms(3) by (auto simp: nth_via_drop intro: ccontr)
  have "run_parser (spec_ops n) (Suc k) str i f (u, waits f) =
      run_parser (spec_ops n) k str (i + 1) ?f (Some (?r, [CHR 0x5C]), waits ?f)"
    by (rule run_normal [OF assms(1) [unfolded at_char_def] i(1), where r = ?r])
      (use i(2) in \<open>auto simp: waits_char response_for_def intro!: waits_in_str(3) dest!: waits_in_str(1)\<close>)
  then show ?thesis using in_str_slash [OF assms(2)] by blast
qed

lemma escape_round:
  assumes "polls n (i + 1) u f {#} Pending (in_str (Suc m) (esc_wait i) cs) None" "8 < n"
    and "drop (i + 1) str = c # rest" "item_ok (Escape c)"
  shows "\<exists>u' f'. run_parser (spec_ops n) (Suc k) str (i + 1) f (u, waits f) =
      run_parser (spec_ops n) k str (i + 2) f' (u', waits f') \<and> at_char n m (i + 2) (cs @ [escaped [c]]) u' f'"
proof -
  let ?f = "in_str (Suc m) (esc_wait i) cs" and ?r = "RegexEscapedCharAfterSlash (i + 1)"
  have i: "i + 1 < length str" "str ! (i + 1) = c" using assms(3) by (auto simp: nth_via_drop intro: ccontr)
  have "run_parser (spec_ops n) (Suc k) str (i + 1) f (u, waits f) =
      run_parser (spec_ops n) k str (i + 2) ?f (Some (?r, [c]), waits ?f)"
    by (rule run_normal [OF assms(1) i(1), where r = ?r])
      (use i(2) assms(4) in \<open>auto simp: waits_char response_for_def intro!: waits_in_str(3) dest!: waits_in_str(1)\<close>)
  moreover have "at_char n m (i + 2) (cs @ [escaped [c]]) (Some (?r, [c])) ?f"
    unfolding at_char_def by (intro in_str_item char_escape assms(2))
  ultimately show ?thesis by blast
qed

lemma drop_next: "drop i str = c # rest \<Longrightarrow> drop (i + 1) str = rest"
  by (metis drop_drop drop_Suc_Cons drop_0 Suc_eq_plus1 add.commute One_nat_def)

abbreviation items_text :: "str_item list \<Rightarrow> string" where
  "items_text xs \<equiv> concat (map item_text xs)"

lemma items_run:
  assumes "8 < n"
  shows "at_char n (length xs + m) i cs u f \<Longrightarrow> \<forall>x \<in> set xs. item_ok x \<Longrightarrow> drop i str = items_text xs @ rest \<Longrightarrow>
    \<exists>u' f'. run_parser (spec_ops n) (length (items_text xs) + k) str i f (u, waits f) =
        run_parser (spec_ops n) k str (i + length (items_text xs)) f' (u', waits f') \<and>
      at_char n m (i + length (items_text xs)) (cs @ map item_char xs) u' f'"
proof (induction xs arbitrary: i cs u f)
  case Nil
  then show ?case by auto
next
  case (Cons x xs)
  let ?k = "length (items_text xs) + k"
  have ok: "item_ok x" "\<forall>x \<in> set xs. item_ok x" using Cons.prems(2) by auto
  show ?case
  proof (cases x)
    case (Plain c)
    have d: "drop i str = c # items_text xs @ rest" using Cons.prems(3) Plain by simp
    obtain u1 f1 where 1: "run_parser (spec_ops n) (Suc ?k) str i f (u, waits f) =
        run_parser (spec_ops n) ?k str (i + 1) f1 (u1, waits f1)"
      "at_char n (length xs + m) (i + 1) (cs @ [[c]]) u1 f1"
      using plain_round [OF _ assms d, of "length xs + m" cs u f ?k] Cons.prems(1) ok(1) Plain by auto
    have "drop (i + 1) str = items_text xs @ rest" by (rule drop_next [OF d])
    from Cons.IH [OF 1(2) ok(2) this] 1(1) Plain show ?thesis by (simp add: add.assoc)
  next
    case (Escape c)
    have d: "drop i str = CHR 0x5C # c # items_text xs @ rest" using Cons.prems(3) Escape by simp
    obtain u1 f1 where 1: "run_parser (spec_ops n) (Suc (Suc ?k)) str i f (u, waits f) =
        run_parser (spec_ops n) (Suc ?k) str (i + 1) f1 (u1, waits f1)"
      "polls n (i + 1) u1 f1 {#} Pending (in_str (Suc (length xs + m)) (esc_wait i) cs) None"
      using slash_round [OF _ assms d, of "Suc (length xs + m)" cs u f "Suc ?k"] Cons.prems(1) by auto
    have d1: "drop (i + 1) str = c # items_text xs @ rest" by (rule drop_next [OF d])
    obtain u2 f2 where 2: "run_parser (spec_ops n) (Suc ?k) str (i + 1) f1 (u1, waits f1) =
        run_parser (spec_ops n) ?k str (i + 2) f2 (u2, waits f2)"
      "at_char n (length xs + m) (i + 2) (cs @ [escaped [c]]) u2 f2"
      using escape_round [OF 1(2) assms d1, of ?k] ok(1) Escape by auto
    have "drop (i + 2) str = items_text xs @ rest" using drop_next [OF d1] by simp
    from Cons.IH [OF 2(2) ok(2) this] 1(1) 2(1) Escape show ?thesis by (simp add: add.assoc)
  qed
qed

lemma string_start:
  assumes "8 < n" "str = CHR 0x22 # body"
  shows "\<exists>u f. run_parser (spec_ops n) (Suc k) str 0 (parse_string (Suc m)) (None, {#}) =
      run_parser (spec_ops n) k str 1 f (u, waits f) \<and> at_char n m 1 [] u f"
proof -
  let ?r = "LiteralStringStart 0" and ?f = "Await (NpfWait (LiteralStringStart 0)) (str_begin (Suc m))"
  have st: "polls n 0 None (parse_string (Suc m)) {#} Pending ?f None"
    unfolding parse_string_form using assms(1) by (intro polls_act polls_start) auto
  have "run_parser (spec_ops n) (Suc k) str 0 (parse_string (Suc m)) (None, waits (parse_string (Suc m))) =
      run_parser (spec_ops n) k str 1 ?f (Some (?r, [CHR 0x22]), waits ?f)"
    by (rule run_normal [OF st, where r = ?r]) (auto simp: assms(2) response_for_def)
  moreover have "polls n 1 None (Bind (parse_characters_reversed (Suc m)) str_end) {#} Pending (in_str m (char_wait 1) []) None"
    unfolding in_str_def using chars_wait_start [of "{#}" n 1 m] assms(1) by (auto intro: polls_bind_pending)
  then have "at_char n m 1 [] (Some (?r, [CHR 0x22])) ?f"
    unfolding at_char_def by (intro polls_hit) (auto simp: str_begin_def)
  moreover have "waits (parse_string (Suc m)) = {#}" by (simp add: parse_string_form)
  ultimately show ?thesis by metis
qed

lemma string_close:
  assumes "at_char n m i cs u f" "8 < n" "drop i str = CHR 0x22 # rest"
  shows "run_parser (spec_ops n) (Suc (Suc (Suc k))) str i f (u, waits f) = Inr (Inr (VString (concat cs)))"
proof -
  let ?f = "in_str m (char_wait i) cs" and ?g = "Await (NpfWait (LiteralStringEnd i)) (end_k (concat cs))"
  have i: "i < length str" "str ! i = CHR 0x22" using assms(3) by (auto simp: nth_via_drop intro: ccontr)
  have "run_parser (spec_ops n) (Suc (Suc (Suc k))) str i f (u, waits f) =
      run_parser (spec_ops n) (Suc (Suc k)) str i ?f (Some (EmptyString, []), waits ?f)"
    by (rule run_empty [OF assms(1) [unfolded at_char_def] i(1)])
      (use i(2) in \<open>auto simp: waits_char waits_in_str(2) dest!: waits_in_str(1)\<close>)
  also have "\<dots> = run_parser (spec_ops n) (Suc k) str (i + 1) ?g (Some (LiteralStringEnd i, [CHR 0x22]), waits ?g)"
    by (rule run_normal [OF in_str_end [OF blocked_char(1) _ assms(2)] i(1)])
      (use i(2) in \<open>auto simp: waits_char response_for_def\<close>)
  also have "\<dots> = Inr (finished (Inr (VString (concat cs))))"
    by (rule run_ready [where u' = None], rule polls_hit) (auto simp: end_k_def ok_def intro: polls_return)
  finally show ?thesis by (simp add: finished_def)
qed

lemma string_bad_escape:
  assumes "at_char n m i cs u f" "8 < n" "drop i str = CHR 0x5C # c # rest"
    and "of_char c < (128 :: nat)" "c \<notin> set (CHR 0x22 # CHR 0x5C # ''/bfnrt'')"
  shows "run_parser (spec_ops n) (Suc (Suc (Suc k))) str i f (u, waits f) =
    Inr (Inl (''Unexpected character: '' @ [c]))"
proof -
  let ?f = "in_str m (esc_wait i) cs" and ?g = "Await (NpfWait (LiteralStringEnd (i + 1))) (end_k (concat cs))"
  have "drop (i + 1) str = c # rest" by (rule drop_next [OF assms(3)])
  then have i: "i + 1 < length str" "str ! (i + 1) = c" by (auto simp: nth_via_drop intro: ccontr)
  obtain u1 f1 where 1: "run_parser (spec_ops n) (Suc (Suc (Suc k))) str i f (u, waits f) =
      run_parser (spec_ops n) (Suc (Suc k)) str (i + 1) f1 (u1, waits f1)"
    "polls n (i + 1) u1 f1 {#} Pending ?f None"
    using slash_round [OF assms(1,2,3), of "Suc (Suc k)"] by blast
  note 1(1)
  also have "run_parser (spec_ops n) (Suc (Suc k)) str (i + 1) f1 (u1, waits f1) =
      run_parser (spec_ops n) (Suc k) str (i + 1) ?f (Some (EmptyString, []), waits ?f)"
    by (rule run_empty [OF 1(2) i(1)])
      (use i(2) assms(4,5) in \<open>auto simp: waits_char waits_in_str(2) dest!: waits_in_str(1)\<close>)
  also have "\<dots> = Inr (Inl (''Unexpected character: '' @ [str ! (i + 1)]))"
    by (rule run_stuck [OF in_str_end [OF blocked_char(2) _ assms(2)] i(1)])
      (use i(2) assms(4,5) in \<open>auto simp: waits_char\<close>)
  finally show ?thesis using i(2) by simp
qed

lemma string_prefix:
  assumes "\<forall>x \<in> set xs. item_ok x" "length xs + 1 \<le> m" "str = CHR 0x22 # items_text xs @ rest" and lib: "documented lib"
  shows "\<exists>u f i m'. parse_input lib (Suc (length (items_text xs) + k)) str (parse_string m) =
      run_parser (spec_ops 1024) k str i f (u, waits f) \<and> drop i str = rest \<and>
      at_char 1024 m' i (map item_char xs) u f"
proof -
  obtain m' where m: "m = Suc (length xs + m')" using assms(2) by (auto simp: le_iff_add)
  obtain u f where 1: "parse_input lib (Suc (length (items_text xs) + k)) str (parse_string m) =
      run_parser (spec_ops 1024) (length (items_text xs) + k) str 1 f (u, waits f)"
    "at_char 1024 (length xs + m') 1 [] u f"
    using string_start [OF _ assms(3), of 1024 "length (items_text xs) + k" "length xs + m'"]
    unfolding parse_input_spec [OF lib] m by auto
  from items_run [OF _ 1(2) assms(1), of str rest k] obtain u' f' where
    "run_parser (spec_ops 1024) (length (items_text xs) + k) str 1 f (u, waits f) =
      run_parser (spec_ops 1024) k str (1 + length (items_text xs)) f' (u', waits f')"
    "at_char 1024 m' (1 + length (items_text xs)) ([] @ map item_char xs) u' f'"
    using assms(3) by auto
  moreover have "drop (1 + length (items_text xs)) str = rest" by (simp add: assms(3))
  ultimately show ?thesis using 1(1) by (metis append_Nil)
qed

lemma string_items_parsed:
  assumes "\<forall>x \<in> set xs. item_ok x" "length xs < m" "length (items_text xs) + 4 \<le> k" and lib: "documented lib"
  shows "parse_input lib k (CHR 0x22 # items_text xs @ CHR 0x22 # rest) (parse_string m) =
    Inr (Inr (VString (concat (map item_char xs))))"
proof -
  obtain k' where k: "k = Suc (length (items_text xs) + Suc (Suc (Suc k')))"
    using assms(3) by (auto simp: le_iff_add)
  show ?thesis unfolding k
    using string_prefix [OF assms(1) _ refl lib, where m = m and rest = "CHR 0x22 # rest" and k = "Suc (Suc (Suc k'))"] assms(2)
    by (auto simp: string_close)
qed

text \<open>The usual way to print a string as JSON.\<close>

definition json_item :: "char \<Rightarrow> str_item" where
  "json_item c =
     (if c = CHR 0x22 \<or> c = CHR 0x5C then Escape c
      else if c = CHR 0x08 then Escape (CHR ''b'')
      else if c = CHR 0x0C then Escape (CHR ''f'')
      else if c = CHR 0x0A then Escape (CHR ''n'')
      else if c = CHR 0x0D then Escape (CHR ''r'')
      else Plain c)"

definition json_quote :: "string \<Rightarrow> string" where
  "json_quote s = CHR 0x22 # items_text (map json_item s) @ [CHR 0x22]"

lemma item_char_json_item: "item_char (json_item c) = [c]"
  by (simp add: json_item_def escaped_def)

lemma item_ok_json_item: "of_char c < (128 :: nat) \<Longrightarrow> item_ok (json_item c)"
  by (simp add: json_item_def)



text \<open>The \<open>\u\<close> escapes of the grammar are not accepted.  Both alternatives for an escape wait for the
  same slash, and the response goes to the first: after any well-formed beginning of a string, a slash
  followed by a character that is not a one-letter escape, \<open>u\<close> included, is an unexpected character.\<close>

theorem hex_escape_rejected:
  assumes "\<forall>x \<in> set xs. item_ok x" "length xs < m" "length (items_text xs) + 4 \<le> k"
    and "of_char c < (128 :: nat)" "c \<notin> set (CHR 0x22 # CHR 0x5C # ''/bfnrt'')" and lib: "documented lib"
  shows "parse_input lib k (CHR 0x22 # items_text xs @ CHR 0x5C # c # rest) (parse_string m) =
    Inr (Inl (''Unexpected character: '' @ [c]))"
proof -
  obtain k' where k: "k = Suc (length (items_text xs) + Suc (Suc (Suc k')))"
    using assms(3) by (auto simp: le_iff_add)
  show ?thesis unfolding k
    using string_prefix [OF assms(1) _ refl lib, where m = m and rest = "CHR 0x5C # c # rest" and k = "Suc (Suc (Suc k'))"] assms(2,4,5)
    by (auto simp: string_bad_escape)
qed

theorem hex_escape_rejected_witness:
  "parse_input in_order 30 (CHR 0x22 # ''a'' @ CHR 0x5C # ''u0041'' @ [CHR 0x22]) (parse_string 9) =
    Inr (Inl ''Unexpected character: u'')"
  using hex_escape_rejected [of "[Plain (CHR ''a'')]" 9 30 "CHR ''u''" in_order "''0041'' @ [CHR 0x22]"] by simp

lemma tab_escape_lost: "parse_input in_order 30 [CHR 0x22, CHR 0x5C, CHR ''t'', CHR 0x22] (parse_string 9) = Inr (Inr (VString ''t''))"
  using string_items_parsed [of "[Escape (CHR ''t'')]" 9 30 in_order "[]"] by (simp add: escaped_def)

lemma non_ascii_panics:
  assumes "\<forall>x \<in> set xs. item_ok x" "length xs < m" "128 \<le> (of_char c :: nat)" and lib: "documented lib"
  shows "parse_input lib (Suc (length (items_text xs) + Suc k)) (CHR 0x22 # items_text xs @ c # rest) (parse_string m) = Inl Panicked"
proof -
  let ?str = "CHR 0x22 # items_text xs @ c # rest"
  obtain u f i m' where r: "parse_input lib (Suc (length (items_text xs) + Suc k)) ?str (parse_string m) =
      run_parser (spec_ops 1024) (Suc k) ?str i f (u, waits f)" "drop i ?str = c # rest"
    "at_char 1024 m' i (map item_char xs) u f"
    using string_prefix [OF assms(1) _ refl lib, where m = m and rest = "c # rest" and k = "Suc k"] assms(2) by auto
  have i: "i < length ?str" "?str ! i = c" using r(2) by (auto simp: nth_via_drop intro: ccontr)
  show ?thesis unfolding r(1) run_parser_Suc
    using i assms(3) step_pending [OF r(3) [unfolded at_char_def]] by (simp add: after_step_def single_char_def)
qed

end
