(* ===== verification/Http_Client.thy ===== *)
theory Http_Client
  imports Async_Programs Pocker_Cli "HOL-Library.Sublist"
begin

text \<open>
  The HTTP client of \<open>src/krsm/examples/http_openjev_client.rs\<close>: an asynchronous search through the paragraphs
  of a file, whose requests a worker thread answers in batches.  The environment variables, the file,
  the HTTP service and the order of a hash set are parameters; texts are ASCII.  The tickets are
  natural numbers: no run draws \<open>2^64\<close> of them.
\<close>

section \<open>Reasons and responses\<close>

datatype http_client_yield_reason =
    FuzzyMatchesParagraph nat
  | GenerateMatch nat
  | GenerateMatchFinalCheck nat
  | GenerateSkipKeyword nat
  | ReadFileIntoParagraphs nat

fun http_reason_key :: "http_client_yield_reason \<Rightarrow> nat \<times> nat" where
  "http_reason_key (FuzzyMatchesParagraph t) = (0, t)"
| "http_reason_key (GenerateMatch t) = (1, t)"
| "http_reason_key (GenerateMatchFinalCheck t) = (2, t)"
| "http_reason_key (GenerateSkipKeyword t) = (3, t)"
| "http_reason_key (ReadFileIntoParagraphs t) = (4, t)"

lemma http_reason_key_inject: "http_reason_key a = http_reason_key b \<longleftrightarrow> a = b"
  by (cases a; cases b) simp_all

instantiation http_client_yield_reason :: linorder
begin

definition less_eq_http_client_yield_reason :: "http_client_yield_reason \<Rightarrow> http_client_yield_reason \<Rightarrow> bool" where
  "less_eq_http_client_yield_reason a b \<longleftrightarrow> fst (http_reason_key a) < fst (http_reason_key b) \<or>
     fst (http_reason_key a) = fst (http_reason_key b) \<and> snd (http_reason_key a) \<le> snd (http_reason_key b)"

definition less_http_client_yield_reason :: "http_client_yield_reason \<Rightarrow> http_client_yield_reason \<Rightarrow> bool" where
  "less_http_client_yield_reason a b \<longleftrightarrow> fst (http_reason_key a) < fst (http_reason_key b) \<or>
     fst (http_reason_key a) = fst (http_reason_key b) \<and> snd (http_reason_key a) < snd (http_reason_key b)"

instance
  by standard
    (auto simp: less_eq_http_client_yield_reason_def less_http_client_yield_reason_def
      simp flip: http_reason_key_inject intro: prod_eqI)

end

datatype http_client_yield_response =
    FuzzyMatchesParagraphR bool
  | GenerateMatchR "string option"
  | GenerateMatchFinalCheckR bool
  | GenerateSkipKeywordR "string option"
  | ReadFileIntoParagraphsR "string list"

section \<open>The state machine\<close>

record http_client =
  hc_keyphrase :: string
  next_http_ticket :: nat
  curr_paragraph :: string
  curr_matches :: "string list"
  fuzzy_search_path :: string
  known_examples :: "string \<rightharpoonup> string list"

definition http_client_new :: "string \<Rightarrow> string \<Rightarrow> http_client" where
  "http_client_new keyphrase path =
     \<lparr>hc_keyphrase = keyphrase, next_http_ticket = 0, curr_paragraph = [], curr_matches = [],
      fuzzy_search_path = path, known_examples = Map.empty\<rparr>"

datatype http_value = HvMatches "string list" | HvExamples | HvResponse http_client_yield_response

type_synonym http_prog =
  "(http_client, http_client_yield_reason, http_client_yield_response, async_runtime_error + http_value) async_prog"

type_synonym http_lib =
  "(http_prog, http_client, async_runtime_error + http_value, (http_client_yield_reason, http_client_yield_response) runtime) futures_lite"

definition ticket :: "(nat \<Rightarrow> http_prog) \<Rightarrow> http_prog" where
  "ticket k = Act (\<lambda>s. s\<lparr>next_http_ticket := next_http_ticket s + 1\<rparr>) (\<lambda>s. k (next_http_ticket s))"

definition http_future :: "http_client_yield_reason \<Rightarrow> (http_client_yield_response \<Rightarrow> http_prog) \<Rightarrow> http_prog" where
  "http_future reason k = Await (NpfStart reason) (\<lambda>r. case r of Inl e \<Rightarrow> Return (Inl e) | Inr response \<Rightarrow> k response)"

definition http_response_future :: "http_client_yield_reason \<Rightarrow> http_prog" where
  "http_response_future reason = Await (NpfStart reason) (\<lambda>r. Return (map_sum id HvResponse r))"

text \<open>The loop of \<open>_generate_fuzzy_match\<close> runs as long as the service finds more matches; its rounds are
  the fuel.\<close>

definition generate_round :: "http_prog \<Rightarrow> http_prog" where
  "generate_round next_round =
     ticket (\<lambda>t. http_future (GenerateMatch t) (\<lambda>response.
       case response of
         GenerateMatchR str \<Rightarrow>
           Act (\<lambda>s. case str of Some str \<Rightarrow> s\<lparr>curr_matches := curr_matches s @ [str]\<rparr> | None \<Rightarrow> s) (\<lambda>_. next_round)
       | _ \<Rightarrow> Panic))"

primrec generate_fuzzy_match :: "nat \<Rightarrow> http_prog" where
  "generate_fuzzy_match 0 = Fuel"
| "generate_fuzzy_match (Suc n) =
     ticket (\<lambda>t. http_future (GenerateMatchFinalCheck t) (\<lambda>response.
       if response = GenerateMatchFinalCheckR True
       then Act (\<lambda>s. if 0 < length (curr_matches s) then s\<lparr>curr_matches := []\<rparr> else s) (\<lambda>s.
              if 0 < length (curr_matches s) then Return (Inr (HvMatches (curr_matches s)))
              else generate_round (generate_fuzzy_match n))
       else generate_round (generate_fuzzy_match n)))"

definition to_lowercase :: "string \<Rightarrow> string" where
  "to_lowercase s = map (\<lambda>c. let x = of_char c :: nat in if 65 \<le> x \<and> x \<le> 90 then char_of (x + 32) else c) s"

definition is_alphanumeric :: "char \<Rightarrow> bool" where
  "is_alphanumeric c =
     (let x = of_char c :: nat in 48 \<le> x \<and> x \<le> 57 \<or> 65 \<le> x \<and> x \<le> 90 \<or> 97 \<le> x \<and> x \<le> 122)"

definition is_skip :: "string list \<Rightarrow> string \<Rightarrow> bool" where
  "is_skip skip_words paragraph =
     list_ex (\<lambda>skip_word.
       let skip_word_lowercase = to_lowercase (trim skip_word)
       in 2 < length skip_word_lowercase \<and> sublist skip_word_lowercase (to_lowercase paragraph)) skip_words"

definition push_skip_word :: "string list \<Rightarrow> string option \<Rightarrow> string list" where
  "push_skip_word skip_words word =
     (case word of
        None \<Rightarrow> skip_words
      | Some word \<Rightarrow>
          (let skip_words = (if list_all is_alphanumeric word then skip_words @ [word] else skip_words)
           in if 10 < length skip_words then tl skip_words else skip_words))"

primrec scan_paragraphs :: "nat \<Rightarrow> string list \<Rightarrow> string list \<Rightarrow> http_prog" where
  "scan_paragraphs n [] skip_words = Return (Inr HvExamples)"
| "scan_paragraphs n (paragraph # paragraphs) skip_words =
     (if is_skip skip_words paragraph then scan_paragraphs n paragraphs skip_words
      else
        Act (\<lambda>s. s\<lparr>curr_paragraph := paragraph\<rparr>) (\<lambda>_.
        ticket (\<lambda>t1. ticket (\<lambda>t2.
          Zip (http_response_future (FuzzyMatchesParagraph t1)) None
              (http_response_future (GenerateSkipKeyword t2)) None
            (\<lambda>response1 response2.
               case response2 of
                 Inl e \<Rightarrow> Return (Inl e)
               | Inr response2 \<Rightarrow>
                   (let skip_words = (case response2 of
                        HvResponse (GenerateSkipKeywordR word) \<Rightarrow> push_skip_word skip_words word
                      | _ \<Rightarrow> skip_words)
                    in case response1 of
                         Inl e \<Rightarrow> Return (Inl e)
                       | Inr response1 \<Rightarrow>
                           (if response1 = HvResponse (FuzzyMatchesParagraphR True)
                            then Try (generate_fuzzy_match n) (\<lambda>v.
                                   case v of
                                     HvMatches matches \<Rightarrow>
                                       Act (\<lambda>s. s\<lparr>known_examples := (known_examples s)(paragraph \<mapsto> matches)\<rparr>)
                                         (\<lambda>_. scan_paragraphs n paragraphs skip_words)
                                   | _ \<Rightarrow> Panic)
                            else scan_paragraphs n paragraphs skip_words)))))))"

definition fuzzy_scan_file :: "nat \<Rightarrow> http_prog" where
  "fuzzy_scan_file n =
     ticket (\<lambda>t. http_future (ReadFileIntoParagraphs t) (\<lambda>response.
       case response of
         ReadFileIntoParagraphsR paragraphs \<Rightarrow> scan_paragraphs n paragraphs []
       | _ \<Rightarrow> Panic))"

section \<open>Reading the file\<close>

type_synonym http_batch = "(http_client_yield_reason \<times> http_client_yield_response option) option list"

datatype worker_fail = WorkerPanic | WorkerError string

text \<open>What the program takes from outside: \<open>he_iter\<close> is the order in which a hash set is walked.\<close>

record open_jev_question =
  oq_type :: string
  oq_instructions :: string
  oq_criteria :: "(string \<times> string) list"

record open_jev_request =
  or_state :: string
  or_model :: string
  or_questions :: "(string \<times> open_jev_question) list"

record http_env =
  he_var :: "string \<Rightarrow> string option"
  he_file :: "string \<Rightarrow> string option"
  he_post :: "string \<Rightarrow> string \<Rightarrow> open_jev_request \<Rightarrow> string + string"
  he_json :: "string \<Rightarrow> string + (string \<times> string) list"
  he_iter :: "string set \<Rightarrow> string list"

text \<open>\<open>BufRead::lines\<close>\<close>

definition strip_cr :: "string \<Rightarrow> string" where
  "strip_cr line = (if line \<noteq> [] \<and> last line = CHR 0x0D then butlast line else line)"

definition text_lines :: "string \<Rightarrow> string list" where
  "text_lines text =
     (let pieces = split_on (CHR 0x0A) text
      in map strip_cr (butlast pieces) @ (if last pieces = [] then [] else [last pieces]))"

fun paragraph_loop :: "string list \<Rightarrow> string list \<Rightarrow> string \<Rightarrow> string list" where
  "paragraph_loop [] paragraphs paragraph = paragraphs"
| "paragraph_loop (line # ls) paragraphs paragraph =
     (if length (trim line) = 0
      then paragraph_loop ls (if 0 < length (trim paragraph) then paragraphs @ [paragraph] else paragraphs) []
      else paragraph_loop ls paragraphs (paragraph @ '' '' @ trim line))"

fun std_fs_worker_fn :: "http_env \<Rightarrow> http_batch \<Rightarrow> string \<Rightarrow> worker_fail + http_batch" where
  "std_fs_worker_fn E [] read_path = Inr []"
| "std_fs_worker_fn E (None # batch) read_path =
     res_bind (std_fs_worker_fn E batch read_path) (\<lambda>batch. Inr (None # batch))"
| "std_fs_worker_fn E (Some (reason, result) # batch) read_path =
     res_bind
       (case reason of
          ReadFileIntoParagraphs _ \<Rightarrow>
            (case he_file E read_path of
               None \<Rightarrow> Inl WorkerPanic
             | Some text \<Rightarrow> Inr (Some (ReadFileIntoParagraphsR (paragraph_loop (text_lines text) [] []))))
        | _ \<Rightarrow> Inr result)
       (\<lambda>result. res_bind (std_fs_worker_fn E batch read_path) (\<lambda>batch. Inr (Some (reason, result) # batch)))"

section \<open>Requests\<close>

fun debug_char :: "char \<Rightarrow> string" where
  "debug_char c =
     (if c = CHR 0x22 then [CHR 0x5C, CHR 0x22]
      else if c = CHR 0x5C then [CHR 0x5C, CHR 0x5C]
      else if c = CHR 0x09 then CHR 0x5C # ''t''
      else if c = CHR 0x0A then CHR 0x5C # ''n''
      else if c = CHR 0x0D then CHR 0x5C # ''r''
      else if c = CHR 0x00 then CHR 0x5C # ''0''
      else if of_char c < (32 :: nat) \<or> of_char c = (127 :: nat)
        then CHR 0x5C # ''u{'' @ (let x = of_char c :: nat; d = x mod 16
          in (if x < 16 then [] else show_nat (x div 16)) @ [char_of (if d < 10 then 48 + d else 87 + d)]) @ ''}''
      else [c])"

definition debug_string :: "string \<Rightarrow> string" where
  "debug_string s = [CHR 0x22] @ concat (map debug_char s) @ [CHR 0x22]"

definition debug_strings :: "string list \<Rightarrow> string" where
  "debug_strings xs = ''['' @ join_with '', '' (map debug_string xs) @ '']''"

definition hash_insert :: "string \<Rightarrow> 'v \<Rightarrow> (string \<times> 'v) list \<Rightarrow> (string \<times> 'v) list" where
  "hash_insert k v m = (k, v) # filter (\<lambda>p. fst p \<noteq> k) m"

definition word_criteria :: "(string \<Rightarrow> string) \<Rightarrow> string list \<Rightarrow> (string \<times> string) list" where
  "word_criteria criterion words_list = map (\<lambda>i. (show_nat i, criterion (words_list ! i))) [0..<length words_list]"

definition question_for ::
  "http_client_yield_reason \<Rightarrow> string \<Rightarrow> string list \<Rightarrow> string list \<Rightarrow> (string \<times> open_jev_question) option" where
  "question_for reason keyphrase matches words_list =
     (case reason of
        FuzzyMatchesParagraph _ \<Rightarrow>
          Some (''FuzzyMatchesParagraph'',
            \<lparr>oq_type = ''choice'',
             oq_instructions = ''Does this text semantically mention the string: '' @ debug_string keyphrase,
             oq_criteria =
               [(''y'', ''Semantically, allowing typos and other spellings, yes, this is a match''),
                (''n'', ''Semantically, allowing typos and other spellings, no, this is not a match'')]\<rparr>)
      | GenerateMatch _ \<Rightarrow>
          Some (''GenerateMatch'',
            \<lparr>oq_type = ''choice'',
             oq_instructions = ''Find a word from the above text that matches the following phrase: '' @ debug_string keyphrase,
             oq_criteria = word_criteria
               (\<lambda>str. debug_string str @ '' would match meanings related to '' @ debug_string keyphrase) words_list\<rparr>)
      | GenerateMatchFinalCheck _ \<Rightarrow>
          Some (''GenerateMatchFinalCheck'',
            \<lparr>oq_type = ''choice'',
             oq_instructions = ''We want to find all words matching the phrase '' @ debug_string keyphrase @
               ''. Please confirm that the following list is a complete of matches from the text: '' @ debug_strings matches,
             oq_criteria =
               [(''y'', ''Yes, this is a complete match: '' @ debug_strings matches),
                (''n'', ''No, this is not complete. There are more matches than '' @ debug_strings matches)]\<rparr>)
      | GenerateSkipKeyword _ \<Rightarrow>
          Some (''GenerateSkipKeyword'',
            \<lparr>oq_type = ''choice'',
             oq_instructions =
               ''Find a word from the above text that is unlikely to match paragraphs related to: '' @ debug_string keyphrase,
             oq_criteria = hash_insert (show_nat (length words_list))
               (''Such word does not exist. Many of these words are somewhat related: '' @ debug_strings words_list)
               (word_criteria (\<lambda>str. debug_string str @ '' would likely show up never be related to '' @ debug_string keyphrase)
                  words_list)\<rparr>)
      | ReadFileIntoParagraphs _ \<Rightarrow> None)"

fun batch_questions ::
  "http_batch \<Rightarrow> string \<Rightarrow> string list \<Rightarrow> string list \<Rightarrow> (string \<times> open_jev_question) list \<Rightarrow>
   (string \<times> open_jev_question) list" where
  "batch_questions [] keyphrase matches words_list questions = questions"
| "batch_questions (item # batch) keyphrase matches words_list questions =
     batch_questions batch keyphrase matches words_list
       (case item of
          None \<Rightarrow> questions
        | Some (reason, _) \<Rightarrow>
            (case question_for reason keyphrase matches words_list of
               Some (name, question) \<Rightarrow> hash_insert name question questions
             | None \<Rightarrow> questions))"

definition http_request_batcher ::
  "http_env \<Rightarrow> http_batch \<Rightarrow> string \<Rightarrow> string \<Rightarrow> string list \<Rightarrow> string list \<Rightarrow> worker_fail + string option" where
  "http_request_batcher E batch paragraph keyphrase matches words_list =
     res_bind (ok_or (WorkerError ''environment variable not found'') (he_var E ''OPENJEV_URL'')) (\<lambda>url.
     res_bind (ok_or (WorkerError ''environment variable not found'') (he_var E ''OPENJEV_KEY'')) (\<lambda>key.
       let key_header = ''Bearer '' @ key;
           questions = batch_questions batch keyphrase matches words_list []
       in if length questions = 0 then Inr None
          else map_err WorkerError (map_sum id Some
                 (he_post E url key_header
                    \<lparr>or_state = paragraph, or_model = ''openjev-latest'', or_questions = questions\<rparr>))))"

section \<open>Responses\<close>

definition parse_usize :: "string \<Rightarrow> nat option" where
  "parse_usize str =
     (let digits = (case str of c # cs \<Rightarrow> if c = CHR ''+'' then cs else str | [] \<Rightarrow> str);
          v = foldl (\<lambda>n c. 10 * n + (of_char c - 48)) 0 digits
      in if digits \<noteq> [] \<and> list_all (\<lambda>c. c \<in> set ''0123456789'') digits \<and> v < 2 ^ 64 then Some v else None)"

definition answer_for ::
  "http_client_yield_reason \<Rightarrow> (string \<times> string) list \<Rightarrow> string list \<Rightarrow> http_client_yield_response option \<Rightarrow>
   http_client_yield_response option option" where
  "answer_for reason answers words_list result =
     (case reason of
        FuzzyMatchesParagraph _ \<Rightarrow>
          map_option (\<lambda>choice. Some (FuzzyMatchesParagraphR (choice = ''y''))) (map_of answers ''FuzzyMatchesParagraph'')
      | GenerateMatchFinalCheck _ \<Rightarrow>
          map_option (\<lambda>choice. Some (GenerateMatchFinalCheckR (choice = ''y''))) (map_of answers ''GenerateMatchFinalCheck'')
      | GenerateMatch _ \<Rightarrow>
          Option.bind (map_of answers ''GenerateMatch'') (\<lambda>choice.
          Option.bind (parse_usize choice) (\<lambda>idx.
            if idx < length words_list then Some (Some (GenerateMatchR (Some (words_list ! idx)))) else None))
      | GenerateSkipKeyword _ \<Rightarrow>
          Option.bind (map_of answers ''GenerateSkipKeyword'') (\<lambda>choice.
          map_option (\<lambda>idx. Some (GenerateSkipKeywordR
              (if idx < length words_list then Some (words_list ! idx) else None))) (parse_usize choice))
      | ReadFileIntoParagraphs _ \<Rightarrow> Some result)"

fun unbatch_items :: "http_batch \<Rightarrow> (string \<times> string) list \<Rightarrow> string list \<Rightarrow> worker_fail + http_batch" where
  "unbatch_items [] answers words_list = Inr []"
| "unbatch_items (None # batch) answers words_list =
     res_bind (unbatch_items batch answers words_list) (\<lambda>batch. Inr (None # batch))"
| "unbatch_items (Some (reason, result) # batch) answers words_list =
     res_bind (ok_or WorkerPanic (answer_for reason answers words_list result)) (\<lambda>result.
     res_bind (unbatch_items batch answers words_list) (\<lambda>batch. Inr (Some (reason, result) # batch)))"

definition http_response_unbatcher ::
  "http_env \<Rightarrow> http_batch \<Rightarrow> string option \<Rightarrow> string list \<Rightarrow> worker_fail + http_batch" where
  "http_response_unbatcher E batch response words_list =
     (case response of
        None \<Rightarrow> Inr batch
      | Some response \<Rightarrow>
          res_bind (map_err WorkerError (he_json E response)) (\<lambda>answers. unbatch_items batch answers words_list))"

section \<open>The worker thread and \<open>main\<close>\<close>

type_synonym http_tracker = "(http_client_yield_reason, http_client_yield_response) task_tracker"

record http_job =
  jb_tracker :: http_tracker
  jb_paragraph :: string
  jb_keyphrase :: string
  jb_matches :: "string list"
  jb_read_file :: string
  jb_words_list :: "string list"

definition worker_batch :: "http_env \<Rightarrow> http_job \<Rightarrow> http_batch \<Rightarrow> worker_fail + http_batch" where
  "worker_batch E job batch =
     res_bind (std_fs_worker_fn E batch (jb_read_file job)) (\<lambda>batch.
     res_bind (http_request_batcher E batch (jb_paragraph job) (jb_keyphrase job) (jb_matches job) (jb_words_list job))
       (\<lambda>response. http_response_unbatcher E batch response (jb_words_list job)))"

text \<open>\<open>work_in_batches\<close> around a worker function that may panic, which ends the thread.\<close>

definition worker_thread :: "http_env \<Rightarrow> http_job \<Rightarrow> (http_tracker \<times> worker_fail option) option" where
  "worker_thread E job =
     map_edit_batches (jb_tracker job) 4 (\<lambda>err batch.
       case worker_batch E job batch of
         Inr batch' \<Rightarrow> (False, batch', err)
       | Inl WorkerPanic \<Rightarrow> (True, batch, Some WorkerPanic)
       | Inl e \<Rightarrow> (False, batch, Some e)) None"

record http_main =
  hm_future :: http_prog
  hm_client :: http_client
  hm_runtime :: "(http_client_yield_reason, http_client_yield_response) runtime"
  hm_tracker :: "http_tracker option"
  hm_job :: "http_job option"

datatype http_end =
    MainStopped prog_stop
  | MainOk "string \<rightharpoonup> string list"
  | MainErr async_runtime_error
  | MainExit nat

definition http_main_start :: "nat \<Rightarrow> string list \<Rightarrow> http_end + http_main" where
  "http_main_start n args =
     (let keyphrase = (case args of a # _ \<Rightarrow> a | [] \<Rightarrow> []);
          pathstr = (case args of _ # b # _ \<Rightarrow> b | _ \<Rightarrow> [])
      in if length (trim keyphrase) = 0 then Inl (MainExit 1)
         else if length (trim pathstr) = 0 then Inl (MainExit 1)
         else Inr \<lparr>hm_future = fuzzy_scan_file n, hm_client = http_client_new keyphrase pathstr,
                   hm_runtime = runtime_new 1024, hm_tracker = Some (fsm_new 1024), hm_job = None\<rparr>)"

definition spawn_worker :: "http_env \<Rightarrow> http_tracker \<Rightarrow> http_client \<Rightarrow> http_job" where
  "spawn_worker E tracker builder =
     (let words_set = set (split_on (CHR '' '') (curr_paragraph builder))
      in \<lparr>jb_tracker = tracker, jb_paragraph = curr_paragraph builder, jb_keyphrase = hc_keyphrase builder,
          jb_matches = curr_matches builder, jb_read_file = fuzzy_search_path builder,
          jb_words_list = take 50 (he_iter E words_set)\<rparr>)"

text \<open>The rest of a round whose step left the future pending; \<open>worker_done\<close> tells whether the worker thread
  has come to its end.  A worker that panicked sends nothing; one that failed ends the process.\<close>

definition pending_round :: "http_env \<Rightarrow> bool \<Rightarrow> http_main \<Rightarrow> http_end + http_main" where
  "pending_round E worker_done m =
     (case hm_tracker m of
        None \<Rightarrow>
          (case hm_job m of
             Some job \<Rightarrow>
               (if worker_done
                then case worker_thread E job of
                       Some (tracker, None) \<Rightarrow> Inr (m\<lparr>hm_tracker := Some tracker, hm_job := None\<rparr>)
                     | Some (_, Some WorkerPanic) \<Rightarrow> Inr m
                     | Some (_, Some (WorkerError _)) \<Rightarrow> Inl (MainExit 2)
                     | None \<Rightarrow> Inr m
                else Inr m)
           | None \<Rightarrow> Inr m)
      | Some tracker \<Rightarrow>
          (case task_sync tracker (hm_runtime m) of
             None \<Rightarrow> Inl (MainStopped prog_stop.Panicked)
           | Some (False, tracker, rt) \<Rightarrow> Inr (m\<lparr>hm_tracker := Some tracker, hm_runtime := rt\<rparr>)
           | Some (True, tracker, rt) \<Rightarrow>
               (case task_register_if tracker rt (\<lambda>_. True) of
                  None \<Rightarrow> Inl (MainStopped prog_stop.Panicked)
                | Some (Inl e, _) \<Rightarrow> Inl (MainErr e)
                | Some (Inr _, tracker) \<Rightarrow>
                    Inr (m\<lparr>hm_tracker := None, hm_runtime := rt,
                           hm_job := Some (spawn_worker E tracker (hm_client m))\<rparr>))))"

definition main_round :: "http_lib \<Rightarrow> http_env \<Rightarrow> bool \<Rightarrow> http_main \<Rightarrow> http_end + http_main" where
  "main_round lib E worker_done m =
     res_bind (map_err MainStopped (prog_step (runtime_ops lib) (hm_future m) (hm_client m) (hm_runtime m)))
       (\<lambda>(result, future, builder, rt).
        case result of
          Some (Inl e) \<Rightarrow> Inl (MainErr e)
        | Some (Inr _) \<Rightarrow> Inl (MainOk (known_examples builder))
        | None \<Rightarrow> pending_round E worker_done (m\<lparr>hm_future := future, hm_client := builder, hm_runtime := rt\<rparr>))"

end
