(* ===== verification/Prog_Typing.thy ===== *)
theory Prog_Typing
  imports Prog_Rules
begin

text \<open>
  Asynchronous programs that do not panic.  A program is typed for a relation between reasons and
  responses if it can only reach a panic through a response that does not belong to its reason; driven
  with fitting responses, such a program never panics.
\<close>

primrec typed :: "('r \<Rightarrow> 'p \<Rightarrow> bool) \<Rightarrow> ('s, 'r, 'p, 'o) async_prog \<Rightarrow> ('o \<Rightarrow> bool) \<Rightarrow> bool" where
  "typed fit Finished Q = False"
| "typed fit (Return out) Q = Q out"
| "typed fit Panic Q = False"
| "typed fit Fuel Q = True"
| "typed fit (Act f k) Q = (\<forall>s. typed fit (k s) Q)"
| "typed fit (Await f k) Q =
     (case f of NpfDone \<Rightarrow> False
      | NpfStart r \<Rightarrow> (\<forall>e. typed fit (k (Inl e)) Q) \<and> (\<forall>v. fit r v \<longrightarrow> typed fit (k (Inr v)) Q)
      | NpfWait r \<Rightarrow> (\<forall>e. typed fit (k (Inl e)) Q) \<and> (\<forall>v. fit r v \<longrightarrow> typed fit (k (Inr v)) Q))"
| "typed fit (Bind f k) Q = (\<exists>Q'. typed fit f Q' \<and> (\<forall>v. Q' v \<longrightarrow> typed fit (k v) Q))"
| "typed fit (Or f g) Q = (typed fit f Q \<and> typed fit g Q)"
| "typed fit (Zip f r1 g r2 k) Q =
     (\<exists>Q1 Q2. (case r1 of None \<Rightarrow> typed fit f Q1 | Some v \<Rightarrow> Q1 v) \<and>
              (case r2 of None \<Rightarrow> typed fit g Q2 | Some v \<Rightarrow> Q2 v) \<and>
              (\<forall>v w. Q1 v \<and> Q2 w \<longrightarrow> typed fit (k v w) Q))"

lemma typed_zipI:
  assumes "case r1 of None \<Rightarrow> typed fit f Q1 | Some v \<Rightarrow> Q1 v" "case r2 of None \<Rightarrow> typed fit g Q2 | Some v \<Rightarrow> Q2 v"
    and "\<And>v w. Q1 v \<Longrightarrow> Q2 w \<Longrightarrow> typed fit (k v w) Q"
  shows "typed fit (Zip f r1 g r2 k) Q"
  using assms by auto

definition fits_opt :: "('r \<Rightarrow> 'p \<Rightarrow> bool) \<Rightarrow> ('r \<times> 'p) option \<Rightarrow> bool" where
  "fits_opt fit u \<longleftrightarrow> (\<forall>r v. u = Some (r, v) \<longrightarrow> fit r v)"

definition safe_result ::
  "('r \<Rightarrow> 'p \<Rightarrow> bool) \<Rightarrow> ('o \<Rightarrow> bool) \<Rightarrow>
   prog_stop + ('o poll \<times> ('s, 'r, 'p, 'o) async_prog \<times> 's \<times> ('r, 'p) pending) \<Rightarrow> bool" where
  "safe_result fit Q res \<longleftrightarrow>
     (case res of
        Inl e \<Rightarrow> e = OutOfFuel
      | Inr (r, f, s, w) \<Rightarrow> fits_opt fit (fst w) \<and> (case r of Ready v \<Rightarrow> Q v | Pending \<Rightarrow> typed fit f Q))"

lemma safe_result_simps [simp]:
  "safe_result fit Q (Inl e) \<longleftrightarrow> e = OutOfFuel"
  "safe_result fit Q (Inr (Ready v, f, s, w)) \<longleftrightarrow> fits_opt fit (fst w) \<and> Q v"
  "safe_result fit Q (Inr (Pending, f, s, w)) \<longleftrightarrow> fits_opt fit (fst w) \<and> typed fit f Q"
  by (simp_all add: safe_result_def)

lemma safe_result_bind:
  assumes "safe_result fit Q res"
    and "\<And>v f s w. fits_opt fit (fst w) \<Longrightarrow> Q v \<Longrightarrow> safe_result fit Q' (h (Ready v, f, s, w))"
    and "\<And>f s w. fits_opt fit (fst w) \<Longrightarrow> typed fit f Q \<Longrightarrow> safe_result fit Q' (h (Pending, f, s, w))"
  shows "safe_result fit Q' (res_bind res h)"
proof (cases res)
  case (Inr x)
  obtain r f s w where x: "x = (r, f, s, w)" by (cases x)
  show ?thesis using assms Inr x by (cases r) auto
qed (use assms(1) in simp)

lemma drop_prog_spec: "\<exists>M'. drop_prog f (spec_ops n) (u, M) = Some (u, M')"
proof (induction f arbitrary: M)
  case (Await f k)
  then show ?case by (cases f) auto
next
  case (Or f g)
  from Or.IH(1) [of M] Or.IH(2) show ?case by auto
next
  case (Zip f r1 g r2 k)
  from Zip.IH(1) [of M] Zip.IH(2) show ?case by auto
qed auto

lemma safe_drop:
  "fits_opt fit (fst w) \<Longrightarrow> Q v \<Longrightarrow>
   safe_result fit Q (map_sum id (\<lambda>w'. (Ready v, Finished, s, w')) (ok_or Panicked (drop_prog f (spec_ops n) w)))"
  using drop_prog_spec [of f n "fst w" "snd w"] by auto

lemma spec_wait_safe:
  assumes "fits_opt fit u" "spec_wait r (u, M) = (res, f', u', M')"
  shows "fits_opt fit u' \<and> (res = Pending \<and> f' = NpfWait r \<or> (\<exists>v. res = Ready (Inr v) \<and> fit r v))"
  using assms by (cases "(r, (u, M))" rule: spec_wait.cases) (auto simp: fits_opt_def split: if_splits)

lemma spec_poll_total: "f \<noteq> NpfDone \<Longrightarrow> spec_poll n f (u, M) \<noteq> None"
  by (cases f) (simp_all del: not_None_eq split_paired_Ex)

lemma spec_poll_safe:
  assumes "fits_opt fit u" "spec_poll n f (u, M) = Some (res, f', u', M')"
  shows "fits_opt fit u' \<and> (\<exists>r. (f = NpfStart r \<or> f = NpfWait r) \<and>
    (res = Pending \<and> f' = NpfWait r \<or> (\<exists>v. res = Ready (Inr v) \<and> fit r v) \<or> (\<exists>e. res = Ready (Inl e))))"
proof (cases f)
  case (NpfStart r)
  with assms spec_wait_safe [of fit u r "add_mset r M" res f' u' M'] show ?thesis by (auto split: if_splits)
next
  case (NpfWait r)
  with assms spec_wait_safe [of fit u r M res f' u' M'] show ?thesis by auto
qed (use assms in simp)

lemma typed_poll:
  "typed fit f Q \<Longrightarrow> fits_opt fit (fst w) \<Longrightarrow> safe_result fit Q (poll_prog f (spec_ops n) s w)"
proof (induction f arbitrary: Q s w)
  case (Act h k)
  then show ?case by auto
next
  case (Await f k)
  obtain u M where w: "w = (u, M)" by (cases w)
  have "f \<noteq> NpfDone" using Await.prems(1) by auto
  from spec_poll_total [OF this, of n u M] obtain x where "spec_poll n f (u, M) = Some x" by blast
  then obtain res f' u' M' where p: "spec_poll n f (u, M) = Some (res, f', u', M')" by (cases x) auto
  from spec_poll_safe [OF _ p, of fit] Await.prems(2) w obtain r where
    r: "fits_opt fit u'" "f = NpfStart r \<or> f = NpfWait r"
    "res = Pending \<and> f' = NpfWait r \<or> (\<exists>v. res = Ready (Inr v) \<and> fit r v) \<or> (\<exists>e. res = Ready (Inl e))" by auto
  have k: "\<And>e. typed fit (k (Inl e)) Q" "\<And>v. fit r v \<Longrightarrow> typed fit (k (Inr v)) Q"
    using Await.prems(1) r(2) by auto
  show ?case
  proof (cases res)
    case (Ready v)
    then have "typed fit (k v) Q" using r(3) k by auto
    then show ?thesis using Await.IH p r(1) Ready w by auto
  next
    case Pending
    then show ?thesis using k p r w by auto
  qed
next
  case (Bind f k)
  then obtain Q' where q: "typed fit f Q'" "\<And>v. Q' v \<Longrightarrow> typed fit (k v) Q" by auto
  show ?case unfolding poll_prog.simps
    by (rule safe_result_bind [OF Bind.IH(1) [OF q(1) Bind.prems(2)]]) (use q Bind.IH(2) in auto)
next
  case (Or f g)
  then have t: "typed fit f Q" "typed fit g Q" by auto
  show ?case unfolding poll_spec
    by (rule safe_result_bind [OF Or.IH(1) [OF t(1) Or.prems(2)]])
      (auto intro!: safe_drop safe_result_bind [OF Or.IH(2) [OF t(2)]])
next
  case (Zip f r1 g r2 k)
  then obtain Q1 Q2 where q: "case r1 of None \<Rightarrow> typed fit f Q1 | Some v \<Rightarrow> Q1 v"
    "case r2 of None \<Rightarrow> typed fit g Q2 | Some v \<Rightarrow> Q2 v" "\<And>v w. Q1 v \<Longrightarrow> Q2 w \<Longrightarrow> typed fit (k v w) Q" by auto
  have 1: "safe_result fit Q1 (case r1 of Some v \<Rightarrow> Inr (Ready v, f, s, w) | None \<Rightarrow> poll_prog f (spec_ops n) s w)"
    if "fits_opt fit (fst w)" for s w using q(1) that Zip.IH(1) by (auto split: option.splits)
  have 2: "safe_result fit Q2 (case r2 of Some v \<Rightarrow> Inr (Ready v, g, s, w) | None \<Rightarrow> poll_prog g (spec_ops n) s w)"
    if "fits_opt fit (fst w)" for s w using q(2) that Zip.IH(2) by (auto split: option.splits)
  show ?case unfolding poll_spec
    by (rule safe_result_bind [OF 1 [OF Zip.prems(2)]]; clarsimp; rule safe_result_bind [OF 2])
      (auto simp: q(3) simp del: typed.simps(9) intro!: Zip.IH(3) [OF rangeI rangeI] typed_zipI [where ?Q1.0 = Q1 and ?Q2.0 = Q2])
qed auto

text \<open>A step over the runtime itself.\<close>

lemma typed_step:
  assumes "documented lib" "typed fit f Q" "table_rel n rt (u, M)" "fits_opt fit u"
  shows "(\<exists>f' s' rt' M'. prog_step (runtime_ops lib) f s rt = Inr (None, f', s', rt') \<and> typed fit f' Q \<and> table_rel n rt' (None, M')) \<or>
    (\<exists>v f' s' rt' M'. prog_step (runtime_ops lib) f s rt = Inr (Some v, f', s', rt') \<and> Q v \<and> table_rel n rt' (None, M')) \<or>
    prog_step (runtime_ops lib) f s rt = Inl OutOfFuel"
proof -
  have rel: "rel_step (table_rel n) (prog_step (runtime_ops lib) f s rt) (prog_step (spec_ops n) f s (u, M))"
    by (rule table.step_refines [OF _ _ assms(3)]) (simp_all add: assms(1))
  have safe: "safe_result fit Q (poll_prog f (spec_ops n) s (u, M))"
    by (rule typed_poll [OF assms(2)]) (simp add: assms(4))
  show ?thesis
  proof (cases "poll_prog f (spec_ops n) s (u, M)")
    case (Inl e)
    then have "prog_step (spec_ops n) f s (u, M) = Inl OutOfFuel" using safe by (simp add: prog_step_def)
    then show ?thesis using rel by (cases "prog_step (runtime_ops lib) f s rt") auto
  next
    case (Inr x)
    obtain res f' s' u' M' where x: "x = (res, f', s', u', M')" by (cases x)
    then have "prog_step (spec_ops n) f s (u, M) = Inr (case res of Ready v \<Rightarrow> Some v | Pending \<Rightarrow> None, f', s', None, M')"
      using Inr by (simp add: prog_step_def)
    then obtain rt' where "prog_step (runtime_ops lib) f s rt = Inr (case res of Ready v \<Rightarrow> Some v | Pending \<Rightarrow> None, f', s', rt')"
      "table_rel n rt' (None, M')" using rel by (cases "prog_step (runtime_ops lib) f s rt") auto
    then show ?thesis using safe Inr x by (cases res) auto
  qed
qed

end
