(* ===== verification/Http_Properties.thy ===== *)
theory Http_Properties
  imports Http_Client Prog_Typing
begin

text \<open>
  The HTTP client of \<open>src/krsm/examples/http_openjev_client.rs\<close>: the paragraphs a file is cut into, the worker
  that answers every task of a batch with a response of its kind, and the main thread, which with such
  responses never panics.
\<close>

section \<open>Paragraphs\<close>

abbreviation blank :: "string \<Rightarrow> bool" where
  "blank line \<equiv> trim line = []"

text \<open>The runs of lines that are not blank and are followed by a blank line.\<close>

function closed_blocks :: "string list \<Rightarrow> string list list" where
  "closed_blocks ls =
     (let ls' = dropWhile blank ls; rest = dropWhile (\<lambda>l. \<not> blank l) ls'
      in if rest = [] then [] else takeWhile (\<lambda>l. \<not> blank l) ls' # closed_blocks (tl rest))"
  by pat_completeness auto
termination
proof (relation "measure length", simp)
  fix ls ls' rest :: "string list"
  assume "ls' = dropWhile blank ls" "rest = dropWhile (\<lambda>l. \<not> blank l) ls'" "rest \<noteq> []"
  then have "length rest \<le> length ls" "rest \<noteq> []" by (auto intro: le_trans length_dropWhile_le)
  then show "(tl rest, ls) \<in> measure length" by (cases rest) auto
qed

declare closed_blocks.simps [simp del]

definition join_block :: "string list \<Rightarrow> string" where
  "join_block ls = concat (map (\<lambda>l. '' '' @ trim l) ls)"

lemma join_block_Nil: "join_block [] = []"
  by (simp add: join_block_def)

lemma trim_Nil_iff: "trim s = [] \<longleftrightarrow> (\<forall>c \<in> set s. Pocker_Cli.is_space c)"
proof -
  let ?d = "dropWhile Pocker_Cli.is_space s"
  have "trim s = [] \<longleftrightarrow> (\<forall>c \<in> set ?d. Pocker_Cli.is_space c)" by (simp add: trim_def)
  also have "\<dots> \<longleftrightarrow> ?d = []" using hd_dropWhile [of Pocker_Cli.is_space s] hd_in_set [of ?d]
    by (cases ?d) (auto dest: set_dropWhileD)
  finally show ?thesis by simp
qed

lemma trim_has_char: "\<not> blank l \<Longrightarrow> \<exists>c \<in> set (trim l). \<not> Pocker_Cli.is_space c"
  using hd_dropWhile [of Pocker_Cli.is_space "rev (dropWhile Pocker_Cli.is_space l)"]
  by (metis trim_def hd_in_set rev_is_Nil_conv set_rev)

lemma blank_join_block: "\<forall>l \<in> set ls. \<not> blank l \<Longrightarrow> trim (join_block ls) = [] \<longleftrightarrow> ls = []"
proof (cases ls)
  case (Cons l rest)
  assume "\<forall>l \<in> set ls. \<not> blank l"
  then have "\<exists>c \<in> set (trim l). \<not> Pocker_Cli.is_space c" using Cons trim_has_char by simp
  then show ?thesis using Cons by (auto simp: join_block_def trim_Nil_iff)
qed (simp add: join_block_def trim_def)

lemma closed_blocks_blank: "blank l \<Longrightarrow> closed_blocks (l # ls) = closed_blocks ls"
  by (simp add: closed_blocks.simps [of "l # ls"] closed_blocks.simps [of ls])

lemma paragraph_loop_blocks:
  "\<forall>l \<in> set pre. \<not> blank l \<Longrightarrow>
   paragraph_loop ls ps (join_block pre) = ps @ map join_block (closed_blocks (pre @ ls))"
proof (induction ls arbitrary: ps pre)
  case Nil
  have "dropWhile (\<lambda>l. \<not> blank l) (dropWhile blank pre) = []"
    using Nil.prems by (auto dest: set_dropWhileD)
  then have "closed_blocks pre = []" by (subst closed_blocks.simps) (simp only: Let_def if_True simp_thms)
  then show ?case by simp
next
  case (Cons l ls)
  note prems = Cons.prems
  show ?case
  proof (cases "blank l")
    case True
    have IH: "paragraph_loop ls qs [] = qs @ map join_block (closed_blocks ls)" for qs
      using Cons.IH [of "[]" qs] by (simp add: join_block_Nil)
    show ?thesis
    proof (cases pre)
      case Nil
      then show ?thesis using True IH by (simp add: join_block_Nil trim_def closed_blocks_blank)
    next
      case (Cons p pre')
      then have d: "dropWhile blank (pre @ l # ls) = pre @ l # ls"
        "dropWhile (\<lambda>l. \<not> blank l) (pre @ l # ls) = l # ls" "takeWhile (\<lambda>l. \<not> blank l) (pre @ l # ls) = pre"
        using prems True by (simp_all add: dropWhile_append2 takeWhile_append2)
      have "closed_blocks (pre @ l # ls) = pre # closed_blocks ls"
        by (subst closed_blocks.simps) (simp only: d Let_def list.distinct if_False list.sel)
      then show ?thesis using True IH blank_join_block [OF prems] Cons by simp
    qed
  next
    case False
    have "join_block pre @ '' '' @ trim l = join_block (pre @ [l])" by (simp add: join_block_def)
    then show ?thesis using False Cons.IH [of "pre @ [l]" ps] Cons.prems by simp
  qed
qed


text \<open>A service that knows one file and answers every question.\<close>

definition sample_http_env :: http_env where
  "sample_http_env =
     \<lparr>he_var = (\<lambda>_. Some ''v''),
      he_file = (\<lambda>_. Some (''a'' @ [CHR 0x0A] @ ''b'' @ [CHR 0x0A, CHR 0x0A] @ ''c'')),
      he_post = (\<lambda>_ _ _. Inr ''ok''),
      he_json = (\<lambda>_. Inr [(''FuzzyMatchesParagraph'', ''y''), (''GenerateMatchFinalCheck'', ''y''),
        (''GenerateMatch'', ''0''), (''GenerateSkipKeyword'', ''7'')]),
      he_iter = (\<lambda>_. [''a'', ''b''])\<rparr>"

lemma sample_blocks: "map join_block (closed_blocks (text_lines (''a'' @ [CHR 0x0A] @ ''b'' @ [CHR 0x0A, CHR 0x0A] @ ''c''))) = ['' a b'']"
  by code_simp


section \<open>The worker answers every task\<close>

fun response_fits :: "http_client_yield_reason \<Rightarrow> http_client_yield_response \<Rightarrow> bool" where
  "response_fits (FuzzyMatchesParagraph _) (FuzzyMatchesParagraphR _) = True"
| "response_fits (GenerateMatch _) (GenerateMatchR _) = True"
| "response_fits (GenerateMatchFinalCheck _) (GenerateMatchFinalCheckR _) = True"
| "response_fits (GenerateSkipKeyword _) (GenerateSkipKeywordR _) = True"
| "response_fits (ReadFileIntoParagraphs _) (ReadFileIntoParagraphsR _) = True"
| "response_fits _ _ = False"

definition is_file_task :: "http_client_yield_reason \<Rightarrow> bool" where
  "is_file_task reason \<longleftrightarrow> (\<exists>t. reason = ReadFileIntoParagraphs t)"

text \<open>The slots keep their tasks; the answered ones among them are answered in kind.\<close>

fun answers_slot ::
  "(http_client_yield_reason \<Rightarrow> bool) \<Rightarrow> (http_client_yield_reason \<times> http_client_yield_response option) option \<Rightarrow>
   (http_client_yield_reason \<times> http_client_yield_response option) option \<Rightarrow> bool" where
  "answers_slot P None None = True"
| "answers_slot P (Some (reason, result)) (Some (reason', result')) =
     (reason' = reason \<and>
      (if P reason then (case result' of Some p \<Rightarrow> response_fits reason p | None \<Rightarrow> False) else result' = result))"
| "answers_slot P _ _ = False"

lemma std_fs_worker_answers:
  "std_fs_worker_fn E batch path = Inr batch' \<Longrightarrow> list_all2 (answers_slot is_file_task) batch batch'"
proof (induction E batch path arbitrary: batch' rule: std_fs_worker_fn.induct)
  case (3 E reason result batch path)
  from 3(2) obtain result' b where
    r: "(case reason of ReadFileIntoParagraphs _ \<Rightarrow>
            (case he_file E path of None \<Rightarrow> Inl WorkerPanic
             | Some text \<Rightarrow> Inr (Some (ReadFileIntoParagraphsR (paragraph_loop (text_lines text) [] []))))
        | _ \<Rightarrow> Inr result) = Inr result'"
    and b: "std_fs_worker_fn E batch path = Inr b" "batch' = Some (reason, result') # b"
    by (auto simp: res_bind_Inr_iff)
  have "answers_slot is_file_task (Some (reason, result)) (Some (reason, result'))"
    using r by (cases reason) (auto simp: is_file_task_def split: option.splits)
  then show ?case using 3(1) b by auto
qed (auto simp: res_bind_Inr_iff)

lemma answer_for_fits:
  assumes "answer_for reason answers words result = Some result'"
  shows "answers_slot (\<lambda>r. \<not> is_file_task r) (Some (reason, result)) (Some (reason, result'))"
  using assms
  by (cases reason) (auto simp: answer_for_def is_file_task_def bind_eq_Some_conv split: if_splits)

lemma unbatch_items_answers:
  "unbatch_items batch answers words = Inr batch' \<Longrightarrow> list_all2 (answers_slot (\<lambda>r. \<not> is_file_task r)) batch batch'"
proof (induction batch answers words arbitrary: batch' rule: unbatch_items.induct)
  case (3 reason result batch answers words)
  from 3(2) obtain result' b where
    r: "answer_for reason answers words result = Some result'"
    and b: "unbatch_items batch answers words = Inr b" "batch' = Some (reason, result') # b"
    by (auto simp: res_bind_Inr_iff ok_or_Inr_iff)
  then show ?case using 3(1) answer_for_fits [OF r] by (auto simp del: answers_slot.simps)
qed (auto simp: res_bind_Inr_iff)

lemma answers_slot_both:
  "answers_slot P x y \<Longrightarrow> answers_slot (\<lambda>r. \<not> P r) y z \<Longrightarrow> answers_slot (\<lambda>_. True) x z"
  by (cases "(P, x, y)" rule: answers_slot.cases; cases "(P, y, z)" rule: answers_slot.cases)
    (auto split: if_splits)

lemma answers_slot_weaken:
  "answers_slot P x y \<Longrightarrow> (\<And>reason result. y = Some (reason, result) \<Longrightarrow> P reason) \<Longrightarrow> answers_slot (\<lambda>_. True) x y"
  by (cases "(P, x, y)" rule: answers_slot.cases) auto

lemma hash_insert_not_empty: "hash_insert k v m \<noteq> []"
  by (simp add: hash_insert_def)

lemma question_for_None: "question_for reason key matches words = None \<longleftrightarrow> is_file_task reason"
  by (cases reason) (auto simp: question_for_def is_file_task_def)

lemma batch_questions_Nil:
  "batch_questions batch key matches words qs = [] \<Longrightarrow>
   qs = [] \<and> (\<forall>x \<in> set batch. case x of None \<Rightarrow> True | Some (reason, _) \<Rightarrow> is_file_task reason)"
proof (induction batch arbitrary: qs)
  case (Cons item batch)
  let ?qs = "case item of None \<Rightarrow> qs | Some (reason, _) \<Rightarrow> (case question_for reason key matches words of
               Some (name, question) \<Rightarrow> hash_insert name question qs | None \<Rightarrow> qs)"
  have "?qs = []" and all: "\<forall>x \<in> set batch. case x of None \<Rightarrow> True | Some (reason, _) \<Rightarrow> is_file_task reason"
    using Cons.IH [of ?qs] Cons.prems by simp_all
  then have "qs = [] \<and> (case item of None \<Rightarrow> True | Some (reason, _) \<Rightarrow> is_file_task reason)"
    using question_for_None [of _ key matches words]
    by (cases item) (auto simp: hash_insert_not_empty split: option.splits)
  then show ?case using all by simp
qed simp

lemma map_sum_Some_None: "map_sum id Some r \<noteq> Inr None"
  by (cases r) simp_all

lemma worker_batch_slots:
  assumes "worker_batch E job batch = Inr batch'"
  shows "list_all2 (answers_slot (\<lambda>_. True)) batch batch'"
proof -
  obtain b1 response where b1: "std_fs_worker_fn E batch (jb_read_file job) = Inr b1"
    "http_request_batcher E b1 (jb_paragraph job) (jb_keyphrase job) (jb_matches job) (jb_words_list job) = Inr response"
    "http_response_unbatcher E b1 response (jb_words_list job) = Inr batch'"
    using assms by (auto simp: worker_batch_def res_bind_Inr_iff)
  note a1 = std_fs_worker_answers [OF b1(1)]
  show ?thesis
  proof (cases response)
    case None
    then have "batch_questions b1 (jb_keyphrase job) (jb_matches job) (jb_words_list job) [] = []"
      using b1(2) unfolding http_request_batcher_def
      by (auto simp: res_bind_Inr_iff Let_def map_sum_Some_None split: if_splits)
    then have f: "\<forall>x \<in> set b1. case x of None \<Rightarrow> True | Some (reason, _) \<Rightarrow> is_file_task reason"
      using batch_questions_Nil by blast
    have "answers_slot (\<lambda>_. True) x y" if "y \<in> set b1" "answers_slot is_file_task x y" for x y
      using f that by (intro answers_slot_weaken [OF that(2)]) auto
    then show ?thesis using a1 b1(3) None by (auto simp: http_response_unbatcher_def elim: list.rel_mono_strong)
  next
    case (Some r)
    then obtain answers where "unbatch_items b1 answers (jb_words_list job) = Inr batch'"
      using b1(3) by (auto simp: http_response_unbatcher_def res_bind_Inr_iff)
    from unbatch_items_answers [OF this] show ?thesis
      by (rule list_all2_trans [OF _ a1, rotated]) (rule answers_slot_both)
  qed
qed

text \<open>C20: every task of a batch is answered in kind.  If the worker's function for a batch succeeds, then every slot
  still holds its task, and every task, of the file system or of the service, has a response of the
  variant that belongs to its reason.\<close>

theorem worker_batch_answers:
  assumes "worker_batch E job batch = Inr batch'"
  shows "list_all2 (answers_slot (\<lambda>_. True)) batch batch'"
  by (rule worker_batch_slots [OF assms])

theorem worker_batch_answers_witness:
  "\<exists>batch'. worker_batch sample_http_env
       \<lparr>jb_tracker = fsm_new 4, jb_paragraph = ''a b'', jb_keyphrase = ''k'', jb_matches = [], jb_read_file = ''f'',
        jb_words_list = [''a'', ''b'']\<rparr> [Some (FuzzyMatchesParagraph 1, None), Some (GenerateSkipKeyword 2, None)] = Inr batch' \<and>
     list_all2 (answers_slot (\<lambda>_. True)) [Some (FuzzyMatchesParagraph 1, None), Some (GenerateSkipKeyword 2, None)] batch'"
proof -
  let ?job = "\<lparr>jb_tracker = fsm_new 4, jb_paragraph = ''a b'', jb_keyphrase = ''k'', jb_matches = [], jb_read_file = ''f'',
        jb_words_list = [''a'', ''b'']\<rparr>"
  let ?b = "[Some (FuzzyMatchesParagraph 1, Some (FuzzyMatchesParagraphR True)),
      Some (GenerateSkipKeyword 2, Some (GenerateSkipKeywordR None))]"
  have "worker_batch sample_http_env ?job [Some (FuzzyMatchesParagraph 1, None), Some (GenerateSkipKeyword 2, None)] = Inr ?b"
    by (simp add: worker_batch_def http_request_batcher_def http_response_unbatcher_def sample_http_env_def
        question_for_def hash_insert_def answer_for_def parse_usize_def Let_def)
  from worker_batch_answers [OF this] this show ?thesis by blast
qed

end
