(* ===== verification/Http_Main.thy ===== *)
theory Http_Main
  imports Http_Properties
begin

text \<open>
  The main thread of the HTTP client: the async program, the runtime, the task tracker and the worker
  thread together.  Responses always fit their reasons, so the main thread never panics.
\<close>

section \<open>The program is typed\<close>

lemma typed_ticket: "(\<And>t. typed fit (k t) Q) \<Longrightarrow> typed fit (ticket k) Q"
  by (simp add: ticket_def)

lemma typed_http_future:
  "(\<And>e. Q (Inl e)) \<Longrightarrow> (\<And>v. fit r v \<Longrightarrow> typed fit (k v) Q) \<Longrightarrow> typed fit (http_future r k) Q"
  by (simp add: http_future_def)

lemma fits_cases:
  "response_fits (GenerateMatch t) v \<Longrightarrow> \<exists>str. v = GenerateMatchR str"
  "response_fits (ReadFileIntoParagraphs t) v \<Longrightarrow> \<exists>ps. v = ReadFileIntoParagraphsR ps"
  by (cases v; simp)+

definition matches_result :: "async_runtime_error + http_value \<Rightarrow> bool" where
  "matches_result r \<longleftrightarrow> (case r of Inl e \<Rightarrow> True | Inr v \<Rightarrow> \<exists>ms. v = HvMatches ms)"

lemma matches_result_simps [simp]: "matches_result (Inl e)" "matches_result (Inr (HvMatches ms))"
  by (simp_all add: matches_result_def)

lemma typed_generate_round:
  "typed response_fits f matches_result \<Longrightarrow> typed response_fits (generate_round f) matches_result"
  unfolding generate_round_def
  by (intro typed_ticket typed_http_future) (auto simp: matches_result_def dest!: fits_cases(1))

lemma typed_generate: "typed response_fits (generate_fuzzy_match n) matches_result"
proof (induction n)
  case (Suc n)
  then show ?case unfolding generate_fuzzy_match.simps
    by (intro typed_ticket typed_http_future) (auto simp: typed_generate_round)
qed simp

lemma typed_scan: "typed response_fits (scan_paragraphs n ps ws) (\<lambda>_. True)"
proof (induction ps arbitrary: ws)
  case (Cons p ps)
  have k: "typed response_fits (Try (generate_fuzzy_match n) (\<lambda>v. case v of
      HvMatches matches \<Rightarrow> Act (\<lambda>s. s\<lparr>known_examples := (known_examples s)(p \<mapsto> matches)\<rparr>) (\<lambda>_. scan_paragraphs n ps ws')
    | _ \<Rightarrow> Panic)) (\<lambda>_. True)" for ws'
    unfolding Try_def typed.simps using typed_generate Cons.IH
    by (intro exI [of _ matches_result]) (auto simp: matches_result_def split: sum.splits)
  show ?case
    by (auto simp: Cons.IH k Let_def ticket_def http_response_future_def intro!: typed_zipI split: sum.split)
qed simp

lemma typed_fuzzy_scan_file: "typed response_fits (fuzzy_scan_file n) (\<lambda>_. True)"
  unfolding fuzzy_scan_file_def
  by (intro typed_ticket typed_http_future) (auto simp: typed_scan dest!: fits_cases(2))

section \<open>The tracker\<close>

definition tracker_ok :: "http_tracker \<Rightarrow> bool" where
  "tracker_ok tr \<longleftrightarrow> fsm_inv 1024 tr \<and> (\<forall>r p. fsm_abs tr r = Some (Some p) \<longrightarrow> response_fits r p)"

lemma task_sync_entries:
  assumes tr: "fsm_inv n tr" and rt: "fsm_inv n (pending_futures rt)" and u: "has_unblock rt = None"
  shows "\<exists>ready tr' u'. task_sync tr rt = Some (ready, tr', rt\<lparr>has_unblock := u'\<rparr>) \<and> fsm_inv n tr' \<and>
    (\<forall>k v. fsm_abs tr' k = Some v \<longrightarrow> fsm_abs tr k = Some v) \<and>
    (\<forall>r p. u' = Some (r, p) \<longrightarrow> fsm_abs tr r = Some (Some p))"
proof -
  obtain t1 where t1: "inner_join_keys tr (pending_futures rt) = Some t1" "fsm_inv n t1"
    "\<And>k v. fsm_abs t1 k = Some v \<Longrightarrow> fsm_abs tr k = Some v"
    using inner_join_keys_sound [OF tr rt] by blast
  obtain res where f: "check_pending_reasons rt (\<lambda>s x. (is_task_complete t1 x, s)) () = Some (res, ())"
    and res: "case res of Some k \<Rightarrow> fsm_abs (pending_futures rt) k \<noteq> None \<and> is_task_complete t1 k | None \<Rightarrow>
      (\<forall>k. fsm_abs (pending_futures rt) k \<noteq> None \<longrightarrow> \<not> is_task_complete t1 k)"
    using fsm_find_pure [OF rt, of "is_task_complete t1" "()"] unfolding check_pending_reasons_def by blast
  show ?thesis
  proof (cases res)
    case None
    then have "task_sync tr rt = Some (fsm_is_empty t1, t1, rt\<lparr>has_unblock := None\<rparr>)"
      using t1(1) f u by (simp add: task_sync_def)
    then show ?thesis using t1(2,3) by blast
  next
    case (Some r)
    with res obtain p where p: "fsm_abs t1 r = Some (Some p)" using is_task_complete_spec [OF t1(2)] by auto
    obtain t2 where t2: "fsm_remove t1 r = Some (fsm_abs t1 r, t2)" "fsm_inv n t2" "fsm_abs t2 = (fsm_abs t1)(r := None)"
      using fsm.remove_spec [OF t1(2)] by blast
    have "task_sync tr rt = Some (False, t2, rt\<lparr>has_unblock := Some (r, p)\<rparr>)"
      using t1(1) f Some t2(1) p u by (simp add: task_sync_def remove_completed_def unblock_futures_def)
    moreover have "\<forall>k v. fsm_abs t2 k = Some v \<longrightarrow> fsm_abs tr k = Some v" using t1(3) t2(3) by (auto split: if_splits)
    ultimately show ?thesis using t2(2) t1(3) [OF p] by blast
  qed
qed

lemma task_register_entries:
  assumes "fsm_inv n tr"
  shows "\<exists>res tr'. task_register tr r = Some (res, tr') \<and> fsm_inv n tr' \<and>
    (\<forall>k p. fsm_abs tr' k = Some (Some p) \<longrightarrow> fsm_abs tr k = Some (Some p))"
  using set_default_spec [OF assms, of r None] by (auto simp: task_register_def split: if_splits)

lemma register_loop:
  assumes "fsm_inv n tr" "\<forall>x \<in> set xs. x \<noteq> None"
  shows "\<exists>tr' err'. find_loop (\<lambda>s x. case x of None \<Rightarrow> (False, s) | Some v \<Rightarrow>
      (False, Option.bind s (\<lambda>(tr, err). map_option
         (\<lambda>(res, tr'). (tr', case res of Inl e \<Rightarrow> Some e | Inr _ \<Rightarrow> err)) (task_register tr (fst v)))))
      xs (Some (tr, err)) = (None, Some (tr', err')) \<and> fsm_inv n tr' \<and>
    (\<forall>k p. fsm_abs tr' k = Some (Some p) \<longrightarrow> fsm_abs tr k = Some (Some p))"
  using assms
proof (induction xs arbitrary: tr err)
  case (Cons x xs)
  then obtain v where x: "x = Some v" by auto
  obtain res tr1 where t: "task_register tr (fst v) = Some (res, tr1)" "fsm_inv n tr1"
    "\<forall>k p. fsm_abs tr1 k = Some (Some p) \<longrightarrow> fsm_abs tr k = Some (Some p)"
    using task_register_entries [OF Cons.prems(1)] by blast
  from Cons.IH [OF t(2), of "case res of Inl e \<Rightarrow> Some e | Inr _ \<Rightarrow> err"] Cons.prems(2) t(1,3) x
  show ?case by auto
qed simp

lemma task_register_if_entries:
  assumes "fsm_inv n tr" "fsm_inv n (pending_futures rt)"
  shows "\<exists>res tr'. task_register_if tr rt (\<lambda>_. True) = Some (res, tr') \<and> fsm_inv n tr' \<and>
    (\<forall>k p. fsm_abs tr' k = Some (Some p) \<longrightarrow> fsm_abs tr k = Some (Some p))"
proof -
  let ?m = "pending_futures rt"
  obtain kvs where r: "fsm_repr n kvs ?m" using assms(2) by (rule fsm_inv_repr)
  then have l: "take (fsm_len ?m) (items ?m) = map Some kvs" "fsm_len ?m \<le> length (items ?m)"
    by (auto simp: fsm_repr_def fsm_len_def)
  have "\<forall>x \<in> set (map Some kvs). x \<noteq> None" by auto
  from register_loop [OF assms(1) this, of None] l show ?thesis
    by (auto simp: task_register_if_def check_pending_reasons_def fsm_find_def split: option.split)
qed

section \<open>The worker thread\<close>

lemma batch_loop_slots:
  assumes "\<And>s b. list_all2 R b (fst (snd (f s b)))" "\<And>x. R x x"
  shows "list_all2 R xs (fst (batch_loop f n xs s))"
proof (induction "length xs" arbitrary: xs s rule: less_induct)
  case less
  have refl: "list_all2 R ys ys" for ys by (rule list_all2_refl) (rule assms(2))
  show ?case
  proof (cases "n = 0 \<or> xs = []")
    case True
    then show ?thesis using refl by (simp add: batch_loop.simps)
  next
    case False
    obtain stop chunk s' where f: "f s (take n xs) = (stop, chunk, s')" by (cases "f s (take n xs)") auto
    then have c: "list_all2 R (take n xs) chunk" using assms(1) [of "take n xs" s] by simp
    obtain rest s'' where b: "batch_loop f n (drop n xs) s' = (rest, s'')" by (cases "batch_loop f n (drop n xs) s'") auto
    then have "list_all2 R (drop n xs) rest" using less.hyps [of "drop n xs" s'] False by simp
    with c have "list_all2 R (take n xs @ drop n xs) (chunk @ (if stop then drop n xs else rest))"
      by (intro list_all2_appendI) (auto simp: refl)
    then show ?thesis using False f b by (subst batch_loop.simps) auto
  qed
qed

lemma answered_slots:
  assumes "list_all2 (\<lambda>x y. x = y \<or> answers_slot (\<lambda>_. True) x y) (map Some kvs) ys"
  shows "\<exists>kvs'. ys = map Some kvs' \<and> map fst kvs' = map fst kvs \<and>
    (\<forall>r p. (r, Some p) \<in> set kvs' \<longrightarrow> (r, Some p) \<in> set kvs \<or> response_fits r p)"
  using assms
proof (induction kvs arbitrary: ys)
  case (Cons kv kvs)
  obtain r v where kv: "kv = (r, v)" by (cases kv)
  from Cons.prems obtain y ys' where ys: "ys = y # ys'" "Some kv = y \<or> answers_slot (\<lambda>_. True) (Some kv) y"
    "list_all2 (\<lambda>x y. x = y \<or> answers_slot (\<lambda>_. True) x y) (map Some kvs) ys'"
    by (auto simp: list_all2_Cons1)
  obtain v' where y: "y = Some (r, v')" "v' = v \<or> (\<exists>p. v' = Some p \<and> response_fits r p)"
    using ys(2) kv by (cases "(\<lambda>_ :: http_client_yield_reason. True, Some kv, y)" rule: answers_slot.cases)
      (auto split: option.splits)
  from Cons.IH [OF ys(3)] obtain kvs' where "ys' = map Some kvs'" "map fst kvs' = map fst kvs"
    "\<forall>r p. (r, Some p) \<in> set kvs' \<longrightarrow> (r, Some p) \<in> set kvs \<or> response_fits r p" by blast
  then show ?case using ys(1) y kv by (intro exI [of _ "(r, v') # kvs'"]) auto
qed simp

lemma worker_thread_ok:
  assumes "tracker_ok (jb_tracker job)"
  shows "\<exists>tr err. worker_thread E job = Some (tr, err) \<and> tracker_ok tr"
proof -
  let ?m = "jb_tracker job"
  obtain kvs where r: "fsm_repr 1024 kvs ?m" using assms by (auto simp: tracker_ok_def elim: fsm_inv_repr)
  then have l: "take (fsm_len ?m) (items ?m) = map Some kvs" "drop (fsm_len ?m) (items ?m) = replicate (1024 - length kvs) None"
    "fsm_len ?m \<le> length (items ?m)" by (auto simp: fsm_repr_def fsm_len_def)
  let ?f = "\<lambda>err batch. case worker_batch E job batch of
         Inr batch' \<Rightarrow> (False, batch', err)
       | Inl WorkerPanic \<Rightarrow> (True, batch, Some WorkerPanic)
       | Inl e \<Rightarrow> (False, batch, Some e)"
  let ?R = "\<lambda>x y. x = y \<or> answers_slot (\<lambda>_. True) x y"
  have "list_all2 ?R b (fst (snd (?f s b)))" for s b
  proof (cases "worker_batch E job b")
    case (Inl e)
    then show ?thesis by (cases e) (simp_all add: list_all2_refl)
  next
    case (Inr b')
    have "list_all2 ?R b b'" by (rule list_all2_mono [OF worker_batch_slots [OF Inr]]) (rule disjI2)
    then show ?thesis using Inr by simp
  qed
  then have "list_all2 ?R (map Some kvs) (fst (batch_loop ?f 4 (map Some kvs) None))"
    by (rule batch_loop_slots) (rule disjI1, rule refl)
  from answered_slots [OF this] obtain kvs' where b1: "fst (batch_loop ?f 4 (map Some kvs) None) = map Some kvs'"
    and k: "map fst kvs' = map fst kvs" "\<forall>r p. (r, Some p) \<in> set kvs' \<longrightarrow> (r, Some p) \<in> set kvs \<or> response_fits r p"
    by blast
  define err where "err = snd (batch_loop ?f 4 (map Some kvs) None)"
  have b: "batch_loop ?f 4 (map Some kvs) None = (map Some kvs', err)"
    unfolding err_def b1 [symmetric] by (rule prod.collapse [symmetric])
  let ?m' = "?m\<lparr>items := map Some kvs' @ replicate (1024 - length kvs) None\<rparr>"
  have w: "worker_thread E job = Some (?m', err)"
    using l b by (simp add: worker_thread_def map_edit_batches_def)
  have "length kvs' = length kvs" using k(1) by (metis length_map)
  then have r': "fsm_repr 1024 kvs' ?m'" using r k(1) by (simp add: fsm_repr_def)
  have "response_fits r p" if "map_of kvs' r = Some (Some p)" for r p
  proof -
    have "(r, Some p) \<in> set kvs'" using that by (rule map_of_SomeD)
    then consider "(r, Some p) \<in> set kvs" | "response_fits r p" using k(2) by blast
    then show ?thesis
    proof cases
      case 1
      moreover have "distinct (map fst kvs)" using fsm_repr_facts(5) [OF r] by (simp add: strict_sorted_iff)
      ultimately have "fsm_abs ?m r = Some (Some p)" using fsm_repr_facts(2) [OF r] by simp
      then show ?thesis using assms by (simp add: tracker_ok_def)
    qed
  qed
  then show ?thesis using w fsm_repr_facts(1,2) [OF r'] by (simp add: tracker_ok_def)
qed

section \<open>The main thread\<close>

definition http_inv :: "http_main \<Rightarrow> bool" where
  "http_inv m \<longleftrightarrow> typed response_fits (hm_future m) (\<lambda>_. True) \<and>
     (\<exists>u M. table_rel 1024 (hm_runtime m) (u, M) \<and> fits_opt response_fits u) \<and>
     (\<forall>tr. hm_tracker m = Some tr \<longrightarrow> tracker_ok tr) \<and>
     (\<forall>job. hm_job m = Some job \<longrightarrow> tracker_ok (jb_tracker job))"

definition round_ok :: "http_end + http_main \<Rightarrow> bool" where
  "round_ok r \<longleftrightarrow> (case r of Inl e \<Rightarrow> e \<noteq> MainStopped prog_stop.Panicked | Inr m \<Rightarrow> http_inv m)"

lemma round_ok_simps [simp]:
  "round_ok (Inl e) \<longleftrightarrow> e \<noteq> MainStopped prog_stop.Panicked" "round_ok (Inr m) \<longleftrightarrow> http_inv m"
  by (simp_all add: round_ok_def)

lemma main_round_pending:
  "prog_step (runtime_ops lib) (hm_future m) (hm_client m) (hm_runtime m) = Inr (None, f, c, rt) \<Longrightarrow>
   main_round lib E d m = pending_round E d (m\<lparr>hm_future := f, hm_client := c, hm_runtime := rt\<rparr>)"
  by (simp add: main_round_def)

lemma pending_round_tracker:
  assumes "http_inv m" "hm_tracker m = Some tr" "table_rel 1024 (hm_runtime m) (None, M)"
  shows "round_ok (pending_round E d m)"
proof -
  let ?rt = "hm_runtime m"
  have i: "fsm_inv 1024 tr" "\<And>r p. fsm_abs tr r = Some (Some p) \<Longrightarrow> response_fits r p"
    using assms(1,2) by (auto simp: http_inv_def tracker_ok_def)
  have t: "typed response_fits (hm_future m) (\<lambda>_. True)" and j: "\<forall>job. hm_job m = Some job \<longrightarrow> tracker_ok (jb_tracker job)"
    using assms(1) by (auto simp: http_inv_def)
  have rt: "fsm_inv 1024 (pending_futures ?rt)" "has_unblock ?rt = None"
    using assms(3) by (auto simp: table_rel_def counts_ok_def)
  obtain ready tr' u' where s: "task_sync tr ?rt = Some (ready, tr', ?rt\<lparr>has_unblock := u'\<rparr>)" "fsm_inv 1024 tr'"
    "\<forall>k v. fsm_abs tr' k = Some v \<longrightarrow> fsm_abs tr k = Some v" "\<forall>r p. u' = Some (r, p) \<longrightarrow> fsm_abs tr r = Some (Some p)"
    using task_sync_entries [OF i(1) rt] by blast
  have u: "fits_opt response_fits u'" "table_rel 1024 (?rt\<lparr>has_unblock := u'\<rparr>) (u', M)"
    using s(4) i(2) assms(3) by (auto simp: fits_opt_def table_rel_def counts_ok_def)
  have tr': "tracker_ok tr'" using s(2,3) i(2) by (auto simp: tracker_ok_def)
  show ?thesis
  proof (cases ready)
    case True
    obtain res tr2 where g: "task_register_if tr' (?rt\<lparr>has_unblock := u'\<rparr>) (\<lambda>_. True) = Some (res, tr2)" "fsm_inv 1024 tr2"
      "\<forall>k p. fsm_abs tr2 k = Some (Some p) \<longrightarrow> fsm_abs tr' k = Some (Some p)"
      using task_register_if_entries [OF s(2), of "?rt\<lparr>has_unblock := u'\<rparr>"] rt(1) by auto
    then have "tracker_ok tr2" using tr' by (auto simp: tracker_ok_def)
    then show ?thesis using g(1) s(1) True assms(2) t u
      by (auto simp: pending_round_def http_inv_def spawn_worker_def Let_def split: sum.split)
  next
    case False
    then show ?thesis using s(1) assms(2) t u tr' j by (auto simp: pending_round_def http_inv_def)
  qed
qed

lemma pending_round_no_tracker:
  assumes "http_inv m" "hm_tracker m = None"
  shows "round_ok (pending_round E d m)"
proof (cases "hm_job m")
  case (Some job)
  then have "tracker_ok (jb_tracker job)" using assms(1) by (simp add: http_inv_def)
  from worker_thread_ok [OF this, of E] obtain tr err where w: "worker_thread E job = Some (tr, err)" "tracker_ok tr" by blast
  then show ?thesis using assms Some
    by (auto simp: pending_round_def http_inv_def split: option.split worker_fail.split)
qed (use assms in \<open>simp add: pending_round_def\<close>)

lemma main_round_ok:
  assumes "http_inv m" and lib: "documented lib"
  shows "round_ok (main_round lib E d m)"
proof -
  obtain u M where m: "typed response_fits (hm_future m) (\<lambda>_. True)" "table_rel 1024 (hm_runtime m) (u, M)"
    "fits_opt response_fits u" using assms(1) by (auto simp: http_inv_def)
  consider (pending) f c rt M' where "prog_step (runtime_ops lib) (hm_future m) (hm_client m) (hm_runtime m) = Inr (None, f, c, rt)"
      "typed response_fits f (\<lambda>_. True)" "table_rel 1024 rt (None, M')"
    | (ready) v f c rt where "prog_step (runtime_ops lib) (hm_future m) (hm_client m) (hm_runtime m) = Inr (Some v, f, c, rt)"
    | (fuel) "prog_step (runtime_ops lib) (hm_future m) (hm_client m) (hm_runtime m) = Inl prog_stop.OutOfFuel"
    using typed_step [OF lib m, of "hm_client m"] by blast
  then show ?thesis
  proof cases
    case pending
    let ?m = "m\<lparr>hm_future := f, hm_client := c, hm_runtime := rt\<rparr>"
    have "http_inv ?m" using assms(1) pending(2,3) by (auto simp: http_inv_def fits_opt_def)
    then show ?thesis unfolding main_round_pending [OF pending(1)]
      using pending_round_tracker [of ?m _ M'] pending_round_no_tracker [of ?m] pending(3)
      by (cases "hm_tracker m") auto
  next
    case ready
    then show ?thesis by (cases v) (simp_all add: main_round_def Let_def)
  qed (simp add: main_round_def)
qed

inductive http_reach :: "http_lib \<Rightarrow> http_env \<Rightarrow> http_main \<Rightarrow> bool" for lib E where
  start: "http_main_start n args = Inr m \<Longrightarrow> http_reach lib E m"
| round: "http_reach lib E m \<Longrightarrow> main_round lib E d m = Inr m' \<Longrightarrow> http_reach lib E m'"

lemma http_reach_inv:
  assumes lib: "documented lib"
  shows "http_reach lib E m \<Longrightarrow> http_inv m"
proof (induction rule: http_reach.induct)
  case (start n args m)
  have "tracker_ok (fsm_new 1024)" by (simp add: tracker_ok_def fsm_new_spec)
  moreover have "\<exists>M. table_rel 1024 (runtime_new 1024) (None, M)" by (rule exI, rule table_rel_new)
  ultimately show ?case using start
    by (auto simp: http_main_start_def Let_def http_inv_def typed_fuzzy_scan_file fits_opt_def
        intro!: exI [of _ None] split: if_splits)
next
  case (round m d m')
  then show ?case using main_round_ok [of m lib E d] lib by simp
qed

text \<open>C19: the main thread never panics.  Whatever the service answers, whenever the worker finishes, and whatever
  the file holds, every response the main thread hands to the search belongs to the kind of its
  request, so no round of the main loop ends in a panic.\<close>

theorem http_main_no_panic:
  assumes "documented lib" "http_reach lib E m"
  shows "main_round lib E d m \<noteq> Inl (MainStopped prog_stop.Panicked)"
  using main_round_ok [OF http_reach_inv [OF assms] assms(1), of E d] by auto

theorem http_main_no_panic_witness:
  "\<exists>m. http_main_start 3 [''k'', ''f''] = Inr m \<and>
     main_round in_order sample_http_env True m \<noteq> Inl (MainStopped prog_stop.Panicked)"
proof -
  have "\<exists>m. http_main_start 3 [''k'', ''f''] = Inr m"
    by (simp add: http_main_start_def trim_def Pocker_Cli.is_space_def)
  then obtain m where m: "http_main_start 3 [''k'', ''f''] = Inr m" ..
  from http_main_no_panic [OF documented_in_order http_reach.start [OF m], of sample_http_env True] m show ?thesis by blast
qed

end
