(* ===== verification/Traffic_Light.thy ===== *)
theory Traffic_Light
  imports Prog_Rules
begin

text \<open>
  The traffic lights of \<open>src/krsm/examples/traffic_light.rs\<close> and \<open>traffic_light_bad_example.rs\<close>.  Durations are
  nanoseconds; each call of \<open>elapsed\<close> takes the next reading of the clock, which is part of the state,
  as is what was printed.  A loop costs one unit of fuel per round.
\<close>

section \<open>The clock and the lamp\<close>

datatype lamp = LampG | LampY | LampR

record light_state =
  clock :: "nat \<Rightarrow> nat"
  reads :: nat
  shown :: "(lamp \<times> nat) list"

definition one_second :: nat where
  "one_second = 1000000000"

definition GREEN_LIGHT_DURATION :: nat where "GREEN_LIGHT_DURATION = 7 * one_second"
definition YELLOW_LIGHT_DURATION :: nat where "YELLOW_LIGHT_DURATION = 3 * one_second"
definition RED_LIGHT_DURATION :: nat where "RED_LIGHT_DURATION = 5 * one_second"
definition SENSOR_ACQUIRE_DURATION :: nat where "SENSOR_ACQUIRE_DURATION = 1 * one_second"
definition SENSOR_RELEASE_DURATION :: nat where "SENSOR_RELEASE_DURATION = 1 * one_second"

type_synonym 'r light_prog = "(light_state, 'r, unit, async_runtime_error + unit) async_prog"

definition elapsed :: "(nat \<Rightarrow> 'r light_prog) \<Rightarrow> 'r light_prog" where
  "elapsed k = Act (\<lambda>s. s\<lparr>reads := reads s + 1\<rparr>) (\<lambda>s. k (clock s (reads s)))"

definition show_light :: "lamp \<Rightarrow> nat \<Rightarrow> 'r light_prog \<Rightarrow> 'r light_prog" where
  "show_light light secs k = Act (\<lambda>s. s\<lparr>shown := shown s @ [(light, secs)]\<rparr>) (\<lambda>_. k)"

definition await_reason :: "'r \<Rightarrow> 'r light_prog \<Rightarrow> 'r light_prog" where
  "await_reason reason k = Await (NpfStart reason) (\<lambda>r. case r of Inl e \<Rightarrow> Return (Inl e) | Inr _ \<Rightarrow> k)"

datatype key_event = NoKey | OtherEvent | KeyCtrlC | KeyY | KeyN

datatype light_end = StillRunning | EarlyExit | Exiting

section \<open>The light that ticks\<close>

datatype traffic_light_yield_reason = TimerTick | SensorAcquire | SensorRelease

fun light_reason_key :: "traffic_light_yield_reason \<Rightarrow> nat" where
  "light_reason_key TimerTick = 0"
| "light_reason_key SensorAcquire = 1"
| "light_reason_key SensorRelease = 2"

lemma light_reason_key_inject: "light_reason_key a = light_reason_key b \<longleftrightarrow> a = b"
  by (cases a; cases b) simp_all

instantiation traffic_light_yield_reason :: linorder
begin

definition less_eq_traffic_light_yield_reason :: "traffic_light_yield_reason \<Rightarrow> traffic_light_yield_reason \<Rightarrow> bool" where
  "less_eq_traffic_light_yield_reason a b \<longleftrightarrow> light_reason_key a \<le> light_reason_key b"

definition less_traffic_light_yield_reason :: "traffic_light_yield_reason \<Rightarrow> traffic_light_yield_reason \<Rightarrow> bool" where
  "less_traffic_light_yield_reason a b \<longleftrightarrow> light_reason_key a < light_reason_key b"

instance
  by standard
    (auto simp: less_eq_traffic_light_yield_reason_def less_traffic_light_yield_reason_def
      simp flip: light_reason_key_inject)

end

text \<open>The subtractions of durations panic below zero.\<close>

primrec sleep_loop :: "nat \<Rightarrow> lamp \<Rightarrow> nat \<Rightarrow> nat \<Rightarrow> traffic_light_yield_reason light_prog" where
  "sleep_loop 0 light duration start = Fuel"
| "sleep_loop (Suc n) light duration start =
     elapsed (\<lambda>now.
       if start + duration < now then Panic
       else show_light light ((start + duration - now) div one_second + 1)
         (await_reason TimerTick
           (elapsed (\<lambda>now.
              if now < start then Panic
              else if duration < now - start then Return (Inr ())
              else sleep_loop n light duration start))))"

definition sleep_and_print :: "nat \<Rightarrow> lamp \<Rightarrow> nat \<Rightarrow> traffic_light_yield_reason light_prog" where
  "sleep_and_print n light duration = elapsed (\<lambda>start. sleep_loop n light duration start)"

definition red_light :: "nat \<Rightarrow> traffic_light_yield_reason light_prog" where
  "red_light n =
     Try (Or (await_reason SensorAcquire
                (Try (sleep_and_print n LampR SENSOR_ACQUIRE_DURATION) (\<lambda>_. Return (Inr ()))))
             (sleep_and_print n LampR RED_LIGHT_DURATION))
       (\<lambda>_. Return (Inr ()))"

definition yellow_light :: "nat \<Rightarrow> traffic_light_yield_reason light_prog" where
  "yellow_light n = Try (sleep_and_print n LampY YELLOW_LIGHT_DURATION) (\<lambda>_. red_light n)"

definition green_light :: "nat \<Rightarrow> traffic_light_yield_reason light_prog" where
  "green_light n =
     Try (Or (await_reason SensorRelease
                (Try (sleep_and_print n LampG SENSOR_RELEASE_DURATION) (\<lambda>_. Return (Inr ()))))
             (sleep_and_print n LampG GREEN_LIGHT_DURATION))
       (\<lambda>_. yellow_light n)"

primrec run_loop :: "nat \<Rightarrow> nat \<Rightarrow> traffic_light_yield_reason light_prog" where
  "run_loop 0 n = Fuel"
| "run_loop (Suc rounds) n = Try (green_light n) (\<lambda>_. run_loop rounds n)"

text \<open>The loop of \<open>main\<close>, fed with what the terminal reports in each round.\<close>

definition tick_reason :: "key_event \<Rightarrow> traffic_light_yield_reason" where
  "tick_reason e = (case e of KeyY \<Rightarrow> SensorAcquire | KeyN \<Rightarrow> SensorRelease | _ \<Rightarrow> TimerTick)"

type_synonym ('r, 'w) light_ops = "(light_state, 'r, unit, async_runtime_error + unit, 'w) async_ops"

type_synonym 'r light_lib = "('r light_prog, light_state, async_runtime_error + unit, ('r, unit) runtime) futures_lite"

fun light_main ::
  "(traffic_light_yield_reason, 'w) light_ops \<Rightarrow> key_event list \<Rightarrow> traffic_light_yield_reason light_prog \<Rightarrow> light_state \<Rightarrow> 'w \<Rightarrow>
   prog_stop + (light_end \<times> traffic_light_yield_reason light_prog \<times> light_state \<times> 'w)" where
  "light_main ops [] future s w = Inr (StillRunning, future, s, w)"
| "light_main ops (e # es) future s w =
     res_bind (prog_step ops future s w) (\<lambda>(result, future, s, w).
       case result of
         Some _ \<Rightarrow> Inr (EarlyExit, future, s, w)
       | None \<Rightarrow>
           (if e = KeyCtrlC then Inr (Exiting, future, s, w)
            else res_bind (ok_or Panicked (op_unblock ops (tick_reason e) () w)) (light_main ops es future s)))"

section \<open>The light with timers\<close>

datatype timed_light_yield_reason = Timer nat | TimedSensorAcquire | TimedSensorRelease

fun timed_reason_key :: "timed_light_yield_reason \<Rightarrow> nat \<times> nat" where
  "timed_reason_key (Timer t) = (0, t)"
| "timed_reason_key TimedSensorAcquire = (1, 0)"
| "timed_reason_key TimedSensorRelease = (2, 0)"

lemma timed_reason_key_inject: "timed_reason_key a = timed_reason_key b \<longleftrightarrow> a = b"
  by (cases a; cases b) simp_all

instantiation timed_light_yield_reason :: linorder
begin

definition less_eq_timed_light_yield_reason :: "timed_light_yield_reason \<Rightarrow> timed_light_yield_reason \<Rightarrow> bool" where
  "less_eq_timed_light_yield_reason a b \<longleftrightarrow> fst (timed_reason_key a) < fst (timed_reason_key b) \<or>
     fst (timed_reason_key a) = fst (timed_reason_key b) \<and> snd (timed_reason_key a) \<le> snd (timed_reason_key b)"

definition less_timed_light_yield_reason :: "timed_light_yield_reason \<Rightarrow> timed_light_yield_reason \<Rightarrow> bool" where
  "less_timed_light_yield_reason a b \<longleftrightarrow> fst (timed_reason_key a) < fst (timed_reason_key b) \<or>
     fst (timed_reason_key a) = fst (timed_reason_key b) \<and> snd (timed_reason_key a) < snd (timed_reason_key b)"

instance
  by standard
    (auto simp: less_eq_timed_light_yield_reason_def less_timed_light_yield_reason_def
      simp flip: timed_reason_key_inject intro: prod_eqI)

end

definition timed_red_light :: "timed_light_yield_reason light_prog" where
  "timed_red_light =
     show_light LampR 0 (elapsed (\<lambda>now.
       let timer = RED_LIGHT_DURATION + now in
       Try (Or (await_reason TimedSensorAcquire
                  (elapsed (\<lambda>now. await_reason (Timer (SENSOR_ACQUIRE_DURATION + now)) (Return (Inr ())))))
               (await_reason (Timer timer) (Return (Inr ()))))
         (\<lambda>_. Return (Inr ()))))"

definition timed_yellow_light :: "timed_light_yield_reason light_prog" where
  "timed_yellow_light =
     show_light LampY 0 (elapsed (\<lambda>now.
       await_reason (Timer (YELLOW_LIGHT_DURATION + now)) timed_red_light))"

definition timed_green_light :: "timed_light_yield_reason light_prog" where
  "timed_green_light =
     show_light LampG 0 (elapsed (\<lambda>now.
       let timer = GREEN_LIGHT_DURATION + now in
       Try (Or (await_reason TimedSensorRelease
                  (elapsed (\<lambda>now. await_reason (Timer (SENSOR_RELEASE_DURATION + now)) (Return (Inr ())))))
               (await_reason (Timer timer) (Return (Inr ()))))
         (\<lambda>_. timed_yellow_light)))"

primrec timed_run_loop :: "nat \<Rightarrow> timed_light_yield_reason light_prog" where
  "timed_run_loop 0 = Fuel"
| "timed_run_loop (Suc rounds) = Try timed_green_light (\<lambda>_. timed_run_loop rounds)"

text \<open>The subloop: a timer that is due, else the keyboard.  The callback reads the clock for every timer it
  is shown.\<close>

definition hit_timer :: "(nat \<Rightarrow> nat) \<Rightarrow> nat \<Rightarrow> timed_light_yield_reason \<Rightarrow> bool \<times> nat" where
  "hit_timer clk i reason = (case reason of Timer timer \<Rightarrow> (timer \<le> clk i, i + 1) | _ \<Rightarrow> (False, i))"

fun timed_subloop ::
  "key_event list \<Rightarrow> light_state \<Rightarrow> (timed_light_yield_reason, unit) runtime \<Rightarrow>
   (timed_light_yield_reason option \<times> light_end \<times> key_event list \<times> light_state) option" where
  "timed_subloop es s rt =
     (case check_pending_reasons rt (hit_timer (clock s)) (reads s) of
        None \<Rightarrow> None
      | Some (Some reason, i) \<Rightarrow> Some (Some reason, StillRunning, es, s\<lparr>reads := i\<rparr>)
      | Some (None, i) \<Rightarrow>
          (case es of
             [] \<Rightarrow> Some (None, StillRunning, [], s\<lparr>reads := i\<rparr>)
           | KeyCtrlC # es \<Rightarrow> Some (None, Exiting, es, s\<lparr>reads := i\<rparr>)
           | KeyY # es \<Rightarrow> Some (Some TimedSensorAcquire, StillRunning, es, s\<lparr>reads := i\<rparr>)
           | KeyN # es \<Rightarrow> Some (Some TimedSensorRelease, StillRunning, es, s\<lparr>reads := i\<rparr>)
           | _ # es \<Rightarrow> timed_subloop es (s\<lparr>reads := i\<rparr>) rt))"

primrec timed_main ::
  "timed_light_yield_reason light_lib \<Rightarrow> nat \<Rightarrow> key_event list \<Rightarrow> timed_light_yield_reason light_prog \<Rightarrow> light_state \<Rightarrow> (timed_light_yield_reason, unit) runtime \<Rightarrow>
   prog_stop + (light_end \<times> timed_light_yield_reason light_prog \<times> light_state \<times> (timed_light_yield_reason, unit) runtime)" where
  "timed_main lib 0 es future s rt = Inl OutOfFuel"
| "timed_main lib (Suc k) es future s rt =
     res_bind (prog_step (runtime_ops lib) future s rt) (\<lambda>(result, future, s, rt).
       case result of
         Some _ \<Rightarrow> Inr (EarlyExit, future, s, rt)
       | None \<Rightarrow>
           (case timed_subloop es s rt of
              None \<Rightarrow> Inl Panicked
            | Some (None, e, _, s) \<Rightarrow> Inr (e, future, s, rt)
            | Some (Some reason, _, es, s) \<Rightarrow>
                res_bind (ok_or Panicked (unblock_futures reason () rt)) (\<lambda>rt. timed_main lib k es future s rt)))"

section \<open>How long a light is shown\<close>

lemma light_main_refines:
  assumes "async_refinement ops ops' R" and lib: "documented (op_lib ops)" "documented (op_lib ops')"
  shows "R w v \<Longrightarrow> rel_step R (light_main ops es f s w) (light_main ops' es f s v)"
proof (induction es arbitrary: f s w v)
  case (Cons e es)
  have u: "rel_step R (res_bind (ok_or Panicked (op_unblock ops r () w')) (light_main ops es f' s'))
      (res_bind (ok_or Panicked (op_unblock ops' r () v')) (light_main ops' es f' s'))"
    if "R w' v'" for r w' v' f' s'
    using async_refinement.unblock [OF assms(1) that, of r "()"] Cons.IH by (auto elim!: option.rel_cases)
  show ?case unfolding light_main.simps
    by (rule res_bind_rel [OF async_refinement.step_refines [OF assms Cons.prems]])
      (auto intro!: u split: option.split)
qed simp

definition tick_wait :: "nat \<Rightarrow> lamp \<Rightarrow> nat \<Rightarrow> nat \<Rightarrow> traffic_light_yield_reason light_prog" where
  "tick_wait n light duration start = Await (NpfWait TimerTick) (\<lambda>r. case r of Inl e \<Rightarrow> Return (Inl e)
     | Inr _ \<Rightarrow> elapsed (\<lambda>now.
              if now < start then Panic
              else if duration < now - start then Return (Inr ())
              else sleep_loop n light duration start))"

lemma poll_elapsed:
  "poll_prog (elapsed k) ops s w = poll_prog (k (clock s (reads s))) ops (s\<lparr>reads := reads s + 1\<rparr>) w"
  by (simp add: elapsed_def)

lemma poll_sleep_loop:
  assumes "clock s (reads s) \<le> start + d" "0 < n"
  shows "poll_prog (sleep_loop (Suc m) light d start) (spec_ops n) s (None, {#}) =
    Inr (Pending, tick_wait m light d start,
      s\<lparr>reads := reads s + 1, shown := shown s @ [(light, (start + d - clock s (reads s)) div one_second + 1)]\<rparr>,
      None, {#TimerTick#})"
  using assms by (simp add: poll_elapsed show_light_def await_reason_def tick_wait_def)

lemma poll_tick_wait:
  assumes "start \<le> clock s (reads s)"
  shows "poll_prog (tick_wait m light d start) (spec_ops n) s (Some (TimerTick, ()), {#TimerTick#}) =
    (if start + d < clock s (reads s) then Inr (Ready (Inr ()), Finished, s\<lparr>reads := reads s + 1\<rparr>, None, {#})
     else poll_prog (sleep_loop m light d start) (spec_ops n) (s\<lparr>reads := reads s + 1\<rparr>) (None, {#}))"
proof -
  have "d < clock s (reads s) - start \<longleftrightarrow> start + d < clock s (reads s)" using assms(1) by linarith
  then show ?thesis using assms by (simp add: tick_wait_def poll_elapsed)
qed

text \<open>The readings of a phase: the checks after a tick and the countdowns shown between them.\<close>

definition phase_readings :: "(nat \<Rightarrow> nat) \<Rightarrow> nat \<Rightarrow> nat \<Rightarrow> nat \<Rightarrow> nat \<Rightarrow> bool" where
  "phase_readings c i k start d \<longleftrightarrow>
     (\<forall>j < k. start \<le> c (i + 2 * j) \<and> c (i + 2 * j) \<le> start + d \<and> c (i + 2 * j + 1) \<le> start + d) \<and>
     start + d < c (i + 2 * k)"

lemma phase_readings_0 [simp]: "phase_readings c i 0 start d \<longleftrightarrow> start + d < c i"
  by (simp add: phase_readings_def)

lemma phase_readings_Suc:
  "phase_readings c i (Suc k) start d \<Longrightarrow>
   start \<le> c i \<and> c i \<le> start + d \<and> c (i + 1) \<le> start + d \<and> phase_readings c (i + 2) k start d"
proof -
  assume a: "phase_readings c i (Suc k) start d"
  have "start \<le> c (i + 2 + 2 * j) \<and> c (i + 2 + 2 * j) \<le> start + d \<and> c (i + 2 + 2 * j + 1) \<le> start + d" if "j < k" for j
    using a that unfolding phase_readings_def by (elim conjE allE [of _ "Suc j"]) simp
  then show ?thesis using a unfolding phase_readings_def by (auto dest: spec [of _ 0])
qed

lemma ticks_until_end:
  "phase_readings (clock s) (reads s) k start d \<Longrightarrow> k < m \<Longrightarrow> 0 < n \<Longrightarrow>
   \<exists>s'. light_main (spec_ops n) (replicate (Suc k) NoKey) (tick_wait m light d start) s
      (Some (TimerTick, ()), {#TimerTick#}) = Inr (EarlyExit, Finished, s', None, {#}) \<and>
     reads s' = reads s + 2 * k + 1 \<and> length (shown s') = length (shown s) + k"
proof (induction k arbitrary: s m)
  case 0
  then have "start \<le> clock s (reads s)" by simp
  from poll_tick_wait [OF this, of m light d n] 0 show ?case by (simp add: prog_step_def)
next
  case (Suc k)
  obtain m' where m: "m = Suc m'" "k < m'" using Suc.prems(2) by (cases m) auto
  note r = phase_readings_Suc [OF Suc.prems(1)]
  let ?s1 = "s\<lparr>reads := reads s + 1\<rparr>"
  obtain s2 where p: "poll_prog (sleep_loop (Suc m') light d start) (spec_ops n) ?s1 (None, {#}) =
      Inr (Pending, tick_wait m' light d start, s2, None, {#TimerTick#})"
    and s2: "clock s2 = clock s" "reads s2 = reads s + 2" "length (shown s2) = length (shown s) + 1"
    using poll_sleep_loop [of ?s1 start d n m' light] r Suc.prems(3) by auto
  have "prog_step (spec_ops n) (tick_wait m light d start) s (Some (TimerTick, ()), {#TimerTick#}) =
      Inr (None, tick_wait m' light d start, s2, None, {#TimerTick#})"
    using poll_tick_wait [of start s m light d n] p r by (simp add: prog_step_def m(1) del: sleep_loop.simps)
  then have "light_main (spec_ops n) (replicate (Suc (Suc k)) NoKey) (tick_wait m light d start) s (Some (TimerTick, ()), {#TimerTick#}) =
      light_main (spec_ops n) (replicate (Suc k) NoKey) (tick_wait m' light d start) s2 (Some (TimerTick, ()), {#TimerTick#})"
    by (simp add: tick_reason_def del: light_main.simps(2) replicate.simps add: light_main.simps(2) [of "spec_ops n" NoKey "replicate (Suc k) NoKey"] replicate_Suc [of "Suc k"])
  moreover have "phase_readings (clock s2) (reads s2) k start d" using r s2 by simp
  ultimately show ?case using Suc.IH [of s2 m'] m(2) Suc.prems(3) s2 by auto
qed



text \<open>A clock that passes the end of the phase between the check and the countdown makes the subtraction panic.\<close>

lemma countdown_panics:
  assumes "c 0 + d < c 1"
  shows "poll_prog (sleep_and_print (Suc m) light d) (runtime_ops lib) \<lparr>clock = c, reads = 0, shown = []\<rparr> rt = Inl Panicked"
  using assms by (simp add: sleep_and_print_def poll_elapsed)

end
