(* ===== verification/Spec2Isabelle.thy ===== *)
theory Spec2Isabelle
  imports Augment_Rounds Chroot_Properties Metadata_Properties Getdents_Properties Async_Runtime Fixed_Sized_Map
    Executor Config_Gz Cli_Properties Skip_Properties Perms_Config Json_Strings Http_Main Traffic_Light
begin

text \<open>
  Pocker runs the programs of a container image without root.  A tracer attaches to the program
  with \<open>ptrace\<close>, stops it at every system call of interest, rewrites the call's arguments, lets the
  kernel perform it or skips it, and rewrites its results: paths of the guest become paths below
  a directory of the host, ids and permissions are emulated, hard links are replaced by
  symbolic ones, directory listings and \<open>stat\<close> results are changed to match.

  \<^bold>\<open>Parts of the program and their theories.\<close>

  \<^item> \<open>src/ptrace\<close>: registers, words, checked arithmetic and wait statuses (\<open>Ptrace_Base\<close>); reading and
    writing C structures in the memory of a tracee (\<open>Ptrace_Structs\<close>); the two tables of memory
    helpers, one over \<open>PTRACE_PEEK\<close> and \<open>PTRACE_POKE\<close> and one over \<open>/proc/<pid>/mem\<close> and a pool of shared
    regions (\<open>Ptrace_Mem\<close>), and what both promise (\<open>Ptrace_Contracts\<close>).
  \<^item> \<open>src/krsm\<close>: the map in a sorted array (\<open>Fixed_Sized_Map\<close>); the single-threaded runtime with its
    pending futures, drop guards, yielder, strong and weak futures and tasks (\<open>Async_Runtime\<close>);
    asynchronous functions over the runtime (\<open>Async_Programs\<close>, with rules for polling them in
    \<open>Prog_Rules\<close> and \<open>Prog_Typing\<close>); the programs of \<open>src/krsm/examples\<close>: the JSON parser (\<open>Json_Parser\<close>), the HTTP
    client with its worker thread (\<open>Http_Client\<close>) and both traffic lights (\<open>Traffic_Light\<close>).
  \<^item> \<open>src/sysaug\<close>: types and configuration (\<open>Sysaug_Types\<close>); the table of system calls, its lookup and
    the seccomp filter (\<open>Syscalls\<close>); the state of a handler (\<open>Handler_State\<close>); paths of the guest and
    metadata files (\<open>Std_Path\<close> for \<open>std::path\<close>, \<open>Rootfs_Paths\<close>); waiting for stops, signals and clone
    events (\<open>Event_Loop\<close>); emulated ids (\<open>Aug_Perms\<close>); the parsed state of a call with paths
    (\<open>Augment_State\<close>) and its augments (\<open>Aug_Links\<close>, \<open>Aug_Stat\<close>, \<open>Getdents\<close>, \<open>Aug_Paths\<close>); \<open>execve\<close>
    (\<open>Aug_Exec\<close>); \<open>clone\<close>, \<open>wait4\<close>, \<open>seccomp\<close>, \<open>prctl\<close> (\<open>Aug_Calls\<close>); dispatch, the loop over system calls
    and the life of a handler (\<open>Handler_Loop\<close>).
  \<^item> \<open>src/executor\<close>: the server on the main thread and its clients, as a step relation over their
    channels, and the local client (\<open>Executor\<close>); attaching is modelled where the handler does it.
  \<^item> \<open>src/procfs\<close>: \<open>pids.rs\<close> with the paths of the guest, the kernel's configuration in \<open>Config_Gz\<close>.
  \<^item> \<open>src/main\<close>: starting a tracee with its shared memory and its handler's thread (\<open>Launch\<close>), and the
    programs \<open>pocker-runtime\<close> and \<open>pocker\<close> after argument parsing (\<open>Pocker_Cli\<close>).

  \<^bold>\<open>How code becomes definitions.\<close>  A fallible function with effects is an action: a function from
  the state to an error or a result, and the new state (\<open>Pocker_Prelude\<close>).  A machine integer is a
  word; arithmetic that the source checks returns an error on overflow.  A panic is the error
  \<open>SysaugPanic\<close> or the result \<open>None\<close> of an option.  A \<open>RefCell\<close> of the handler is a field of its record, a
  \<open>thread_local\<close> or a global of \<open>src/ptrace\<close> is a field of \<open>tracer\<close>.  The asynchronous loops of one
  tracee run on one thread and are polled in a fixed order, so waiting is a function that runs
  the event loop until the future it waits for is unblocked (\<open>await_status\<close>).  The functions of the examples
  keep several futures alive and are trees of awaits that \<open>run_async_step\<close> polls; \<open>or\<close> and \<open>zip\<close> of
  \<open>futures_lite\<close> are a parameter with the hypothesis \<open>documented\<close>.  The kernel, the
  host's file system and the crates \<open>regex\<close>, \<open>serde_json\<close>, \<open>uuid\<close> and \<open>elf\<close> are parameters (\<open>kernel\<close>,
  \<open>events\<close>, \<open>host\<close>), with what manual pages and documentation promise of them as named hypotheses:
  \<open>word_memory\<close>, \<open>full_reads\<close>, \<open>regs_stored\<close>, \<open>regs_kept\<close>, \<open>readable\<close>, \<open>writable\<close>, \<open>phase_kernel\<close>,
  \<open>calm_host\<close>, \<open>json_files\<close>; the registry client, the archive reader and the files of the command line are
  the records \<open>process\<close> and \<open>cli\<close>, with the hypothesis \<open>file_store\<close>; the HTTP agent, \<open>serde_json\<close>, the
  environment, the file and the iteration order of a \<open>HashSet\<close> in the example client are the record \<open>http_env\<close>, the clock of the traffic light is a
  function from readings to times.  Threads that interleave are a step
  relation, and a run is the list of its events.
  \<open>Model_Host\<close> is a concrete kernel and host that satisfy them.

  \<^bold>\<open>What is shown.\<close>  The handler and the kernel stay in step, for one wait (\<open>Syscall_Phases\<close>), for every
  augment and for the whole loop (\<open>Augment_Rounds\<close>, with \<open>Calm_Actions\<close> and \<open>Calm_Augments\<close>); a skipped call is
  never performed (\<open>Skip_Properties\<close>); no two tracees
  share a write region, and what is written to the scratch area stays intact (\<open>Ptrace_Contracts\<close>);
  the filter traps exactly the calls of the table (\<open>Syscalls\<close>); guest paths stay below the chroot
  and link cycles are refused (\<open>Chroot_Properties\<close>); the map refines a finite map and the runtime
  counts its live futures exactly (\<open>Fixed_Sized_Map\<close>, \<open>Async_Runtime\<close>); what a guest sets with \<open>chmod\<close>
  and \<open>chown\<close> is what its \<open>stat\<close> reports, and a \<open>stat\<close> buffer changes in the emulated fields only
  (\<open>Metadata_Properties\<close>, with \<open>Stat_Fields\<close> and \<open>Mem_Access\<close>); structures written to a tracee are read back, and
  a replaced directory listing holds exactly the entries that are shown (\<open>Struct_Roundtrip\<close>,
  \<open>Getdents_Properties\<close>); both clients execute a request once and return its result, a request that was
  sent is executed, and \<open>stop\<close> ends the server (\<open>Executor\<close>); the kernel's configuration is read and
  parsed without loss (\<open>Config_Gz\<close>); the download cache keeps images apart and avoids a second
  download, and the runtime exits with its tracee's code (\<open>Cli_Properties\<close>).  An asynchronous program leaves no
  reason behind in the runtime, which refines a multiset of reasons (\<open>Async_Programs\<close>); over that
  specification the parser reads back every printed string (\<open>Json_Properties\<close>, \<open>Json_Strings\<close>), the HTTP client
  answers every request in kind and its main loop never panics (\<open>Http_Properties\<close>, \<open>Http_Main\<close>), and a light is
  shown for its duration (\<open>Traffic_Light\<close>).  Some theorems state a
  behaviour that is a defect of the code, such as an unpacking that fails unnoticed or
  configured ids that are exchanged (\<open>Perms_Config\<close>).

  \<^bold>\<open>Fuel.\<close>  Reading structures takes one unit per byte or object, which always suffices
  (\<open>read_structs_loop_enough\<close>, \<open>read_objs_loop_enough\<close>).  A wait takes fuel for the events it handles and
  the loop over system calls for its rounds: both run as long as the tracee does, and running out
  is the separate outcome \<open>OutOfFuel\<close>.  Path resolution is bounded by the depth of the tracer's
  stack, and a finite number of link targets is enough.  A recursive or looping \<open>async fn\<close> takes one unit
  per call or round, a driver one per step, and running out is the outcome \<open>OutOfFuel\<close> of \<open>prog_stop\<close>; the
  theorems that such a program returns state how much is enough.

  \<^bold>\<open>Not modelled.\<close>  Logging; the wrappers of \<open>nix\<close> that only forward a request; the targets other than
  x86_64; the waker and pinning of futures; argument parsing by \<open>clap\<close> and the set-up of the logger;
  drawing on the terminal in the examples, whose texts are ASCII in the model; the tests.
\<close>

end
